(* ===== verification/Prelude.thy ===== *)
theory Prelude imports Main "HOL-Library.Word" begin

text \<open>
  Shared vocabulary of the development: the machine types of the Go source, time as integer
  nanoseconds, the result type of a fallible Go function, the named collections the component
  theories extend, and generic lemmas on lists, maps and words.

  A Go function that returns \<open>(T, error)\<close> is a function into \<open>'e + 'a\<close>: \<open>Inl\<close> is a non-nil
  error, \<open>Inr\<close> the value with a nil error.  Go strings and byte slices are sequences of bytes:
  \<open>string\<close> (a list of 8-bit characters) for a Go string, \<open>8 word list\<close> for a payload.
\<close>

section \<open>Types\<close>

type_synonym u32 = "32 word"
type_synonym u64 = "64 word"
type_synonym bytes = "8 word list"

text \<open>
  \<open>time.Time\<close> is the number of nanoseconds since the Unix epoch, \<open>time.Duration\<close> a signed 64-bit
  number of nanoseconds; both are integers here and the places where Go saturates or truncates
  are written out.
\<close>

type_synonym time = int
type_synonym duration = int

text \<open>
  A \<open>float64\<close> is kept as its bit pattern: the modelled code only copies such values.
\<close>

type_synonym float64 = "64 word"

section \<open>Collections\<close>

text \<open>
  \<open>op_defs\<close>: definitions of non-recursive operations that component proofs unfold together.
  \<open>inv_intros\<close>: preservation lemmas, one per operation, used to lift an invariant to runs.
  \<open>outcome_simps\<close>: what an operation returns on each branch.
\<close>

named_theorems op_defs
named_theorems inv_intros
named_theorems outcome_simps

section \<open>Time\<close>

definition millisecond :: duration where "millisecond = 1000000"
definition second :: duration where "second = 1000000000"

definition max_duration :: duration where "max_duration = 2 ^ 63 - 1"
definition min_duration :: duration where "min_duration = - (2 ^ 63)"

text \<open>\<open>Time.Sub\<close> saturates at the bounds of \<open>Duration\<close>.\<close>

definition time_sub :: "time \<Rightarrow> time \<Rightarrow> duration" where
  "time_sub t u = max min_duration (min max_duration (t - u))"

text \<open>\<open>Time.UnixMilli\<close> rounds towards minus infinity.\<close>

definition unix_milli :: "time \<Rightarrow> int" where
  "unix_milli t = t div 1000000"

text \<open>The source's idiom \<open>ts := t.UnixMilli(); if ts < 0 { ts = 0 }; uint64(ts)\<close>.\<close>

definition timestamp_ms :: "time \<Rightarrow> u64" where
  "timestamp_ms t = (let ts = unix_milli t in word_of_int (if ts < 0 then 0 else ts))"

lemma time_sub_mono: "t \<le> t' \<Longrightarrow> time_sub t u \<le> time_sub t' u"
  by (auto simp: time_sub_def)

lemma time_sub_bounds: "min_duration \<le> time_sub t u \<and> time_sub t u \<le> max_duration"
  by (auto simp: time_sub_def min_duration_def max_duration_def)

lemma time_sub_exact:
  "min_duration \<le> t - u \<Longrightarrow> t - u \<le> max_duration \<Longrightarrow> time_sub t u = t - u"
  by (simp add: time_sub_def)

section \<open>Results\<close>

definition bind_res :: "'e + 'a \<Rightarrow> ('a \<Rightarrow> 'e + 'b) \<Rightarrow> 'e + 'b" where
  "bind_res r f = (case r of Inl e \<Rightarrow> Inl e | Inr a \<Rightarrow> f a)"

lemma bind_res_simps [simp]:
  "bind_res (Inl e) f = Inl e"
  "bind_res (Inr a) f = f a"
  by (simp_all add: bind_res_def)

lemma bind_res_eq_Inr: "bind_res r f = Inr b \<longleftrightarrow> (\<exists>a. r = Inr a \<and> f a = Inr b)"
  by (cases r) auto

section \<open>Lists, maps and words\<close>

text \<open>
  Go iterates a map in an unspecified order.  An iteration order of the map \<open>m\<close> is a list of its
  keys without repetition; operations that iterate take it as an argument.
\<close>

definition is_order :: "('k \<rightharpoonup> 'v) \<Rightarrow> 'k list \<Rightarrow> bool" where
  "is_order m ks \<longleftrightarrow> distinct ks \<and> set ks = dom m"

lemma is_order_finite: "is_order m ks \<Longrightarrow> finite (dom m)"
  by (metis is_order_def List.finite_set)

lemma is_order_length: "is_order m ks \<Longrightarrow> length ks = card (dom m)"
  by (auto simp: is_order_def dest: distinct_card)

lemma is_order_exists: "finite (dom m) \<Longrightarrow> \<exists>ks. is_order m ks"
  using finite_distinct_list [of "dom m"] by (auto simp: is_order_def)

lemma is_orderD:
  "is_order m ks \<Longrightarrow> k \<in> set ks \<longleftrightarrow> m k \<noteq> None"
  by (auto simp: is_order_def)

lemma map_filter_set: "set (List.map_filter f xs) = {y. \<exists>x \<in> set xs. f x = Some y}"
  by (induction xs) (auto simp: List.map_filter_simps split: option.splits)

lemma map_filter_cong:
  "(\<And>x. x \<in> set xs \<Longrightarrow> f x = g x) \<Longrightarrow> List.map_filter f xs = List.map_filter g xs"
  by (induction xs) (auto simp: List.map_filter_simps split: option.splits)

lemma card_dom_upd:
  "finite (dom m) \<Longrightarrow> m k = None \<Longrightarrow> card (dom (m(k \<mapsto> v))) = Suc (card (dom m))"
  by (simp add: card_insert_if domIff)

lemma card_dom_del:
  "finite (dom m) \<Longrightarrow> m k \<noteq> None \<Longrightarrow> card (dom (m(k := None))) = card (dom m) - 1"
  by (simp add: card_Diff_singleton domIff)

lemma finite_dom_upd [simp]: "finite (dom (m(k \<mapsto> v))) \<longleftrightarrow> finite (dom m)"
  by simp

lemma finite_dom_del [simp]: "finite (dom m) \<Longrightarrow> finite (dom (m(k := None)))"
  by simp

text \<open>Two sorted enumerations of one set, with distinct keys, are the same list.\<close>

lemma sorted_key_unique:
  assumes "set xs = set ys" "distinct (map f xs)" "distinct (map f ys)"
  shows "sort_key f xs = sort_key f ys"
proof -
  have "map f (sort_key f xs) = map f (sort_key f ys)"
  proof (rule sorted_distinct_set_unique)
    show "set (map f (sort_key f xs)) = set (map f (sort_key f ys))"
      using assms(1) by simp
    show "distinct (map f (sort_key f xs))"
      using assms(2) by (metis distinct_map distinct_sort set_sort)
    show "distinct (map f (sort_key f ys))"
      using assms(3) by (metis distinct_map distinct_sort set_sort)
  qed simp_all
  moreover have "inj_on f (set (sort_key f xs) \<union> set (sort_key f ys))"
    using assms by (simp add: distinct_map)
  ultimately show ?thesis by (metis map_inj_on)
qed

end
