(* ===== verification/Proto.thy ===== *)
theory Proto imports Prelude begin

text \<open>
  The protobuf messages exchanged over UDP (\<open>proto/*.proto\<close>) as the generated Go structs hold
  them.  proto3 enums are open: a field read from the wire may hold a number without a name.
  The oneof \<open>body\<close> of an envelope is an option; a getter returns \<open>None\<close> (a nil pointer) when the
  oneof holds another message.
\<close>

section \<open>Enumerations\<close>

datatype message_type =
    MESSAGE_TYPE_UNKNOWN
  | MESSAGE_TYPE_REGISTER_REQUEST
  | MESSAGE_TYPE_REGISTER_RESPONSE
  | MESSAGE_TYPE_HEARTBEAT_REQUEST
  | MESSAGE_TYPE_HEARTBEAT_RESPONSE
  | MESSAGE_TYPE_DATA_REQUEST
  | MESSAGE_TYPE_DATA_RESPONSE
  | MESSAGE_TYPE_ERROR
  | MESSAGE_TYPE_OTHER int

datatype node_type =
    NODE_TYPE_UNKNOWN
  | NODE_TYPE_HTTP2GW
  | NODE_TYPE_LOGIC
  | NODE_TYPE_OTHER int

datatype error_code =
    ERROR_CODE_UNKNOWN
  | ERROR_CODE_TIMEOUT
  | ERROR_CODE_NODE_NOT_AVAILABLE
  | ERROR_CODE_INVALID_MESSAGE
  | ERROR_CODE_OVERLOAD
  | ERROR_CODE_UDP_SEND_FAILED
  | ERROR_CODE_LOGIC_TIMEOUT
  | ERROR_CODE_HEARTBEAT_TIMEOUT
  | ERROR_CODE_NO_ROUTING_TARGET
  | ERROR_CODE_OTHER int

section \<open>Messages\<close>

record service_capability =
  sc_service_id :: u32
  sc_service_name :: string
  sc_message_types :: "u32 list"

text \<open>An element of the repeated field may be a nil pointer in Go, which the code checks.\<close>

record register_request =
  rr_node_id :: u32
  rr_node_type :: node_type
  rr_instance_id :: string
  rr_ip :: string
  rr_port :: u32
  rr_services :: "service_capability option list"

record register_response =
  rp_accepted :: bool
  rp_assigned_node_id :: u32
  rp_message :: string

record heartbeat_request =
  hb_node_id :: u32
  hb_sequence :: u64
  hb_timestamp_ms :: u64
  hb_load :: u32
  hb_active_transaction :: u32

record heartbeat_response =
  hp_sequence :: u64
  hp_timestamp_ms :: u64

record data_request =
  dr_message_id :: u32
  dr_session_id :: string
  dr_payload :: bytes

record data_response =
  dp_message_id :: u32
  dp_status :: u32
  dp_payload :: bytes

record error_message =
  em_code :: error_code
  em_message :: string

datatype body =
    RegisterRequest register_request
  | RegisterResponse register_response
  | HeartbeatRequest heartbeat_request
  | HeartbeatResponse heartbeat_response
  | DataRequest data_request
  | DataResponse data_response
  | ErrorBody error_message

record envelope =
  env_version :: u32
  env_type :: message_type
  env_source_node_id :: u32
  env_destination_node_id :: u32
  env_transaction_id :: u64
  env_timestamp_ms :: u64
  env_trace_id :: string
  env_body :: "body option"

section \<open>Getters of the oneof\<close>

fun GetRegisterRequest :: "envelope \<Rightarrow> register_request option" where
  "GetRegisterRequest e = (case env_body e of Some (RegisterRequest r) \<Rightarrow> Some r | _ \<Rightarrow> None)"

fun GetRegisterResponse :: "envelope \<Rightarrow> register_response option" where
  "GetRegisterResponse e = (case env_body e of Some (RegisterResponse r) \<Rightarrow> Some r | _ \<Rightarrow> None)"

fun GetHeartbeatRequest :: "envelope \<Rightarrow> heartbeat_request option" where
  "GetHeartbeatRequest e = (case env_body e of Some (HeartbeatRequest r) \<Rightarrow> Some r | _ \<Rightarrow> None)"

fun GetHeartbeatResponse :: "envelope \<Rightarrow> heartbeat_response option" where
  "GetHeartbeatResponse e = (case env_body e of Some (HeartbeatResponse r) \<Rightarrow> Some r | _ \<Rightarrow> None)"

fun GetDataRequest :: "envelope \<Rightarrow> data_request option" where
  "GetDataRequest e = (case env_body e of Some (DataRequest r) \<Rightarrow> Some r | _ \<Rightarrow> None)"

fun GetDataResponse :: "envelope \<Rightarrow> data_response option" where
  "GetDataResponse e = (case env_body e of Some (DataResponse r) \<Rightarrow> Some r | _ \<Rightarrow> None)"

fun GetError :: "envelope \<Rightarrow> error_message option" where
  "GetError e = (case env_body e of Some (ErrorBody r) \<Rightarrow> Some r | _ \<Rightarrow> None)"

section \<open>Envelope builders (\<open>internal/protocol/envelope.go\<close>)\<close>

definition EnvelopeVersion :: u32 where "EnvelopeVersion = 1"

text \<open>
  \<open>Reply\<close> stamps the envelope with the current time \<open>now\<close>, swaps source and destination and
  keeps version (unless 0), transaction id and trace id of the incoming envelope.
\<close>

definition Reply :: "time \<Rightarrow> u32 \<Rightarrow> envelope option \<Rightarrow> message_type \<Rightarrow> envelope" where
  "Reply now nodeID inn typ =
     (let out = \<lparr>env_version = EnvelopeVersion, env_type = typ, env_source_node_id = nodeID,
                 env_destination_node_id = 0, env_transaction_id = 0,
                 env_timestamp_ms = timestamp_ms now, env_trace_id = [], env_body = None\<rparr>
      in case inn of
           None \<Rightarrow> out
         | Some i \<Rightarrow>
             out\<lparr>env_version := (if env_version i \<noteq> 0 then env_version i else env_version out),
                 env_destination_node_id := env_source_node_id i,
                 env_transaction_id := env_transaction_id i,
                 env_trace_id := env_trace_id i\<rparr>)"

definition ErrorEnvelope ::
  "time \<Rightarrow> u32 \<Rightarrow> envelope option \<Rightarrow> error_code \<Rightarrow> string \<Rightarrow> envelope" where
  "ErrorEnvelope now nodeID inn code message =
     (Reply now nodeID inn MESSAGE_TYPE_ERROR)
       \<lparr>env_body := Some (ErrorBody \<lparr>em_code = code, em_message = message\<rparr>)\<rparr>"

definition DataResponseEnvelope ::
  "time \<Rightarrow> u32 \<Rightarrow> envelope option \<Rightarrow> u32 \<Rightarrow> u32 \<Rightarrow> bytes \<Rightarrow> envelope" where
  "DataResponseEnvelope now nodeID inn messageID status payload =
     (Reply now nodeID inn MESSAGE_TYPE_DATA_RESPONSE)
       \<lparr>env_body := Some (DataResponse
          \<lparr>dp_message_id = messageID, dp_status = status, dp_payload = payload\<rparr>)\<rparr>"

lemma Reply_correlates [simp]:
  "env_transaction_id (Reply now n (Some i) t) = env_transaction_id i"
  "env_trace_id (Reply now n (Some i) t) = env_trace_id i"
  "env_destination_node_id (Reply now n (Some i) t) = env_source_node_id i"
  "env_source_node_id (Reply now n inn t) = n"
  "env_type (Reply now n inn t) = t"
  by (simp_all add: Reply_def Let_def split: option.split)

lemma Reply_version: "env_version (Reply now n inn t) \<noteq> 0"
  by (simp add: Reply_def Let_def EnvelopeVersion_def split: option.split)

lemma ErrorEnvelope_fields [simp]:
  "env_transaction_id (ErrorEnvelope now n (Some i) c m) = env_transaction_id i"
  "env_type (ErrorEnvelope now n inn c m) = MESSAGE_TYPE_ERROR"
  "env_body (ErrorEnvelope now n inn c m) = Some (ErrorBody \<lparr>em_code = c, em_message = m\<rparr>)"
  by (simp_all add: ErrorEnvelope_def)

lemma DataResponseEnvelope_fields [simp]:
  "env_transaction_id (DataResponseEnvelope now n (Some i) m s p) = env_transaction_id i"
  "env_type (DataResponseEnvelope now n inn m s p) = MESSAGE_TYPE_DATA_RESPONSE"
  by (simp_all add: DataResponseEnvelope_def)

end
