(* ===== verification/GoLib.thy ===== *)
theory GoLib imports Prelude begin

text \<open>
  The parts of the Go standard library the source relies on, over bytes: decimal formatting and
  parsing (\<open>strconv\<close>), \<open>strings.TrimSpace\<close>, \<open>utf8.ValidString\<close>, \<open>sort.Search\<close>, FNV-1a
  (\<open>hash/fnv\<close>) and \<open>net.ParseIP\<close>.  The lemmas are the facts the components use: decimal
  formatting is injective and is inverted by parsing, trimming is idempotent, the binary search
  finds the first index of a monotone predicate.
\<close>

section \<open>Decimal numbers\<close>

definition digit :: "nat \<Rightarrow> char" where
  "digit d = char_of (48 + d)"

fun fmt_nat :: "nat \<Rightarrow> string" where
  "fmt_nat n = (if n < 10 then [digit n] else fmt_nat (n div 10) @ [digit (n mod 10)])"

declare fmt_nat.simps [simp del]

text \<open>\<open>strconv.FormatUint(v, 10)\<close>.\<close>

definition FormatUint :: "'a::len word \<Rightarrow> string" where
  "FormatUint w = fmt_nat (unat w)"

definition is_digit :: "char \<Rightarrow> bool" where
  "is_digit c \<longleftrightarrow> 48 \<le> (of_char c :: nat) \<and> (of_char c :: nat) \<le> 57"

definition digit_val :: "char \<Rightarrow> nat" where
  "digit_val c = of_char c - 48"

text \<open>
  \<open>strconv.ParseUint(s, 10, bits)\<close>: a nonempty run of decimal digits whose value fits; no sign,
  no underscore.  Any error is \<open>None\<close>.
\<close>

fun digits_val :: "nat \<Rightarrow> string \<Rightarrow> nat option" where
  "digits_val acc [] = Some acc"
| "digits_val acc (c # s) = (if is_digit c then digits_val (10 * acc + digit_val c) s else None)"

definition ParseUint :: "nat \<Rightarrow> string \<Rightarrow> nat option" where
  "ParseUint bits s =
     (if s = [] then None
      else case digits_val 0 s of
        None \<Rightarrow> None
      | Some n \<Rightarrow> if n < 2 ^ bits then Some n else None)"

lemma of_char_digit: "d < 10 \<Longrightarrow> (of_char (digit d) :: nat) = 48 + d"
  by (simp add: digit_def)

lemma digit_facts: "d < 10 \<Longrightarrow> is_digit (digit d) \<and> digit_val (digit d) = d"
  by (simp add: is_digit_def digit_val_def of_char_digit)

lemma digits_val_append:
  "digits_val acc (xs @ ys) = (case digits_val acc xs of None \<Rightarrow> None | Some a \<Rightarrow> digits_val a ys)"
  by (induction xs arbitrary: acc) auto

lemma digits_val_fmt_nat: "digits_val 0 (fmt_nat n) = Some n"
proof (induction n rule: fmt_nat.induct)
  case (1 n)
  then show ?case
    by (cases "n < 10") (simp_all add: fmt_nat.simps [of n] digit_facts digits_val_append)
qed

lemma fmt_nat_nonempty [simp]: "fmt_nat n \<noteq> []"
  by (subst fmt_nat.simps) simp

lemma fmt_nat_digits: "c \<in> set (fmt_nat n) \<Longrightarrow> is_digit c"
proof (induction n rule: fmt_nat.induct)
  case (1 n)
  then show ?case
    by (cases "n < 10") (auto simp: fmt_nat.simps [of n] digit_facts)
qed

lemma fmt_nat_inject [simp]: "fmt_nat m = fmt_nat n \<longleftrightarrow> m = n"
  by (metis digits_val_fmt_nat option.inject)

lemma FormatUint_inject [simp]:
  fixes v w :: "'a::len word" shows "FormatUint v = FormatUint w \<longleftrightarrow> v = w"
  by (simp add: FormatUint_def word_unat_eq_iff)

lemma FormatUint_nonempty [simp]: "FormatUint w \<noteq> []"
  by (simp add: FormatUint_def)

lemma ParseUint_fmt_nat: "ParseUint bits (fmt_nat n) = (if n < 2 ^ bits then Some n else None)"
  by (simp add: ParseUint_def digits_val_fmt_nat)

lemma ParseUint_FormatUint:
  fixes w :: "'a::len word"
  assumes "LENGTH('a) \<le> bits"
  shows "ParseUint bits (FormatUint w) = Some (unat w)"
proof -
  have "unat w < 2 ^ LENGTH('a)" by (rule unsigned_less)
  also have "\<dots> \<le> 2 ^ bits" using assms by (rule power_increasing) simp
  finally show ?thesis by (simp add: FormatUint_def ParseUint_fmt_nat)
qed

lemma ParseUint_bound: "ParseUint bits s = Some n \<Longrightarrow> n < 2 ^ bits"
  by (auto simp: ParseUint_def split: if_splits option.splits)

text \<open>\<open>strconv.Itoa\<close>.\<close>

definition Itoa :: "int \<Rightarrow> string" where
  "Itoa i = (if i < 0 then CHR ''-'' # fmt_nat (nat (- i)) else fmt_nat (nat i))"

lemma Itoa_inject [simp]: "Itoa i = Itoa j \<longleftrightarrow> i = j"
proof -
  have minus: "CHR ''-'' # s \<noteq> fmt_nat n" for s n
  proof
    assume "CHR ''-'' # s = fmt_nat n"
    then have "CHR ''-'' \<in> set (fmt_nat n)" by (metis list.set_intros(1))
    from fmt_nat_digits [OF this] show False by (simp add: is_digit_def)
  qed
  show ?thesis by (auto simp: Itoa_def minus minus [symmetric] dest: sym)
qed

section \<open>Trimming\<close>

text \<open>
  \<open>strings.TrimSpace\<close> removes leading and trailing Unicode white space.  Over bytes, a leading
  (trailing) space is one of the six ASCII spaces or the UTF-8 encoding of a non-ASCII space:
  U+0085, U+00A0, U+1680, U+2000 to U+200A, U+2028, U+2029, U+202F, U+205F, U+3000.
\<close>

definition byte :: "char \<Rightarrow> nat" where
  "byte c = of_char c"

definition ascii_space :: "char \<Rightarrow> bool" where
  "ascii_space c \<longleftrightarrow> byte c \<in> {9, 10, 11, 12, 13, 32}"

definition space2 :: "char \<Rightarrow> char \<Rightarrow> bool" where
  "space2 a b \<longleftrightarrow> byte a = 194 \<and> (byte b = 133 \<or> byte b = 160)"

definition space3 :: "char \<Rightarrow> char \<Rightarrow> char \<Rightarrow> bool" where
  "space3 a b c \<longleftrightarrow>
     byte a = 225 \<and> byte b = 154 \<and> byte c = 128 \<or>
     byte a = 226 \<and> byte b = 128 \<and>
       (128 \<le> byte c \<and> byte c \<le> 138 \<or> byte c = 168 \<or> byte c = 169 \<or> byte c = 175) \<or>
     byte a = 226 \<and> byte b = 129 \<and> byte c = 159 \<or>
     byte a = 227 \<and> byte b = 128 \<and> byte c = 128"

text \<open>The number of bytes of the leading space, 0 when there is none.\<close>

fun lead_space :: "string \<Rightarrow> nat" where
  "lead_space (a # b # c # s) =
     (if ascii_space a then 1 else if space2 a b then 2 else if space3 a b c then 3 else 0)"
| "lead_space [a, b] = (if ascii_space a then 1 else if space2 a b then 2 else 0)"
| "lead_space [a] = (if ascii_space a then 1 else 0)"
| "lead_space [] = 0"

fun trail_space :: "string \<Rightarrow> nat" \<comment> \<open>on the reversed string\<close> where
  "trail_space (c # b # a # s) =
     (if ascii_space c then 1 else if space2 b c then 2 else if space3 a b c then 3 else 0)"
| "trail_space [b, a] = (if ascii_space b then 1 else if space2 a b then 2 else 0)"
| "trail_space [a] = (if ascii_space a then 1 else 0)"
| "trail_space [] = 0"

lemma lead_space_le: "lead_space s \<le> length s"
  by (cases s rule: lead_space.cases) auto

lemma trail_space_le: "trail_space s \<le> length s"
  by (cases s rule: trail_space.cases) auto

function trim_left :: "string \<Rightarrow> string" where
  "trim_left s = (if lead_space s = 0 then s else trim_left (drop (lead_space s) s))"
  by pat_completeness auto
termination
  by (relation "measure length") (auto simp: less_diff_conv2 lead_space_le intro: gr0I)

function trim_rev :: "string \<Rightarrow> string" where
  "trim_rev s = (if trail_space s = 0 then s else trim_rev (drop (trail_space s) s))"
  by pat_completeness auto
termination
  by (relation "measure length") (auto simp: less_diff_conv2 trail_space_le intro: gr0I)

declare trim_left.simps [simp del] trim_rev.simps [simp del]

definition TrimSpace :: "string \<Rightarrow> string" where
  "TrimSpace s = rev (trim_rev (rev (trim_left s)))"

lemma trim_left_Nil [simp]: "trim_left [] = []"
  by (simp add: trim_left.simps)

lemma trim_rev_Nil [simp]: "trim_rev [] = []"
  by (simp add: trim_rev.simps)

lemma TrimSpace_Nil [simp]: "TrimSpace [] = []"
  by (simp add: TrimSpace_def)

lemma lead_space_trim_left: "lead_space (trim_left s) = 0"
proof (induction s rule: trim_left.induct)
  case (1 s)
  then show ?case by (cases "lead_space s = 0") (simp_all add: trim_left.simps [of s])
qed

lemma trail_space_trim_rev: "trail_space (trim_rev s) = 0"
proof (induction s rule: trim_rev.induct)
  case (1 s)
  then show ?case by (cases "trail_space s = 0") (simp_all add: trim_rev.simps [of s])
qed

lemma trim_left_id: "lead_space s = 0 \<Longrightarrow> trim_left s = s"
  by (simp add: trim_left.simps)

lemma trim_rev_id: "trail_space s = 0 \<Longrightarrow> trim_rev s = s"
  by (simp add: trim_rev.simps)

lemma trim_rev_suffix: "\<exists>p. s = p @ trim_rev s"
proof (induction s rule: trim_rev.induct)
  case (1 s)
  show ?case
  proof (cases "trail_space s = 0")
    case True
    then show ?thesis by (simp add: trim_rev.simps [of s])
  next
    case False
    with 1 obtain p where "drop (trail_space s) s = p @ trim_rev (drop (trail_space s) s)"
      by auto
    then have "s = (take (trail_space s) s @ p) @ trim_rev (drop (trail_space s) s)"
      by (metis append.assoc append_take_drop_id)
    with False show ?thesis by (metis trim_rev.simps [of s])
  qed
qed

lemma lead_space_prefix: "lead_space (p @ q) = 0 \<Longrightarrow> lead_space p = 0"
  by (cases p rule: lead_space.cases; cases q rule: lead_space.cases)
     (auto split: if_splits)

lemma TrimSpace_trimmed:
  "lead_space (TrimSpace s) = 0 \<and> trail_space (rev (TrimSpace s)) = 0"
proof -
  obtain p where "rev (trim_left s) = p @ trim_rev (rev (trim_left s))"
    using trim_rev_suffix by blast
  then have "trim_left s = TrimSpace s @ rev p"
    unfolding TrimSpace_def by (metis rev_append rev_rev_ident)
  then have "lead_space (TrimSpace s) = 0"
    by (metis lead_space_prefix lead_space_trim_left)
  then show ?thesis
    by (simp add: TrimSpace_def trail_space_trim_rev)
qed

lemma TrimSpace_idem [simp]: "TrimSpace (TrimSpace s) = TrimSpace s"
  using TrimSpace_trimmed [of s]
  by (simp add: TrimSpace_def [of "TrimSpace s"] trim_left_id trim_rev_id)

section \<open>UTF-8 validity\<close>

text \<open>
  \<open>utf8.ValidString\<close>: the table of well-formed byte sequences of the Unicode standard, which
  excludes overlong forms, surrogates and values above U+10FFFF.
\<close>

definition cont :: "char \<Rightarrow> bool" where
  "cont c \<longleftrightarrow> 128 \<le> byte c \<and> byte c \<le> 191"

definition lead2 :: "char \<Rightarrow> bool" where
  "lead2 a \<longleftrightarrow> 194 \<le> byte a \<and> byte a \<le> 223"

definition lead3 :: "char \<Rightarrow> char \<Rightarrow> bool" where
  "lead3 a b \<longleftrightarrow>
     byte a = 224 \<and> 160 \<le> byte b \<and> byte b \<le> 191 \<or>
     byte a = 237 \<and> 128 \<le> byte b \<and> byte b \<le> 159 \<or>
     (225 \<le> byte a \<and> byte a \<le> 236 \<or> byte a = 238 \<or> byte a = 239) \<and> cont b"

definition lead4 :: "char \<Rightarrow> char \<Rightarrow> bool" where
  "lead4 a b \<longleftrightarrow>
     byte a = 240 \<and> 144 \<le> byte b \<and> byte b \<le> 191 \<or>
     byte a = 244 \<and> 128 \<le> byte b \<and> byte b \<le> 143 \<or>
     241 \<le> byte a \<and> byte a \<le> 243 \<and> cont b"

fun ValidString :: "string \<Rightarrow> bool" where
  "ValidString [] = True"
| "ValidString [a] = (byte a < 128)"
| "ValidString [a, b] = (if byte a < 128 then ValidString [b] else lead2 a \<and> cont b)"
| "ValidString [a, b, c] =
     (if byte a < 128 then ValidString [b, c]
      else if lead2 a \<and> cont b then ValidString [c]
      else lead3 a b \<and> cont c)"
| "ValidString (a # b # c # d # s) =
     (if byte a < 128 then ValidString (b # c # d # s)
      else if lead2 a \<and> cont b then ValidString (c # d # s)
      else if lead3 a b \<and> cont c then ValidString (d # s)
      else lead4 a b \<and> cont c \<and> cont d \<and> ValidString s)"

lemma ValidString_ascii: "\<forall>c \<in> set s. byte c < 128 \<Longrightarrow> ValidString s"
  by (induction s rule: ValidString.induct) simp_all

section \<open>Binary search\<close>

text \<open>\<open>sort.Search(n, f)\<close>: the loop keeps \<open>f(i-1) = false\<close> and \<open>f(j) = true\<close>.\<close>

function search_loop :: "(nat \<Rightarrow> bool) \<Rightarrow> nat \<Rightarrow> nat \<Rightarrow> nat" where
  "search_loop f i j =
     (if i < j
      then let h = (i + j) div 2 in
           if \<not> f h then search_loop f (h + 1) j else search_loop f i h
      else i)"
  by pat_completeness auto
termination
  by (relation "measure (\<lambda>(f, i, j). j - i)") auto

declare search_loop.simps [simp del]

definition sort_Search :: "nat \<Rightarrow> (nat \<Rightarrow> bool) \<Rightarrow> nat" where
  "sort_Search n f = search_loop f 0 n"

lemma search_loop_first:
  assumes "\<And>a b. a \<le> b \<Longrightarrow> b < n \<Longrightarrow> f a \<Longrightarrow> f b"
    and "i \<le> j" "j \<le> n" "\<forall>k < i. \<not> f k" "j < n \<longrightarrow> f j"
  shows "i \<le> search_loop f i j \<and> search_loop f i j \<le> j \<and>
         (\<forall>k < search_loop f i j. \<not> f k) \<and>
         (search_loop f i j < n \<longrightarrow> f (search_loop f i j))"
  using assms
proof (induction f i j rule: search_loop.induct)
  case (1 f i j)
  show ?case
  proof (cases "i < j")
    case False
    then have "j = i" using "1.prems"(2) by simp
    moreover have "search_loop f i j = i" using False by (simp add: search_loop.simps [of f i j])
    ultimately show ?thesis using "1.prems"(4,5) by simp
  next
    case True
    define h where "h = (i + j) div 2"
    have h: "i \<le> h" "h < j" "h < n" using True "1.prems"(3) by (auto simp: h_def)
    show ?thesis
    proof (cases "f h")
      case fh: True
      have "search_loop f i j = search_loop f i h"
        using True fh by (simp add: search_loop.simps [of f i j] h_def Let_def)
      moreover have "i \<le> search_loop f i h \<and> search_loop f i h \<le> h \<and>
          (\<forall>k < search_loop f i h. \<not> f k) \<and> (search_loop f i h < n \<longrightarrow> f (search_loop f i h))"
        by (rule "1.IH"(2) [OF True h_def _ "1.prems"(1)]) (use fh "1.prems"(4) h in simp_all)
      ultimately show ?thesis using h by auto
    next
      case nfh: False
      have low: "\<forall>k < h + 1. \<not> f k"
        using nfh "1.prems"(1) h by (metis less_Suc_eq_le Suc_eq_plus1)
      have "h + 1 \<le> search_loop f (h + 1) j \<and> search_loop f (h + 1) j \<le> j \<and>
          (\<forall>k < search_loop f (h + 1) j. \<not> f k) \<and>
          (search_loop f (h + 1) j < n \<longrightarrow> f (search_loop f (h + 1) j))"
        by (rule "1.IH"(1) [OF True h_def nfh "1.prems"(1)]) (use "1.prems"(3,5) h low in simp_all)
      moreover have "search_loop f i j = search_loop f (h + 1) j"
        using True nfh by (simp add: search_loop.simps [of f i j] h_def Let_def)
      ultimately show ?thesis using h by auto
    qed
  qed
qed

lemma sort_Search_first:
  assumes "\<And>a b. a \<le> b \<Longrightarrow> b < n \<Longrightarrow> f a \<Longrightarrow> f b"
  shows "sort_Search n f \<le> n" "k < sort_Search n f \<Longrightarrow> \<not> f k"
    "sort_Search n f < n \<Longrightarrow> f (sort_Search n f)"
  using search_loop_first [of n f 0 n] assms by (auto simp: sort_Search_def)

section \<open>FNV-1a, 64 bit\<close>

definition fnv_offset :: u64 where "fnv_offset = 14695981039346656037"
definition fnv_prime :: u64 where "fnv_prime = 1099511628211"

definition fnv_step :: "u64 \<Rightarrow> 8 word \<Rightarrow> u64" where
  "fnv_step h b = (xor h (ucast b)) * fnv_prime"

definition fnv1a :: "bytes \<Rightarrow> u64" where
  "fnv1a bs = foldl fnv_step fnv_offset bs"

definition string_bytes :: "string \<Rightarrow> bytes" where
  "string_bytes s = map of_char s"

section \<open>Case, prefixes and parts\<close>

text \<open>
  \<open>strings.ToLower\<close> and \<open>strings.ToUpper\<close> as far as they produce ASCII letters: the ASCII letters
  and the four other letters whose lower or upper case is ASCII (U+0130, U+212A; U+0131, U+017F).
  The source only compares the result with ASCII strings.
\<close>

definition lower_byte :: "char \<Rightarrow> char" where
  "lower_byte c = (if 65 \<le> byte c \<and> byte c \<le> 90 then char_of (byte c + 32) else c)"

definition upper_byte :: "char \<Rightarrow> char" where
  "upper_byte c = (if 97 \<le> byte c \<and> byte c \<le> 122 then char_of (byte c - 32) else c)"

fun to_lower :: "string \<Rightarrow> string" where
  "to_lower (c # d # e # s) =
     (if byte c = 226 \<and> byte d = 132 \<and> byte e = 170 then CHR ''k'' # to_lower s
      else if byte c = 196 \<and> byte d = 176 then CHR ''i'' # to_lower (e # s)
      else lower_byte c # to_lower (d # e # s))"
| "to_lower [c, d] = (if byte c = 196 \<and> byte d = 176 then ''i'' else [lower_byte c, lower_byte d])"
| "to_lower [c] = [lower_byte c]"
| "to_lower [] = []"

fun to_upper :: "string \<Rightarrow> string" where
  "to_upper (c # d # s) =
     (if byte c = 196 \<and> byte d = 177 then CHR ''I'' # to_upper s
      else if byte c = 197 \<and> byte d = 191 then CHR ''S'' # to_upper s
      else upper_byte c # to_upper (d # s))"
| "to_upper [c] = [upper_byte c]"
| "to_upper [] = []"

fun contains :: "string \<Rightarrow> string \<Rightarrow> bool" where
  "contains [] p \<longleftrightarrow> p = []"
| "contains (c # s) p \<longleftrightarrow> take (length p) (c # s) = p \<or> contains s p"

definition HasSuffix :: "string \<Rightarrow> string \<Rightarrow> bool" where
  "HasSuffix s p \<longleftrightarrow> length p \<le> length s \<and> drop (length s - length p) s = p"

definition TrimSuffix :: "string \<Rightarrow> string \<Rightarrow> string" where
  "TrimSuffix s p = (if HasSuffix s p then take (length s - length p) s else s)"

text \<open>\<open>strings.Split(s, sep)\<close> for one byte, \<open>strings.ReplaceAll(s, "-", "_")\<close>, \<open>strings.TrimRight(s, "/")\<close>.\<close>

fun Split :: "char \<Rightarrow> string \<Rightarrow> string list" where
  "Split sep [] = [[]]"
| "Split sep (c # s) =
     (if c = sep then [] # Split sep s
      else case Split sep s of [] \<Rightarrow> [[c]] | p # ps \<Rightarrow> (c # p) # ps)"

definition underscores :: "string \<Rightarrow> string" where
  "underscores s = map (\<lambda>c. if c = CHR ''-'' then CHR ''_'' else c) s"

definition TrimRightSlash :: "string \<Rightarrow> string" where
  "TrimRightSlash s = rev (dropWhile (\<lambda>c. c = CHR ''/'') (rev s))"

end
