(* ===== verification/Errors.thy ===== *)
theory Errors imports Proto GoLib begin

text \<open>
  Go error values.  Every package's sentinels are a datatype; an error is a sentinel, a
  \<open>LogicError\<close> (the application error of an ERROR envelope), an opaque library or operating
  system error with its text, or an error wrapped by \<open>fmt.Errorf\<close> with \<open>%w\<close> between two texts.
  \<open>err_is\<close> is \<open>errors.Is\<close> against a sentinel, \<open>as_logic\<close> is \<open>errors.As\<close> for \<open>*LogicError\<close> and
  \<open>error_text\<close> is the \<open>Error()\<close> method.
\<close>

section \<open>Sentinels\<close>

datatype registry_err = ErrNotFound | ErrInvalidNode

datatype heartbeat_err =
    ErrInvalidConfig | ErrInvalidHeartbeat | ErrUnknownNode | ErrDeadNode | ErrInvalidTransition

datatype registration_err = RegErrInvalidRequest

datatype router_err =
    ErrNoEligibleNode | ErrUnsupportedMessageType | ErrEmptyCandidates | ErrInvalidRoutingKey

datatype tx_err =
    ErrManagerClosed | ErrTransactionExists | ErrUnknownTransaction | ErrInvalidTransaction
  | ErrInvalidResponse | ErrTransactionTimeout | ErrInvalidRequest | TxErrInvalidNode

datatype udp_err = ErrTransportClosed | ErrInvalidMessage | ErrPacketTooLarge

datatype ctx_err = Canceled | DeadlineExceeded

text \<open>\<open>net/http\<close>'s \<open>ErrServerClosed\<close>, which \<open>Serve\<close> returns after \<open>Shutdown\<close>.\<close>

datatype http_err = ErrServerClosed

datatype sentinel =
    Registry registry_err
  | Heartbeat heartbeat_err
  | Registration registration_err
  | Router router_err
  | Tx tx_err
  | Udp udp_err
  | Context ctx_err
  | Http http_err

section \<open>Errors\<close>

text \<open>A piece of a formatted message: literal text, a number, or a \<open>%q\<close> argument.\<close>

datatype part = Lit string | Num nat | Quoted string

datatype gerr =
    Sentinel sentinel
  | LogicError error_code string
  | Opaque string
  | Wrap "part list" gerr "part list"

type_synonym 'a res = "gerr + 'a"

text \<open>\<open>fmt.Errorf("%w: ...", sentinel, ...)\<close>\<close>

definition errorf :: "sentinel \<Rightarrow> part list \<Rightarrow> gerr" where
  "errorf s ps = Wrap [] (Sentinel s) (Lit '': '' # ps)"

fun err_is :: "sentinel \<Rightarrow> gerr \<Rightarrow> bool" where
  "err_is s (Sentinel t) = (s = t)"
| "err_is s (LogicError c m) = False"
| "err_is s (Opaque m) = False"
| "err_is s (Wrap p e q) = err_is s e"

fun as_logic :: "gerr \<Rightarrow> (error_code \<times> string) option" where
  "as_logic (Sentinel s) = None"
| "as_logic (LogicError c m) = Some (c, m)"
| "as_logic (Opaque m) = None"
| "as_logic (Wrap p e q) = as_logic e"

lemma err_is_errorf [simp]: "err_is s (errorf t ps) \<longleftrightarrow> s = t"
  by (simp add: errorf_def)

lemma as_logic_errorf [simp]: "as_logic (errorf t ps) = None"
  by (simp add: errorf_def)

lemma err_is_unique: "err_is s e \<Longrightarrow> err_is t e \<Longrightarrow> s = t"
  by (induction e) auto

lemma err_is_not_logic: "err_is s e \<Longrightarrow> as_logic e = None"
  by (induction e) auto

section \<open>Texts\<close>

fun registry_text :: "registry_err \<Rightarrow> string" where
  "registry_text ErrNotFound = ''node not found''"
| "registry_text ErrInvalidNode = ''invalid node''"

fun heartbeat_text :: "heartbeat_err \<Rightarrow> string" where
  "heartbeat_text ErrInvalidConfig = ''invalid heartbeat config''"
| "heartbeat_text ErrInvalidHeartbeat = ''invalid heartbeat request''"
| "heartbeat_text ErrUnknownNode = ''unknown heartbeat node''"
| "heartbeat_text ErrDeadNode = ''dead node cannot heartbeat''"
| "heartbeat_text ErrInvalidTransition = ''invalid node state transition''"

fun router_text :: "router_err \<Rightarrow> string" where
  "router_text ErrNoEligibleNode = ''no eligible node''"
| "router_text ErrUnsupportedMessageType = ''unsupported message type for routing''"
| "router_text ErrEmptyCandidates = ''empty routing candidates''"
| "router_text ErrInvalidRoutingKey = ''invalid routing key''"

fun tx_text :: "tx_err \<Rightarrow> string" where
  "tx_text ErrManagerClosed = ''transaction manager closed''"
| "tx_text ErrTransactionExists = ''transaction already exists''"
| "tx_text ErrUnknownTransaction = ''unknown transaction''"
| "tx_text ErrInvalidTransaction = ''invalid transaction''"
| "tx_text ErrInvalidResponse = ''invalid transaction response''"
| "tx_text ErrTransactionTimeout = ''transaction timeout''"
| "tx_text ErrInvalidRequest = ''invalid data request''"
| "tx_text TxErrInvalidNode = ''invalid destination node''"

fun udp_text :: "udp_err \<Rightarrow> string" where
  "udp_text ErrTransportClosed = ''udp transport closed''"
| "udp_text ErrInvalidMessage = ''invalid protobuf envelope''"
| "udp_text ErrPacketTooLarge = ''udp packet too large''"

fun sentinel_text :: "sentinel \<Rightarrow> string" where
  "sentinel_text (Registry e) = registry_text e"
| "sentinel_text (Heartbeat e) = heartbeat_text e"
| "sentinel_text (Registration RegErrInvalidRequest) = ''invalid register request''"
| "sentinel_text (Router e) = router_text e"
| "sentinel_text (Tx e) = tx_text e"
| "sentinel_text (Udp e) = udp_text e"
| "sentinel_text (Context Canceled) = ''context canceled''"
| "sentinel_text (Context DeadlineExceeded) = ''context deadline exceeded''"
| "sentinel_text (Http ErrServerClosed) = ''http: Server closed''"

text \<open>
  The name \<open>ErrorCode.String\<close> prints; an unnamed number prints as the number.  \<open>%q\<close> of a string
  of printable ASCII characters without quote or backslash is the string between quotes; no
  message the model puts on the wire holds another \<open>%q\<close> argument.
\<close>

fun error_code_text :: "error_code \<Rightarrow> string" where
  "error_code_text ERROR_CODE_UNKNOWN = ''ERROR_CODE_UNKNOWN''"
| "error_code_text ERROR_CODE_TIMEOUT = ''ERROR_CODE_TIMEOUT''"
| "error_code_text ERROR_CODE_NODE_NOT_AVAILABLE = ''ERROR_CODE_NODE_NOT_AVAILABLE''"
| "error_code_text ERROR_CODE_INVALID_MESSAGE = ''ERROR_CODE_INVALID_MESSAGE''"
| "error_code_text ERROR_CODE_OVERLOAD = ''ERROR_CODE_OVERLOAD''"
| "error_code_text ERROR_CODE_UDP_SEND_FAILED = ''ERROR_CODE_UDP_SEND_FAILED''"
| "error_code_text ERROR_CODE_LOGIC_TIMEOUT = ''ERROR_CODE_LOGIC_TIMEOUT''"
| "error_code_text ERROR_CODE_HEARTBEAT_TIMEOUT = ''ERROR_CODE_HEARTBEAT_TIMEOUT''"
| "error_code_text ERROR_CODE_NO_ROUTING_TARGET = ''ERROR_CODE_NO_ROUTING_TARGET''"
| "error_code_text (ERROR_CODE_OTHER n) = (if n < 0 then ''-'' else []) @ fmt_nat (nat \<bar>n\<bar>)"

fun part_text :: "part \<Rightarrow> string" where
  "part_text (Lit s) = s"
| "part_text (Num n) = fmt_nat n"
| "part_text (Quoted s) = [CHR 34] @ s @ [CHR 34]"

fun logic_error_text :: "error_code \<Rightarrow> string \<Rightarrow> string" where
  "logic_error_text c m =
     (if m \<noteq> [] then ''logic error: '' @ error_code_text c @ '' ('' @ m @ '')''
      else ''logic error: '' @ error_code_text c)"

fun error_text :: "gerr \<Rightarrow> string" where
  "error_text (Sentinel s) = sentinel_text s"
| "error_text (LogicError c m) = logic_error_text c m"
| "error_text (Opaque m) = m"
| "error_text (Wrap p e q) = concat (map part_text p) @ error_text e @ concat (map part_text q)"

end
