(* ===== verification/TxManager.thy ===== *)
theory TxManager imports Errors "HOL-Library.Monad_Syntax" begin

text \<open>
  \<open>internal/transaction/manager.go\<close>: the map from transaction ids to waiters.  A waiter is a
  pooled object \<open>pending\<close> with a one-slot channel; objects live in a heap because the manager's
  map, the pool and a goroutine in \<open>Wait\<close> hold pointers to the same object.

  A channel operation that cannot proceed blocks its goroutine: an operation that would block is
  \<open>None\<close>, and the theorems show when it is not.  \<open>Wait\<close> is two operations, up to its \<open>select\<close> and
  from the branch taken on, so that other goroutines act in between.  \<open>sync.Pool\<close> may hand out any
  pooled object or a new one: the object is an argument of \<open>Create\<close>.  The metrics sink is a
  record of counters; the wait-time histogram is not kept.
\<close>

section \<open>Waiters\<close>

text \<open>The \<open>result\<close> struct: envelope and error.\<close>

type_synonym tx_result = "envelope option \<times> gerr option"

type_synonym pid = nat

record pending =
  p_id :: u64
  p_ch :: "tx_result option"
  p_done :: bool
  p_waiting :: bool

definition p_claimWait :: "pending \<Rightarrow> bool \<times> pending" where
  "p_claimWait p = (if p_waiting p then (False, p) else (True, p\<lparr>p_waiting := True\<rparr>))"

text \<open>\<open>None\<close>: the send blocks on a full channel.\<close>

definition p_tryDeliver :: "tx_result \<Rightarrow> pending \<Rightarrow> (bool \<times> pending) option" where
  "p_tryDeliver r p =
     (if p_done p then Some (False, p)
      else case p_ch p of
        None \<Rightarrow> Some (True, p\<lparr>p_done := True, p_ch := Some r\<rparr>)
      | Some _ \<Rightarrow> None)"

section \<open>The manager\<close>

record counters =
  c_pending :: int
  c_created :: int
  c_completed :: int
  c_timeout :: int
  c_not_found :: int

record manager =
  nextID :: u64
  closed :: bool
  wait :: "u64 \<rightharpoonup> pid"
  heap :: "pid \<rightharpoonup> pending"
  pool :: "pid list"
  met :: counters

definition NewManager :: manager where
  "NewManager = \<lparr>nextID = 0, closed = False, wait = Map.empty, heap = Map.empty, pool = [],
     met = \<lparr>c_pending = 0, c_created = 0, c_completed = 0, c_timeout = 0, c_not_found = 0\<rparr>\<rparr>"

text \<open>The objects \<open>pendingPool.Get\<close> can return.\<close>

definition acquirable :: "pid \<Rightarrow> manager \<Rightarrow> bool" where
  "acquirable p m \<longleftrightarrow> p \<in> set (pool m) \<or> heap m p = None"

definition acquirePending :: "pid \<Rightarrow> u64 \<Rightarrow> manager \<Rightarrow> manager" where
  "acquirePending p i m =
     m\<lparr>pool := remove1 p (pool m),
       heap := (heap m)(p \<mapsto> \<lparr>p_id = i, p_ch = None, p_done = False, p_waiting = False\<rparr>)\<rparr>"

definition releasePending :: "pid \<Rightarrow> manager \<Rightarrow> manager" where
  "releasePending p m =
     m\<lparr>pool := p # pool m,
       heap := (heap m)(p \<mapsto> \<lparr>p_id = 0, p_ch = None, p_done = False, p_waiting = False\<rparr>)\<rparr>"

definition tryDeliver :: "pid \<Rightarrow> tx_result \<Rightarrow> manager \<Rightarrow> (bool \<times> manager) option" where
  "tryDeliver p r m = do {
     pd \<leftarrow> heap m p;
     (ok, pd') \<leftarrow> p_tryDeliver r pd;
     Some (ok, m\<lparr>heap := (heap m)(p \<mapsto> pd')\<rparr>)
   }"

text \<open>The loop that draws ids until one is free; \<open>None\<close> if it never is.\<close>

partial_function (option) next_free :: "(u64 \<rightharpoonup> pid) \<Rightarrow> u64 \<Rightarrow> u64 option" where
  "next_free w n = (let i = n + 1 in if w i = None then Some i else next_free w i)"

definition Manager_Create :: "pid \<Rightarrow> u64 \<Rightarrow> manager \<Rightarrow> (u64 res \<times> manager) option" where
  "Manager_Create p i m =
     (if closed m then Some (Inl (Sentinel (Tx ErrManagerClosed)), m)
      else if i \<noteq> 0 \<and> wait m i \<noteq> None
      then Some (Inl (errorf (Tx ErrTransactionExists) [Num (unat i)]), m)
      else do {
        (i', m1) \<leftarrow> (if i = 0 then map_option (\<lambda>n. (n, m\<lparr>nextID := n\<rparr>)) (next_free (wait m) (nextID m))
                    else Some (i, m));
        let m2 = acquirePending p i' m1;
        let m3 = m2\<lparr>wait := (wait m2)(i' \<mapsto> p)\<rparr>;
        Some (Inr i', m3\<lparr>met := (met m3)\<lparr>c_pending := int (card (dom (wait m3))),
                                        c_created := c_created (met m3) + 1\<rparr>\<rparr>)
      })"

text \<open>
  \<open>finish\<close> looks the waiter up under the manager's lock and delivers after releasing it; the two
  halves are separate definitions.
\<close>

definition finish_lookup :: "u64 \<Rightarrow> manager \<Rightarrow> pid res" where
  "finish_lookup i m =
     (if closed m then Inl (Sentinel (Tx ErrManagerClosed))
      else case wait m i of
        None \<Rightarrow> Inl (errorf (Tx ErrUnknownTransaction) [Num (unat i)])
      | Some p \<Rightarrow> Inr p)"

definition finish_deliver :: "u64 \<Rightarrow> pid \<Rightarrow> tx_result \<Rightarrow> manager \<Rightarrow> (gerr option \<times> manager) option" where
  "finish_deliver i p r m = do {
     (ok, m') \<leftarrow> tryDeliver p r m;
     Some (if ok then None else Some (errorf (Tx ErrUnknownTransaction) [Num (unat i)]), m')
   }"

definition finish :: "u64 \<Rightarrow> tx_result \<Rightarrow> manager \<Rightarrow> (gerr option \<times> manager) option" where
  "finish i r m =
     (case finish_lookup i m of
        Inl e \<Rightarrow> Some (Some e, m)
      | Inr p \<Rightarrow> finish_deliver i p r m)"

definition remove :: "u64 \<Rightarrow> manager \<Rightarrow> manager" where
  "remove i m =
     (let w = (wait m)(i := None)
      in m\<lparr>wait := w, met := (met m)\<lparr>c_pending := int (card (dom w))\<rparr>\<rparr>)"

definition has :: "u64 \<Rightarrow> manager \<Rightarrow> bool" where
  "has i m \<longleftrightarrow> wait m i \<noteq> None"

text \<open>The counting \<open>Complete\<close> and \<open>Fail\<close> share.\<close>

definition count_finish :: "gerr option \<Rightarrow> manager \<Rightarrow> manager" where
  "count_finish e m =
     (case e of
        None \<Rightarrow> m\<lparr>met := (met m)\<lparr>c_completed := c_completed (met m) + 1\<rparr>\<rparr>
      | Some err \<Rightarrow>
          if err_is (Tx ErrUnknownTransaction) err
          then m\<lparr>met := (met m)\<lparr>c_not_found := c_not_found (met m) + 1\<rparr>\<rparr> else m)"

definition Manager_Complete :: "u64 \<Rightarrow> envelope option \<Rightarrow> manager \<Rightarrow> (gerr option \<times> manager) option" where
  "Manager_Complete i env m = do {
     (e, m') \<leftarrow> finish i (env, None) m;
     Some (e, count_finish e m')
   }"

definition Manager_Fail :: "u64 \<Rightarrow> gerr option \<Rightarrow> manager \<Rightarrow> (gerr option \<times> manager) option" where
  "Manager_Fail i err m = do {
     let err = (case err of None \<Rightarrow> Sentinel (Tx ErrInvalidResponse) | Some e \<Rightarrow> e);
     (e, m') \<leftarrow> finish i (None, Some err) m;
     Some (e, count_finish e m')
   }"

definition Manager_Cancel :: "u64 \<Rightarrow> manager \<Rightarrow> (gerr option \<times> manager) option" where
  "Manager_Cancel i m = do {
     (e, m') \<leftarrow> finish i (None, Some (Sentinel (Context Canceled))) m;
     Some (e, remove i m')
   }"

fun deliver_all :: "pid list \<Rightarrow> tx_result \<Rightarrow> manager \<Rightarrow> manager option" where
  "deliver_all [] r m = Some m"
| "deliver_all (p # ps) r m = do {
     (ok, m') \<leftarrow> tryDeliver p r m;
     deliver_all ps r m'
   }"

text \<open>\<open>order\<close> is the iteration order of the map.\<close>

definition Manager_Close :: "u64 list \<Rightarrow> manager \<Rightarrow> manager option" where
  "Manager_Close order m =
     (if closed m then Some m
      else let waiters = List.map_filter (wait m) order;
               m1 = m\<lparr>closed := True, wait := Map.empty, met := (met m)\<lparr>c_pending := 0\<rparr>\<rparr>
           in deliver_all waiters (None, Some (Sentinel (Tx ErrManagerClosed))) m1)"

section \<open>Wait\<close>

definition Wait_begin :: "u64 \<Rightarrow> manager \<Rightarrow> (pid res \<times> manager) option" where
  "Wait_begin i m =
     (if closed m then Some (Inl (Sentinel (Tx ErrManagerClosed)), m)
      else case wait m i of
        None \<Rightarrow> Some (Inl (errorf (Tx ErrUnknownTransaction) [Num (unat i)]), m)
      | Some p \<Rightarrow> do {
          pd \<leftarrow> heap m p;
          let (claimed, pd') = p_claimWait pd;
          let m' = m\<lparr>heap := (heap m)(p \<mapsto> pd')\<rparr>;
          Some (if claimed then Inr p
                else Inl (errorf (Tx ErrInvalidTransaction) [Lit ''wait already in progress'']), m')
        })"

text \<open>The branch \<open>case r := <-p.ch\<close>, and the end both branches share.\<close>

definition Wait_recv :: "u64 \<Rightarrow> pid \<Rightarrow> manager \<Rightarrow> (tx_result \<times> manager) option" where
  "Wait_recv i p m = do {
     pd \<leftarrow> heap m p;
     r \<leftarrow> p_ch pd;
     Some (r, releasePending p (remove i (m\<lparr>heap := (heap m)(p \<mapsto> pd\<lparr>p_ch := None\<rparr>)\<rparr>)))
   }"

text \<open>The branch \<open>case <-ctx.Done()\<close>; \<open>cause\<close> is \<open>ctx.Err()\<close>.\<close>

definition Wait_ctx :: "u64 \<Rightarrow> pid \<Rightarrow> ctx_err \<Rightarrow> manager \<Rightarrow> (tx_result \<times> manager) option" where
  "Wait_ctx i p cause m = do {
     let m1 = (if cause = DeadlineExceeded
               then m\<lparr>met := (met m)\<lparr>c_timeout := c_timeout (met m) + 1\<rparr>\<rparr> else m);
     (e, m2) \<leftarrow> finish i (None, Some (Sentinel (Context cause))) m1;
     Wait_recv i p m2
   }"

section \<open>Fresh ids\<close>

text \<open>The loop of \<open>Create\<close> stops at the first free id after \<open>n\<close>, if there is a free id.\<close>

lemma next_free_at:
  assumes "w (n + of_nat (Suc d)) = None" "\<forall>k < d. w (n + of_nat (Suc k)) \<noteq> None"
  shows "next_free w n = Some (n + of_nat (Suc d))"
  using assms
proof (induction d arbitrary: n)
  case 0
  then show ?case by (simp add: next_free.simps [of w n] add.commute)
next
  case (Suc d)
  have "w (n + 1) \<noteq> None" using Suc.prems(2) [rule_format, of 0] by simp
  moreover have "next_free w (n + 1) = Some (n + 1 + of_nat (Suc d))"
  proof (rule Suc.IH)
    show "w (n + 1 + of_nat (Suc d)) = None" using Suc.prems(1) by (simp add: add.assoc)
    show "\<forall>k < d. w (n + 1 + of_nat (Suc k)) \<noteq> None"
      using Suc.prems(2) by (metis (no_types, lifting) Suc_less_eq add.assoc of_nat_Suc)
  qed
  ultimately show ?case by (auto simp: next_free.simps [of w n] add.assoc Let_def)
qed

lemma free_id_exists:
  fixes w :: "u64 \<rightharpoonup> pid"
  assumes "card (dom w) < 2 ^ 64"
  shows "\<exists>i. w i = None"
proof (rule ccontr)
  assume "\<nexists>i. w i = None"
  then have "dom w = UNIV" by auto
  moreover have "card (UNIV :: u64 set) = 2 ^ 64" by (simp add: card_word)
  ultimately show False using assms by simp
qed

lemma next_free_returns:
  assumes "w j = None"
  shows "\<exists>i. next_free w n = Some i \<and> w i = None"
proof -
  have "\<exists>d. w (n + of_nat (Suc d)) = None"
  proof (rule exI [of _ "unat (j - n - 1)"])
    have "n + of_nat (Suc (unat (j - n - 1))) = j" by (simp add: unat_of_nat)
    then show "w (n + of_nat (Suc (unat (j - n - 1)))) = None" using assms by simp
  qed
  then obtain d where "w (n + of_nat (Suc d)) = None" "\<forall>k < d. w (n + of_nat (Suc k)) \<noteq> None"
    using exists_least_iff [of "\<lambda>d. w (n + of_nat (Suc d)) = None"] by blast
  then show ?thesis using next_free_at by blast
qed

lemma next_free_free: "next_free w n = Some i \<Longrightarrow> w i = None"
  by (rule next_free.raw_induct [where P = "\<lambda>w n i. w i = None"]) (auto simp: Let_def split: if_splits)

text \<open>
  \<open>Create\<close> without an id terminates whenever fewer than \<open>2 ^ 64\<close> transactions are pending: the
  id it allocates is the first one after the counter that is not in use, and the counter moves there.
\<close>

theorem create_allocates_next_free:
  assumes "\<not> closed m" "card (dom (wait m)) < 2 ^ 64"
  shows "\<exists>d m'. wait m (nextID m + of_nat (Suc d)) = None \<and>
    (\<forall>k. wait m (nextID m + of_nat (Suc k)) = None \<longrightarrow> d \<le> k) \<and>
    Manager_Create p 0 m = Some (Inr (nextID m + of_nat (Suc d)), m') \<and>
    nextID m' = nextID m + of_nat (Suc d) \<and> wait m' (nextID m + of_nat (Suc d)) = Some p"
proof -
  let ?free = "\<lambda>d. wait m (nextID m + of_nat (Suc d)) = None"
  obtain j where "wait m j = None" using free_id_exists [OF assms(2)] by blast
  then have "?free (unat (j - nextID m - 1))" by (simp add: unat_of_nat)
  then obtain d where d: "?free d" "\<forall>k < d. \<not> ?free k" using exists_least_iff [of ?free] by blast
  then have nf: "next_free (wait m) (nextID m) = Some (nextID m + of_nat (Suc d))"
    by (intro next_free_at) auto
  have "d \<le> k" if "?free k" for k using d(2) that by (meson not_le)
  moreover have "\<exists>m'. Manager_Create p 0 m = Some (Inr (nextID m + of_nat (Suc d)), m') \<and>
      nextID m' = nextID m + of_nat (Suc d) \<and> wait m' (nextID m + of_nat (Suc d)) = Some p"
    using assms(1) by (simp add: Manager_Create_def nf Let_def acquirePending_def)
  ultimately show ?thesis using d(1) by blast
qed

lemma create_allocates_next_free_witness:
  "\<exists>d m'. wait NewManager (0 + of_nat (Suc d)) = None \<and>
     Manager_Create 0 0 NewManager = Some (Inr (0 + of_nat (Suc d)), m')"
  using create_allocates_next_free [of NewManager 0] by (auto simp: NewManager_def)

end
