(* ===== verification/TxSpec.thy ===== *)
theory TxSpec imports TxManager begin

text \<open>
  The contract of the transaction manager and its proof.  \<open>mgr_step\<close> is the manager in use: any
  interleaving of whole calls of \<open>Create\<close>, \<open>Complete\<close>, \<open>Fail\<close>, \<open>Cancel\<close> and \<open>Close\<close> with the two
  halves of \<open>Wait\<close>, a \<open>Cancel\<close> of an id in \<open>Wait\<close> included.  The one protocol its client has to
  keep: an id is not created anew while a \<open>Wait\<close> on its last use has not returned (the code does
  not check it; \<open>reuse_hang\<close> in \<open>TxRace\<close> shows what happens without).  \<open>spec_step\<close> is the abstract
  service: a slot per transaction, filled once.  Shown: every step of the manager is a step of the
  service, no operation blocks, and a waiter gets what was delivered to its own transaction.  All of
  it is about calls that run one after the other; \<open>TxRace\<close> splits them at their locks.
\<close>

section \<open>The manager in use\<close>

datatype mgr_event =
    EvCreate u64 "u64 res"
  | EvWait u64 "gerr option"
  | EvComplete u64 "envelope option" "gerr option"
  | EvFail u64 "gerr option" "gerr option"
  | EvCancel u64 "gerr option"
  | EvClose
  | EvReturn u64 tx_result
  | EvExpire u64 ctx_err tx_result

text \<open>The waiters: the goroutines inside \<open>Wait\<close>, by id, with the object they claimed.\<close>

type_synonym sys = "manager \<times> (u64 \<rightharpoonup> pid)"

inductive mgr_step :: "sys \<Rightarrow> mgr_event \<Rightarrow> sys \<Rightarrow> bool" where
  create: "acquirable p m \<Longrightarrow> Manager_Create p i m = Some (r, m') \<Longrightarrow> (\<forall>j. r = Inr j \<longrightarrow> ws j = None) \<Longrightarrow>
           mgr_step (m, ws) (EvCreate i r) (m', ws)"
| wait_ok: "Wait_begin i m = Some (Inr p, m') \<Longrightarrow> mgr_step (m, ws) (EvWait i None) (m', ws(i \<mapsto> p))"
| wait_err: "Wait_begin i m = Some (Inl e, m') \<Longrightarrow> mgr_step (m, ws) (EvWait i (Some e)) (m', ws)"
| complete: "Manager_Complete i env m = Some (e, m') \<Longrightarrow> mgr_step (m, ws) (EvComplete i env e) (m', ws)"
| fail: "Manager_Fail i err m = Some (e, m') \<Longrightarrow> mgr_step (m, ws) (EvFail i err e) (m', ws)"
| cancel: "Manager_Cancel i m = Some (e, m') \<Longrightarrow> mgr_step (m, ws) (EvCancel i e) (m', ws)"
| close: "is_order (wait m) order \<Longrightarrow> Manager_Close order m = Some m' \<Longrightarrow> mgr_step (m, ws) EvClose (m', ws)"
| return: "ws i = Some p \<Longrightarrow> Wait_recv i p m = Some (r, m') \<Longrightarrow>
           mgr_step (m, ws) (EvReturn i r) (m', ws(i := None))"
| expire: "ws i = Some p \<Longrightarrow> Wait_ctx i p cause m = Some (r, m') \<Longrightarrow>
           mgr_step (m, ws) (EvExpire i cause r) (m', ws(i := None))"

inductive mgr_run :: "sys \<Rightarrow> mgr_event list \<Rightarrow> sys \<Rightarrow> bool" where
  nil: "mgr_run s [] s"
| snoc: "mgr_run s evs s1 \<Longrightarrow> mgr_step s1 ev s2 \<Longrightarrow> mgr_run s (evs @ [ev]) s2"

definition idle :: sys where "idle = (NewManager, Map.empty)"

section \<open>The abstract service\<close>

text \<open>
  A slot holds the delivered result, if any, and whether a waiter claimed it; a \<open>Detached\<close> slot is
  one whose id is registered no more (cancelled or closed) while its waiter has not yet returned.
\<close>

datatype claim = Unclaimed | Claimed | Detached

type_synonym slots = "u64 \<rightharpoonup> tx_result option \<times> claim"

definition closed_result :: tx_result where
  "closed_result = (None, Some (Sentinel (Tx ErrManagerClosed)))"

definition canceled_result :: tx_result where
  "canceled_result = (None, Some (Sentinel (Context Canceled)))"

definition refused :: "bool \<Rightarrow> slots \<Rightarrow> u64 \<Rightarrow> gerr \<Rightarrow> bool" where
  "refused c sl i e \<longleftrightarrow>
     c \<and> err_is (Tx ErrManagerClosed) e \<or>
     \<not> c \<and> err_is (Tx ErrUnknownTransaction) e \<and> (\<forall>w. sl i \<noteq> Some (None, w))"

definition fail_error :: "gerr option \<Rightarrow> gerr" where
  "fail_error err = (case err of None \<Rightarrow> Sentinel (Tx ErrInvalidResponse) | Some e \<Rightarrow> e)"

definition close_slots :: "slots \<Rightarrow> slots" where
  "close_slots sl = (\<lambda>i. case sl i of
     None \<Rightarrow> None
   | Some (r, Unclaimed) \<Rightarrow> None
   | Some (r, _) \<Rightarrow> Some (Some (case r of None \<Rightarrow> closed_result | Some x \<Rightarrow> x), Detached))"

text \<open>Deleting an id from the map: an unclaimed slot goes, a claimed one is left to its waiter.\<close>

definition detach :: "u64 \<Rightarrow> slots \<Rightarrow> slots" where
  "detach i sl = (case sl i of
     None \<Rightarrow> sl
   | Some (r, Unclaimed) \<Rightarrow> sl(i := None)
   | Some (r, _) \<Rightarrow> sl(i \<mapsto> (r, Detached)))"

inductive spec_step :: "bool \<times> slots \<Rightarrow> mgr_event \<Rightarrow> bool \<times> slots \<Rightarrow> bool" where
  create: "\<not> c \<Longrightarrow> sl j = None \<Longrightarrow> i = 0 \<or> j = i \<Longrightarrow>
           spec_step (c, sl) (EvCreate i (Inr j)) (c, sl(j \<mapsto> (None, Unclaimed)))"
| create_closed: "c \<Longrightarrow> err_is (Tx ErrManagerClosed) e \<Longrightarrow> spec_step (c, sl) (EvCreate i (Inl e)) (c, sl)"
| create_exists: "\<not> c \<Longrightarrow> i \<noteq> 0 \<Longrightarrow> sl i \<noteq> None \<Longrightarrow> err_is (Tx ErrTransactionExists) e \<Longrightarrow>
           spec_step (c, sl) (EvCreate i (Inl e)) (c, sl)"
| wait: "\<not> c \<Longrightarrow> sl i = Some (r, Unclaimed) \<Longrightarrow> spec_step (c, sl) (EvWait i None) (c, sl(i \<mapsto> (r, Claimed)))"
| wait_closed: "c \<Longrightarrow> err_is (Tx ErrManagerClosed) e \<Longrightarrow> spec_step (c, sl) (EvWait i (Some e)) (c, sl)"
| wait_unknown: "\<not> c \<Longrightarrow> (\<forall>r w. sl i = Some (r, w) \<longrightarrow> w = Detached) \<Longrightarrow> err_is (Tx ErrUnknownTransaction) e \<Longrightarrow>
           spec_step (c, sl) (EvWait i (Some e)) (c, sl)"
| wait_twice: "\<not> c \<Longrightarrow> sl i = Some (r, Claimed) \<Longrightarrow> err_is (Tx ErrInvalidTransaction) e \<Longrightarrow>
           spec_step (c, sl) (EvWait i (Some e)) (c, sl)"
| complete: "\<not> c \<Longrightarrow> sl i = Some (None, w) \<Longrightarrow>
           spec_step (c, sl) (EvComplete i env None) (c, sl(i \<mapsto> (Some (env, None), w)))"
| complete_refused: "refused c sl i e \<Longrightarrow> spec_step (c, sl) (EvComplete i env (Some e)) (c, sl)"
| fail: "\<not> c \<Longrightarrow> sl i = Some (None, w) \<Longrightarrow>
           spec_step (c, sl) (EvFail i err None) (c, sl(i \<mapsto> (Some (None, Some (fail_error err)), w)))"
| fail_refused: "refused c sl i e \<Longrightarrow> spec_step (c, sl) (EvFail i err (Some e)) (c, sl)"
| cancel: "\<not> c \<Longrightarrow> sl i = Some (None, w) \<Longrightarrow>
           spec_step (c, sl) (EvCancel i None) (c, detach i (sl(i \<mapsto> (Some canceled_result, w))))"
| cancel_refused: "refused c sl i e \<Longrightarrow> spec_step (c, sl) (EvCancel i (Some e)) (c, detach i sl)"
| close: "spec_step (c, sl) EvClose (True, if c then sl else close_slots sl)"
| return: "sl i = Some (Some r, w) \<Longrightarrow> w \<noteq> Unclaimed \<Longrightarrow> spec_step (c, sl) (EvReturn i r) (c, sl(i := None))"
| expire: "sl i = Some (x, w) \<Longrightarrow> w \<noteq> Unclaimed \<Longrightarrow>
           r = (case x of None \<Rightarrow> (None, Some (Sentinel (Context cause))) | Some r' \<Rightarrow> r') \<Longrightarrow>
           spec_step (c, sl) (EvExpire i cause r) (c, sl(i := None))"

section \<open>The invariant and the abstraction\<close>

definition live :: "manager \<Rightarrow> u64 \<Rightarrow> pid \<Rightarrow> bool" where
  "live m i p \<longleftrightarrow> p \<notin> set (pool m) \<and>
     (\<exists>pd. heap m p = Some pd \<and> p_id pd = i \<and> (p_ch pd = None \<longleftrightarrow> \<not> p_done pd))"

abbreviation obj :: "manager \<Rightarrow> pid \<Rightarrow> pending" where "obj m p \<equiv> the (heap m p)"

definition sys_inv :: "sys \<Rightarrow> bool" where
  "sys_inv s \<longleftrightarrow> (let (m, ws) = s in
     finite (dom (wait m)) \<and> finite (dom (heap m)) \<and> c_pending (met m) = int (card (dom (wait m))) \<and>
     (closed m \<longrightarrow> wait m = Map.empty) \<and>
     distinct (pool m) \<and> (\<forall>p \<in> set (pool m). heap m p \<noteq> None) \<and>
     (\<forall>i p. wait m i = Some p \<longrightarrow> live m i p \<and> (p_waiting (obj m p) \<longleftrightarrow> ws i = Some p)) \<and>
     (\<forall>i p. ws i = Some p \<longrightarrow> live m i p \<and> (wait m i = Some p \<or> wait m i = None \<and> p_done (obj m p))))"

definition spec_of :: "sys \<Rightarrow> bool \<times> slots" where
  "spec_of s = (let (m, ws) = s in
     (closed m, \<lambda>i. case ws i of
        Some p \<Rightarrow> Some (p_ch (obj m p), if wait m i = None then Detached else Claimed)
      | None \<Rightarrow> map_option (\<lambda>p. (p_ch (obj m p), Unclaimed)) (wait m i)))"

lemma sys_inv_idle: "sys_inv idle"
  by (simp add: sys_inv_def idle_def NewManager_def)

lemma live_id: "live m i p \<Longrightarrow> live m j p \<Longrightarrow> i = j"
  by (auto simp: live_def)

lemma sys_invI:
  assumes "finite (dom (wait m))" "finite (dom (heap m))" "c_pending (met m) = int (card (dom (wait m)))"
    and "closed m \<Longrightarrow> wait m = Map.empty"
    and "distinct (pool m)" "\<And>p. p \<in> set (pool m) \<Longrightarrow> heap m p \<noteq> None"
    and "\<And>i p. wait m i = Some p \<Longrightarrow> live m i p \<and> (p_waiting (obj m p) \<longleftrightarrow> ws i = Some p)"
    and "\<And>i p. ws i = Some p \<Longrightarrow> live m i p \<and> (wait m i = Some p \<or> wait m i = None \<and> p_done (obj m p))"
  shows "sys_inv (m, ws)"
  using assms by (simp add: sys_inv_def)

lemma inv_basic:
  assumes "sys_inv (m, ws)"
  shows "finite (dom (wait m))" "c_pending (met m) = int (card (dom (wait m)))"
    "closed m \<Longrightarrow> wait m = Map.empty" "distinct (pool m)" "p \<in> set (pool m) \<Longrightarrow> heap m p \<noteq> None"
    "finite (dom (heap m))"
  using assms by (auto simp: sys_inv_def)

lemma live_wait:
  "sys_inv (m, ws) \<Longrightarrow> wait m i = Some p \<Longrightarrow>
   live m i p \<and> (p_waiting (obj m p) \<longleftrightarrow> ws i = Some p) \<and> \<not> closed m"
  by (auto simp: sys_inv_def)

lemma live_ws:
  "sys_inv (m, ws) \<Longrightarrow> ws i = Some p \<Longrightarrow>
   live m i p \<and> (wait m i = Some p \<and> \<not> closed m \<or> wait m i = None \<and> p_done (obj m p))"
proof -
  assume a: "sys_inv (m, ws)" "ws i = Some p"
  then have "live m i p \<and> (wait m i = Some p \<or> wait m i = None \<and> p_done (obj m p))"
    by (simp add: sys_inv_def)
  then show ?thesis using live_wait [OF a(1), of i p] by blast
qed

lemma inv_wait:
  assumes "sys_inv (m, ws)" "wait m i = Some p"
  obtains pd where "heap m p = Some pd" "p_id pd = i" "p_ch pd = None \<longleftrightarrow> \<not> p_done pd"
    "p \<notin> set (pool m)" "\<not> closed m" "p_waiting pd \<longleftrightarrow> ws i = Some p" "ws i = None \<or> ws i = Some p"
proof -
  have "ws i = None \<or> ws i = Some p" using live_ws [OF assms(1), of i] assms(2) by (cases "ws i") auto
  with live_wait [OF assms] that show ?thesis by (auto simp: live_def)
qed

lemma inv_waiter:
  assumes "sys_inv (m, ws)" "ws i = Some p"
  obtains pd where "heap m p = Some pd" "p_id pd = i" "p_ch pd = None \<longleftrightarrow> \<not> p_done pd"
    "p \<notin> set (pool m)" "wait m i = Some p \<and> \<not> closed m \<or> wait m i = None \<and> p_done pd"
  using live_ws [OF assms] that by (auto simp: live_def)

lemma wait_inj: "sys_inv (m, ws) \<Longrightarrow> wait m i = Some p \<Longrightarrow> wait m j = Some p \<Longrightarrow> i = j"
  using live_wait [of m ws i p] live_wait [of m ws j p] live_id by blast

lemma ws_inj: "sys_inv (m, ws) \<Longrightarrow> wait m i = Some p \<Longrightarrow> ws j = Some p \<Longrightarrow> i = j"
  using live_wait [of m ws i p] live_ws [of m ws j p] live_id by blast

section \<open>Delivery\<close>

definition fill :: "pid \<Rightarrow> tx_result \<Rightarrow> manager \<Rightarrow> manager" where
  "fill p r m = m\<lparr>heap := (heap m)(p \<mapsto> (obj m p)\<lparr>p_done := True, p_ch := Some r\<rparr>)\<rparr>"

lemma tryDeliver_eq:
  assumes "heap m p = Some pd" "p_ch pd = None \<longleftrightarrow> \<not> p_done pd"
  shows "tryDeliver p r m = (if p_done pd then Some (False, m) else Some (True, fill p r m))"
proof -
  have "m\<lparr>heap := (heap m)(p \<mapsto> pd)\<rparr> = m" using assms(1) by (simp add: fun_upd_idem)
  then show ?thesis using assms
    by (cases "p_ch pd") (simp_all add: tryDeliver_def p_tryDeliver_def fill_def)
qed

lemma finish_eq:
  assumes "sys_inv (m, ws)"
  shows "finish i r m =
    (if closed m then Some (Some (Sentinel (Tx ErrManagerClosed)), m)
     else case wait m i of
       None \<Rightarrow> Some (Some (errorf (Tx ErrUnknownTransaction) [Num (unat i)]), m)
     | Some p \<Rightarrow> if p_done (obj m p) then Some (Some (errorf (Tx ErrUnknownTransaction) [Num (unat i)]), m)
                 else Some (None, fill p r m))"
proof (cases "wait m i")
  case None
  then show ?thesis by (simp add: finish_def finish_lookup_def)
next
  case (Some p)
  from inv_wait [OF assms Some] obtain pd where "heap m p = Some pd" "p_ch pd = None \<longleftrightarrow> \<not> p_done pd"
    "\<not> closed m" .
  then show ?thesis
    by (simp add: Some finish_def finish_lookup_def finish_deliver_def tryDeliver_eq)
qed

lemma fill_fields [simp]:
  "wait (fill p r m) = wait m" "closed (fill p r m) = closed m" "pool (fill p r m) = pool m"
  "met (fill p r m) = met m" "nextID (fill p r m) = nextID m"
  by (simp_all add: fill_def)

lemma live_fill: "heap m p = Some pd \<Longrightarrow> live m j q \<Longrightarrow> live (fill p r m) j q"
  by (auto simp: live_def fill_def)

lemma fill_inv:
  assumes "sys_inv (m, ws)" "heap m p = Some pd"
  shows "sys_inv (fill p r m, ws)"
proof -
  have "p_waiting (obj (fill p r m) q) = p_waiting (obj m q)"
    "p_done (obj m q) \<Longrightarrow> p_done (obj (fill p r m) q)" for q
    using assms(2) by (auto simp: fill_def)
  moreover have "\<forall>q \<in> set (pool m). heap (fill p r m) q \<noteq> None"
    using assms by (auto simp: sys_inv_def fill_def)
  moreover have "finite (dom (heap (fill p r m)))" using inv_basic(6) [OF assms(1)] by (simp add: fill_def)
  ultimately show ?thesis
    using inv_basic [OF assms(1)] live_fill [OF assms(2)] live_wait [OF assms(1)] live_ws [OF assms(1)]
    by (intro sys_invI) (simp, simp, simp, simp, simp, simp, simp, simp, metis)
qed

lemma fill_spec:
  assumes "sys_inv (m, ws)" "wait m i = Some p" "\<not> p_done (obj m p)"
  shows "\<exists>w. snd (spec_of (m, ws)) i = Some (None, w) \<and>
         spec_of (fill p r m, ws) = (closed m, (snd (spec_of (m, ws)))(i \<mapsto> (Some r, w)))"
proof -
  from inv_wait [OF assms(1,2)] obtain pd where pd: "heap m p = Some pd" "p_ch pd = None \<longleftrightarrow> \<not> p_done pd"
    "ws i = None \<or> ws i = Some p" .
  have none: "p_ch pd = None" using pd assms(3) by simp
  have other: "wait m j \<noteq> Some p" "ws j \<noteq> Some p" if "j \<noteq> i" for j
    using wait_inj [OF assms(1,2), of j] ws_inj [OF assms(1,2), of j] that by auto
  have ch: "p_ch (obj (fill p r m) q) = (if q = p then Some r else p_ch (obj m q))" for q
    by (simp add: fill_def)
  have "snd (spec_of (fill p r m, ws)) j =
      (if j = i then Some (Some r, if ws i = None then Unclaimed else Claimed) else snd (spec_of (m, ws)) j)" for j
    using pd assms(2) other [of j]
    by (cases "j = i"; cases "ws j"; cases "wait m j") (auto simp: spec_of_def ch)
  moreover have "snd (spec_of (m, ws)) i = Some (None, if ws i = None then Unclaimed else Claimed)"
    using pd assms(2,3) none by (auto simp: spec_of_def)
  ultimately show ?thesis by (auto simp: spec_of_def fun_eq_iff)
qed


section \<open>Each call is a step of the service\<close>

lemma met_inv:
  "c_pending x = c_pending (met m) \<Longrightarrow> sys_inv (m\<lparr>met := x\<rparr>, ws) \<longleftrightarrow> sys_inv (m, ws)"
  by (simp add: sys_inv_def live_def)

lemma met_spec [simp]: "spec_of (m\<lparr>met := x\<rparr>, ws) = spec_of (m, ws)"
  by (auto simp: spec_of_def fun_eq_iff split: option.split)

lemma count_finish_inv [simp]: "sys_inv (count_finish e m, ws) \<longleftrightarrow> sys_inv (m, ws)"
  by (auto simp: count_finish_def met_inv split: option.split)

lemma count_finish_spec [simp]: "spec_of (count_finish e m, ws) = spec_of (m, ws)"
  by (simp add: count_finish_def split: option.split)

lemma count_finish_closed [simp]: "closed (count_finish e m) = closed m"
  by (simp add: count_finish_def split: option.split)

lemma spec_of_closed [simp]: "fst (spec_of (m, ws)) = closed m"
  by (simp add: spec_of_def)

lemma spec_of_pair: "spec_of (m, ws) = (closed m, snd (spec_of (m, ws)))"
  by (simp add: prod_eq_iff)

text \<open>The two outcomes of a delivery.\<close>

lemma finish_cases:
  assumes "sys_inv (m, ws)" "finish i r m = Some (e, m')"
  obtains (rejected) err where "e = Some err" "m' = m" "refused (closed m) (snd (spec_of (m, ws))) i err"
  | (filled) p w where "e = None" "\<not> closed m" "wait m i = Some p" "m' = fill p r m" "heap m p \<noteq> None"
      "snd (spec_of (m, ws)) i = Some (None, w)" "w = (if ws i = None then Unclaimed else Claimed)"
      "spec_of (m', ws) = (closed m, (snd (spec_of (m, ws)))(i \<mapsto> (Some r, w)))"
proof (cases "closed m")
  case True
  then have "e = Some (Sentinel (Tx ErrManagerClosed))" "m' = m"
    using assms(2) finish_eq [OF assms(1), of i r] by simp_all
  then show ?thesis using rejected True by (simp add: refused_def)
next
  case open_: False
  show ?thesis
  proof (cases "wait m i")
    case None
    then have "\<forall>w. snd (spec_of (m, ws)) i \<noteq> Some (None, w)"
      using live_ws [OF assms(1), of i] by (cases "ws i") (auto simp: spec_of_def live_def)
    moreover have "e = Some (errorf (Tx ErrUnknownTransaction) [Num (unat i)])" "m' = m"
      using assms(2) finish_eq [OF assms(1), of i r] open_ None by simp_all
    ultimately show ?thesis using rejected open_ by (simp add: refused_def)
  next
    case (Some p)
    from inv_wait [OF assms(1) Some] obtain pd where pd: "heap m p = Some pd" "p_ch pd = None \<longleftrightarrow> \<not> p_done pd"
      "ws i = None \<or> ws i = Some p" .
    show ?thesis
    proof (cases "p_done pd")
      case True
      then have "snd (spec_of (m, ws)) i \<noteq> Some (None, w)" for w
        using pd Some by (auto simp: spec_of_def)
      moreover have "e = Some (errorf (Tx ErrUnknownTransaction) [Num (unat i)])" "m' = m"
        using assms(2) finish_eq [OF assms(1), of i r] open_ Some pd True by simp_all
      ultimately show ?thesis using rejected open_ by (simp add: refused_def)
    next
      case False
      obtain w where w: "snd (spec_of (m, ws)) i = Some (None, w)"
          "spec_of (fill p r m, ws) = (closed m, (snd (spec_of (m, ws)))(i \<mapsto> (Some r, w)))"
        using fill_spec [OF assms(1) Some, of r] pd(1) False by auto
      moreover have "w = (if ws i = None then Unclaimed else Claimed)" using w(1) Some by (auto simp: spec_of_def split: option.splits)
      moreover have "e = None" "m' = fill p r m"
        using assms(2) finish_eq [OF assms(1), of i r] open_ Some pd False by simp_all
      ultimately show ?thesis using filled [of p w] open_ Some pd(1) by simp
    qed
  qed
qed

lemma finish_inv:
  assumes "sys_inv (m, ws)" "finish i r m = Some (e, m')"
  shows "sys_inv (m', ws)"
  using assms by (cases rule: finish_cases [OF assms]) (auto intro: fill_inv)

lemma complete_step:
  assumes "sys_inv (m, ws)" "Manager_Complete i env m = Some (e, m')"
  shows "sys_inv (m', ws) \<and> spec_step (spec_of (m, ws)) (EvComplete i env e) (spec_of (m', ws))"
proof -
  obtain m1 where m1: "finish i (env, None) m = Some (e, m1)" "m' = count_finish e m1"
    using assms(2) by (auto simp: Manager_Complete_def bind_eq_Some_conv)
  then have "sys_inv (m', ws)" using finish_inv [OF assms(1)] by simp
  moreover have "spec_step (spec_of (m, ws)) (EvComplete i env e) (spec_of (m', ws))"
    using assms(1) m1(1)
  proof (cases rule: finish_cases)
    case (rejected err)
    then show ?thesis using m1(2) by (subst (1 2) spec_of_pair) (simp add: spec_step.complete_refused)
  next
    case (filled p w)
    then show ?thesis using m1(2) by (subst spec_of_pair) (simp add: spec_step.complete)
  qed
  ultimately show ?thesis ..
qed

lemma fail_step:
  assumes "sys_inv (m, ws)" "Manager_Fail i err m = Some (e, m')"
  shows "sys_inv (m', ws) \<and> spec_step (spec_of (m, ws)) (EvFail i err e) (spec_of (m', ws))"
proof -
  obtain m1 where m1: "finish i (None, Some (fail_error err)) m = Some (e, m1)" "m' = count_finish e m1"
    using assms(2) by (auto simp: Manager_Fail_def Let_def bind_eq_Some_conv fail_error_def)
  then have "sys_inv (m', ws)" using finish_inv [OF assms(1)] by simp
  moreover have "spec_step (spec_of (m, ws)) (EvFail i err e) (spec_of (m', ws))"
    using assms(1) m1(1)
  proof (cases rule: finish_cases)
    case (rejected x)
    then show ?thesis using m1(2) by (subst (1 2) spec_of_pair) (simp add: spec_step.fail_refused)
  next
    case (filled p w)
    then show ?thesis using m1(2) by (subst spec_of_pair) (simp add: spec_step.fail)
  qed
  ultimately show ?thesis ..
qed


text \<open>\<open>Create\<close>: a fresh object under a free id.\<close>

lemma acquire_inv:
  assumes "sys_inv (m, ws)" "acquirable p m" "\<not> closed m" "wait m j = None" and wj: "ws j = None" and "m1 = m\<lparr>nextID := n\<rparr>"
    and "m' = (acquirePending p j m1)\<lparr>wait := (wait m)(j \<mapsto> p), met := x\<rparr>"
    and "c_pending x = int (card (dom ((wait m)(j \<mapsto> p))))"
  shows "sys_inv (m', ws) \<and> spec_of (m', ws) = (False, (snd (spec_of (m, ws)))(j \<mapsto> (None, Unclaimed)))"
proof -
  have unused: "wait m i \<noteq> Some p" "ws i \<noteq> Some p" for i
    using live_wait [OF assms(1), of i p] live_ws [OF assms(1), of i p] assms(2)
    by (auto simp: live_def acquirable_def)
  have heap': "heap m' = (heap m)(p \<mapsto> \<lparr>p_id = j, p_ch = None, p_done = False, p_waiting = False\<rparr>)"
    and rest: "wait m' = (wait m)(j \<mapsto> p)" "closed m' = closed m" "pool m' = remove1 p (pool m)" "met m' = x"
    by (simp_all add: assms(6,7) acquirePending_def)
  have keep: "live m' i q" if "live m i q" "q \<noteq> p" for i q
    using that by (auto simp: live_def heap' rest dest: notin_set_remove1)
  have "live m' j p"
    using assms(1) by (auto simp: live_def heap' rest sys_inv_def)
  have "sys_inv (m', ws)"
  proof (rule sys_invI)
    show "live m' i q \<and> (p_waiting (obj m' q) \<longleftrightarrow> ws i = Some q)" if "wait m' i = Some q" for i q
      using that live_wait [OF assms(1), of i q] keep [of i q] \<open>live m' j p\<close> unused [of i] wj
      by (cases "i = j") (auto simp: rest heap')
    show "live m' i q \<and> (wait m' i = Some q \<or> wait m' i = None \<and> p_done (obj m' q))" if "ws i = Some q" for i q
      using that live_ws [OF assms(1) that] keep [of i q] unused [of i] wj assms(3)
      by (cases "i = j") (auto simp: rest heap')
    show "heap m' q \<noteq> None" if "q \<in> set (pool m')" for q
      using that inv_basic(5) [OF assms(1), of q] by (auto simp: rest heap' dest: notin_set_remove1)
  qed (use inv_basic [OF assms(1)] assms(3,8) in \<open>auto simp: rest heap'\<close>)
  moreover have "spec_of (m', ws) = (False, (snd (spec_of (m, ws)))(j \<mapsto> (None, Unclaimed)))"
    using assms(3) unused wj by (auto simp: spec_of_def fun_eq_iff rest heap' map_option_case split: option.split)
  ultimately show ?thesis ..
qed

lemma create_fresh:
  assumes "Manager_Create p i m = Some (r, m')" "\<not> closed m" "\<not> (i \<noteq> 0 \<and> wait m i \<noteq> None)"
  shows "\<exists>j n x. wait m j = None \<and> (i = 0 \<or> j = i) \<and> r = Inr j \<and>
    m' = (acquirePending p j (m\<lparr>nextID := n\<rparr>))\<lparr>wait := (wait m)(j \<mapsto> p), met := x\<rparr> \<and>
    c_pending x = int (card (dom ((wait m)(j \<mapsto> p))))"
proof (cases "i = 0")
  case True
  then obtain n where n: "next_free (wait m) (nextID m) = Some n"
    using assms by (auto simp: Manager_Create_def bind_eq_Some_conv)
  then show ?thesis using assms True next_free_free [OF n]
    by (intro exI [of _ n])
       (auto simp: Manager_Create_def Let_def acquirePending_def intro!: exI [of _ n])
next
  case False
  then show ?thesis using assms
    by (intro exI [of _ i] exI [of _ "nextID m"])
       (auto simp: Manager_Create_def Let_def acquirePending_def)
qed

lemma create_step:
  assumes "sys_inv (m, ws)" "acquirable p m" "Manager_Create p i m = Some (r, m')"
    and fresh: "\<forall>j. r = Inr j \<longrightarrow> ws j = None"
  shows "sys_inv (m', ws) \<and> spec_step (spec_of (m, ws)) (EvCreate i r) (spec_of (m', ws))"
proof (cases "closed m")
  case True
  then show ?thesis using assms
    by (auto simp: Manager_Create_def spec_of_def intro: spec_step.create_closed)
next
  case open_: False
  show ?thesis
  proof (cases "i \<noteq> 0 \<and> wait m i \<noteq> None")
    case True
    then have "snd (spec_of (m, ws)) i \<noteq> None" by (auto simp: spec_of_def split: option.split)
    then show ?thesis using assms(1,3) open_ True
      by (subst (1 2) spec_of_pair) (auto simp: Manager_Create_def intro: spec_step.create_exists)
  next
    case False
    then obtain j n x where j: "wait m j = None" "i = 0 \<or> j = i" "r = Inr j"
      "m' = (acquirePending p j (m\<lparr>nextID := n\<rparr>))\<lparr>wait := (wait m)(j \<mapsto> p), met := x\<rparr>"
      "c_pending x = int (card (dom ((wait m)(j \<mapsto> p))))"
      using assms(3) open_ create_fresh [OF assms(3) open_ False] by blast
    have wj: "ws j = None" using fresh j(3) by simp
    then have "snd (spec_of (m, ws)) j = None" using j(1) by (simp add: spec_of_def)
    then show ?thesis
      using acquire_inv [OF assms(1,2) open_ j(1) wj refl j(4,5)] j(2,3) open_
      by (subst spec_of_pair) (auto intro: spec_step.create)
  qed
qed


text \<open>\<open>Wait\<close> up to its \<open>select\<close>.\<close>

lemma claim_inv:
  assumes "sys_inv (m, ws)" "wait m i = Some p" "ws i = None"
    and "m' = m\<lparr>heap := (heap m)(p \<mapsto> (obj m p)\<lparr>p_waiting := True\<rparr>)\<rparr>"
  shows "sys_inv (m', ws(i \<mapsto> p)) \<and>
    spec_of (m', ws(i \<mapsto> p)) = (closed m, (snd (spec_of (m, ws)))(i \<mapsto> (p_ch (obj m p), Claimed)))"
proof -
  have lv: "live m' j q \<longleftrightarrow> live m j q" for j q
    using live_wait [OF assms(1,2)] by (auto simp: live_def assms(4))
  have rest: "wait m' = wait m" "closed m' = closed m" "pool m' = pool m" "met m' = met m"
    "p_waiting (obj m' q) = (q = p \<or> p_waiting (obj m q))" "p_done (obj m' q) = p_done (obj m q)"
    "p_ch (obj m' q) = p_ch (obj m q)" for q
    by (auto simp: assms(4))
  have "sys_inv (m', ws(i \<mapsto> p))"
  proof (rule sys_invI)
    show "live m' j q \<and> (p_waiting (obj m' q) \<longleftrightarrow> (ws(i \<mapsto> p)) j = Some q)" if "wait m' j = Some q" for j q
      using that live_wait [OF assms(1), of j q] wait_inj [OF assms(1,2), of j] assms(2)
      by (auto simp: rest lv)
    show "live m' j q \<and> (wait m' j = Some q \<or> wait m' j = None \<and> p_done (obj m' q))"
      if "(ws(i \<mapsto> p)) j = Some q" for j q
      using that live_ws [OF assms(1), of j q] live_wait [OF assms(1,2)] assms(2)
      by (auto simp: rest lv split: if_splits)
    show "heap m' q \<noteq> None" if "q \<in> set (pool m')" for q
      using that inv_basic(5) [OF assms(1), of q] by (auto simp: assms(4))
  qed (use inv_basic [OF assms(1)] in \<open>auto simp: rest assms(4)\<close>)
  then show ?thesis by (auto simp: spec_of_def fun_eq_iff rest assms(2) map_option_case split: option.split)
qed

lemma Wait_begin_eq:
  assumes "sys_inv (m, ws)" "wait m i = Some p"
  shows "Wait_begin i m =
    (if ws i = None then Some (Inr p, m\<lparr>heap := (heap m)(p \<mapsto> (obj m p)\<lparr>p_waiting := True\<rparr>)\<rparr>)
     else Some (Inl (errorf (Tx ErrInvalidTransaction) [Lit ''wait already in progress'']), m))"
proof -
  from inv_wait [OF assms] obtain pd where pd: "heap m p = Some pd" "p_waiting pd \<longleftrightarrow> ws i = Some p"
    "ws i = None \<or> ws i = Some p" "\<not> closed m" .
  have "m\<lparr>heap := (heap m)(p \<mapsto> pd)\<rparr> = m" using pd(1) by (simp add: fun_upd_idem)
  then show ?thesis using pd assms(2) by (auto simp: Wait_begin_def p_claimWait_def)
qed

lemma Wait_begin_none:
  assumes "sys_inv (m, ws)" "wait m i = None"
  shows "Wait_begin i m =
    Some (Inl (if closed m then Sentinel (Tx ErrManagerClosed)
               else errorf (Tx ErrUnknownTransaction) [Num (unat i)]), m)"
  using assms by (simp add: Wait_begin_def)

lemma wait_ok_step:
  assumes "sys_inv (m, ws)" "Wait_begin i m = Some (Inr p, m')"
  shows "sys_inv (m', ws(i \<mapsto> p)) \<and> spec_step (spec_of (m, ws)) (EvWait i None) (spec_of (m', ws(i \<mapsto> p)))"
proof -
  obtain q where q: "wait m i = Some q"
    using assms Wait_begin_none [OF assms(1), of i] by (cases "wait m i") auto
  then have claim: "ws i = None" "p = q" "m' = m\<lparr>heap := (heap m)(p \<mapsto> (obj m p)\<lparr>p_waiting := True\<rparr>)\<rparr>"
    using assms(2) Wait_begin_eq [OF assms(1) q] by (auto split: if_splits)
  then have "snd (spec_of (m, ws)) i = Some (p_ch (obj m p), Unclaimed)"
    using q by (simp add: spec_of_def)
  then show ?thesis
    using claim_inv [OF assms(1) q claim(1)] claim live_wait [OF assms(1) q]
    by (subst spec_of_pair) (auto intro: spec_step.wait)
qed

lemma wait_err_step:
  assumes "sys_inv (m, ws)" "Wait_begin i m = Some (Inl e, m')"
  shows "m' = m \<and> spec_step (spec_of (m, ws)) (EvWait i (Some e)) (spec_of (m, ws))"
proof (cases "wait m i")
  case None
  then have "m' = m" "e = (if closed m then Sentinel (Tx ErrManagerClosed)
               else errorf (Tx ErrUnknownTransaction) [Num (unat i)])"
    using assms(2) Wait_begin_none [OF assms(1), of i] None by (auto split: if_splits)
  moreover have "\<forall>r w. snd (spec_of (m, ws)) i = Some (r, w) \<longrightarrow> w = Detached"
    using None by (cases "ws i") (auto simp: spec_of_def)
  ultimately show ?thesis
    by (subst (1 2) spec_of_pair) (auto intro: spec_step.wait_closed spec_step.wait_unknown)
next
  case (Some p)
  then have "m' = m" "err_is (Tx ErrInvalidTransaction) e" "ws i \<noteq> None"
    using assms(2) Wait_begin_eq [OF assms(1) Some] by (auto split: if_splits)
  moreover from this have "snd (spec_of (m, ws)) i = Some (p_ch (obj m (the (ws i))), Claimed)"
    using Some by (auto simp: spec_of_def)
  ultimately show ?thesis using live_wait [OF assms(1) Some]
    by (subst (1 2) spec_of_pair) (auto intro: spec_step.wait_twice)
qed

text \<open>\<open>Cancel\<close>: after the delivery the id goes; an object in \<open>Wait\<close> is left to its waiter.\<close>

lemma remove_inv:
  assumes "sys_inv (m, ws)" "\<And>p. ws i = Some p \<Longrightarrow> p_done (obj m p)"
  shows "sys_inv (remove i m, ws) \<and> spec_of (remove i m, ws) = (closed m, detach i (snd (spec_of (m, ws))))"
proof -
  have rest: "wait (remove i m) = (wait m)(i := None)" "closed (remove i m) = closed m"
    "pool (remove i m) = pool m" "heap (remove i m) = heap m"
    "c_pending (met (remove i m)) = int (card (dom ((wait m)(i := None))))"
    by (simp_all add: remove_def Let_def)
  have lv: "live (remove i m) j q \<longleftrightarrow> live m j q" for j q by (simp add: live_def rest)
  have "sys_inv (remove i m, ws)"
  proof (rule sys_invI)
    show "live (remove i m) j q \<and> (p_waiting (obj (remove i m) q) \<longleftrightarrow> ws j = Some q)"
      if "wait (remove i m) j = Some q" for j q
      using that live_wait [OF assms(1), of j q] by (auto simp: rest lv split: if_splits)
    show "live (remove i m) j q \<and>
        (wait (remove i m) j = Some q \<or> wait (remove i m) j = None \<and> p_done (obj (remove i m) q))"
      if "ws j = Some q" for j q
      using that live_ws [OF assms(1), of j q] assms(2) [of q] by (auto simp: rest lv)
  qed (use inv_basic [OF assms(1)] in \<open>auto simp: rest\<close>)
  moreover have "snd (spec_of (remove i m, ws)) j = detach i (snd (spec_of (m, ws))) j" for j
    by (cases "ws i"; cases "wait m i"; cases "j = i") (auto simp: spec_of_def rest detach_def map_option_case split: option.split)
  ultimately show ?thesis by (auto simp: spec_of_def rest)
qed

lemma finish_done:
  assumes "sys_inv (m, ws)" "finish i r m = Some (e, m')" "ws i = Some p"
  shows "p_done (obj m' p)"
  using assms(1,2)
proof (cases rule: finish_cases)
  case (rejected err)
  with live_ws [OF assms(1,3)] assms(3) show ?thesis
    by (auto simp: refused_def spec_of_def live_def)
next
  case (filled q w)
  then have "q = p" using live_ws [OF assms(1,3)] by auto
  then show ?thesis using filled by (simp add: fill_def)
qed

lemma cancel_step:
  assumes "sys_inv (m, ws)" "Manager_Cancel i m = Some (e, m')"
  shows "sys_inv (m', ws) \<and> spec_step (spec_of (m, ws)) (EvCancel i e) (spec_of (m', ws))"
proof -
  obtain m1 where m1: "finish i canceled_result m = Some (e, m1)" "m' = remove i m1"
    using assms(2) by (auto simp: Manager_Cancel_def bind_eq_Some_conv canceled_result_def)
  note rem = remove_inv [OF finish_inv [OF assms(1) m1(1)] finish_done [OF assms(1) m1(1)]]
  have "spec_step (spec_of (m, ws)) (EvCancel i e) (spec_of (m', ws))"
    using assms(1) m1(1)
  proof (cases rule: finish_cases)
    case (rejected err)
    then show ?thesis using m1(2) rem
      by (subst spec_of_pair) (auto intro: spec_step.cancel_refused)
  next
    case (filled p w)
    then show ?thesis using m1(2) rem
      by (subst spec_of_pair) (auto intro: spec_step.cancel)
  qed
  then show ?thesis using rem m1(2) by simp
qed


text \<open>The end of \<open>Wait\<close>: the object leaves the map and goes to the pool.\<close>

lemma recv_inv:
  assumes "sys_inv (m, ws)" "ws i = Some p"
    and "m' = releasePending p (remove i (m\<lparr>heap := (heap m)(p \<mapsto> x)\<rparr>))"
  shows "sys_inv (m', ws(i := None)) \<and>
    spec_of (m', ws(i := None)) = (closed m, (snd (spec_of (m, ws)))(i := None))"
proof -
  have heap': "heap m' = (heap m)(p \<mapsto> \<lparr>p_id = 0, p_ch = None, p_done = False, p_waiting = False\<rparr>)"
    and rest: "wait m' = (wait m)(i := None)" "closed m' = closed m" "pool m' = p # pool m"
      "c_pending (met m') = int (card (dom ((wait m)(i := None))))"
    by (simp_all add: assms(3) releasePending_def remove_def Let_def)
  have p: "live m i p" "p \<notin> set (pool m)" "wait m i = Some p \<or> wait m i = None"
    using live_ws [OF assms(1,2)] by (auto simp: live_def)
  have unused: "wait m j \<noteq> Some p" "ws j \<noteq> Some p" if "j \<noteq> i" for j
    using live_wait [OF assms(1), of j p] live_ws [OF assms(1), of j p] p(1) live_id that by blast+
  have keep: "live m' j q" if "live m j q" "q \<noteq> p" for j q
    using that by (auto simp: live_def heap' rest)
  have "sys_inv (m', ws(i := None))"
  proof (rule sys_invI)
    show "live m' j q \<and> (p_waiting (obj m' q) \<longleftrightarrow> (ws(i := None)) j = Some q)" if "wait m' j = Some q" for j q
      using that live_wait [OF assms(1), of j q] keep [of j q] unused(1) [of j]
      by (auto simp: rest heap' split: if_splits)
    show "live m' j q \<and> (wait m' j = Some q \<or> wait m' j = None \<and> p_done (obj m' q))"
      if "(ws(i := None)) j = Some q" for j q
      using that live_ws [OF assms(1), of j q] keep [of j q] unused(2) [of j]
      by (auto simp: rest heap' split: if_splits)
    show "heap m' q \<noteq> None" if "q \<in> set (pool m')" for q
      using that inv_basic(5) [OF assms(1), of q] by (auto simp: rest heap')
  qed (use inv_basic [OF assms(1)] p(2) in \<open>auto simp: rest heap'\<close>)
  moreover have "snd (spec_of (m', ws(i := None))) j = ((snd (spec_of (m, ws)))(i := None)) j" for j
    using unused [of j] by (cases "j = i") (auto simp: spec_of_def rest heap' map_option_case split: option.split)
  ultimately show ?thesis by (auto simp: spec_of_def rest)
qed

lemma Wait_recv_eq:
  "Wait_recv i p m = Some (r, m') \<longleftrightarrow>
   (\<exists>pd. heap m p = Some pd \<and> p_ch pd = Some r \<and>
         m' = releasePending p (remove i (m\<lparr>heap := (heap m)(p \<mapsto> pd\<lparr>p_ch := None\<rparr>)\<rparr>)))"
  by (cases r) (auto simp: Wait_recv_def bind_eq_Some_conv)

lemma return_step:
  assumes "sys_inv (m, ws)" "ws i = Some p" "Wait_recv i p m = Some (r, m')"
  shows "sys_inv (m', ws(i := None)) \<and>
    (\<exists>w. w \<noteq> Unclaimed \<and> snd (spec_of (m, ws)) i = Some (Some r, w)) \<and>
    spec_of (m', ws(i := None)) = (closed m, (snd (spec_of (m, ws)))(i := None))"
proof -
  obtain pd where pd: "heap m p = Some pd" "p_ch pd = Some r"
    "m' = releasePending p (remove i (m\<lparr>heap := (heap m)(p \<mapsto> pd\<lparr>p_ch := None\<rparr>)\<rparr>))"
    using assms(3) by (auto simp: Wait_recv_eq)
  then show ?thesis using recv_inv [OF assms(1,2) pd(3)] assms(2) by (simp add: spec_of_def)
qed

lemma expire_step:
  assumes "sys_inv (m, ws)" "ws i = Some p" "Wait_ctx i p cause m = Some (r, m')"
  shows "sys_inv (m', ws(i := None)) \<and>
    spec_step (spec_of (m, ws)) (EvExpire i cause r) (spec_of (m', ws(i := None)))"
proof -
  define m1 where "m1 = (if cause = DeadlineExceeded
      then m\<lparr>met := (met m)\<lparr>c_timeout := c_timeout (met m) + 1\<rparr>\<rparr> else m)"
  have inv1: "sys_inv (m1, ws)" and spec1: "spec_of (m1, ws) = spec_of (m, ws)"
    using assms(1) by (simp_all add: m1_def met_inv)
  obtain e m2 where m2: "finish i (None, Some (Sentinel (Context cause))) m1 = Some (e, m2)"
      "Wait_recv i p m2 = Some (r, m')"
    using assms(3) by (auto simp: Wait_ctx_def Let_def m1_def [symmetric] bind_eq_Some_conv)
  note step = return_step [OF finish_inv [OF inv1 m2(1)] assms(2) m2(2)]
  have w: "\<exists>x w. snd (spec_of (m, ws)) i = Some (x, w) \<and> w \<noteq> Unclaimed" using assms(2) by (simp add: spec_of_def)
  have slot: "\<exists>x w. snd (spec_of (m, ws)) i = Some (x, w) \<and> w \<noteq> Unclaimed \<and>
      r = (case x of None \<Rightarrow> (None, Some (Sentinel (Context cause))) | Some r' \<Rightarrow> r') \<and>
      spec_of (m', ws(i := None)) = (closed m, (snd (spec_of (m, ws)))(i := None))"
    using inv1 m2(1)
  proof (cases rule: finish_cases)
    case (rejected err)
    then have "\<exists>w. w \<noteq> Unclaimed \<and> snd (spec_of (m, ws)) i = Some (Some r, w)" using step spec1 by simp
    moreover have "closed m1 = closed m" by (simp add: m1_def)
    ultimately show ?thesis using step spec1 rejected by auto
  next
    case (filled q v)
    then have "\<exists>w. w \<noteq> Unclaimed \<and> snd (spec_of (m, ws)) i = Some (None, w)" using w spec1 by auto
    moreover have "closed m1 = closed m" by (simp add: m1_def)
    moreover have "r = (None, Some (Sentinel (Context cause)))" using step filled(8) by simp
    moreover have "closed m2 = closed m1" using filled by simp
    ultimately show ?thesis using step filled(8) spec1 by auto
  qed
  then have "spec_step (spec_of (m, ws)) (EvExpire i cause r) (spec_of (m', ws(i := None)))"
    by (subst spec_of_pair) (auto intro: spec_step.expire)
  then show ?thesis using step by blast
qed


text \<open>\<open>Close\<close> fills every object of the map that is not filled.\<close>

lemma deliver_all_eq:
  assumes "\<forall>p \<in> set ps. \<exists>pd. heap m p = Some pd \<and> (p_ch pd = None \<longleftrightarrow> \<not> p_done pd)"
  shows "deliver_all ps r m = Some (m\<lparr>heap := \<lambda>q.
    if q \<in> set ps \<and> \<not> p_done (obj m q) then Some ((obj m q)\<lparr>p_done := True, p_ch := Some r\<rparr>) else heap m q\<rparr>)"
  using assms
proof (induction ps arbitrary: m)
  case (Cons p ps)
  obtain pd where pd: "heap m p = Some pd" "p_ch pd = None \<longleftrightarrow> \<not> p_done pd" using Cons.prems by auto
  show ?case
  proof (cases "p_done pd")
    case True
    then show ?thesis
      using Cons.IH [of m] Cons.prems pd by (auto simp: tryDeliver_eq fun_eq_iff intro: arg_cong)
  next
    case False
    have "deliver_all ps r (fill p r m) = Some ((fill p r m)\<lparr>heap := \<lambda>q.
        if q \<in> set ps \<and> \<not> p_done (obj (fill p r m) q)
        then Some ((obj (fill p r m) q)\<lparr>p_done := True, p_ch := Some r\<rparr>) else heap (fill p r m) q\<rparr>)"
      by (rule Cons.IH) (use Cons.prems in \<open>auto simp: fill_def\<close>)
    moreover have "(fill p r m)\<lparr>heap := h\<rparr> = m\<lparr>heap := h\<rparr>" for h by (simp add: fill_def)
    moreover have "(\<lambda>q. if q \<in> set ps \<and> \<not> p_done (obj (fill p r m) q)
        then Some ((obj (fill p r m) q)\<lparr>p_done := True, p_ch := Some r\<rparr>) else heap (fill p r m) q) =
      (\<lambda>q. if q \<in> set (p # ps) \<and> \<not> p_done (obj m q)
        then Some ((obj m q)\<lparr>p_done := True, p_ch := Some r\<rparr>) else heap m q)"
      using pd False by (auto simp: fill_def fun_eq_iff)
    ultimately show ?thesis using pd False by (simp add: tryDeliver_eq)
  qed
qed simp

lemma close_eq:
  assumes "sys_inv (m, ws)" "is_order (wait m) order" "\<not> closed m"
  shows "Manager_Close order m = Some (m\<lparr>closed := True, wait := Map.empty, met := (met m)\<lparr>c_pending := 0\<rparr>,
    heap := \<lambda>q. if q \<in> ran (wait m) \<and> \<not> p_done (obj m q)
                then Some ((obj m q)\<lparr>p_done := True, p_ch := Some closed_result\<rparr>) else heap m q\<rparr>)"
proof -
  have "set (List.map_filter (wait m) order) = ran (wait m)"
    using assms(2) by (auto simp: map_filter_set is_order_def ran_def)
  moreover have "\<forall>p \<in> ran (wait m). \<exists>pd. heap m p = Some pd \<and> (p_ch pd = None \<longleftrightarrow> \<not> p_done pd)"
  proof
    fix p assume "p \<in> ran (wait m)"
    then obtain i where "wait m i = Some p" by (auto simp: ran_def)
    from live_wait [OF assms(1) this]
    show "\<exists>pd. heap m p = Some pd \<and> (p_ch pd = None \<longleftrightarrow> \<not> p_done pd)" by (auto simp: live_def)
  qed
  ultimately show ?thesis using assms(3)
    by (simp add: Manager_Close_def Let_def closed_result_def deliver_all_eq cong: if_cong)
qed

lemma close_step:
  assumes "sys_inv (m, ws)" "is_order (wait m) order" "Manager_Close order m = Some m'"
  shows "sys_inv (m', ws) \<and> spec_step (spec_of (m, ws)) EvClose (spec_of (m', ws))"
proof (cases "closed m")
  case True
  then have "m' = m" using assms(3) by (simp add: Manager_Close_def)
  moreover have "spec_step (True, snd (spec_of (m, ws))) EvClose (True, snd (spec_of (m, ws)))"
    using spec_step.close [of True] by simp
  ultimately show ?thesis using assms(1) True spec_of_pair [of m ws] by simp
next
  case open_: False
  have rest: "closed m'" "wait m' = Map.empty" "pool m' = pool m" "c_pending (met m') = 0"
    and heap': "heap m' = (\<lambda>q. if q \<in> ran (wait m) \<and> \<not> p_done (obj m q)
      then Some ((obj m q)\<lparr>p_done := True, p_ch := Some closed_result\<rparr>) else heap m q)"
    using assms(3) close_eq [OF assms(1,2) open_] by auto
  have lv: "live m' j q" if "live m j q" for j q using that by (auto simp: live_def rest heap')
  have "sys_inv (m', ws)"
  proof (rule sys_invI)
    show "live m' j q \<and> (wait m' j = Some q \<or> wait m' j = None \<and> p_done (obj m' q))" if "ws j = Some q" for j q
      using lv [of j q] live_ws [OF assms(1) that] by (auto simp: rest heap' ran_def)
    show "heap m' q \<noteq> None" if "q \<in> set (pool m')" for q
      using that inv_basic(5) [OF assms(1), of q] by (auto simp: rest heap')
    have "dom (heap m') \<subseteq> dom (heap m) \<union> ran (wait m)" by (auto simp: heap' split: if_splits)
    then show "finite (dom (heap m'))"
      using inv_basic(1,6) [OF assms(1)] by (meson finite_UnI finite_ran finite_subset)
  qed (use inv_basic [OF assms(1)] in \<open>auto simp: rest\<close>)
  moreover have slots: "snd (spec_of (m', ws)) j = close_slots (snd (spec_of (m, ws))) j" for j
  proof (cases "ws j")
    case None
    then show ?thesis by (cases "wait m j") (simp_all add: spec_of_def close_slots_def rest)
  next
    case (Some q)
    from inv_waiter [OF assms(1) Some] obtain pd
      where "heap m q = Some pd" "p_ch pd = None \<longleftrightarrow> \<not> p_done pd"
        "wait m j = Some q \<and> \<not> closed m \<or> wait m j = None \<and> p_done pd" .
    then show ?thesis using Some
      by (cases "p_ch pd") (auto simp: spec_of_def close_slots_def heap' rest ran_def)
  qed
  moreover have "snd (spec_of (m', ws)) = close_slots (snd (spec_of (m, ws)))" by (rule ext) (rule slots)
  ultimately show ?thesis using open_ spec_step.close [of False "snd (spec_of (m, ws))"]
    by (subst (1 2) spec_of_pair) (simp add: rest)
qed

lemma step_refines:
  assumes "mgr_step s ev s'" "sys_inv s"
  shows "sys_inv s' \<and> spec_step (spec_of s) ev (spec_of s')"
  using assms
proof (cases rule: mgr_step.cases)
  case (return ws i p m r m')
  then show ?thesis using return_step [of m ws i p r m'] assms(2)
    by (metis spec_of_pair spec_step.return)
qed (use assms(2) in \<open>auto dest: create_step wait_ok_step wait_err_step complete_step fail_step
      cancel_step close_step expire_step\<close>)

lemma run_inv: "mgr_run s evs s' \<Longrightarrow> sys_inv s \<Longrightarrow> sys_inv s'"
  by (induction rule: mgr_run.induct) (auto dest: step_refines)

lemma idle_run_inv: "mgr_run idle evs s \<Longrightarrow> sys_inv s"
  using run_inv sys_inv_idle by blast

lemma wait_ctx_returns:
  assumes "sys_inv (m, ws)" "ws i = Some p"
  shows "\<exists>m'. Wait_ctx i p cause m =
    Some (case p_ch (obj m p) of None \<Rightarrow> (None, Some (Sentinel (Context cause))) | Some r \<Rightarrow> r, m') \<and>
    wait m' i = None"
proof -
  define m1 where "m1 = (if cause = DeadlineExceeded
      then m\<lparr>met := (met m)\<lparr>c_timeout := c_timeout (met m) + 1\<rparr>\<rparr> else m)"
  have inv1: "sys_inv (m1, ws)" and same: "heap m1 = heap m" "wait m1 = wait m" "closed m1 = closed m"
    using assms(1) by (simp_all add: m1_def met_inv)
  from inv_waiter [OF assms] obtain pd where pd: "heap m p = Some pd" "p_ch pd = None \<longleftrightarrow> \<not> p_done pd"
    "wait m i = Some p \<and> \<not> closed m \<or> wait m i = None \<and> p_done pd" .
  have fin: "finish i r m1 = Some (if p_done pd then (Some (if closed m then Sentinel (Tx ErrManagerClosed)
      else errorf (Tx ErrUnknownTransaction) [Num (unat i)]), m1) else (None, fill p r m1))" for r
    using finish_eq [OF inv1, of i r] pd same by auto
  show ?thesis
    using pd same by (cases "p_ch pd")
      (auto simp: Wait_ctx_def Let_def m1_def [symmetric] fin Wait_recv_def fill_def releasePending_def remove_def)
qed

lemma close_result:
  assumes "sys_inv (m, ws)" "is_order (wait m) order" "Manager_Close order m = Some m'" "ws i = Some p"
  shows "p_ch (obj m' p) = Some (case p_ch (obj m p) of None \<Rightarrow> closed_result | Some r \<Rightarrow> r)"
proof -
  from inv_waiter [OF assms(1,4)] obtain pd where pd: "heap m p = Some pd" "p_ch pd = None \<longleftrightarrow> \<not> p_done pd"
    "wait m i = Some p \<and> \<not> closed m \<or> wait m i = None \<and> p_done pd" .
  show ?thesis
  proof (cases "closed m")
    case True
    then have "m' = m" using assms(3) by (simp add: Manager_Close_def)
    then show ?thesis using pd True by (cases "p_ch pd") auto
  next
    case False
    have "p_done pd \<or> p \<in> ran (wait m)" using pd(3) by (auto simp: ran_def)
    then show ?thesis using assms(3) close_eq [OF assms(1,2) False] pd(1,2)
      by (cases "p_ch pd") auto
  qed
qed

section \<open>Correlation\<close>

text \<open>
  \<open>completed_since i env evs\<close>: the history completes \<open>i\<close> with \<open>env\<close> after the last creation of \<open>i\<close>.
\<close>

definition completed_since :: "u64 \<Rightarrow> envelope \<Rightarrow> mgr_event list \<Rightarrow> bool" where
  "completed_since i env evs \<longleftrightarrow>
     (\<exists>pre post. evs = pre @ EvComplete i (Some env) None # post \<and> (\<forall>j. EvCreate j (Inr i) \<notin> set post))"

lemma completed_snoc:
  "completed_since i env evs \<Longrightarrow> (\<And>j. ev \<noteq> EvCreate j (Inr i)) \<Longrightarrow> completed_since i env (evs @ [ev])"
  unfolding completed_since_def
proof (elim exE conjE)
  fix pre post
  assume "evs = pre @ EvComplete i (Some env) None # post" "\<forall>j. EvCreate j (Inr i) \<notin> set post"
    and ev: "\<And>j. ev \<noteq> EvCreate j (Inr i)"
  then have "evs @ [ev] = pre @ EvComplete i (Some env) None # (post @ [ev])"
    "\<forall>j. EvCreate j (Inr i) \<notin> set (post @ [ev])" using not_sym [OF ev] by simp_all
  then show "\<exists>pre post. evs @ [ev] = pre @ EvComplete i (Some env) None # post \<and>
      (\<forall>j. EvCreate j (Inr i) \<notin> set post)" by blast
qed

lemma completed_now: "completed_since i env (evs @ [EvComplete i (Some env) None])"
  unfolding completed_since_def by (rule exI [of _ evs], rule exI [of _ "[]"]) simp

definition slot_env :: "slots \<Rightarrow> u64 \<Rightarrow> envelope \<Rightarrow> bool" where
  "slot_env sl i env \<longleftrightarrow> (\<exists>e w. sl i = Some (Some (Some env, e), w))"

lemma slot_env_upd [simp]:
  "slot_env (sl(j \<mapsto> (r, w))) i env \<longleftrightarrow> (if i = j then \<exists>e. r = Some (Some env, e) else slot_env sl i env)"
  "slot_env (sl(j := None)) i env \<longleftrightarrow> i \<noteq> j \<and> slot_env sl i env"
  by (simp_all add: slot_env_def)

lemma slot_env_close: "slot_env (close_slots sl) i env \<Longrightarrow> slot_env sl i env"
  by (cases "sl i") (auto simp: slot_env_def close_slots_def closed_result_def split: claim.splits option.splits)

lemma detach_at: "detach i sl i = None \<or> (\<exists>r. detach i sl i = Some (r, Detached))"
  by (auto simp: detach_def split: claim.splits option.splits)

lemma slot_env_detach: "slot_env (detach j sl) i env \<Longrightarrow> slot_env sl i env"
  by (auto simp: slot_env_def detach_def split: claim.splits option.splits if_splits)

lemma slot_env_cancel:
  "slot_env (detach j (sl(j \<mapsto> (Some canceled_result, w)))) i env \<Longrightarrow> slot_env sl i env"
  by (drule slot_env_detach) (simp add: canceled_result_def split: if_splits)

lemma slot_env_claim: "sl i = Some (r, w) \<Longrightarrow> slot_env sl i env \<longleftrightarrow> (\<exists>e. r = Some (Some env, e))"
  by (auto simp: slot_env_def)

lemma slot_env_step:
  assumes "spec_step s ev s'" "slot_env (snd s') i env"
  shows "slot_env (snd s) i env \<and> (\<forall>j. ev \<noteq> EvCreate j (Inr i)) \<or> ev = EvComplete i (Some env) None"
  using assms
  by (cases rule: spec_step.cases)
     (auto simp: slot_env_claim dest: slot_env_close slot_env_detach slot_env_cancel split: if_splits)

lemma slot_env_origin:
  assumes "mgr_run idle evs s" "slot_env (snd (spec_of s)) i env"
  shows "completed_since i env evs"
proof -
  have "mgr_run s0 evs s \<Longrightarrow> s0 = idle \<Longrightarrow> slot_env (snd (spec_of s)) i env \<Longrightarrow> completed_since i env evs" for s0
  proof (induction rule: mgr_run.induct)
    case (nil s)
    then show ?case by (simp add: slot_env_def spec_of_def idle_def NewManager_def)
  next
    case (snoc s evs s1 ev s2)
    then have "sys_inv s1" using idle_run_inv by simp
    then have "spec_step (spec_of s1) ev (spec_of s2)" using step_refines snoc.hyps(2) by blast
    from slot_env_step [OF this snoc.prems(2)] snoc.IH [OF snoc.prems(1)] show ?case
      by (auto intro: completed_snoc completed_now)
  qed
  then show ?thesis using assms by blast
qed

section \<open>What the manager guarantees\<close>

text \<open>
  C8: The manager implements the abstract service: from a fresh manager, in every interleaving of
  whole calls of \<open>Create\<close>, \<open>Complete\<close>, \<open>Fail\<close>, \<open>Cancel\<close> and \<open>Close\<close> with the two halves of \<open>Wait\<close>
  (\<open>Cancel\<close> and \<open>Close\<close> during a \<open>Wait\<close> included) in which no id is created anew while a \<open>Wait\<close> on its
  last use has not returned, each call changes the slots and answers exactly as the service allows:
  ids are fresh, the first of \<open>Complete\<close>, \<open>Fail\<close>, \<open>Cancel\<close>, \<open>Close\<close> and an expired context fills a
  slot and every later one is refused, and a finished \<open>Wait\<close> empties it.
\<close>

theorem manager_refines_service:
  assumes "mgr_run idle evs s" "mgr_step s ev s'"
  shows "spec_step (spec_of s) ev (spec_of s')"
  using step_refines [OF assms(2) idle_run_inv [OF assms(1)]] by simp

text \<open>
  C9: Correlation of atomic calls: when the calls run one after the other (only a \<open>Wait\<close> blocks in
  between) and no id is created anew while a \<open>Wait\<close> on its last use has not returned, the envelope a
  \<open>Wait\<close> returns was accepted by a \<open>Complete\<close> with the waiter's own id, after that id was last
  created.  Calls split at their locks do not have this property: \<open>misdelivery_reachable\<close> in \<open>TxRace\<close>.
\<close>

theorem response_correlated:
  assumes "mgr_run idle evs s"
    and "mgr_step s (EvReturn i (Some env, e)) s' \<or> mgr_step s (EvExpire i cause (Some env, e)) s'"
  shows "completed_since i env evs"
proof (rule slot_env_origin [OF assms(1)])
  have "spec_step (spec_of s) (EvReturn i (Some env, e)) (spec_of s') \<or>
        spec_step (spec_of s) (EvExpire i cause (Some env, e)) (spec_of s')"
    using assms(2) step_refines idle_run_inv [OF assms(1)] by blast
  then show "slot_env (snd (spec_of s)) i env"
    by (auto simp: slot_env_def elim!: spec_step.cases split: option.splits)
qed

text \<open>
  C15: Of atomic calls none blocks or panics: in every state reachable by calls that run one after
  the other, with no id created anew while a \<open>Wait\<close> on its last use has not returned, \<open>Complete\<close>,
  \<open>Fail\<close>, \<open>Cancel\<close> and \<open>Close\<close> return, \<open>Create\<close> returns while fewer than \<open>2 ^ 64\<close> transactions are
  pending, and a goroutine in \<open>Wait\<close> returns as soon as its context ends.  \<open>wait_hang_reachable\<close> and
  \<open>reuse_hang\<close> in \<open>TxRace\<close> show that neither condition can be dropped.
\<close>

theorem manager_never_blocks:
  assumes "mgr_run idle evs (m, ws)"
  shows "(\<exists>r. Manager_Complete i env m = Some r) \<and> (\<exists>r. Manager_Fail i err m = Some r) \<and>
    (\<exists>r. Manager_Cancel i m = Some r) \<and>
    (is_order (wait m) order \<longrightarrow> (\<exists>m'. Manager_Close order m = Some m')) \<and>
    (card (dom (wait m)) < 2 ^ 64 \<longrightarrow> (\<exists>r. Manager_Create q i m = Some r)) \<and>
    (ws i = Some p \<longrightarrow> (\<exists>r. Wait_ctx i p cause m = Some r))"
proof -
  note inv = idle_run_inv [OF assms]
  have fin: "\<exists>e m'. finish i r m0 = Some (e, m')" if "sys_inv (m0, ws)" for r m0
    using finish_eq [OF that, of i r] by (auto split: option.split)
  have "\<exists>r. Manager_Complete i env m = Some r" using fin [OF inv, of "(env, None)"]
    by (auto simp: Manager_Complete_def)
  moreover have "\<exists>r. Manager_Fail i err m = Some r" using fin [OF inv, of "(None, Some (fail_error err))"]
    by (auto simp: Manager_Fail_def Let_def fail_error_def)
  moreover have "\<exists>r. Manager_Cancel i m = Some r"
    using fin [OF inv, of "(None, Some (Sentinel (Context Canceled)))"] by (auto simp: Manager_Cancel_def)
  moreover have "\<exists>m'. Manager_Close order m = Some m'" if "is_order (wait m) order"
    using close_eq [OF inv that] by (cases "closed m") (auto simp: Manager_Close_def)
  moreover have "\<exists>r. Manager_Create q i m = Some r" if "card (dom (wait m)) < 2 ^ 64"
  proof -
    obtain j where "wait m j = None" using free_id_exists [OF \<open>card (dom (wait m)) < 2 ^ 64\<close>] by blast
    then obtain k where "next_free (wait m) (nextID m) = Some k" using next_free_returns by blast
    then show ?thesis by (auto simp: Manager_Create_def Let_def)
  qed
  moreover have "\<exists>r. Wait_ctx i p cause m = Some r" if ws: "ws i = Some p"
    using wait_ctx_returns [OF inv ws] by blast
  ultimately show ?thesis by blast
qed

text \<open>
  A response that is delivered before the waiter acts on its expired context is not lost:
  the expiring \<open>Wait\<close> returns the delivered result, not the context's error.
\<close>

theorem delivered_beats_expiry:
  assumes "mgr_run idle evs (m, ws)" "ws i = Some p" "p_ch (obj m p) = Some r"
  shows "\<exists>m'. Wait_ctx i p cause m = Some (r, m') \<and> wait m' i = None"
  using wait_ctx_returns [OF idle_run_inv [OF assms(1)] assms(2), of cause] assms(3) by auto

text \<open>
  \<open>Close\<close> releases everybody: afterwards no transaction is pending, the gauge is 0, and every
  goroutine in \<open>Wait\<close> can return at once, with its response if one was delivered before and with
  \<open>ErrManagerClosed\<close> otherwise.
\<close>

theorem close_releases_waiters:
  assumes "mgr_run idle evs (m, ws)" "is_order (wait m) order" "Manager_Close order m = Some m'"
  shows "wait m' = Map.empty \<and> c_pending (met m') = 0 \<and>
    (\<forall>i p. ws i = Some p \<longrightarrow>
       fst (the (Wait_recv i p m')) = (case p_ch (obj m p) of None \<Rightarrow> closed_result | Some r \<Rightarrow> r) \<and>
       Wait_recv i p m' \<noteq> None)"
proof -
  note inv = idle_run_inv [OF assms(1)]
  have spec: "sys_inv (m', ws)" "spec_step (spec_of (m, ws)) EvClose (spec_of (m', ws))"
    using close_step [OF inv assms(2,3)] by auto
  then have cl: "closed m'" by (auto elim: spec_step.cases simp: spec_of_def)
  have "Wait_recv i p m' \<noteq> None \<and>
      fst (the (Wait_recv i p m')) = (case p_ch (obj m p) of None \<Rightarrow> closed_result | Some r \<Rightarrow> r)"
    if w: "ws i = Some p" for i p
  proof -
    have m'p: "p_ch (obj m' p) = Some (case p_ch (obj m p) of None \<Rightarrow> closed_result | Some r \<Rightarrow> r)"
      using close_result [OF inv assms(2,3) w] .
    from inv_waiter [OF spec(1) w] obtain pd where "heap m' p = Some pd" .
    with m'p show ?thesis by (simp add: Wait_recv_def)
  qed
  then show ?thesis using inv_basic(2,3) [OF spec(1)] cl by simp
qed

text \<open>
  The pending gauge is exact: after every call it is the number of ids in the map, and a
  transaction whose \<open>Wait\<close> has returned or that was cancelled is in the map no more.
\<close>

theorem gauge_exact_no_leak:
  assumes "mgr_run idle evs s" "mgr_step s ev (m, ws)"
  shows "c_pending (met m) = int (card (dom (wait m))) \<and> finite (dom (wait m)) \<and>
    (\<forall>i r cause. ev = EvReturn i r \<or> ev = EvExpire i cause r \<longrightarrow> wait m i = None \<and> ws i = None) \<and>
    (\<forall>i e. ev = EvCancel i e \<longrightarrow> wait m i = None)"
proof -
  have inv: "sys_inv (m, ws)" "spec_step (spec_of s) ev (spec_of (m, ws))"
    using step_refines [OF assms(2) idle_run_inv [OF assms(1)]] by simp_all
  have gone: "snd (spec_of (m, ws)) i = None" if "ev = EvReturn i r \<or> ev = EvExpire i cause r" for i r cause
    using that inv(2) by (auto elim!: spec_step.cases)
  have "wait m i = None \<and> ws i = None" if "ev = EvReturn i r \<or> ev = EvExpire i cause r" for i r cause
    using gone [OF that] by (simp add: spec_of_def split: option.splits)
  moreover have "wait m i = None" if "ev = EvCancel i e" for i e
  proof -
    have "\<exists>sl. snd (spec_of (m, ws)) = detach i sl" using that inv(2) by (auto elim!: spec_step.cases)
    then obtain sl where "snd (spec_of (m, ws)) = detach i sl" ..
    then have "snd (spec_of (m, ws)) i = None \<or> (\<exists>r. snd (spec_of (m, ws)) i = Some (r, Detached))"
      using detach_at [of i sl] by simp
    then show ?thesis by (auto simp: spec_of_def split: option.splits if_splits)
  qed
  ultimately show ?thesis using inv_basic [OF inv(1)] by blast
qed

section \<open>A concrete transaction\<close>

definition w_env :: envelope where
  "w_env = DataResponseEnvelope 0 7 None 42 200 [1, 2]"

definition w_mgr :: "bool \<Rightarrow> tx_result option \<Rightarrow> int \<Rightarrow> manager" where
  "w_mgr waiting ch n = \<lparr>nextID = 1, closed = False, wait = [1 \<mapsto> 0],
     heap = [0 \<mapsto> \<lparr>p_id = 1, p_ch = ch, p_done = (ch \<noteq> None), p_waiting = waiting\<rparr>], pool = [],
     met = \<lparr>c_pending = 1, c_created = 1, c_completed = n, c_timeout = 0, c_not_found = 0\<rparr>\<rparr>"

abbreviation "w_created \<equiv> (w_mgr False None 0, Map.empty :: u64 \<rightharpoonup> pid)"
abbreviation "w_waiting \<equiv> (w_mgr True None 0, [1 \<mapsto> 0] :: u64 \<rightharpoonup> pid)"
abbreviation "w_filled \<equiv> (w_mgr True (Some (Some w_env, None)) 1, [1 \<mapsto> 0] :: u64 \<rightharpoonup> pid)"

abbreviation "w_evs2 \<equiv> [EvCreate 0 (Inr 1), EvWait 1 None]"
abbreviation "w_evs3 \<equiv> w_evs2 @ [EvComplete 1 (Some w_env) None]"

lemma w_create: "mgr_step idle (EvCreate 0 (Inr 1)) w_created"
  unfolding idle_def
  by (rule mgr_step.create [where p = 0])
     (simp_all add: acquirable_def NewManager_def Manager_Create_def next_free.simps [of "Map.empty"]
        acquirePending_def w_mgr_def Let_def)

lemma w_wait: "mgr_step w_created (EvWait 1 None) w_waiting"
  by (rule mgr_step.wait_ok) (simp add: Wait_begin_def w_mgr_def p_claimWait_def Let_def)

lemma w_complete: "mgr_step w_waiting (EvComplete 1 (Some w_env) None) w_filled"
  by (rule mgr_step.complete)
     (simp add: Manager_Complete_def w_mgr_def finish_def finish_lookup_def finish_deliver_def
        tryDeliver_def p_tryDeliver_def count_finish_def)

lemma w_run2: "mgr_run idle w_evs2 w_waiting"
  using mgr_run.snoc [OF mgr_run.snoc [OF mgr_run.nil w_create] w_wait] by simp

lemma w_run3: "mgr_run idle w_evs3 w_filled"
  by (rule mgr_run.snoc [OF w_run2 w_complete])

lemma w_return:
  "\<exists>m'. mgr_step w_filled (EvReturn 1 (Some w_env, None)) (m', Map.empty)"
proof -
  have "\<exists>m'. Wait_recv 1 0 (fst w_filled) = Some ((Some w_env, None), m')"
    by (simp add: Wait_recv_def w_mgr_def)
  then obtain m' where "Wait_recv 1 0 (fst w_filled) = Some ((Some w_env, None), m')" by blast
  then have "mgr_step w_filled (EvReturn 1 (Some w_env, None)) (m', [1 \<mapsto> 0](1 := None))"
    by (intro mgr_step.return) simp_all
  moreover have "[1 \<mapsto> 0 :: pid](1 := None) = (Map.empty :: u64 \<rightharpoonup> pid)" by (simp add: fun_eq_iff)
  ultimately show ?thesis by metis
qed

lemma manager_refines_service_witness:
  "spec_step (spec_of w_waiting) (EvComplete 1 (Some w_env) None) (spec_of w_filled)"
  by (rule manager_refines_service [OF w_run2 w_complete])

lemma response_correlated_witness: "completed_since 1 w_env w_evs3"
  using w_return response_correlated [OF w_run3] by blast

lemma manager_never_blocks_witness:
  "(\<exists>r. Manager_Complete 1 None (fst w_waiting) = Some r) \<and>
   (\<exists>m'. Manager_Close [1] (fst w_waiting) = Some m') \<and>
   (\<exists>r. Manager_Create 5 0 (fst w_waiting) = Some r) \<and>
   (\<exists>r. Wait_ctx 1 0 DeadlineExceeded (fst w_waiting) = Some r)"
proof -
  have "is_order (wait (fst w_waiting)) [1]" "card (dom (wait (fst w_waiting))) < 2 ^ 64"
    by (simp_all add: w_mgr_def is_order_def)
  then show ?thesis
    using manager_never_blocks [OF w_run2, of 1 None None "[1]" _ 0 DeadlineExceeded]
      manager_never_blocks [OF w_run2, of 0 None None "[1]" 5 0 DeadlineExceeded]
    by auto
qed

lemma delivered_beats_expiry_witness:
  "\<exists>m'. Wait_ctx 1 0 DeadlineExceeded (fst w_filled) = Some ((Some w_env, None), m') \<and> wait m' 1 = None"
  using delivered_beats_expiry [OF w_run3, of 1 0 "(Some w_env, None)" DeadlineExceeded]
  by (simp add: w_mgr_def)

lemma close_releases_waiters_witness:
  "\<exists>m'. Manager_Close [1] (fst w_waiting) = Some m' \<and> wait m' = Map.empty \<and>
        fst (the (Wait_recv 1 0 m')) = closed_result"
proof -
  have ord: "is_order (wait (fst w_waiting)) [1]" by (simp add: w_mgr_def is_order_def)
  then obtain m' where m': "Manager_Close [1] (fst w_waiting) = Some m'"
    using close_eq [OF idle_run_inv [OF w_run2], of "[1]"] by (auto simp: w_mgr_def)
  have "p_ch (obj (fst w_waiting) 0) = None" by (simp add: w_mgr_def)
  then show ?thesis using close_releases_waiters [OF w_run2, of "[1]" m'] ord m' by auto
qed

lemma gauge_exact_no_leak_witness:
  "\<exists>m'. mgr_step w_filled (EvReturn 1 (Some w_env, None)) (m', Map.empty) \<and>
        c_pending (met m') = int (card (dom (wait m'))) \<and> wait m' 1 = None"
  using w_return gauge_exact_no_leak [OF w_run3] by blast

end
