(* ===== verification/TxRace.thy ===== *)
theory TxRace imports TxSpec begin

text \<open>
  The transaction manager at the granularity of its locks.  \<open>finish\<close> finds the waiter under the
  manager's lock but delivers after releasing it, holding only the waiter's own lock; and
  \<open>acquirePending\<close> resets a pooled waiter without taking that lock.  A delivery that is in flight
  when its waiter times out can therefore reach the waiter's next owner.  The two theorems are
  runs that show it: a response delivered to another transaction, and a waiter that never returns.
  \<open>reuse_hang\<close> is a hang of whole calls: an id that is created anew while a \<open>Wait\<close> on it returns.
\<close>

section \<open>Interleaved deliveries\<close>

text \<open>The halves of \<open>acquirePending\<close>: the reset of the fields, then the drain of the channel.\<close>

definition acquire_reset :: "pid \<Rightarrow> u64 \<Rightarrow> manager \<Rightarrow> manager" where
  "acquire_reset p i m =
     m\<lparr>pool := remove1 p (pool m),
       heap := (heap m)(p \<mapsto> (case heap m p of
         None \<Rightarrow> \<lparr>p_id = i, p_ch = None, p_done = False, p_waiting = False\<rparr>
       | Some pd \<Rightarrow> pd\<lparr>p_id := i, p_done := False, p_waiting := False\<rparr>))\<rparr>"

definition acquire_drain :: "pid \<Rightarrow> manager \<Rightarrow> manager" where
  "acquire_drain p m = m\<lparr>heap := (heap m)(p \<mapsto> (obj m p)\<lparr>p_ch := None\<rparr>)\<rparr>"

lemma acquire_halves: "acquire_drain p (acquire_reset p i m) = acquirePending p i m"
proof (cases "heap m p")
  case (Some pd)
  then show ?thesis by (cases pd) (simp add: acquire_drain_def acquire_reset_def acquirePending_def)
qed (simp add: acquire_drain_def acquire_reset_def acquirePending_def)

text \<open>Deliveries in flight: the id a call of \<open>finish\<close> was made for, the waiter it found, the result.\<close>

type_synonym flight = "u64 \<times> pid \<times> tx_result"

datatype race_event =
    Call mgr_event
  | Lookup u64 tx_result
  | Deliver u64 tx_result "gerr option"
  | CreateDuring u64 flight "gerr option" \<comment> \<open>\<open>Create\<close> with a delivery between the two halves\<close>

inductive race_step :: "sys \<times> flight list \<Rightarrow> race_event \<Rightarrow> sys \<times> flight list \<Rightarrow> bool" where
  call: "mgr_step s ev s' \<Longrightarrow> race_step (s, fl) (Call ev) (s', fl)"
| lookup: "finish_lookup i m = Inr p \<Longrightarrow>
           race_step ((m, ws), fl) (Lookup i r) ((m, ws), (i, p, r) # fl)"
| deliver: "(i, p, r) \<in> set fl \<Longrightarrow> finish_deliver i p r m = Some (e, m') \<Longrightarrow>
           race_step ((m, ws), fl) (Deliver i r e) ((m', ws), remove1 (i, p, r) fl)"
| create_during: "\<not> closed m \<Longrightarrow> acquirable p m \<Longrightarrow> next_free (wait m) (nextID m) = Some i \<Longrightarrow>
           (j, p, r) \<in> set fl \<Longrightarrow>
           finish_deliver j p r (acquire_reset p i (m\<lparr>nextID := i\<rparr>)) = Some (e, m1) \<Longrightarrow>
           m2 = acquire_drain p m1 \<Longrightarrow> m3 = m2\<lparr>wait := (wait m2)(i \<mapsto> p)\<rparr> \<Longrightarrow>
           race_step ((m, ws), fl) (CreateDuring i (j, p, r) e)
             ((m3\<lparr>met := (met m3)\<lparr>c_pending := int (card (dom (wait m3))), c_created := c_created (met m3) + 1\<rparr>\<rparr>, ws),
              remove1 (j, p, r) fl)"

inductive race_run :: "sys \<times> flight list \<Rightarrow> race_event list \<Rightarrow> sys \<times> flight list \<Rightarrow> bool" where
  nil: "race_run s [] s"
| cons: "race_step s ev s1 \<Longrightarrow> race_run s1 evs s2 \<Longrightarrow> race_run s (ev # evs) s2"

text \<open>Without a delivery in flight the interleaved manager is the one of \<open>mgr_step\<close>.\<close>

lemma race_run_calls: "mgr_run s evs s' \<Longrightarrow> race_run (s, fl) (map Call evs) (s', fl)"
proof (induction rule: mgr_run.induct)
  case (nil s)
  then show ?case by (simp add: race_run.nil)
next
  case (snoc s evs s1 ev s2)
  have "race_run a xs b \<Longrightarrow> race_step b e c \<Longrightarrow> race_run a (xs @ [e]) c" for a xs b e c
    by (induction rule: race_run.induct) (auto intro: race_run.intros)
  then show ?case using snoc by (simp add: race_step.call)
qed

section \<open>A run up to the reuse\<close>

text \<open>
  Transaction 1 is created and waited for; a \<open>Complete\<close> for it has found the waiter; the wait times
  out and puts the waiter into the pool.
\<close>

definition expired :: tx_result where
  "expired = (None, Some (Sentinel (Context DeadlineExceeded)))"

definition r_mgr :: "u64 \<Rightarrow> (u64 \<rightharpoonup> pid) \<Rightarrow> pending \<Rightarrow> pid list \<Rightarrow> int \<Rightarrow> int \<Rightarrow> manager" where
  "r_mgr n w pd pl created pend = \<lparr>nextID = n, closed = False, wait = w, heap = [0 \<mapsto> pd], pool = pl,
     met = \<lparr>c_pending = pend, c_created = created, c_completed = 0, c_timeout = 1, c_not_found = 0\<rparr>\<rparr>"

definition zero_pending :: pending where
  "zero_pending = \<lparr>p_id = 0, p_ch = None, p_done = False, p_waiting = False\<rparr>"

definition r_pooled :: manager where "r_pooled = r_mgr 1 Map.empty zero_pending [0] 1 0"

definition r_flight :: flight where "r_flight = (1, 0, (Some w_env, None))"

lemma r_prefix:
  "race_run (idle, []) [Call (EvCreate 0 (Inr 1)), Call (EvWait 1 None), Lookup 1 (Some w_env, None),
      Call (EvExpire 1 DeadlineExceeded expired)] ((r_pooled, Map.empty), [r_flight])"
proof -
  have look: "race_step (w_waiting, []) (Lookup 1 (Some w_env, None)) (w_waiting, [r_flight])"
    unfolding r_flight_def by (rule race_step.lookup) (simp add: finish_lookup_def w_mgr_def)
  have "Wait_ctx 1 0 DeadlineExceeded (w_mgr True None 0) = Some (expired, r_pooled)"
    by (simp add: Wait_ctx_def Let_def w_mgr_def finish_def finish_lookup_def finish_deliver_def tryDeliver_def
        p_tryDeliver_def Wait_recv_def releasePending_def remove_def expired_def r_pooled_def r_mgr_def zero_pending_def)
  then have "mgr_step w_waiting (EvExpire 1 DeadlineExceeded expired) (r_pooled, [1 \<mapsto> 0](1 := None))"
    by (intro mgr_step.expire) simp_all
  moreover have "[1 \<mapsto> 0 :: pid](1 := None) = (Map.empty :: u64 \<rightharpoonup> pid)" by (simp add: fun_eq_iff)
  ultimately have ex: "mgr_step w_waiting (EvExpire 1 DeadlineExceeded expired) (r_pooled, Map.empty)" by simp
  show ?thesis
    by (intro race_run.cons [OF race_step.call [OF w_create]] race_run.cons [OF race_step.call [OF w_wait]]
        race_run.cons [OF look] race_run.cons [OF race_step.call [OF ex]] race_run.nil)
qed

lemma race_run_append: "race_run a xs b \<Longrightarrow> race_run b ys c \<Longrightarrow> race_run a (xs @ ys) c"
  by (induction rule: race_run.induct) (auto intro: race_run.cons)

section \<open>A response for another transaction\<close>

definition r_slot :: "bool \<Rightarrow> tx_result option \<Rightarrow> bool \<Rightarrow> manager" where
  "r_slot w ch d = r_mgr 2 [2 \<mapsto> 0] \<lparr>p_id = 2, p_ch = ch, p_done = d, p_waiting = w\<rparr> [] 2 1"

lemma r_wait2: "mgr_step (r_slot False None d, Map.empty) (EvWait 2 None) (r_slot True None d, [2 \<mapsto> 0])"
  by (rule mgr_step.wait_ok) (simp add: Wait_begin_def r_slot_def r_mgr_def p_claimWait_def Let_def)

text \<open>
  C21: At the granularity of the locks a response can reach the wrong transaction: there is a run in
  which \<open>Wait\<close> for transaction 2 returns an envelope although nobody ever completed transaction 2;
  the envelope was delivered by a call for transaction 1.
\<close>

theorem misdelivery_reachable:
  "\<exists>evs s s'. race_run (idle, []) evs s \<and> race_step s (Call (EvReturn 2 (Some w_env, None))) s' \<and>
     (\<forall>r. Lookup 2 r \<notin> set evs) \<and> (\<forall>env e. Call (EvComplete 2 env e) \<notin> set evs) \<and>
     Deliver 1 (Some w_env, None) None \<in> set evs"
proof -
  have "Manager_Create 0 0 r_pooled = Some (Inr 2, r_slot False None False)"
    by (simp add: Manager_Create_def next_free.simps [of "Map.empty"] acquirePending_def r_pooled_def
        r_slot_def r_mgr_def Let_def)
  then have c2: "mgr_step (r_pooled, Map.empty) (EvCreate 0 (Inr 2)) (r_slot False None False, Map.empty)"
    by (intro mgr_step.create [where p = 0]) (simp_all add: acquirable_def r_pooled_def r_mgr_def)
  have d: "race_step ((r_slot True None False, [2 \<mapsto> 0]), [r_flight]) (Deliver 1 (Some w_env, None) None)
      ((r_slot True (Some (Some w_env, None)) True, [2 \<mapsto> 0]), remove1 r_flight [r_flight])"
    unfolding r_flight_def
    by (rule race_step.deliver)
       (simp_all add: finish_deliver_def tryDeliver_def p_tryDeliver_def r_slot_def r_mgr_def)
  let ?tail = "[Call (EvCreate 0 (Inr 2)), Call (EvWait 2 None), Deliver 1 (Some w_env, None) None]"
  have "race_run ((r_pooled, Map.empty), [r_flight]) ?tail
      ((r_slot True (Some (Some w_env, None)) True, [2 \<mapsto> 0]), remove1 r_flight [r_flight])"
    by (intro race_run.cons [OF race_step.call [OF c2]] race_run.cons [OF race_step.call [OF r_wait2]]
        race_run.cons [OF d] race_run.nil)
  note run = race_run_append [OF r_prefix this]
  have "\<exists>m'. Wait_recv 2 0 (r_slot True (Some (Some w_env, None)) True) = Some ((Some w_env, None), m')"
    by (simp add: Wait_recv_def r_slot_def r_mgr_def)
  then obtain s' where s': "race_step ((r_slot True (Some (Some w_env, None)) True, [2 \<mapsto> 0]), remove1 r_flight [r_flight])
      (Call (EvReturn 2 (Some w_env, None))) s'"
    by (metis fun_upd_same mgr_step.return race_step.call)
  show ?thesis by (intro exI conjI, rule run, rule s') auto
qed

section \<open>A wait that never returns\<close>

text \<open>
  C22: At the granularity of the locks a waiter can hang: there is a run after which a goroutine
  waits for transaction 2 and neither a response can be delivered to it (\<open>Complete\<close> answers
  \<open>ErrUnknownTransaction\<close>) nor does the end of its context wake it: both branches of \<open>Wait\<close> block.
\<close>

theorem wait_hang_reachable:
  "\<exists>evs m ws fl p. race_run (idle, []) evs ((m, ws), fl) \<and> ws 2 = Some p \<and> wait m 2 = Some p \<and> fl = [] \<and>
     Wait_recv 2 p m = None \<and> (\<forall>cause. Wait_ctx 2 p cause m = None) \<and>
     (\<forall>env. \<exists>e m'. Manager_Complete 2 env m = Some (Some e, m') \<and> err_is (Tx ErrUnknownTransaction) e)"
proof -
  let ?m = "r_slot True None True"
  have c: "race_step ((r_pooled, Map.empty), [r_flight]) (CreateDuring 2 r_flight None)
      ((r_slot False None True, Map.empty), remove1 r_flight [r_flight])"
  proof -
    define m1 where "m1 = (acquire_reset 0 2 (r_pooled\<lparr>nextID := 2\<rparr>))
      \<lparr>heap := [0 \<mapsto> \<lparr>p_id = 2, p_ch = Some (Some w_env, None), p_done = True, p_waiting = False\<rparr>]\<rparr>"
    have "finish_deliver 1 0 (Some w_env, None) (acquire_reset 0 2 (r_pooled\<lparr>nextID := 2\<rparr>)) = Some (None, m1)"
      by (simp add: m1_def finish_deliver_def tryDeliver_def p_tryDeliver_def acquire_reset_def r_pooled_def
          r_mgr_def zero_pending_def)
    moreover have "next_free (wait r_pooled) (nextID r_pooled) = Some 2"
      by (simp add: r_pooled_def r_mgr_def next_free.simps [of "Map.empty"] Let_def)
    ultimately have "race_step ((r_pooled, Map.empty), [r_flight]) (CreateDuring 2 (1, 0, (Some w_env, None)) None)
      ((let m2 = acquire_drain 0 m1; m3 = m2\<lparr>wait := (wait m2)(2 \<mapsto> 0)\<rparr>
        in m3\<lparr>met := (met m3)\<lparr>c_pending := int (card (dom (wait m3))), c_created := c_created (met m3) + 1\<rparr>\<rparr>,
        Map.empty), remove1 (1, 0, (Some w_env, None)) [r_flight])"
      unfolding Let_def
      by (intro race_step.create_during) (auto simp: r_flight_def r_pooled_def r_mgr_def acquirable_def)
    then show ?thesis
      by (simp add: m1_def r_flight_def acquire_drain_def acquire_reset_def remove_def r_pooled_def r_mgr_def
          r_slot_def Let_def)
  qed
  have "race_run ((r_pooled, Map.empty), [r_flight]) [CreateDuring 2 r_flight None, Call (EvWait 2 None)]
      ((?m, [2 \<mapsto> 0]), remove1 r_flight [r_flight])"
    by (intro race_run.cons [OF c] race_run.cons [OF race_step.call [OF r_wait2]] race_run.nil)
  note run = race_run_append [OF r_prefix this]
  have "wait ?m 2 = Some 0" "Wait_recv 2 0 ?m = None"
    by (simp_all add: r_slot_def r_mgr_def Wait_recv_def)
  moreover have "Wait_ctx 2 0 cause ?m = None" for cause
    by (simp add: Wait_ctx_def Let_def r_slot_def r_mgr_def finish_def finish_lookup_def finish_deliver_def
        tryDeliver_def p_tryDeliver_def Wait_recv_def)
  moreover have "\<exists>e m'. Manager_Complete 2 env ?m = Some (Some e, m') \<and> err_is (Tx ErrUnknownTransaction) e" for env
    by (simp add: Manager_Complete_def r_slot_def r_mgr_def finish_def finish_lookup_def finish_deliver_def
        tryDeliver_def p_tryDeliver_def)
  moreover obtain evs where "race_run (idle, []) evs ((?m, [2 \<mapsto> 0]), [])" using run by auto
  ultimately show ?thesis
    by (intro exI [of _ evs] exI [of _ ?m] exI [of _ "[2 \<mapsto> 0]"] exI [of _ "[]"] exI [of _ 0] conjI) simp_all
qed

section \<open>An id used again during its wait\<close>

text \<open>
  Even whole calls need the protocol of \<open>mgr_step\<close>: when an id is cancelled during its \<open>Wait\<close> and
  created anew before that \<open>Wait\<close> returns, the returning \<open>Wait\<close> removes the new transaction from the
  map, so nothing can be delivered to the new waiter and the end of its context does not wake it.
\<close>

theorem reuse_hang:
  "\<exists>m1 m2 m3 m4. Manager_Cancel 1 (fst w_waiting) = Some (None, m1) \<and>
     Manager_Create 1 1 m1 = Some (Inr 1, m2) \<and> Wait_begin 1 m2 = Some (Inr 1, m3) \<and>
     Wait_recv 1 0 m3 = Some (canceled_result, m4) \<and>
     wait m4 1 = None \<and> Wait_recv 1 1 m4 = None \<and> (\<forall>cause. Wait_ctx 1 1 cause m4 = None) \<and>
     (\<forall>env. \<exists>e. Manager_Complete 1 env m4 = Some (Some e, count_finish (Some e) m4) \<and>
        err_is (Tx ErrUnknownTransaction) e)"
  by (simp add: Manager_Cancel_def Manager_Create_def Manager_Complete_def Wait_begin_def Wait_recv_def
      Wait_ctx_def finish_def finish_lookup_def finish_deliver_def tryDeliver_def p_tryDeliver_def
      p_claimWait_def acquirePending_def releasePending_def remove_def canceled_result_def w_mgr_def Let_def)

end
