(* ===== verification/GoNet.thy ===== *)
theory GoNet imports GoLib begin

text \<open>
  \<open>net.ParseIP\<close> and the address operations the source uses.  An \<open>IP\<close> is the 16-byte form
  \<open>net.ParseIP\<close> returns (an IPv4 address is mapped into \<open>::ffff:0:0/96\<close>); \<open>None\<close> is the nil
  slice of a failed parse.  A string with a zone (\<open>%\<close>) never parses.
\<close>

type_synonym IP = "nat list"

text \<open>\<open>net.UDPAddr\<close>.\<close>

record udp_addr =
  addr_ip :: IP
  addr_port :: u32

section \<open>Dotted decimal\<close>

text \<open>
  \<open>dotted b v p l fs s\<close> reads the rest \<open>s\<close> of a dotted quad: \<open>b\<close> says that the next
  character starts a field, \<open>v\<close> and \<open>l\<close> are the value and the number of digits of the current
  field, \<open>p\<close> counts the dots and \<open>fs\<close> holds the finished fields.
\<close>

fun dotted :: "bool \<Rightarrow> nat \<Rightarrow> nat \<Rightarrow> nat \<Rightarrow> nat list \<Rightarrow> string \<Rightarrow> nat list option" where
  "dotted b v p l fs [] = (if p < 3 then None else Some (fs @ [v]))"
| "dotted b v p l fs (c # s) =
     (if is_digit c then
        (if l = 1 \<and> v = 0 then None
         else if v * 10 + digit_val c > 255 then None
         else dotted False (v * 10 + digit_val c) p (l + 1) fs s)
      else if c = CHR ''.'' then
        (if b \<or> s = [] then None
         else if p = 3 then None
         else dotted True 0 (p + 1) 0 (fs @ [v]) s)
      else None)"

definition parse_v4 :: "string \<Rightarrow> nat list option" where
  "parse_v4 s = dotted True 0 0 0 [] s"

section \<open>Colon hexadecimal\<close>

definition hex_val :: "char \<Rightarrow> nat option" where
  "hex_val c =
     (if is_digit c then Some (digit_val c)
      else if 97 \<le> byte c \<and> byte c \<le> 102 then Some (byte c - 87)
      else if 65 \<le> byte c \<and> byte c \<le> 70 then Some (byte c - 55)
      else None)"

fun scan_hex :: "nat \<Rightarrow> nat \<Rightarrow> string \<Rightarrow> (nat \<times> nat \<times> string) option" where
  "scan_hex off acc [] = Some (off, acc, [])"
| "scan_hex off acc (c # s) =
     (case hex_val c of
        None \<Rightarrow> Some (off, acc, c # s)
      | Some v \<Rightarrow>
          if off > 3 then None
          else if acc * 16 + v > 65535 then None
          else scan_hex (off + 1) (acc * 16 + v) s)"

text \<open>
  The group loop: \<open>n\<close> is the number of 16-bit groups that still fit, \<open>ip\<close> the bytes so far and
  \<open>ell\<close> the position of the ellipsis.
\<close>

fun v6_loop :: "nat \<Rightarrow> nat list \<Rightarrow> nat option \<Rightarrow> string \<Rightarrow> (nat list \<times> nat option \<times> string) option" where
  "v6_loop 0 ip ell s = Some (ip, ell, s)"
| "v6_loop (Suc n) ip ell s =
     (case scan_hex 0 0 s of
        None \<Rightarrow> None
      | Some (off, acc, r) \<Rightarrow>
          if off = 0 then None
          else if take 1 r = ''.'' then
            (if ell = None \<and> length ip \<noteq> 12 then None
             else if length ip + 4 > 16 then None
             else case parse_v4 s of None \<Rightarrow> None | Some fs \<Rightarrow> Some (ip @ fs, ell, []))
          else
            (let ip' = ip @ [acc div 256, acc mod 256] in
             case r of
               [] \<Rightarrow> Some (ip', ell, [])
             | [c] \<Rightarrow> None
             | c # d # r' \<Rightarrow>
                 if c \<noteq> CHR '':'' then None
                 else if d = CHR '':'' then
                   (if ell \<noteq> None then None
                    else if r' = [] then Some (ip', Some (length ip'), [])
                    else v6_loop n ip' (Some (length ip')) r')
                 else v6_loop n ip' ell (d # r')))"

definition parse_v6 :: "string \<Rightarrow> nat list option" where
  "parse_v6 s =
     (let lead = take 2 s = ''::''; s' = (if lead then drop 2 s else s) in
      if lead \<and> s' = [] then Some (replicate 16 0)
      else case v6_loop 8 [] (if lead then Some 0 else None) s' of
        None \<Rightarrow> None
      | Some (ip, ell, r) \<Rightarrow>
          if r \<noteq> [] then None
          else if length ip < 16 then
            (case ell of
               None \<Rightarrow> None
             | Some e \<Rightarrow> Some (take e ip @ replicate (16 - length ip) 0 @ drop e ip))
          else if ell \<noteq> None then None
          else Some ip)"

section \<open>ParseIP\<close>

definition v4_mapped :: "nat list \<Rightarrow> IP" where
  "v4_mapped fs = replicate 10 0 @ [255, 255] @ fs"

fun parse_addr :: "string \<Rightarrow> string \<Rightarrow> IP option" \<comment> \<open>scan for the first of \<open>.\<close>, \<open>:\<close>, \<open>%\<close>\<close> where
  "parse_addr whole [] = None"
| "parse_addr whole (c # s) =
     (if c = CHR ''.'' then map_option v4_mapped (parse_v4 whole)
      else if c = CHR '':'' then (if CHR ''%'' \<in> set whole then None else parse_v6 whole)
      else if c = CHR ''%'' then None
      else parse_addr whole s)"

definition ParseIP :: "string \<Rightarrow> IP option" where
  "ParseIP s = parse_addr s s"

definition To4 :: "IP \<Rightarrow> IP option" where
  "To4 ip =
     (if length ip = 4 then Some ip
      else if length ip = 16 \<and> take 12 ip = replicate 10 0 @ [255, 255] then Some (drop 12 ip)
      else None)"

definition ip_unspecified :: "IP \<Rightarrow> bool" where
  "ip_unspecified ip \<longleftrightarrow> To4 ip = Some [0, 0, 0, 0] \<or> ip = replicate 16 0"

section \<open>A dotted quad parses to its four bytes\<close>

lemma dotted_number:
  "n \<le> 255 \<Longrightarrow> dotted b 0 p 0 fs (fmt_nat n @ r) = dotted False n p (length (fmt_nat n)) fs r"
proof (induction n arbitrary: r rule: fmt_nat.induct)
  case (1 n)
  show ?case
  proof (cases "n < 10")
    case True
    then show ?thesis by (simp add: fmt_nat.simps [of n] digit_facts)
  next
    case False
    then have "n div 10 \<noteq> 0" "n div 10 * 10 + n mod 10 = n" by auto
    with False "1.prems" show ?thesis
      by (simp add: fmt_nat.simps [of n] "1.IH" digit_facts)
  qed
qed

definition quad :: "nat \<Rightarrow> nat \<Rightarrow> nat \<Rightarrow> nat \<Rightarrow> string" where
  "quad a b c d = fmt_nat a @ ''.'' @ fmt_nat b @ ''.'' @ fmt_nat c @ ''.'' @ fmt_nat d"

lemma not_digit_dot [simp]: "\<not> is_digit CHR ''.''"
  by (simp add: is_digit_def)

lemma dotted_last: "n \<le> 255 \<Longrightarrow> dotted b 0 3 0 fs (fmt_nat n) = Some (fs @ [n])"
  using dotted_number [of n b 3 fs "[]"] by simp

lemma parse_v4_quad:
  assumes "a \<le> 255" "b \<le> 255" "c \<le> 255" "d \<le> 255"
  shows "parse_v4 (quad a b c d) = Some [a, b, c, d]"
  using assms by (simp add: parse_v4_def quad_def dotted_number dotted_last [simplified numeral_3_eq_3])

lemma parse_addr_skip_digits:
  "\<forall>c \<in> set p. is_digit c \<Longrightarrow> parse_addr w (p @ s) = parse_addr w s"
  by (induction p) (auto simp: is_digit_def)

lemma ParseIP_quad:
  assumes "a \<le> 255" "b \<le> 255" "c \<le> 255" "d \<le> 255"
  shows "ParseIP (quad a b c d) = Some (v4_mapped [a, b, c, d])"
proof -
  have "ParseIP (quad a b c d) =
      parse_addr (quad a b c d) (fmt_nat a @ ''.'' @ fmt_nat b @ ''.'' @ fmt_nat c @ ''.'' @ fmt_nat d)"
    by (simp add: ParseIP_def quad_def)
  also have "\<dots> = map_option v4_mapped (parse_v4 (quad a b c d))"
    by (subst parse_addr_skip_digits) (auto dest: fmt_nat_digits)
  finally show ?thesis using assms by (simp add: parse_v4_quad)
qed

lemma To4_v4_mapped: "length fs = 4 \<Longrightarrow> To4 (v4_mapped fs) = Some fs"
  by (simp add: To4_def v4_mapped_def numeral_eq_Suc)

lemma ParseIP_Nil [simp]: "ParseIP [] = None"
  by (simp add: ParseIP_def)

lemma dotted_length: "dotted b v p l fs s = Some r \<Longrightarrow> p \<le> 3 \<Longrightarrow> length fs = p \<Longrightarrow> length r = 4"
  by (induction b v p l fs s rule: dotted.induct) (auto split: if_splits)

text \<open>\<open>net.JoinHostPort\<close> brackets a host that holds a colon or a percent sign.\<close>

definition JoinHostPort :: "string \<Rightarrow> string \<Rightarrow> string" where
  "JoinHostPort host port =
     (if CHR '':'' \<in> set host \<or> CHR ''%'' \<in> set host then ''['' @ host @ '']:'' @ port else host @ '':'' @ port)"

end
