(* ===== verification/Udp.thy ===== *)
theory Udp imports Errors GoNet begin

text \<open>
  \<open>internal/transport/udp\<close>: the checks of \<open>Send\<close>, the receive loop, the batched writes and the
  send batcher, one goroutine that gathers concurrent sends and flushes them together.  The
  protobuf codec and the socket are parameters: \<open>marshal\<close> and \<open>unmarshal\<close> are the generated code
  and the protobuf runtime, \<open>write\<close> and \<open>write_batch\<close> the operating system's datagram calls.
\<close>

section \<open>Codec (\<open>codec.go\<close>)\<close>

definition encode :: "(envelope \<Rightarrow> bytes res) \<Rightarrow> envelope \<Rightarrow> bytes res" where
  "encode marshal msg =
     (case marshal msg of
        Inl err \<Rightarrow> Inl (Wrap [Lit ''encode envelope: ''] err [])
      | Inr out \<Rightarrow> Inr out)"

definition decode :: "(bytes \<Rightarrow> envelope res) \<Rightarrow> bytes \<Rightarrow> envelope res" where
  "decode unmarshal data =
     (case unmarshal data of
        Inl err \<Rightarrow> Inl (errorf (Udp ErrInvalidMessage) [Lit (error_text err)])
      | Inr msg \<Rightarrow> Inr msg)"

section \<open>Sending one datagram (\<open>transport.go\<close>)\<close>

definition DefaultMaxPacketSize :: nat where "DefaultMaxPacketSize = 65507"

definition checkOpen :: "ctx_err option \<Rightarrow> bool \<Rightarrow> gerr option" where
  "checkOpen ctx closed =
     (case ctx of
        Some e \<Rightarrow> Some (Wrap [Lit ''udp transport: ''] (Sentinel (Context e)) [])
      | None \<Rightarrow> if closed then Some (Sentinel (Udp ErrTransportClosed)) else None)"

text \<open>The part of \<open>Send\<close> before the write: the encoded payload and its destination, or an error.\<close>

definition send_prepare ::
  "(envelope \<Rightarrow> bytes res) \<Rightarrow> nat \<Rightarrow> ctx_err option \<Rightarrow> bool \<Rightarrow> envelope option \<Rightarrow> udp_addr option \<Rightarrow> (bytes \<times> udp_addr) res" where
  "send_prepare marshal maxPacketSize ctx closed msg addr =
     (case checkOpen ctx closed of
        Some err \<Rightarrow> Inl err
      | None \<Rightarrow>
         (case msg of
            None \<Rightarrow> Inl (errorf (Udp ErrInvalidMessage) [Lit ''nil envelope''])
          | Some m \<Rightarrow>
             (case addr of
                None \<Rightarrow> Inl (Opaque ''send UDP packet: nil destination address'')
              | Some a \<Rightarrow>
                 (case encode marshal m of
                    Inl err \<Rightarrow> Inl err
                  | Inr payload \<Rightarrow>
                      if length payload > maxPacketSize
                      then Inl (errorf (Udp ErrPacketTooLarge)
                             [Lit ''encoded size '', Num (length payload), Lit '' exceeds max '', Num maxPacketSize])
                      else Inr (payload, a)))))"

text \<open>
  The write without a batcher: \<open>n\<close> and \<open>err\<close> are what \<open>WriteToUDP\<close> returned, \<open>closed\<close> and \<open>ctx\<close>
  the state of the connection and the context afterwards, \<open>timeout\<close> whether \<open>err\<close> is a timeout.
\<close>

definition send_written ::
  "nat \<Rightarrow> nat \<Rightarrow> gerr option \<Rightarrow> bool \<Rightarrow> bool \<Rightarrow> ctx_err option \<Rightarrow> gerr option" where
  "send_written len n err closed timeout ctx =
     (case err of
        Some e \<Rightarrow>
          if closed then Some (Sentinel (Udp ErrTransportClosed))
          else (case ctx of
                  Some c \<Rightarrow> if timeout then Some (Wrap [Lit ''send UDP packet: ''] (Sentinel (Context c)) [])
                            else Some (Wrap [Lit ''send UDP packet: ''] e [])
                | None \<Rightarrow> Some (Wrap [Lit ''send UDP packet: ''] e []))
      | None \<Rightarrow>
          if n \<noteq> len
          then Some (Wrap [Lit ''send UDP packet: short write '', Num n, Lit ''/'', Num len] (Opaque []) [])
          else None)"

lemma send_prepare_ok:
  "send_prepare marshal k ctx cl msg addr = Inr (p, a) \<longleftrightarrow>
     ctx = None \<and> \<not> cl \<and> addr = Some a \<and> length p \<le> k \<and> (\<exists>m. msg = Some m \<and> marshal m = Inr p)"
  by (auto simp: send_prepare_def checkOpen_def encode_def split: option.splits sum.splits if_splits)

section \<open>Receiving (\<open>transport.go\<close>)\<close>

text \<open>
  \<open>ReceiveRaw\<close> polls: each round checks the context and the connection, then reads with a short
  deadline.  A round is what it observes; \<open>None\<close> means that the rounds ran out while it still polls.
\<close>

datatype read_outcome = ReadData bytes udp_addr | ReadTimeout | ReadError gerr

record poll =
  po_ctx :: "ctx_err option"
  po_closed :: bool
  po_deadline_err :: "gerr option" \<comment> \<open>error of \<open>SetReadDeadline\<close>\<close>
  po_read :: read_outcome
  po_closed_after :: bool
  po_ctx_after :: "ctx_err option"

fun ReceiveRaw :: "poll list \<Rightarrow> (bytes \<times> udp_addr) res option" where
  "ReceiveRaw [] = None"
| "ReceiveRaw (p # ps) =
     (case checkOpen (po_ctx p) (po_closed p) of
        Some err \<Rightarrow> Some (Inl err)
      | None \<Rightarrow>
         (case po_deadline_err p of
            Some err \<Rightarrow>
              Some (Inl (if po_closed_after p then Sentinel (Udp ErrTransportClosed)
                         else Wrap [Lit ''set UDP read deadline: ''] err []))
          | None \<Rightarrow>
             (case po_read p of
                ReadData d a \<Rightarrow> Some (Inr (d, a))
              | ReadTimeout \<Rightarrow>
                  if po_closed_after p then Some (Inl (Sentinel (Udp ErrTransportClosed)))
                  else (case po_ctx_after p of
                          Some c \<Rightarrow> Some (Inl (Wrap [Lit ''receive UDP packet: ''] (Sentinel (Context c)) []))
                        | None \<Rightarrow> ReceiveRaw ps)
              | ReadError err \<Rightarrow>
                  Some (Inl (if po_closed_after p then Sentinel (Udp ErrTransportClosed)
                             else Wrap [Lit ''receive UDP packet: ''] err [])))))"

definition Receive :: "(bytes \<Rightarrow> envelope res) \<Rightarrow> poll list \<Rightarrow> (envelope \<times> udp_addr) res option" where
  "Receive unmarshal ps =
     map_option (\<lambda>r. bind_res r (\<lambda>(d, a). bind_res (decode unmarshal d) (\<lambda>m. Inr (m, a)))) (ReceiveRaw ps)"

section \<open>Batched writes (\<open>sendbatch_write_linux.go\<close>)\<close>

text \<open>A job: its number stands for the pointer the submitter waits on.\<close>

record job =
  j_no :: nat
  j_payload :: bytes
  j_addr :: udp_addr

type_synonym udp_write = "bytes \<Rightarrow> udp_addr \<Rightarrow> nat \<times> gerr option"

text \<open>What is put on the wire, and the error sent to each job's \<open>errCh\<close>.\<close>

definition writeOneJob :: "udp_write \<Rightarrow> job \<Rightarrow> gerr option" where
  "writeOneJob write j =
     (let (n, err) = write (j_payload j) (j_addr j) in
      case err of
        Some e \<Rightarrow> Some e
      | None \<Rightarrow> if n \<noteq> length (j_payload j)
          then Some (Wrap [Lit ''send UDP packet: short write '', Num n, Lit ''/'', Num (length (j_payload j))] (Opaque []) [])
          else None)"

text \<open>\<open>write_batch\<close> returns how many datagrams \<open>sendmmsg\<close> sent, from the first on, and an error.\<close>

definition writePayloadsBatch ::
  "udp_write \<Rightarrow> (job list \<Rightarrow> nat \<times> gerr option) \<Rightarrow> job list \<Rightarrow> (job \<times> gerr option) list \<times> job list" where
  "writePayloadsBatch write write_batch jobs =
     (let one = \<lambda>js. map (\<lambda>j. (j, writeOneJob write j)) js in
      if length jobs \<le> 1 then (one jobs, jobs)
      else if \<not> list_all (\<lambda>j. To4 (addr_ip (j_addr j)) \<noteq> None) jobs then (one jobs, jobs)
      else let (n, err) = write_batch jobs in
        if err \<noteq> None \<or> n < length jobs
        then let start = (if err \<noteq> None then 0 else n) in
             (map (\<lambda>j. (j, None)) (take start jobs) @ one (drop start jobs), take n jobs @ drop start jobs)
        else (map (\<lambda>j. (j, None)) jobs, take n jobs))"

lemma writePayloadsBatch_jobs: "map fst (fst (writePayloadsBatch w wb jobs)) = jobs"
proof -
  have one: "map fst (map (\<lambda>j. (j, f j)) js) = js" for f and js :: "job list"
    by (induction js) simp_all
  show ?thesis
    unfolding writePayloadsBatch_def Let_def case_prod_beta
    by (simp only: one fst_conv map_append append_take_drop_id split: if_split) simp
qed

lemma writePayloadsBatch_wire:
  assumes "snd (wb jobs) = None" "fst (wb jobs) \<le> length jobs"
  shows "snd (writePayloadsBatch w wb jobs) = jobs"
  using assms by (auto simp: writePayloadsBatch_def Let_def case_prod_beta)

section \<open>The batcher (\<open>sendqueue.go\<close>)\<close>

definition defaultSendBatchMax :: int where "defaultSendBatchMax = 64"

definition batch_max :: "int \<Rightarrow> nat" where
  "batch_max m = nat (if m \<le> 0 then defaultSendBatchMax else m)"

record batcher =
  b_max :: nat
  b_buf :: "job list"
  b_ch :: "job list" \<comment> \<open>buffered channel of capacity \<open>4 * max\<close>\<close>
  b_stopped :: bool
  b_exited :: bool
  b_done :: "(job \<times> gerr option) list" \<comment> \<open>results put into the jobs' \<open>errCh\<close>, in order\<close>

definition startSendBatcher :: "int \<Rightarrow> batcher" where
  "startSendBatcher m =
     \<lparr>b_max = batch_max m, b_buf = [], b_ch = [], b_stopped = False, b_exited = False, b_done = []\<rparr>"

fun drain :: "nat \<Rightarrow> job list \<Rightarrow> job list \<Rightarrow> job list \<times> job list" where
  "drain m buf [] = (buf, [])"
| "drain m buf (j # ch) = (if length buf < m then drain m (buf @ [j]) ch else (buf, j # ch))"

definition flush :: "(job list \<Rightarrow> (job \<times> gerr option) list) \<Rightarrow> batcher \<Rightarrow> batcher" where
  "flush out b = (if b_buf b = [] then b else b\<lparr>b_done := b_done b @ out (b_buf b), b_buf := []\<rparr>)"

text \<open>Taking a job from the channel, draining, and flushing a full buffer: both \<open>case job\<close> branches.\<close>

definition take_job :: "(job list \<Rightarrow> (job \<times> gerr option) list) \<Rightarrow> job \<Rightarrow> job list \<Rightarrow> batcher \<Rightarrow> batcher" where
  "take_job out j ch b =
     (let (buf, ch') = drain (b_max b) (b_buf b @ [j]) ch;
          b' = b\<lparr>b_buf := buf, b_ch := ch'\<rparr>
      in if length buf \<ge> b_max b then flush out b' else b')"

datatype batch_event = EvSubmit job | EvSubmitClosed job | EvSubmitCtx job ctx_err | EvStop | EvLoop

text \<open>
  Go's \<open>select\<close> takes any ready case.  The first three steps are the first \<open>select\<close> of \<open>submit\<close>;
  \<open>stop\<close> is \<open>close\<close>; the others are the branches of \<open>loop\<close>.
\<close>

inductive batch_step :: "(job list \<Rightarrow> (job \<times> gerr option) list) \<Rightarrow> batcher \<Rightarrow> batch_event \<Rightarrow> batcher \<Rightarrow> bool"
  for out where
  submit: "length (b_ch b) < 4 * b_max b \<Longrightarrow>
           batch_step out b (EvSubmit j) (b\<lparr>b_ch := b_ch b @ [j]\<rparr>)"
| submit_closed: "b_stopped b \<Longrightarrow> batch_step out b (EvSubmitClosed j) b"
| submit_ctx: "batch_step out b (EvSubmitCtx j e) b"
| stop: "batch_step out b EvStop (b\<lparr>b_stopped := True\<rparr>)"
| loop_stop: "\<not> b_exited b \<Longrightarrow> b_stopped b \<Longrightarrow>
           batch_step out b EvLoop ((flush out b)\<lparr>b_exited := True\<rparr>)"
| loop_job: "\<not> b_exited b \<Longrightarrow> b_ch b = j # ch \<Longrightarrow> batch_step out b EvLoop (take_job out j ch b)"
| loop_timer: "\<not> b_exited b \<Longrightarrow> b_buf b \<noteq> [] \<Longrightarrow> batch_step out b EvLoop (flush out b)"

inductive batch_run :: "(job list \<Rightarrow> (job \<times> gerr option) list) \<Rightarrow> batcher \<Rightarrow> batch_event list \<Rightarrow> batcher \<Rightarrow> bool"
  for out where
  nil: "batch_run out b [] b"
| snoc: "batch_run out b evs b1 \<Longrightarrow> batch_step out b1 ev b2 \<Longrightarrow> batch_run out b (evs @ [ev]) b2"

fun submitted :: "batch_event list \<Rightarrow> job list" where
  "submitted [] = []"
| "submitted (EvSubmit j # evs) = j # submitted evs"
| "submitted (ev # evs) = submitted evs"

lemma submitted_snoc: "submitted (evs @ [ev]) = submitted evs @ submitted [ev]"
  by (induction evs rule: submitted.induct) auto

lemma drain_append: "fst (drain n buf ch) @ snd (drain n buf ch) = buf @ ch"
  by (induction n buf ch rule: drain.induct) auto

lemma drain_length: "length buf \<le> n \<Longrightarrow> length (fst (drain n buf ch)) \<le> n"
  by (induction n buf ch rule: drain.induct) auto

lemma drain_ch: "length (snd (drain n buf ch)) \<le> length ch"
  by (induction n buf ch rule: drain.induct) auto

lemma drain_buf: "length buf \<le> length (fst (drain n buf ch))"
  by (induction n buf ch rule: drain.induct) auto

text \<open>A flush reports every job of the buffer once, in order.\<close>

definition reports :: "(job list \<Rightarrow> (job \<times> gerr option) list) \<Rightarrow> bool" where
  "reports out \<longleftrightarrow> (\<forall>jobs. map fst (out jobs) = jobs)"

lemma reports_batch: "reports (\<lambda>jobs. fst (writePayloadsBatch w wb jobs))"
  by (simp add: reports_def writePayloadsBatch_jobs)

definition pending_jobs :: "batcher \<Rightarrow> job list" where
  "pending_jobs b = b_buf b @ b_ch b"

lemma flush_fields [simp]:
  "b_max (flush out b) = b_max b" "b_ch (flush out b) = b_ch b" "b_buf (flush out b) = []"
  "b_stopped (flush out b) = b_stopped b" "b_exited (flush out b) = b_exited b"
  by (simp_all add: flush_def)

lemma flush_done: "reports out \<Longrightarrow> map fst (b_done (flush out b)) = map fst (b_done b) @ b_buf b"
  by (simp add: flush_def reports_def)

lemma take_job_fields:
  assumes "reports out"
  shows "map fst (b_done (take_job out j ch b)) @ b_buf (take_job out j ch b) @ b_ch (take_job out j ch b) =
      map fst (b_done b) @ b_buf b @ j # ch"
    "b_max (take_job out j ch b) = b_max b" "length (b_ch (take_job out j ch b)) \<le> length ch"
    "b_stopped (take_job out j ch b) = b_stopped b" "b_exited (take_job out j ch b) = b_exited b"
    "length (b_buf b) < b_max b \<Longrightarrow> length (b_buf (take_job out j ch b)) < b_max b"
  using drain_append [of "b_max b" "b_buf b @ [j]" ch] drain_ch [of "b_max b" "b_buf b @ [j]" ch]
    flush_done [OF assms]
  by (auto simp: take_job_def Let_def case_prod_beta)

definition batch_inv :: "batch_event list \<Rightarrow> batcher \<Rightarrow> bool" where
  "batch_inv evs b \<longleftrightarrow> map fst (b_done b) @ b_buf b @ b_ch b = submitted evs \<and>
     length (b_buf b) < b_max b \<and> length (b_ch b) \<le> 4 * b_max b \<and>
     (b_exited b \<longrightarrow> b_stopped b \<and> b_buf b = [])"

lemma batch_step_inv:
  assumes "batch_step out b ev b'" "reports out" "batch_inv evs b"
  shows "batch_inv (evs @ [ev]) b' \<and> b_max b' = b_max b"
  using assms
proof (cases rule: batch_step.cases)
  case loop_stop
  then show ?thesis using assms(2,3) flush_done [OF assms(2), of b]
    by (auto simp: batch_inv_def submitted_snoc)
next
  case (loop_job j ch)
  then show ?thesis using assms(3) take_job_fields [OF assms(2), where j=j and ch=ch and b=b]
    by (auto simp: batch_inv_def submitted_snoc)
next
  case loop_timer
  then show ?thesis using assms(2,3) flush_done [OF assms(2), of b]
    by (auto simp: batch_inv_def submitted_snoc)
qed (auto simp: batch_inv_def submitted_snoc)

lemma batch_run_inv:
  assumes "batch_run out b0 evs b" "reports out" "b0 = startSendBatcher n"
  shows "batch_inv evs b \<and> b_max b = batch_max n"
  using assms
proof (induction rule: batch_run.induct)
  case nil
  then show ?case
    by (simp add: batch_inv_def startSendBatcher_def batch_max_def defaultSendBatchMax_def)
next
  case (snoc b evs b1 ev b2)
  then show ?case using batch_step_inv by metis
qed

text \<open>
  C25: The send batcher reorders and repeats nothing and delivers what its loop has taken: in every
  run the results delivered so far, the buffer and the channel together are the submitted jobs in
  the order of submission, each job once; the buffer stays below the batch size and the channel
  within its capacity; and once the loop has ended, which it does only after \<open>close\<close>, nothing is left
  in its buffer: every accepted job has its result, but for those still on the channel.
\<close>

theorem batcher_fifo:
  assumes "batch_run (\<lambda>jobs. fst (writePayloadsBatch w wb jobs)) (startSendBatcher n) evs b"
  shows "map fst (b_done b) @ b_buf b @ b_ch b = submitted evs \<and>
    length (b_buf b) < batch_max n \<and> length (b_ch b) \<le> 4 * batch_max n \<and>
    (b_exited b \<longrightarrow> b_stopped b \<and> map fst (b_done b) @ b_ch b = submitted evs)"
  using batch_run_inv [OF assms reports_batch refl] by (auto simp: batch_inv_def)

text \<open>
  Every flushed job gets exactly one result, in order, and when the kernel reports no error
  for the batch every datagram is put on the wire exactly once, the unsent rest one by one.
\<close>

theorem batch_write_exactly_once:
  assumes "snd (wb jobs) = None" "fst (wb jobs) \<le> length jobs"
  shows "map fst (fst (writePayloadsBatch w wb jobs)) = jobs \<and> snd (writePayloadsBatch w wb jobs) = jobs"
  using writePayloadsBatch_jobs writePayloadsBatch_wire [of wb jobs, OF assms] by blast

section \<open>Progress and its loss\<close>

definition loop_measure :: "batcher \<Rightarrow> nat" where
  "loop_measure b = 2 * length (b_ch b) + (if b_buf b = [] then 0 else 1)"

lemma loop_decreases:
  assumes "batch_step out b EvLoop b'" "\<not> b_stopped b" "reports out"
  shows "loop_measure b' < loop_measure b"
  using assms(1)
proof (cases rule: batch_step.cases)
  case (loop_job j ch)
  then show ?thesis using take_job_fields(3) [OF assms(3), where j=j and ch=ch and b=b] by (simp add: loop_measure_def)
qed (use assms(2) in \<open>auto simp: loop_measure_def\<close>)

text \<open>\<open>loops out k b b'\<close>: \<open>k\<close> rounds of the loop alone.\<close>

inductive loops :: "(job list \<Rightarrow> (job \<times> gerr option) list) \<Rightarrow> nat \<Rightarrow> batcher \<Rightarrow> batcher \<Rightarrow> bool" for out where
  zero: "loops out 0 b b"
| suc: "batch_step out b EvLoop b1 \<Longrightarrow> loops out k b1 b2 \<Longrightarrow> loops out (Suc k) b b2"

lemma loop_keeps:
  assumes "batch_step out b EvLoop b'" "\<not> b_stopped b" "reports out"
  shows "\<not> b_stopped b' \<and> b_exited b' = b_exited b \<and> map fst (b_done b') @ pending_jobs b' = map fst (b_done b) @ pending_jobs b"
  using assms(1)
proof (cases rule: batch_step.cases)
  case (loop_job j ch)
  then show ?thesis using assms(2) take_job_fields [OF assms(3), where j=j and ch=ch and b=b] by (simp add: pending_jobs_def)
qed (use assms(2) flush_done [OF assms(3), of b] in \<open>auto simp: pending_jobs_def\<close>)

lemma loops_bound:
  assumes "loops out k b b'" "\<not> b_stopped b" "reports out"
  shows "k + loop_measure b' \<le> loop_measure b \<and> \<not> b_stopped b' \<and> b_exited b' = b_exited b \<and>
    map fst (b_done b') @ pending_jobs b' = map fst (b_done b) @ pending_jobs b"
  using assms
proof (induction rule: loops.induct)
  case (suc b b1 k b2)
  then show ?case using loop_decreases [OF suc.hyps(1)] loop_keeps [OF suc.hyps(1)] by fastforce
qed simp

text \<open>
  While the batcher is not stopped its loop delivers: run alone it makes at most
  \<open>2 * length ch + 1\<close> rounds, and when no round is possible any more every accepted job has its
  result, in order.
\<close>

theorem batcher_delivers:
  assumes "loops (\<lambda>jobs. fst (writePayloadsBatch w wb jobs)) k b b'" "\<not> b_stopped b" "\<not> b_exited b"
  shows "k \<le> 2 * length (b_ch b) + 1 \<and>
    ((\<nexists>b''. batch_step (\<lambda>jobs. fst (writePayloadsBatch w wb jobs)) b' EvLoop b'') \<longrightarrow>
       map fst (b_done b') = map fst (b_done b) @ b_buf b @ b_ch b)"
proof -
  note bound = loops_bound [OF assms(1,2) reports_batch]
  have "k \<le> 2 * length (b_ch b) + 1" using bound by (auto simp: loop_measure_def split: if_splits)
  moreover have "b_ch b' = [] \<and> b_buf b' = []"
    if "\<nexists>b''. batch_step (\<lambda>jobs. fst (writePayloadsBatch w wb jobs)) b' EvLoop b''"
    using that bound assms(3) by (metis batch_step.loop_job batch_step.loop_timer list.exhaust)
  ultimately show ?thesis using bound by (auto simp: pending_jobs_def)
qed

lemma exited_stays:
  assumes "batch_run out b evs b'" "b_exited b"
  shows "b_exited b' \<and> b_done b' = b_done b"
  using assms
proof (induction rule: batch_run.induct)
  case (snoc b evs b1 ev b2)
  from snoc.hyps(2) show ?case
    by (cases rule: batch_step.cases) (use snoc in auto)
qed simp

text \<open>
  C26: A send can hang at shutdown: a job that \<open>submit\<close> puts on the channel around \<open>close\<close> can be
  left there when the loop exits, and then no continuation ever delivers its result, for which
  \<open>submit\<close> waits even after its context ends.
\<close>

theorem submit_hang_reachable:
  "\<exists>evs b. batch_run out (startSendBatcher n) evs b \<and> j \<in> set (b_ch b) \<and> b_exited b \<and>
     (\<forall>evs' b' e. batch_run out b evs' b' \<longrightarrow> (j, e) \<notin> set (b_done b'))"
proof -
  let ?b0 = "startSendBatcher n"
  let ?b1 = "?b0\<lparr>b_ch := [j]\<rparr>" and ?b2 = "?b0\<lparr>b_ch := [j], b_stopped := True\<rparr>"
  let ?b3 = "?b0\<lparr>b_ch := [j], b_stopped := True, b_exited := True\<rparr>"
  have m: "0 < batch_max n" by (simp add: batch_max_def defaultSendBatchMax_def)
  have "batch_step out ?b0 (EvSubmit j) ?b1"
    using batch_step.submit [of ?b0 out j] m by (simp add: startSendBatcher_def)
  moreover have "batch_step out ?b1 EvStop ?b2"
    using batch_step.stop [of out ?b1] by simp
  moreover have "batch_step out ?b2 EvLoop ?b3"
    using batch_step.loop_stop [of ?b2 out] by (simp add: startSendBatcher_def flush_def)
  ultimately have "batch_run out ?b0 ((([] @ [EvSubmit j]) @ [EvStop]) @ [EvLoop]) ?b3"
    using batch_run.snoc batch_run.nil by metis
  moreover have "(j, e) \<notin> set (b_done b')" if "batch_run out ?b3 evs' b'" for evs' b' e
    using exited_stays [OF that] by (simp add: startSendBatcher_def)
  ultimately show ?thesis by (intro exI conjI allI impI) (assumption | simp)+
qed

section \<open>Witnesses\<close>

definition w_job :: "nat \<Rightarrow> job" where
  "w_job i = \<lparr>j_no = i, j_payload = [1, 2, 3], j_addr = \<lparr>addr_ip = [10, 0, 0, 1], addr_port = 7000\<rparr>\<rparr>"

definition w_write :: udp_write where "w_write p a = (length p, None)"

definition w_batch :: "job list \<Rightarrow> nat \<times> gerr option" where "w_batch js = (length js - 1, None)"

definition w_out :: "job list \<Rightarrow> (job \<times> gerr option) list" where
  "w_out = (\<lambda>jobs. fst (writePayloadsBatch w_write w_batch jobs))"

definition w_queued :: batcher where
  "w_queued = (startSendBatcher 2)\<lparr>b_ch := [w_job 0]\<rparr>"

lemma w_submit: "batch_step w_out (startSendBatcher 2) (EvSubmit (w_job 0)) w_queued"
  using batch_step.submit [of "startSendBatcher 2" w_out "w_job 0"]
  by (simp add: w_queued_def startSendBatcher_def batch_max_def)

lemma w_taken: "batch_step w_out w_queued EvLoop (take_job w_out (w_job 0) [] w_queued)"
  using batch_step.loop_job [of w_queued "w_job 0" "[]" w_out]
  by (simp add: w_queued_def startSendBatcher_def)

text \<open>The loop takes the job, \<open>close\<close> comes, the loop flushes and ends.\<close>

theorem batcher_fifo_witness:
  "\<exists>b. batch_run w_out (startSendBatcher 2) [EvSubmit (w_job 0), EvLoop, EvStop, EvLoop] b \<and> b_exited b \<and>
     map fst (b_done b) @ b_ch b = [w_job 0]"
proof -
  let ?b1 = "take_job w_out (w_job 0) [] w_queued"
  let ?b2 = "?b1\<lparr>b_stopped := True\<rparr>"
  let ?b3 = "(flush w_out ?b2)\<lparr>b_exited := True\<rparr>"
  have open_: "\<not> b_exited ?b2"
    by (simp add: take_job_def w_queued_def startSendBatcher_def Let_def)
  then have "batch_step w_out ?b2 EvLoop ?b3" by (intro batch_step.loop_stop) simp_all
  then have run: "batch_run w_out (startSendBatcher 2) (((([] @ [EvSubmit (w_job 0)]) @ [EvLoop]) @ [EvStop]) @ [EvLoop]) ?b3"
    using batch_run.snoc [OF batch_run.snoc [OF batch_run.snoc [OF batch_run.snoc [OF batch_run.nil w_submit]
        w_taken] batch_step.stop]] by blast
  show ?thesis
    by (rule exI [of _ ?b3]) (use run batcher_fifo [OF run [unfolded w_out_def]] in \<open>simp add: w_out_def\<close>)
qed

theorem batch_write_exactly_once_witness:
  "snd (writePayloadsBatch w_write w_batch [w_job 0, w_job 1, w_job 2]) = [w_job 0, w_job 1, w_job 2]"
  using batch_write_exactly_once [of w_batch "[w_job 0, w_job 1, w_job 2]" w_write] by (simp add: w_batch_def)

theorem batcher_delivers_witness:
  "\<exists>k. k \<le> 2 * length (b_ch w_queued) + 1 \<and> loops w_out k w_queued (take_job w_out (w_job 0) [] w_queued)"
proof -
  have run: "loops w_out (Suc 0) w_queued (take_job w_out (w_job 0) [] w_queued)"
    using loops.suc [OF w_taken loops.zero] .
  from batcher_delivers [OF this [unfolded w_out_def]] have "Suc 0 \<le> 2 * length (b_ch w_queued) + 1"
    by (simp add: w_queued_def startSendBatcher_def w_out_def)
  then show ?thesis using run by blast
qed

theorem submit_hang_reachable_witness:
  "\<exists>evs b. batch_run w_out (startSendBatcher 2) evs b \<and> w_job 0 \<in> set (b_ch b) \<and> b_exited b \<and>
     (w_job 0, None) \<notin> set (b_done b)"
  using submit_hang_reachable [of w_out 2 "w_job 0"] batch_run.nil by blast

end
