(* ===== verification/UdpConn.thy ===== *)
theory UdpConn imports Udp "HOL-Library.Sublist" "HOL-Library.Multiset" begin

text \<open>
  \<open>internal/transport/udp\<close>, the connection: \<open>New\<close> with the socket buffers, \<open>Send\<close> over the batcher or
  directly, \<open>SendBatch\<close>, \<open>ReceiveRawBatch\<close>, \<open>Close\<close> and the buffer pools.  What the operating system
  answers is an argument; the calls \<open>New\<close> makes are a trace.
\<close>

section \<open>Buffer pools (\<open>packet.go\<close>, \<open>codec.go\<close>)\<close>

text \<open>
  A buffer is its capacity.  \<open>acquirePacket\<close> gets a pooled or fresh buffer of capacity \<open>cap\<close> for \<open>n\<close>
  bytes: the length and capacity of the result, \<open>None\<close> for the nil slice.
\<close>

definition acquirePacket :: "nat \<Rightarrow> nat \<Rightarrow> (nat \<times> nat) option" where
  "acquirePacket cap n = (if n = 0 then None else if cap < n then Some (n, n) else Some (n, cap))"

definition maxPooledPacketCap :: nat where "maxPooledPacketCap = DefaultMaxPacketSize"

text \<open>What a release puts into the pool.\<close>

definition ReleasePacket :: "nat option \<Rightarrow> nat list" where
  "ReleasePacket b =
     (case b of None \<Rightarrow> [] | Some cap \<Rightarrow> if cap = 0 \<or> cap > maxPooledPacketCap then [] else [cap])"

definition maxPooledEncodeCap :: nat where "maxPooledEncodeCap = 262144"

definition release_encode :: "nat \<Rightarrow> nat list" where
  "release_encode cap = (if cap = 0 \<or> cap > maxPooledEncodeCap then [] else [cap])"

text \<open>The scratch buffers of the batch read, by their sizes.\<close>

definition ensureReadBatchBufs :: "nat \<Rightarrow> nat \<Rightarrow> nat list \<Rightarrow> nat list" where
  "ensureReadBatchBufs maxPacketSize m bufs =
     (if length bufs \<ge> m then bufs
      else map (\<lambda>i. if i < length bufs then bufs ! i else maxPacketSize) [0 ..< m])"

lemma ensureReadBatchBufs_keeps:
  "prefix bufs (ensureReadBatchBufs m k bufs)"
  "k \<le> length (ensureReadBatchBufs m k bufs)"
  "set bufs \<subseteq> {m} \<Longrightarrow> set (ensureReadBatchBufs m k bufs) \<subseteq> {m}"
proof -
  show "prefix bufs (ensureReadBatchBufs m k bufs)"
  proof (cases "length bufs \<ge> k")
    case False
    have "take (length bufs) (ensureReadBatchBufs m k bufs) = bufs"
      using False by (auto simp: ensureReadBatchBufs_def intro!: nth_equalityI)
    then show ?thesis by (metis take_is_prefix)
  qed (simp add: ensureReadBatchBufs_def)
  show "set (ensureReadBatchBufs m k bufs) \<subseteq> {m}" if "set bufs \<subseteq> {m}"
    using that by (auto simp: ensureReadBatchBufs_def) (meson nth_mem singletonD subsetD)
qed (simp add: ensureReadBatchBufs_def)

section \<open>Socket buffers (\<open>sockbuf_linux.go\<close>)\<close>

text \<open>What the system calls answer: \<open>SyscallConn\<close>, \<open>Control\<close> and the two options.\<close>

record getopt_out =
  go_raw :: "gerr option"
  go_control :: "gerr option"
  go_rcv :: "int res"
  go_snd :: "int res"

record setopt_out =
  fo_raw :: "gerr option"
  fo_control :: "gerr option"
  fo_rcv :: "gerr option"
  fo_snd :: "gerr option"

definition SocketBufferSizes :: "getopt_out \<Rightarrow> (int \<times> int) res" where
  "SocketBufferSizes g =
     (case go_raw g of
        Some err \<Rightarrow> Inl err
      | None \<Rightarrow>
     (case go_control g of
        Some err \<Rightarrow> Inl err
      | None \<Rightarrow>
     (case go_rcv g of
        Inl err \<Rightarrow> Inl (Wrap [Lit ''SO_RCVBUF: ''] err [])
      | Inr rcv \<Rightarrow>
     (case go_snd g of
        Inl err \<Rightarrow> Inl (Wrap [Lit ''SO_SNDBUF: ''] err [])
      | Inr w \<Rightarrow> Inr (rcv, w)))))"

definition forceSocketBuffers :: "setopt_out \<Rightarrow> int \<Rightarrow> int \<Rightarrow> gerr option" where
  "forceSocketBuffers f rcv sndb =
     (case fo_raw f of
        Some err \<Rightarrow> Some err
      | None \<Rightarrow>
     (case fo_control f of
        Some err \<Rightarrow> Some err
      | None \<Rightarrow>
          if rcv > 0 \<and> fo_rcv f \<noteq> None then Some (Wrap [Lit ''SO_RCVBUFFORCE: ''] (the (fo_rcv f)) [])
          else if sndb > 0 \<and> fo_snd f \<noteq> None then Some (Wrap [Lit ''SO_SNDBUFFORCE: ''] (the (fo_snd f)) [])
          else None))"

record buffer_report =
  br_configuredR :: int
  br_requestedR :: int
  br_beforeR :: int
  br_error :: "gerr option"
  br_afterR :: int
  br_configuredW :: int
  br_requestedW :: int
  br_beforeW :: int
  br_afterW :: int
  br_forced :: bool

definition need_force :: "int \<Rightarrow> int \<Rightarrow> int \<Rightarrow> int \<Rightarrow> bool" where
  "need_force wantR wantW r w \<longleftrightarrow>
     (wantR > 0 \<and> r > 0 \<and> r < wantR) \<or> (wantW > 0 \<and> w > 0 \<and> w < wantW) \<or> (wantR > 0 \<and> r = 0) \<or> (wantW > 0 \<and> w = 0)"

text \<open>\<open>%v\<close> of an error is its text.\<close>

definition applySocketBuffers :: "(int \<times> int) res \<Rightarrow> (int \<Rightarrow> int \<Rightarrow> gerr option) \<Rightarrow> (int \<times> int) res \<Rightarrow> int \<Rightarrow> int \<Rightarrow> buffer_report" where
  "applySocketBuffers before force after wantR wantW =
     (let rep = \<lparr>br_configuredR = wantR, br_requestedR = wantR, br_beforeR = 0, br_error = None, br_afterR = 0,
                 br_configuredW = wantW, br_requestedW = wantW, br_beforeW = 0, br_afterW = 0, br_forced = False\<rparr> in
      if wantR \<le> 0 \<and> wantW \<le> 0 then rep
      else
        let rep1 = (case before of
             Inl err \<Rightarrow>
               let e = Wrap [Lit ''getsockopt before force: ''] err [] in
               (case force wantR wantW of
                  Some ferr \<Rightarrow> rep\<lparr>br_error := Some (Wrap [Lit (error_text e), Lit ''; force: ''] ferr [])\<rparr>
                | None \<Rightarrow> rep\<lparr>br_error := Some e, br_forced := True\<rparr>)
           | Inr (r, w) \<Rightarrow>
               let rep' = rep\<lparr>br_beforeR := r, br_beforeW := w\<rparr> in
               if need_force wantR wantW r w then rep'\<lparr>br_forced := True, br_error := force wantR wantW\<rparr> else rep')
        in case after of
             Inl aerr \<Rightarrow>
               rep1\<lparr>br_error := Some (case br_error rep1 of
                  None \<Rightarrow> Wrap [Lit ''getsockopt after force: ''] aerr []
                | Some e \<Rightarrow> Wrap [Lit (error_text e), Lit ''; after: ''] aerr [])\<rparr>
           | Inr (r, w) \<Rightarrow> rep1\<lparr>br_afterR := r, br_afterW := w\<rparr>)"

lemma report_truthful:
  assumes "br_error (applySocketBuffers before force after wantR wantW) = None" "wantR > 0 \<or> wantW > 0"
  shows "\<exists>r w. before = Inr (r, w) \<and> after = Inr (br_afterR (applySocketBuffers before force after wantR wantW),
      br_afterW (applySocketBuffers before force after wantR wantW)) \<and>
    br_forced (applySocketBuffers before force after wantR wantW) = need_force wantR wantW r w \<and>
    (need_force wantR wantW r w \<longrightarrow> force wantR wantW = None)"
  using assms by (auto simp: applySocketBuffers_def Let_def split: sum.splits option.splits if_splits)

section \<open>\<open>New\<close>\<close>

definition DefaultSocketBufferSize :: int where "DefaultSocketBufferSize = 33554432"
definition DefaultReceiveBatchSize :: int where "DefaultReceiveBatchSize = 64"
definition DefaultReadPollInterval :: duration where "DefaultReadPollInterval = 50 * millisecond"
definition defaultSendBatchWait :: duration where "defaultSendBatchWait = 100000"

record udp_config =
  uc_ListenHost :: string
  uc_ListenPort :: int
  uc_MaxPacketSize :: int
  uc_ReadPollInterval :: duration
  uc_ReadBufferSize :: int
  uc_WriteBufferSize :: int
  uc_SendBatchSize :: int
  uc_SendBatchWait :: duration
  uc_ReceiveBatchSize :: int

record conn =
  cn_maxPacketSize :: int
  cn_readPollInterval :: duration
  cn_receiveBatchSize :: int
  cn_readBuf :: int
  cn_report :: buffer_report
  cn_batcher :: "batcher option"
  cn_batchWait :: duration
  cn_closed :: bool

record os_socket =
  os_resolve :: "string \<Rightarrow> gerr option"
  os_listen :: "gerr option"
  os_setRead :: "int \<Rightarrow> gerr option"
  os_setWrite :: "int \<Rightarrow> gerr option"
  os_before :: getopt_out
  os_force :: setopt_out
  os_after :: getopt_out

datatype sock_call = SResolve string | SListen | SSetRead int | SSetWrite int | SClose

definition apply_buffers :: "os_socket \<Rightarrow> udp_config \<Rightarrow> buffer_report" where
  "apply_buffers os cfg =
     applySocketBuffers (SocketBufferSizes (os_before os)) (forceSocketBuffers (os_force os)) (SocketBufferSizes (os_after os))
       (uc_ReadBufferSize cfg) (uc_WriteBufferSize cfg)"

definition new_conn :: "os_socket \<Rightarrow> udp_config \<Rightarrow> conn" where
  "new_conn os cfg =
     (let maxSize = (if uc_MaxPacketSize cfg \<le> 0 then int DefaultMaxPacketSize else uc_MaxPacketSize cfg);
          poll = (if uc_ReadPollInterval cfg \<le> 0 then DefaultReadPollInterval else uc_ReadPollInterval cfg);
          recvBatch = (if uc_ReceiveBatchSize cfg \<le> 0 then DefaultReceiveBatchSize else uc_ReceiveBatchSize cfg) in
      \<lparr>cn_maxPacketSize = maxSize, cn_readPollInterval = poll, cn_receiveBatchSize = recvBatch, cn_readBuf = maxSize,
       cn_report = apply_buffers os cfg,
       cn_batcher = (if uc_SendBatchSize cfg > 0 then Some (startSendBatcher (uc_SendBatchSize cfg)) else None),
       cn_batchWait = (if uc_SendBatchWait cfg \<le> 0 then defaultSendBatchWait else uc_SendBatchWait cfg),
       cn_closed = False\<rparr>)"

definition NewConn :: "os_socket \<Rightarrow> udp_config \<Rightarrow> conn res \<times> sock_call list" where
  "NewConn os cfg =
     (let host = (if uc_ListenHost cfg = [] then ''0.0.0.0'' else uc_ListenHost cfg);
          addr = JoinHostPort host (Itoa (uc_ListenPort cfg)) in
      case os_resolve os addr of
        Some err \<Rightarrow> (Inl (Wrap [Lit ''resolve UDP listen address: ''] err []), [SResolve addr])
      | None \<Rightarrow>
     (case os_listen os of
        Some err \<Rightarrow> (Inl (Wrap [Lit ''listen UDP: ''] err []), [SResolve addr])
      | None \<Rightarrow>
          let R = uc_ReadBufferSize cfg; W = uc_WriteBufferSize cfg; opened = [SResolve addr, SListen];
              rd = (if R > 0 then os_setRead os R else None); rcall = (if R > 0 then [SSetRead R] else []) in
          case rd of
            Some err \<Rightarrow> (Inl (Wrap [Lit ''set UDP read buffer: ''] err []), opened @ rcall @ [SClose])
          | None \<Rightarrow>
              (case (if W > 0 then os_setWrite os W else None) of
                 Some err \<Rightarrow> (Inl (Wrap [Lit ''set UDP write buffer: ''] err []), opened @ rcall @ [SSetWrite W, SClose])
               | None \<Rightarrow> (Inr (new_conn os cfg), opened @ rcall @ (if W > 0 then [SSetWrite W] else [])))))"

definition ReceiveBatchSize :: "conn \<Rightarrow> int" where
  "ReceiveBatchSize c = (if cn_receiveBatchSize c \<le> 0 then DefaultReceiveBatchSize else cn_receiveBatchSize c)"

text \<open>
  Opening a UDP connection never leaks the socket: an error after the socket was opened closes it,
  and a returned connection is open with a positive packet size, poll interval and batch size, read
  buffer and channel sized for them, and a buffer report whose sizes, unless it holds an error, are
  those the kernel reported last.
\<close>

theorem new_conn_sound:
  "case fst (NewConn os cfg) of
     Inl err \<Rightarrow> SListen \<in> set (snd (NewConn os cfg)) \<longleftrightarrow> SClose \<in> set (snd (NewConn os cfg))
   | Inr c \<Rightarrow> SListen \<in> set (snd (NewConn os cfg)) \<and> SClose \<notin> set (snd (NewConn os cfg)) \<and> \<not> cn_closed c \<and>
       0 < cn_maxPacketSize c \<and> cn_readBuf c = cn_maxPacketSize c \<and> 0 < cn_readPollInterval c \<and> 0 < ReceiveBatchSize c \<and>
       (cn_batcher c = None \<longleftrightarrow> uc_SendBatchSize cfg \<le> 0) \<and>
       (br_error (cn_report c) = None \<and> (uc_ReadBufferSize cfg > 0 \<or> uc_WriteBufferSize cfg > 0) \<longrightarrow>
          SocketBufferSizes (os_after os) = Inr (br_afterR (cn_report c), br_afterW (cn_report c)))"
  using report_truthful [of "SocketBufferSizes (os_before os)" "forceSocketBuffers (os_force os)"
      "SocketBufferSizes (os_after os)" "uc_ReadBufferSize cfg" "uc_WriteBufferSize cfg"]
  by (auto simp: NewConn_def new_conn_def apply_buffers_def ReceiveBatchSize_def DefaultReceiveBatchSize_def
    DefaultReadPollInterval_def DefaultMaxPacketSize_def millisecond_def Let_def split: option.split)

section \<open>\<open>Send\<close> and \<open>Close\<close>\<close>

text \<open>
  How \<open>submit\<close> of the batcher ends: turned away because the batcher stopped or the context ended, or
  with the job's result, before or after the context ended.
\<close>

datatype submitted_job = SubStopped | SubCtx ctx_err | SubResult "gerr option" | SubResultCtx ctx_err "gerr option"

fun submit_result :: "submitted_job \<Rightarrow> gerr option" where
  "submit_result SubStopped = Some (Sentinel (Udp ErrTransportClosed))"
| "submit_result (SubCtx e) = Some (Sentinel (Context e))"
| "submit_result (SubResult err) = err"
| "submit_result (SubResultCtx e err) =
     (case err of Some x \<Rightarrow> Some x | None \<Rightarrow> Some (Wrap [Lit ''send UDP packet: ''] (Sentinel (Context e)) []))"

text \<open>\<open>sub\<close>: how the job ends, with a batcher; \<open>n\<close> to \<open>ctx_after\<close>: the write without one, as in \<open>send_written\<close>.\<close>

definition SendConn ::
  "(envelope \<Rightarrow> bytes res) \<Rightarrow> conn \<Rightarrow> ctx_err option \<Rightarrow> envelope option \<Rightarrow> udp_addr option \<Rightarrow> submitted_job \<Rightarrow>
   nat \<Rightarrow> gerr option \<Rightarrow> bool \<Rightarrow> bool \<Rightarrow> ctx_err option \<Rightarrow> gerr option" where
  "SendConn marshal c ctx msg addr sub n err closed_after timeout ctx_after =
     (case send_prepare marshal (nat (cn_maxPacketSize c)) ctx (cn_closed c) msg addr of
        Inl e \<Rightarrow> Some e
      | Inr (payload, a) \<Rightarrow>
          if cn_batcher c \<noteq> None then submit_result sub
          else send_written (length payload) n err closed_after timeout ctx_after)"

text \<open>
  \<open>Close\<close>: the first call stops the batcher, whose loop flushes its buffer and ends, and closes the
  socket; later calls do nothing.
\<close>

definition CloseConn :: "(job list \<Rightarrow> (job \<times> gerr option) list) \<Rightarrow> gerr option \<Rightarrow> conn \<Rightarrow> gerr option \<times> conn" where
  "CloseConn out sock_err c =
     (if cn_closed c then (None, c)
      else (map_option (\<lambda>e. Wrap [Lit ''close UDP transport: ''] e []) sock_err,
            c\<lparr>cn_batcher := map_option (\<lambda>b. (flush out b)\<lparr>b_stopped := True, b_exited := True\<rparr>) (cn_batcher c),
              cn_closed := True\<rparr>))"

lemma closed_conn:
  "fst (CloseConn out e2 (snd (CloseConn out e1 c))) = None"
  "snd (CloseConn out e2 (snd (CloseConn out e1 c))) = snd (CloseConn out e1 c)"
  "SendConn marshal (snd (CloseConn out e1 c)) None msg addr sub n err ca timeout cta = Some (Sentinel (Udp ErrTransportClosed))"
  by (auto simp: CloseConn_def SendConn_def send_prepare_def checkOpen_def)

text \<open>
  With the batcher a datagram that was sent is reported as a failed send when the context ended
  before its result was read.
\<close>

lemma sent_but_reported: "submit_result (SubResultCtx e None) \<noteq> None \<and> submit_result (SubResult None) = None"
  by simp

section \<open>\<open>SendBatch\<close> (\<open>sendbatch_linux.go\<close>)\<close>

type_synonym datagram = "bytes \<times> udp_addr"

text \<open>
  The pooled encoding buffers: those \<open>encode\<close> handed out are numbered, and every call of a release
  function is recorded with the number of its buffer.  A failed \<open>encode\<close> puts its buffer back itself.
\<close>

record enc_bufs =
  eb_taken :: nat
  eb_released :: "nat list"

definition encode_buf ::
  "(envelope \<Rightarrow> bytes res) \<Rightarrow> envelope \<Rightarrow> enc_bufs \<Rightarrow> (bytes \<times> nat) res \<times> enc_bufs" where
  "encode_buf marshal msg eb =
     (case encode marshal msg of
        Inl err \<Rightarrow> (Inl err, eb)
      | Inr out \<Rightarrow> (Inr (out, eb_taken eb), eb\<lparr>eb_taken := eb_taken eb + 1\<rparr>))"

definition release_buf :: "nat \<Rightarrow> enc_bufs \<Rightarrow> enc_bufs" where
  "release_buf b eb = eb\<lparr>eb_released := eb_released eb @ [b]\<rparr>"

text \<open>A prepared datagram with the number of its buffer.\<close>

type_synonym prepared = "bytes \<times> nat \<times> udp_addr"

definition prepared_datagram :: "prepared \<Rightarrow> datagram" where
  "prepared_datagram = (\<lambda>(p, b, a). (p, a))"

text \<open>The encoding loop: its error, if any, and what was prepared so far.\<close>

fun prepare_batch ::
  "(envelope \<Rightarrow> bytes res) \<Rightarrow> nat \<Rightarrow> nat \<Rightarrow> (envelope option \<times> udp_addr option) list \<Rightarrow> prepared list \<Rightarrow>
   enc_bufs \<Rightarrow> gerr option \<times> prepared list \<times> enc_bufs" where
  "prepare_batch marshal k i [] prep eb = (None, prep, eb)"
| "prepare_batch marshal k i ((msg, addr) # items) prep eb =
     (case (msg, addr) of
        (Some m, Some a) \<Rightarrow>
          (case encode_buf marshal m eb of
             (Inl err, eb) \<Rightarrow> (Some err, prep, eb)
           | (Inr (payload, b), eb) \<Rightarrow>
               if length payload > k
               then (Some (errorf (Udp ErrPacketTooLarge)
                      [Lit ''encoded size '', Num (length payload), Lit '' exceeds max '', Num k]),
                     prep, release_buf b eb)
               else prepare_batch marshal k (Suc i) items (prep @ [(payload, b, a)]) eb)
      | _ \<Rightarrow> (Some (errorf (Udp ErrInvalidMessage) [Lit ''nil entry at '', Num i]), prep, eb))"

text \<open>Datagrams one by one until a write fails: the error, and what went out.\<close>

fun write_each :: "udp_write \<Rightarrow> datagram list \<Rightarrow> gerr option \<times> datagram list" where
  "write_each write [] = (None, [])"
| "write_each write ((p, a) # ds) =
     (case snd (write p a) of
        Some err \<Rightarrow> (Some (Wrap [Lit ''send UDP packet: ''] err []), [])
      | None \<Rightarrow> (let (err, wire) = write_each write ds in (err, (p, a) # wire)))"

text \<open>
  The writes: one by one with an IPv6 address among the destinations, else \<open>WriteBatch\<close> (\<open>write_batch\<close>:
  how many it sent, and its error) and the rest, or after an error everything, one by one.
\<close>

definition write_prepared ::
  "udp_write \<Rightarrow> (datagram list \<Rightarrow> nat \<times> gerr option) \<Rightarrow> datagram list \<Rightarrow> gerr option \<times> datagram list" where
  "write_prepared write write_batch ds =
     (if list_ex (\<lambda>(p, a). addr_ip a \<noteq> [] \<and> To4 (addr_ip a) = None) ds then write_each write ds
      else let (n, err) = write_batch ds in
        if err \<noteq> None \<or> n < length ds
        then let start = (if err \<noteq> None then 0 else n); (werr, wire) = write_each write (drop start ds)
             in (werr, take n ds @ wire)
        else (None, take n ds))"

record batch_out =
  bo_err :: "gerr option"
  bo_wire :: "datagram list"
  bo_bufs :: enc_bufs

text \<open>
  \<open>send\<close> is \<open>c.Send\<close> with what it does to the wire and the buffers.  The last step of a batch is its
  deferred function, which releases the buffer of every prepared datagram.
\<close>

definition SendBatch ::
  "(envelope \<Rightarrow> bytes res) \<Rightarrow> udp_write \<Rightarrow> (datagram list \<Rightarrow> nat \<times> gerr option) \<Rightarrow>
   (envelope option \<Rightarrow> udp_addr option \<Rightarrow> enc_bufs \<Rightarrow> batch_out) \<Rightarrow> conn \<Rightarrow> ctx_err option \<Rightarrow>
   (envelope option \<times> udp_addr option) list \<Rightarrow> enc_bufs \<Rightarrow> batch_out" where
  "SendBatch marshal write write_batch send c ctx items eb =
     (case checkOpen ctx (cn_closed c) of
        Some err \<Rightarrow> \<lparr>bo_err = Some err, bo_wire = [], bo_bufs = eb\<rparr>
      | None \<Rightarrow>
          (case items of
             [] \<Rightarrow> \<lparr>bo_err = None, bo_wire = [], bo_bufs = eb\<rparr>
           | [(msg, addr)] \<Rightarrow> send msg addr eb
           | _ \<Rightarrow>
             let (perr, prep, eb) = prepare_batch marshal (nat (cn_maxPacketSize c)) 0 items [] eb;
                 (err, wire) = (case perr of
                    Some e \<Rightarrow> (Some e, [])
                  | None \<Rightarrow> write_prepared write write_batch (map prepared_datagram prep))
             in \<lparr>bo_err = err, bo_wire = wire, bo_bufs = fold (\<lambda>(p, b, a). release_buf b) prep eb\<rparr>))"

text \<open>The datagrams of a batch: those of its first entries, each encoded within the size limit.\<close>

definition datagrams_of ::
  "(envelope \<Rightarrow> bytes res) \<Rightarrow> nat \<Rightarrow> (envelope option \<times> udp_addr option) list \<Rightarrow> datagram list \<Rightarrow> bool" where
  "datagrams_of marshal k items ds \<longleftrightarrow>
     list_all2 (\<lambda>(msg, addr) (p, a). \<exists>m. msg = Some m \<and> addr = Some a \<and> marshal m = Inr p \<and> length p \<le> k) items ds"

text \<open>
  The encoding loop: the buffers it took are those it released on the spot and those of what it
  prepared; without an error it prepared every entry.
\<close>

lemma prepare_batch_ok:
  "prepare_batch marshal k i items prep eb = (err, prep', eb') \<Longrightarrow>
   \<exists>new rel. prep' = prep @ new \<and> datagrams_of marshal k (take (length new) items) (map prepared_datagram new) \<and>
     (err = None \<longrightarrow> length new = length items) \<and> eb_released eb' = eb_released eb @ rel \<and>
     eb_taken eb \<le> eb_taken eb' \<and>
     mset rel + mset (map (\<lambda>x. fst (snd x)) new) = mset [eb_taken eb..<eb_taken eb']"
proof (induction marshal k i items prep eb rule: prepare_batch.induct)
  case (1 marshal k i prep eb)
  then show ?case by (simp add: datagrams_of_def)
next
  case (2 marshal k i msg addr items prep eb)
  show ?case
  proof (cases "\<exists>m a p. msg = Some m \<and> addr = Some a \<and> encode marshal m = Inr p")
    case False
    then have "prep' = prep \<and> eb' = eb \<and> err \<noteq> None"
      using 2(2) by (auto simp: encode_buf_def split: option.splits sum.splits)
    then show ?thesis by (simp add: datagrams_of_def)
  next
    case True
    then obtain m a p where m: "msg = Some m" "addr = Some a" "encode marshal m = Inr p" by blast
    then have enc: "encode_buf marshal m eb = (Inr (p, eb_taken eb), eb\<lparr>eb_taken := eb_taken eb + 1\<rparr>)"
      and mar: "marshal m = Inr p" by (auto simp: encode_buf_def encode_def split: sum.splits)
    show ?thesis
    proof (cases "length p > k")
      case True
      then have "prep' = prep" "eb' = release_buf (eb_taken eb) (eb\<lparr>eb_taken := eb_taken eb + 1\<rparr>)" "err \<noteq> None"
        using 2(2) m enc by auto
      then show ?thesis by (simp add: datagrams_of_def release_buf_def)
    next
      case False
      then have rest: "prepare_batch marshal k (Suc i) items (prep @ [(p, eb_taken eb, a)])
          (eb\<lparr>eb_taken := eb_taken eb + 1\<rparr>) = (err, prep', eb')"
        using 2(2) m enc by simp
      from 2(1) [OF refl m(1,2) enc [symmetric] refl refl False rest] obtain new rel where
        "prep' = (prep @ [(p, eb_taken eb, a)]) @ new"
        "datagrams_of marshal k (take (length new) items) (map prepared_datagram new)"
        "err = None \<longrightarrow> length new = length items" "eb_released eb' = eb_released eb @ rel"
        and le: "Suc (eb_taken eb) \<le> eb_taken eb'"
        and ms: "mset rel + mset (map (\<lambda>x. fst (snd x)) new) = mset [Suc (eb_taken eb)..<eb_taken eb']" by auto
      moreover have "mset [eb_taken eb..<eb_taken eb'] = add_mset (eb_taken eb) (mset [Suc (eb_taken eb)..<eb_taken eb'])"
        using le by (simp add: upt_conv_Cons)
      ultimately show ?thesis using m mar False le
        by (intro exI [of _ "(p, eb_taken eb, a) # new"] exI [of _ rel])
           (auto simp: datagrams_of_def prepared_datagram_def)
    qed
  qed
qed

lemma release_all:
  "eb_released (fold (\<lambda>(p, b, a). release_buf b) prep eb) = eb_released eb @ map (\<lambda>x. fst (snd x)) prep"
  "eb_taken (fold (\<lambda>(p, b, a). release_buf b) prep eb) = eb_taken eb"
  by (induction prep arbitrary: eb) (auto simp: release_buf_def)

lemma write_each_prefix:
  "prefix (snd (write_each write ds)) ds \<and> (fst (write_each write ds) = None \<longrightarrow> snd (write_each write ds) = ds)"
  by (induction "write" ds rule: write_each.induct) (auto split: option.split prod.split)

lemma split_writes:
  "prefix (take n ds @ snd (write_each write (drop n ds))) ds"
  "fst (write_each write (drop n ds)) = None \<Longrightarrow> take n ds @ snd (write_each write (drop n ds)) = ds"
  using write_each_prefix [of "write" "drop n ds"]
  by (metis append_take_drop_id same_prefix_prefix, simp)

text \<open>Some of the datagrams go out in one call, the rest one by one.\<close>

lemma write_prepared_exact:
  assumes "snd (write_batch ds) \<noteq> None \<Longrightarrow> fst (write_batch ds) = 0"
  shows "prefix (snd (write_prepared write write_batch ds)) ds \<and>
    (fst (write_prepared write write_batch ds) = None \<longrightarrow> snd (write_prepared write write_batch ds) = ds)"
proof -
  have "\<exists>n. write_prepared write write_batch ds =
      (fst (write_each write (drop n ds)), take n ds @ snd (write_each write (drop n ds)))"
  proof (cases "list_ex (\<lambda>(p, a). addr_ip a \<noteq> [] \<and> To4 (addr_ip a) = None) ds \<or> snd (write_batch ds) \<noteq> None")
    case True
    then show ?thesis using assms
      by (intro exI [of _ 0]) (auto simp: write_prepared_def Let_def case_prod_beta)
  next
    case False
    then show ?thesis
      by (intro exI [of _ "fst (write_batch ds)"]) (auto simp: write_prepared_def Let_def case_prod_beta)
  qed
  then show ?thesis using split_writes [where ds = ds] by auto
qed

text \<open>
  C40: \<open>SendBatch\<close> of no or several envelopes (one alone is a \<open>Send\<close>) puts on the wire a prefix of
  their datagrams, in order and each once, and all of them when it reports no error, provided
  \<open>WriteBatch\<close> sent nothing when it reports an error; and of the encoding buffers it took every one
  is released exactly once, on every path.
\<close>

theorem send_batch_exact:
  assumes "length items \<noteq> 1" "\<And>ds. snd (write_batch ds) \<noteq> None \<Longrightarrow> fst (write_batch ds) = 0"
    and "out = SendBatch marshal write write_batch send c ctx items eb"
  shows "(\<exists>ds. datagrams_of marshal (nat (cn_maxPacketSize c)) (take (length ds) items) ds \<and> prefix (bo_wire out) ds \<and>
       (bo_err out = None \<longrightarrow> length ds = length items \<and> bo_wire out = ds)) \<and>
    (\<exists>rel. eb_released (bo_bufs out) = eb_released eb @ rel \<and>
       mset rel = mset [eb_taken eb..<eb_taken (bo_bufs out)])"
proof (cases "checkOpen ctx (cn_closed c) = None \<and> items \<noteq> []")
  case False
  then have "bo_wire out = []" "bo_bufs out = eb" "bo_err out = None \<longrightarrow> items = []"
    using assms(3) by (auto simp: SendBatch_def split: option.split)
  then show ?thesis by (intro conjI exI [of _ "[]"]) (simp_all add: datagrams_of_def)
next
  case True
  then obtain x y rest where items: "items = x # y # rest"
    using assms(1) by (cases items; cases "tl items") auto
  obtain perr prep eb' where prep:
    "prepare_batch marshal (nat (cn_maxPacketSize c)) 0 items [] eb = (perr, prep, eb')" by (metis prod_cases3)
  from prepare_batch_ok [OF prep] obtain rel where ok:
    "datagrams_of marshal (nat (cn_maxPacketSize c)) (take (length prep) items) (map prepared_datagram prep)"
    "perr = None \<longrightarrow> length prep = length items" "eb_released eb' = eb_released eb @ rel"
    "mset rel + mset (map (\<lambda>x. fst (snd x)) prep) = mset [eb_taken eb..<eb_taken eb']" by auto
  have out: "bo_err out = (case perr of Some e \<Rightarrow> Some e | None \<Rightarrow> fst (write_prepared write write_batch (map prepared_datagram prep)))"
    "bo_wire out = (case perr of Some e \<Rightarrow> [] | None \<Rightarrow> snd (write_prepared write write_batch (map prepared_datagram prep)))"
    "bo_bufs out = fold (\<lambda>(p, b, a). release_buf b) prep eb'"
    using True prep unfolding assms(3) items
    by (auto simp: SendBatch_def Let_def split: prod.splits option.splits)
  have "\<exists>ds. datagrams_of marshal (nat (cn_maxPacketSize c)) (take (length ds) items) ds \<and> prefix (bo_wire out) ds \<and>
       (bo_err out = None \<longrightarrow> length ds = length items \<and> bo_wire out = ds)"
    using ok(1,2) out(1,2) write_prepared_exact [of write_batch "map prepared_datagram prep" "write", OF assms(2)]
    by (intro exI [of _ "map prepared_datagram prep"]) (auto split: option.splits)
  moreover have "eb_released (bo_bufs out) = eb_released eb @ (rel @ map (\<lambda>x. fst (snd x)) prep)"
    "mset (rel @ map (\<lambda>x. fst (snd x)) prep) = mset [eb_taken eb..<eb_taken (bo_bufs out)]"
    using ok(3,4) by (simp_all add: out(3) release_all)
  ultimately show ?thesis by blast
qed

text \<open>The fallback of other systems: one \<open>Send\<close> after the other until one fails.\<close>

fun sendBatchSequential :: "(envelope option \<Rightarrow> udp_addr option \<Rightarrow> gerr option) \<Rightarrow> nat \<Rightarrow>
   (envelope option \<times> udp_addr option) list \<Rightarrow> gerr option" where
  "sendBatchSequential send i [] = None"
| "sendBatchSequential send i ((msg, addr) # items) =
     (case send msg addr of
        Some err \<Rightarrow> Some (Wrap [Lit ''send batch['', Num i, Lit '']: ''] err [])
      | None \<Rightarrow> sendBatchSequential send (Suc i) items)"

section \<open>\<open>ReceiveRawBatch\<close> (\<open>receivebatch_linux.go\<close>)\<close>

text \<open>
  A round of the batch read: the messages \<open>ReadBatch\<close> filled (their bytes, and the sender when it is a
  UDP address), a timeout or another error.
\<close>

datatype batch_read = BatchData "(bytes \<times> udp_addr option) list" | BatchTimeout | BatchError gerr

record batch_poll =
  bp_ctx :: "ctx_err option"
  bp_closed :: bool
  bp_deadline_err :: "gerr option"
  bp_read :: batch_read
  bp_closed_after :: bool
  bp_ctx_after :: "ctx_err option"

text \<open>One packet by \<open>ReceiveRaw\<close>, as a batch; \<open>fb\<close> are the rounds that call observes.\<close>

definition receive_single :: "poll list \<Rightarrow> (bytes \<times> udp_addr option) list res option" where
  "receive_single fb = map_option (\<lambda>r. bind_res r (\<lambda>(d, a). Inr [(d, Some a)])) (ReceiveRaw fb)"

fun batch_loop :: "poll list \<Rightarrow> batch_poll list \<Rightarrow> (bytes \<times> udp_addr option) list res option" where
  "batch_loop fb [] = None"
| "batch_loop fb (p # ps) =
     (case checkOpen (bp_ctx p) (bp_closed p) of
        Some err \<Rightarrow> Some (Inl err)
      | None \<Rightarrow>
         (case bp_deadline_err p of
            Some err \<Rightarrow>
              Some (Inl (if bp_closed_after p then Sentinel (Udp ErrTransportClosed)
                         else Wrap [Lit ''set UDP read deadline: ''] err []))
          | None \<Rightarrow>
             (case bp_read p of
                BatchTimeout \<Rightarrow>
                  if bp_closed_after p then Some (Inl (Sentinel (Udp ErrTransportClosed)))
                  else (case bp_ctx_after p of
                          Some c \<Rightarrow> Some (Inl (Wrap [Lit ''receive UDP packet: ''] (Sentinel (Context c)) []))
                        | None \<Rightarrow> batch_loop fb ps)
              | BatchError err \<Rightarrow>
                  if bp_closed_after p then Some (Inl (Sentinel (Udp ErrTransportClosed))) else receive_single fb
              | BatchData ms \<Rightarrow>
                  (case filter (\<lambda>(d, a). d \<noteq> []) ms of
                     [] \<Rightarrow> batch_loop fb ps
                   | pkts \<Rightarrow> Some (Inr pkts)))))"

definition ReceiveRawBatch ::
  "conn \<Rightarrow> int \<Rightarrow> poll list \<Rightarrow> batch_poll list \<Rightarrow> (bytes \<times> udp_addr option) list res option" where
  "ReceiveRawBatch c m fb ps =
     (let k = (if m \<le> 0 then ReceiveBatchSize c else m) in
      if k = 1 then receive_single fb else batch_loop fb ps)"

lemma batch_loop_Inr:
  assumes "batch_loop fb ps = Some (Inr pkts)"
  shows "receive_single fb = Some (Inr pkts) \<or>
    pkts \<noteq> [] \<and> (\<exists>p \<in> set ps. \<exists>ms. bp_read p = BatchData ms \<and> pkts = filter (\<lambda>(d, a). d \<noteq> []) ms)"
  using assms
proof (induction fb ps rule: batch_loop.induct)
  case (2 fb p ps)
  then show ?case
    by (fastforce split: option.splits batch_read.splits if_splits list.splits)
qed simp

lemma receive_single_Inr: "receive_single fb = Some (Inr pkts) \<Longrightarrow> \<exists>d a. pkts = [(d, Some a)] \<and> ReceiveRaw fb = Some (Inr (d, a))"
proof -
  assume a: "receive_single fb = Some (Inr pkts)"
  then obtain r where r: "ReceiveRaw fb = Some r" by (auto simp: receive_single_def)
  then show ?thesis using a by (cases r) (auto simp: receive_single_def bind_res_def)
qed

text \<open>
  A batch read returns at least one packet and at most the batch size, namely all non-empty
  datagrams of one read, in order, or one packet of the fallback.  \<open>ReadBatch\<close> is taken to fill at
  most the messages it was given.
\<close>

theorem receive_batch_exact:
  assumes "ReceiveRawBatch c m fb ps = Some (Inr pkts)"
    and "\<And>p ms. p \<in> set ps \<Longrightarrow> bp_read p = BatchData ms \<Longrightarrow>
      int (length ms) \<le> (if m \<le> 0 then ReceiveBatchSize c else m)"
  shows "pkts \<noteq> [] \<and> int (length pkts) \<le> (if m \<le> 0 then ReceiveBatchSize c else m) \<and>
    ((\<exists>d a. pkts = [(d, Some a)] \<and> ReceiveRaw fb = Some (Inr (d, a))) \<or>
     (\<exists>p ms. p \<in> set ps \<and> bp_read p = BatchData ms \<and> pkts = filter (\<lambda>(d, a). d \<noteq> []) ms))"
proof -
  let ?k = "if m \<le> 0 then ReceiveBatchSize c else m"
  have k: "0 < ?k" by (simp add: ReceiveBatchSize_def DefaultReceiveBatchSize_def)
  have "receive_single fb = Some (Inr pkts) \<or>
      pkts \<noteq> [] \<and> (\<exists>p \<in> set ps. \<exists>ms. bp_read p = BatchData ms \<and> pkts = filter (\<lambda>(d, a). d \<noteq> []) ms)"
    using assms(1) batch_loop_Inr [of fb ps pkts] by (auto simp: ReceiveRawBatch_def Let_def split: if_splits)
  then show ?thesis
  proof (elim disjE conjE bexE exE)
    assume "receive_single fb = Some (Inr pkts)"
    from receive_single_Inr [OF this] show ?thesis using k by auto
  next
    fix p ms
    assume p: "pkts \<noteq> []" "p \<in> set ps" "bp_read p = BatchData ms" "pkts = filter (\<lambda>(d, a). d \<noteq> []) ms"
    have "int (length pkts) \<le> int (length ms)" using p(4) length_filter_le [of "\<lambda>(d, a). d \<noteq> []" ms] by simp
    also have "\<dots> \<le> ?k" using assms(2) [OF p(2,3)] .
    finally have "int (length pkts) \<le> ?k" .
    then show ?thesis using p by blast
  qed
qed

section \<open>Concrete inputs\<close>

definition w_getopt :: "int \<Rightarrow> getopt_out" where
  "w_getopt n = \<lparr>go_raw = None, go_control = None, go_rcv = Inr n, go_snd = Inr n\<rparr>"

definition w_os :: os_socket where
  "w_os = \<lparr>os_resolve = \<lambda>_. None, os_listen = None, os_setRead = \<lambda>_. None, os_setWrite = \<lambda>_. None,
     os_before = w_getopt 425984, os_force = \<lparr>fo_raw = None, fo_control = None, fo_rcv = None, fo_snd = None\<rparr>,
     os_after = w_getopt 67108864\<rparr>"

definition w_udp_cfg :: udp_config where
  "w_udp_cfg = \<lparr>uc_ListenHost = [], uc_ListenPort = 9000, uc_MaxPacketSize = 0, uc_ReadPollInterval = 0,
     uc_ReadBufferSize = DefaultSocketBufferSize, uc_WriteBufferSize = DefaultSocketBufferSize, uc_SendBatchSize = 64,
     uc_SendBatchWait = 100000, uc_ReceiveBatchSize = DefaultReceiveBatchSize\<rparr>"

theorem new_conn_sound_witness:
  "\<exists>c. fst (NewConn w_os w_udp_cfg) = Inr c \<and> br_forced (cn_report c) \<and> br_afterR (cn_report c) = 67108864 \<and>
     br_afterW (cn_report c) = 67108864"
proof -
  let ?c = "new_conn w_os w_udp_cfg"
  have new: "fst (NewConn w_os w_udp_cfg) = Inr ?c" by (simp add: NewConn_def w_os_def w_udp_cfg_def DefaultSocketBufferSize_def)
  have forced: "br_error (cn_report ?c) = None" "br_forced (cn_report ?c)"
    by (simp_all add: new_conn_def apply_buffers_def applySocketBuffers_def need_force_def forceSocketBuffers_def
      SocketBufferSizes_def w_os_def w_udp_cfg_def w_getopt_def DefaultSocketBufferSize_def Let_def)
  have after: "SocketBufferSizes (os_after w_os) = Inr (67108864, 67108864)" "uc_ReadBufferSize w_udp_cfg > 0"
    by (simp_all add: SocketBufferSizes_def w_os_def w_getopt_def w_udp_cfg_def DefaultSocketBufferSize_def)
  show ?thesis using new_conn_sound [of w_os w_udp_cfg] new forced after by auto
qed

definition w_env :: envelope where
  "w_env = \<lparr>env_version = 1, env_type = MESSAGE_TYPE_DATA_REQUEST, env_source_node_id = 1, env_destination_node_id = 2,
     env_transaction_id = 3, env_timestamp_ms = 0, env_trace_id = [], env_body = None\<rparr>"

definition w_items :: "(envelope option \<times> udp_addr option) list" where
  "w_items = [(Some w_env, Some \<lparr>addr_ip = [10, 0, 0, 1], addr_port = 1\<rparr>), (Some w_env, Some \<lparr>addr_ip = [10, 0, 0, 2], addr_port = 2\<rparr>)]"

text \<open>
  Two envelopes of which one goes out with the batch and one alone; then a batch whose second entry
  is too large: nothing is sent, and both buffers are released.
\<close>

definition w_bufs :: enc_bufs where "w_bufs = \<lparr>eb_taken = 0, eb_released = []\<rparr>"

definition w_large :: "envelope \<Rightarrow> bytes res" where
  "w_large e = Inr (if env_transaction_id e = 3 then [1] else replicate 70000 0)"

theorem send_batch_exact_witness:
  "length (bo_wire (SendBatch (\<lambda>_. Inr [1, 2]) w_write (\<lambda>ds. (1, None)) (\<lambda>_ _ _. undefined) (new_conn w_os w_udp_cfg) None
     w_items w_bufs)) = 2 \<and>
   (\<exists>rel. eb_released (bo_bufs (SendBatch w_large w_write (\<lambda>ds. (1, None)) (\<lambda>_ _ _. undefined) (new_conn w_os w_udp_cfg) None
     [hd w_items, (Some (w_env\<lparr>env_transaction_id := 4\<rparr>), snd (hd w_items))] w_bufs)) = rel \<and> mset rel = {#0, 1#})"
proof -
  let ?out = "SendBatch (\<lambda>_. Inr [1, 2]) w_write (\<lambda>ds. (1, None)) (\<lambda>_ _ _. undefined) (new_conn w_os w_udp_cfg) None w_items w_bufs"
  let ?items = "[hd w_items, (Some (w_env\<lparr>env_transaction_id := 4\<rparr>), snd (hd w_items))]"
  let ?out2 = "SendBatch w_large w_write (\<lambda>ds. (1, None)) (\<lambda>_ _ _. undefined) (new_conn w_os w_udp_cfg) None ?items w_bufs"
  have "bo_err ?out = None"
    by (simp add: SendBatch_def w_items_def checkOpen_def new_conn_def encode_buf_def encode_def w_udp_cfg_def
      DefaultMaxPacketSize_def To4_def w_write_def write_prepared_def prepared_datagram_def Let_def)
  moreover have "length w_items = 2" by (simp add: w_items_def)
  ultimately have one: "length (bo_wire ?out) = 2"
    using send_batch_exact [of w_items "\<lambda>ds. (1, None)" ?out "\<lambda>_. Inr [1, 2]" w_write "\<lambda>_ _ _. undefined"
        "new_conn w_os w_udp_cfg" None w_bufs] by auto
  have "eb_taken (bo_bufs ?out2) = 2"
    by (simp add: SendBatch_def w_items_def checkOpen_def new_conn_def encode_buf_def encode_def w_udp_cfg_def
      DefaultMaxPacketSize_def w_large_def w_env_def release_buf_def w_bufs_def Let_def)
  then have "\<exists>rel. eb_released (bo_bufs ?out2) = rel \<and> mset rel = {#0, 1#}"
    using send_batch_exact [of ?items "\<lambda>ds. (1, None)" ?out2 w_large w_write "\<lambda>_ _ _. undefined"
        "new_conn w_os w_udp_cfg" None w_bufs] by (auto simp: w_bufs_def upt_rec)
  with one show ?thesis ..
qed

theorem receive_batch_exact_witness:
  "ReceiveRawBatch (new_conn w_os w_udp_cfg) 2 []
     [\<lparr>bp_ctx = None, bp_closed = False, bp_deadline_err = None, bp_read = BatchData [([7], None), ([], None)],
       bp_closed_after = False, bp_ctx_after = None\<rparr>] = Some (Inr [([7], None)]) \<and> int (length [([7 :: 8 word], None :: udp_addr option)]) \<le> 2"
proof -
  let ?p = "\<lparr>bp_ctx = None, bp_closed = False, bp_deadline_err = None, bp_read = BatchData [([7], None), ([], None)],
       bp_closed_after = False, bp_ctx_after = None\<rparr>"
  have r: "ReceiveRawBatch (new_conn w_os w_udp_cfg) 2 [] [?p] = Some (Inr [([7], None)])"
    by (simp add: ReceiveRawBatch_def checkOpen_def)
  from receive_batch_exact [OF r] show ?thesis using r by simp
qed

section \<open>The pool of send jobs (\<open>sendqueue.go\<close>)\<close>

text \<open>
  A pooled job: payload, release function and address are nil or set, its channel of capacity 1 holds a
  result nobody read or nothing.
\<close>

record send_job =
  sj_payload :: "bytes option"
  sj_release :: bool
  sj_addr :: "udp_addr option"
  sj_errCh :: "gerr option option"

definition new_send_job :: send_job where
  "new_send_job = \<lparr>sj_payload = None, sj_release = False, sj_addr = None, sj_errCh = None\<rparr>"

definition drain_result :: "send_job \<Rightarrow> send_job" where
  "drain_result j = j\<lparr>sj_errCh := None\<rparr>"

text \<open>\<open>got\<close> is the object \<open>sync.Pool\<close> returned, if it had one.\<close>

definition acquireSendJob :: "send_job option \<Rightarrow> bytes \<Rightarrow> bool \<Rightarrow> udp_addr option \<Rightarrow> send_job" where
  "acquireSendJob got payload release addr =
     (let j = (case got of None \<Rightarrow> new_send_job | Some x \<Rightarrow> x)
      in (drain_result j)\<lparr>sj_payload := Some payload, sj_release := release, sj_addr := addr\<rparr>)"

definition releaseSendJob :: "send_job option \<Rightarrow> send_job list \<Rightarrow> send_job list" where
  "releaseSendJob job pool =
     (case job of
        None \<Rightarrow> pool
      | Some j \<Rightarrow> drain_result (j\<lparr>sj_payload := None, sj_release := False, sj_addr := None\<rparr>) # pool)"

text \<open>
  A job from the pool is as good as a new one: no result of its previous sender is left in its channel,
  and a released job keeps neither payload nor address alive.
\<close>

lemma acquired_job_fresh: "acquireSendJob got payload release addr = acquireSendJob None payload release addr"
  by (cases got; cases "the got") (simp_all add: acquireSendJob_def drain_result_def new_send_job_def Let_def)

lemma released_job_clean: "releaseSendJob (Some j) pool = new_send_job # pool"
  by (cases j) (simp add: releaseSendJob_def drain_result_def new_send_job_def)

end
