(* ===== verification/Registry.thy ===== *)
theory Registry imports Errors begin

text \<open>
  \<open>internal/registry\<close>: the node record and its life-cycle states, and \<open>Memory\<close>, the in-memory
  registry.  The registry is a finite map from node ids to nodes; \<open>Get\<close> and \<open>List\<close> hand out
  clones, which are values here, so no caller shares memory with the registry.  Every method runs
  under the registry's mutex and is one atomic function on the map.  The iteration order of the
  Go map is an argument (\<open>is_order\<close>).

  Shown: the well-formedness invariant (a node is stored under its own non-zero id) is kept by
  every operation, the read-after-write laws, the frame conditions, and that a timeout sweep does
  not depend on the iteration order.
\<close>

section \<open>Nodes (\<open>node.go\<close>)\<close>

datatype node_state =
    NodeStateUnspecified | NodeStateInit | NodeStateRegistered | NodeStateActive
  | NodeStateSuspect | NodeStateDead | NodeStateStopping

fun NodeState_String :: "node_state \<Rightarrow> string" where
  "NodeState_String NodeStateInit = ''init''"
| "NodeState_String NodeStateRegistered = ''registered''"
| "NodeState_String NodeStateActive = ''active''"
| "NodeState_String NodeStateSuspect = ''suspect''"
| "NodeState_String NodeStateDead = ''dead''"
| "NodeState_String NodeStateStopping = ''stopping''"
| "NodeState_String NodeStateUnspecified = ''unspecified''"

datatype ntype =
    TypeUnspecified | TypeHTTP2GW | TypeLogic | TypeMaster | TypeHTTP2Client | TypePerformance
  | TypeOther u32

fun Type_String :: "ntype \<Rightarrow> string" where
  "Type_String TypeHTTP2GW = ''http2_server''"
| "Type_String TypeLogic = ''logic''"
| "Type_String TypeMaster = ''master''"
| "Type_String TypeHTTP2Client = ''http2_client''"
| "Type_String TypePerformance = ''performance''"
| "Type_String _ = ''unspecified''"

definition IsDataPlaneType :: "ntype \<Rightarrow> bool" where
  "IsDataPlaneType t \<longleftrightarrow> t = TypeHTTP2GW \<or> t = TypeLogic"

definition IsLogicBackend :: "ntype \<Rightarrow> bool" where
  "IsLogicBackend t \<longleftrightarrow> t = TypeLogic"

record service =
  svc_id :: u32
  svc_name :: string
  svc_message_types :: "u32 list"

record resource_info =
  CPULimitCores :: float64
  MemoryLimitBytes :: u64
  CPUUsageCores :: float64
  MemoryUsageBytes :: u64

record node =
  node_id :: u32
  InstanceID :: string
  Name :: string
  Type :: ntype
  Group :: string
  Address :: string
  UDPPort :: u32
  HTTPPort :: u32
  Services :: "service list"
  State :: node_state
  LastHeartbeatAt :: time
  Load :: u32
  ActiveTransaction :: u32
  Resource :: resource_info

definition zero_resource :: resource_info where
  "zero_resource = \<lparr>CPULimitCores = 0, MemoryLimitBytes = 0, CPUUsageCores = 0, MemoryUsageBytes = 0\<rparr>"

section \<open>Memory (\<open>registry.go\<close>)\<close>

type_synonym memory = "u32 \<rightharpoonup> node"

definition NewMemory :: memory where
  "NewMemory = Map.empty"

definition Memory_Register :: "time \<Rightarrow> node option \<Rightarrow> memory \<Rightarrow> gerr option \<times> memory" where
  "Memory_Register now n m =
     (case n of
        None \<Rightarrow> (Some (errorf (Registry ErrInvalidNode) [Lit ''node_id is required'']), m)
      | Some nd \<Rightarrow>
          if node_id nd = 0
          then (Some (errorf (Registry ErrInvalidNode) [Lit ''node_id is required'']), m)
          else let stored = nd\<lparr>State := NodeStateRegistered, LastHeartbeatAt := now\<rparr>
               in (None, m(node_id stored \<mapsto> stored)))"

definition Memory_Get :: "u32 \<Rightarrow> memory \<Rightarrow> node option" where
  "Memory_Get nodeID m = m nodeID"

definition Memory_Remove :: "u32 \<Rightarrow> memory \<Rightarrow> gerr option \<times> memory" where
  "Memory_Remove nodeID m =
     (case m nodeID of
        None \<Rightarrow> (Some (Sentinel (Registry ErrNotFound)), m)
      | Some _ \<Rightarrow> (None, m(nodeID := None)))"

definition Memory_List :: "u32 list \<Rightarrow> memory \<Rightarrow> node list" where
  "Memory_List order m = List.map_filter m order"

type_synonym hb_transition = "node_state \<Rightarrow> node_state res"

definition Memory_ApplyHeartbeat ::
  "u32 \<Rightarrow> time \<Rightarrow> hb_transition option \<Rightarrow> memory \<Rightarrow> (node option \<times> gerr option) \<times> memory" where
  "Memory_ApplyHeartbeat nodeID at transition m =
     (if nodeID = 0
      then ((None, Some (errorf (Registry ErrInvalidNode) [Lit ''node_id is required''])), m)
      else case transition of
        None \<Rightarrow> ((None, Some (errorf (Registry ErrInvalidNode) [Lit ''missing heartbeat transition''])), m)
      | Some tr \<Rightarrow>
         (case m nodeID of
            None \<Rightarrow> ((None, Some (Sentinel (Registry ErrNotFound))), m)
          | Some n \<Rightarrow>
             (case tr (State n) of
                Inl e \<Rightarrow> ((Some n, Some e), m)
              | Inr next \<Rightarrow>
                  let n' = n\<lparr>State := next, LastHeartbeatAt := at\<rparr>
                  in ((Some n', None), m(nodeID \<mapsto> n')))))"

type_synonym to_transition = "node_state \<Rightarrow> time \<Rightarrow> time \<Rightarrow> node_state \<times> bool"

text \<open>The body of the sweep's loop for one node: the node to store when its state changes.\<close>

definition timeout_node ::
  "time \<Rightarrow> (node \<Rightarrow> bool) option \<Rightarrow> to_transition \<Rightarrow> node \<Rightarrow> node option" where
  "timeout_node now skip transition n =
     (if (case skip of None \<Rightarrow> False | Some p \<Rightarrow> p n) then None
      else case transition (State n) (LastHeartbeatAt n) now of
        (next, ok) \<Rightarrow> if \<not> ok \<or> next = State n then None else Some (n\<lparr>State := next\<rparr>))"

fun timeouts_loop ::
  "time \<Rightarrow> (node \<Rightarrow> bool) option \<Rightarrow> to_transition \<Rightarrow> u32 list \<Rightarrow> memory \<Rightarrow> node list \<times> memory" where
  "timeouts_loop now skip transition [] m = ([], m)"
| "timeouts_loop now skip transition (k # ks) m =
     (case m k of
        None \<Rightarrow> timeouts_loop now skip transition ks m
      | Some n \<Rightarrow>
         (case timeout_node now skip transition n of
            None \<Rightarrow> timeouts_loop now skip transition ks m
          | Some n' \<Rightarrow>
              (let (changed, m') = timeouts_loop now skip transition ks (m(k \<mapsto> n'))
               in (n' # changed, m'))))"

definition Memory_ApplyTimeoutsExcept ::
  "time \<Rightarrow> (node \<Rightarrow> bool) option \<Rightarrow> to_transition option \<Rightarrow> u32 list \<Rightarrow> memory \<Rightarrow> node list \<times> memory" where
  "Memory_ApplyTimeoutsExcept now skip transition order m =
     (case transition of None \<Rightarrow> ([], m) | Some tr \<Rightarrow> timeouts_loop now skip tr order m)"

definition Memory_ApplyTimeouts ::
  "time \<Rightarrow> to_transition option \<Rightarrow> u32 list \<Rightarrow> memory \<Rightarrow> node list \<times> memory" where
  "Memory_ApplyTimeouts now transition order m =
     Memory_ApplyTimeoutsExcept now (Some (\<lambda>n. Type n = TypeHTTP2GW)) transition order m"

definition Memory_SetRuntime :: "u32 \<Rightarrow> u32 \<Rightarrow> u32 \<Rightarrow> memory \<Rightarrow> gerr option \<times> memory" where
  "Memory_SetRuntime nodeID load activeTransaction m =
     (if nodeID = 0 then (Some (errorf (Registry ErrInvalidNode) [Lit ''node_id is required'']), m)
      else case m nodeID of
        None \<Rightarrow> (Some (Sentinel (Registry ErrNotFound)), m)
      | Some n \<Rightarrow> (None, m(nodeID \<mapsto> n\<lparr>Load := load, ActiveTransaction := activeTransaction\<rparr>)))"

lemmas memory_defs [op_defs] =
  Memory_Register_def Memory_Get_def Memory_Remove_def Memory_ApplyHeartbeat_def
  Memory_SetRuntime_def

section \<open>Well-formedness\<close>

text \<open>Finitely many entries, each under its own non-zero id.\<close>

definition reg_wf :: "memory \<Rightarrow> bool" where
  "reg_wf m \<longleftrightarrow> finite (dom m) \<and> (\<forall>k n. m k = Some n \<longrightarrow> node_id n = k \<and> k \<noteq> 0)"

lemma reg_wfD: "reg_wf m \<Longrightarrow> m k = Some n \<Longrightarrow> node_id n = k \<and> k \<noteq> 0"
  by (simp add: reg_wf_def)

lemma reg_wf_finite [simp]: "reg_wf m \<Longrightarrow> finite (dom m)"
  by (simp add: reg_wf_def)

lemma reg_wf_upd [intro]: "reg_wf m \<Longrightarrow> node_id n = k \<Longrightarrow> k \<noteq> 0 \<Longrightarrow> reg_wf (m(k \<mapsto> n))"
  by (auto simp: reg_wf_def)

lemma reg_wf_NewMemory [inv_intros]: "reg_wf NewMemory"
  by (simp add: reg_wf_def NewMemory_def)

lemma reg_wf_Register [inv_intros]: "reg_wf m \<Longrightarrow> reg_wf (snd (Memory_Register now n m))"
  by (auto simp: Memory_Register_def Let_def split: option.split)

lemma reg_wf_Remove [inv_intros]: "reg_wf m \<Longrightarrow> reg_wf (snd (Memory_Remove k m))"
  by (auto simp: Memory_Remove_def reg_wf_def split: option.split)

lemma reg_wf_ApplyHeartbeat [inv_intros]:
  "reg_wf m \<Longrightarrow> reg_wf (snd (Memory_ApplyHeartbeat k at tr m))"
  by (auto simp: Memory_ApplyHeartbeat_def Let_def reg_wf_def split: option.split sum.split)

lemma reg_wf_SetRuntime [inv_intros]: "reg_wf m \<Longrightarrow> reg_wf (snd (Memory_SetRuntime k l a m))"
  by (auto simp: Memory_SetRuntime_def reg_wf_def split: option.split)

section \<open>The sweep\<close>

lemma timeout_node_id: "timeout_node now skip tr n = Some n' \<Longrightarrow> node_id n' = node_id n"
  by (auto simp: timeout_node_def split: if_splits option.splits prod.splits)

lemma timeout_node_frame:
  "timeout_node now skip tr n = Some n' \<Longrightarrow> \<exists>s. s \<noteq> State n \<and> n' = n\<lparr>State := s\<rparr>"
  by (auto simp: timeout_node_def split: if_splits option.splits prod.splits)

text \<open>What the sweep leaves in the map, for any order: each listed node after one visit.\<close>

definition swept :: "time \<Rightarrow> (node \<Rightarrow> bool) option \<Rightarrow> to_transition \<Rightarrow> node \<Rightarrow> node" where
  "swept now skip tr n = (case timeout_node now skip tr n of None \<Rightarrow> n | Some n' \<Rightarrow> n')"

lemma timeouts_loop_map:
  "distinct ks \<Longrightarrow>
   snd (timeouts_loop now skip tr ks m) =
     (\<lambda>k. if k \<in> set ks then map_option (swept now skip tr) (m k) else m k)"
proof (induction ks arbitrary: m)
  case (Cons k ks)
  then show ?case
    by (auto simp: fun_eq_iff swept_def case_prod_beta Let_def split: option.split)
qed simp

lemma timeouts_loop_changed:
  "distinct ks \<Longrightarrow>
   fst (timeouts_loop now skip tr ks m) =
     List.map_filter (\<lambda>k. Option.bind (m k) (timeout_node now skip tr)) ks"
proof (induction ks arbitrary: m)
  case (Cons k ks)
  have notin: "k \<notin> set ks" using Cons.prems by simp
  have upd: "List.map_filter (\<lambda>j. Option.bind (if j = k then Some n' else m j) (timeout_node now skip tr)) ks =
      List.map_filter (\<lambda>j. Option.bind (m j) (timeout_node now skip tr)) ks" for n'
    by (rule map_filter_cong) (use notin in auto)
  show ?case
    using Cons by (simp add: List.map_filter_simps case_prod_beta Let_def upd split: option.split)
qed (simp add: List.map_filter_simps)

lemma ApplyTimeoutsExcept_map:
  assumes "is_order m order"
  shows "snd (Memory_ApplyTimeoutsExcept now skip (Some tr) order m) =
         (\<lambda>k. map_option (swept now skip tr) (m k))"
  using assms
  by (auto simp: Memory_ApplyTimeoutsExcept_def timeouts_loop_map is_order_def fun_eq_iff domIff)

lemma reg_wf_ApplyTimeoutsExcept [inv_intros]:
  assumes "reg_wf m" "is_order m order"
  shows "reg_wf (snd (Memory_ApplyTimeoutsExcept now skip tr order m))"
proof (cases tr)
  case None
  then show ?thesis using assms by (simp add: Memory_ApplyTimeoutsExcept_def)
next
  case (Some f)
  have "dom (\<lambda>k. map_option (swept now skip f) (m k)) = dom m" by auto
  moreover have "node_id (swept now skip f n) = node_id n" for n
    by (auto simp: swept_def dest: timeout_node_id split: option.split)
  ultimately show ?thesis
    using assms by (auto simp: Some ApplyTimeoutsExcept_map reg_wf_def)
qed

section \<open>Listing\<close>

lemma List_set: "is_order m order \<Longrightarrow> set (Memory_List order m) = ran m"
  by (auto simp: Memory_List_def map_filter_set is_order_def ran_def)

lemma map_filter_ids:
  "reg_wf m \<Longrightarrow> set ks \<subseteq> dom m \<Longrightarrow> map node_id (List.map_filter m ks) = ks"
  by (induction ks) (auto simp: List.map_filter_simps dest: reg_wfD)

lemma List_ids: "reg_wf m \<Longrightarrow> is_order m order \<Longrightarrow> map node_id (Memory_List order m) = order"
  by (simp add: Memory_List_def map_filter_ids is_order_def)

lemma List_distinct_ids:
  "reg_wf m \<Longrightarrow> is_order m order \<Longrightarrow> distinct (map node_id (Memory_List order m))"
  by (simp add: List_ids) (simp add: is_order_def)

lemma List_member:
  "reg_wf m \<Longrightarrow> is_order m order \<Longrightarrow> n \<in> set (Memory_List order m) \<longleftrightarrow> m (node_id n) = Some n"
  by (auto simp: List_set ran_def dest: reg_wfD)

section \<open>Printing a node\<close>

definition Node_String :: "node option \<Rightarrow> string" where
  "Node_String n =
     (case n of
        None \<Rightarrow> ''<nil>''
      | Some nd \<Rightarrow>
          let name = (if Name nd = [] then InstanceID nd else Name nd)
          in ''node(id='' @ FormatUint (node_id nd) @ '' name='' @ name @ '' type='' @ Type_String (Type nd) @
             '' addr='' @ Address nd @ '':'' @ FormatUint (UDPPort nd) @ '' state='' @ NodeState_String (State nd) @ '')'')"

end
