(* ===== verification/Registration.thy ===== *)
theory Registration imports Registry GoNet begin

text \<open>
  \<open>internal/registration\<close>: the validation of a REGISTER request, its translation to a registry
  node, and the service that stores the node and builds the response.  The service is written
  against the \<open>Registry\<close> interface, whose \<open>Register\<close> method is an argument here; the locale
  \<open>node_store\<close> states what the service relies on, and \<open>Memory\<close> is its interpretation.
\<close>

section \<open>Validation (\<open>validator.go\<close>)\<close>

definition reg_invalid :: "part list \<Rightarrow> gerr option" where
  "reg_invalid ps = Some (errorf (Registration RegErrInvalidRequest) ps)"

text \<open>The loop over the services reports the first index without a service id.\<close>

fun Validate_services :: "nat \<Rightarrow> service_capability option list \<Rightarrow> gerr option" where
  "Validate_services i [] = None"
| "Validate_services i (svc # svcs) =
     (case svc of
        None \<Rightarrow> reg_invalid [Lit ''services['', Num i, Lit ''].service_id is required'']
      | Some s \<Rightarrow>
          if sc_service_id s = 0
          then reg_invalid [Lit ''services['', Num i, Lit ''].service_id is required'']
          else Validate_services (i + 1) svcs)"

definition Validate :: "register_request option \<Rightarrow> gerr option" where
  "Validate req =
     (case req of
        None \<Rightarrow> reg_invalid [Lit ''request is nil'']
      | Some r \<Rightarrow>
          if rr_node_id r = 0 then reg_invalid [Lit ''node_id is required'']
          else if rr_node_type r \<noteq> NODE_TYPE_LOGIC \<and> rr_node_type r \<noteq> NODE_TYPE_HTTP2GW
          then reg_invalid [Lit ''node_type is required'']
          else if TrimSpace (rr_instance_id r) = [] then reg_invalid [Lit ''instance_id is required'']
          else if \<not> ValidString (rr_instance_id r)
          then reg_invalid [Lit ''instance_id is not valid UTF-8'']
          else let ip = TrimSpace (rr_ip r) in
            if ip = [] then reg_invalid [Lit ''ip is required'']
            else if ParseIP ip = None then reg_invalid [Lit ''ip is not a valid IP address'']
            else if rr_port r = 0 \<or> rr_port r > 65535
            then reg_invalid [Lit ''port must be in 1..65535'']
            else Validate_services 0 (rr_services r))"

text \<open>The declarative reading of an accepted request.\<close>

definition well_formed_request :: "register_request \<Rightarrow> bool" where
  "well_formed_request r \<longleftrightarrow>
     rr_node_id r \<noteq> 0 \<and> (rr_node_type r = NODE_TYPE_LOGIC \<or> rr_node_type r = NODE_TYPE_HTTP2GW) \<and>
     TrimSpace (rr_instance_id r) \<noteq> [] \<and> ValidString (rr_instance_id r) \<and>
     ParseIP (TrimSpace (rr_ip r)) \<noteq> None \<and> 1 \<le> unat (rr_port r) \<and> unat (rr_port r) \<le> 65535 \<and>
     list_all (\<lambda>svc. case svc of None \<Rightarrow> False | Some s \<Rightarrow> sc_service_id s \<noteq> 0) (rr_services r)"

lemma Validate_services_None:
  "Validate_services i svcs = None \<longleftrightarrow>
   list_all (\<lambda>svc. case svc of None \<Rightarrow> False | Some s \<Rightarrow> sc_service_id s \<noteq> 0) svcs"
  by (induction i svcs rule: Validate_services.induct) (auto simp: reg_invalid_def split: option.split)

lemma port_range: "(p :: u32) = 0 \<or> p > 65535 \<longleftrightarrow> \<not> (1 \<le> unat p \<and> unat p \<le> 65535)"
  by (auto simp: word_less_nat_alt unat_eq_zero Suc_le_eq unat_gt_0)

lemma Validate_None: "Validate (Some r) = None \<longleftrightarrow> well_formed_request r"
  unfolding Validate_def well_formed_request_def port_range
  by (auto simp: reg_invalid_def Let_def Validate_services_None split: if_splits)

lemma Validate_services_error:
  "Validate_services i svcs = Some e \<Longrightarrow> err_is (Registration RegErrInvalidRequest) e"
  by (induction i svcs rule: Validate_services.induct)
     (auto simp: reg_invalid_def split: option.splits if_splits)

lemma Validate_error: "Validate req = Some e \<Longrightarrow> err_is (Registration RegErrInvalidRequest) e"
  by (auto simp: Validate_def reg_invalid_def Let_def dest: Validate_services_error
      split: option.splits if_splits)

section \<open>Translation (\<open>service.go\<close>)\<close>

text \<open>The conversion \<open>registry.Type(req.GetNodeType())\<close> keeps the number of the enum.\<close>

definition type_of_number :: "u32 \<Rightarrow> ntype" where
  "type_of_number t =
     (if t = 0 then TypeUnspecified else if t = 1 then TypeHTTP2GW else if t = 2 then TypeLogic
      else if t = 3 then TypeMaster else if t = 4 then TypeHTTP2Client
      else if t = 5 then TypePerformance else TypeOther t)"

fun registry_Type :: "node_type \<Rightarrow> ntype" where
  "registry_Type NODE_TYPE_UNKNOWN = TypeUnspecified"
| "registry_Type NODE_TYPE_HTTP2GW = TypeHTTP2GW"
| "registry_Type NODE_TYPE_LOGIC = TypeLogic"
| "registry_Type (NODE_TYPE_OTHER n) = type_of_number (word_of_int n)"

definition to_service :: "service_capability \<Rightarrow> service" where
  "to_service svc = \<lparr>svc_id = sc_service_id svc, svc_name = sc_service_name svc,
                     svc_message_types = sc_message_types svc\<rparr>"

text \<open>The zero \<open>time.Time\<close>, January 1 of year 1.\<close>

definition zero_time :: time where "zero_time = -62135596800000000000"

definition toNode :: "register_request \<Rightarrow> node" where
  "toNode req =
     \<lparr>node_id = rr_node_id req,
      InstanceID = TrimSpace (rr_instance_id req),
      Name = TrimSpace (rr_instance_id req),
      Type = registry_Type (rr_node_type req),
      Group = [],
      Address = TrimSpace (rr_ip req),
      UDPPort = rr_port req,
      HTTPPort = 0,
      Services = List.map_filter (map_option to_service) (rr_services req),
      State = NodeStateUnspecified,
      LastHeartbeatAt = zero_time,
      Load = 0,
      ActiveTransaction = 0,
      Resource = zero_resource\<rparr>"

definition failResponse :: "u32 \<Rightarrow> string \<Rightarrow> register_response" where
  "failResponse nodeID message =
     \<lparr>rp_accepted = False, rp_assigned_node_id = nodeID, rp_message = message\<rparr>"

definition reqNodeID :: "register_request option \<Rightarrow> u32" where
  "reqNodeID req = (case req of None \<Rightarrow> 0 | Some r \<Rightarrow> rr_node_id r)"

text \<open>\<open>Service.Register\<close>: both the response and the error, as the caller gets them.\<close>

definition Registration_Register ::
  "(node option \<Rightarrow> 's \<Rightarrow> gerr option \<times> 's) \<Rightarrow> register_request option \<Rightarrow> 's \<Rightarrow>
   (register_response \<times> gerr option) \<times> 's" where
  "Registration_Register register req s =
     (case Validate req of
        Some err \<Rightarrow> ((failResponse (reqNodeID req) (error_text err), Some err), s)
      | None \<Rightarrow>
         (case register (map_option toNode req) s of
            (Some err, s') \<Rightarrow>
              ((failResponse (reqNodeID req) (error_text err),
                Some (Wrap [Lit ''register node: ''] err [])), s')
          | (None, s') \<Rightarrow>
              ((\<lparr>rp_accepted = True, rp_assigned_node_id = reqNodeID req,
                 rp_message = ''registered''\<rparr>, None), s')))"

definition Memory_Service_Register ::
  "time \<Rightarrow> register_request option \<Rightarrow> memory \<Rightarrow> (register_response \<times> gerr option) \<times> memory" where
  "Memory_Service_Register now = Registration_Register (Memory_Register now)"

section \<open>What the service needs from a registry\<close>

text \<open>The node a registry stores for an accepted request.\<close>

definition stored_node :: "time \<Rightarrow> register_request \<Rightarrow> node" where
  "stored_node now r = (toNode r)\<lparr>State := NodeStateRegistered, LastHeartbeatAt := now\<rparr>"

locale node_store =
  fixes get :: "u32 \<Rightarrow> 's \<Rightarrow> node option"
    and register :: "time \<Rightarrow> node option \<Rightarrow> 's \<Rightarrow> gerr option \<times> 's"
    and inv :: "'s \<Rightarrow> bool"
  assumes register_ok:
    "inv s \<Longrightarrow> node_id n \<noteq> 0 \<Longrightarrow>
     \<exists>s'. register now (Some n) s = (None, s') \<and> inv s' \<and>
          get (node_id n) s' = Some (n\<lparr>State := NodeStateRegistered, LastHeartbeatAt := now\<rparr>) \<and>
          (\<forall>j. j \<noteq> node_id n \<longrightarrow> get j s' = get j s)"
begin

lemma service_accepts:
  assumes "inv s" "well_formed_request r"
  shows "\<exists>s'. Registration_Register (register now) (Some r) s =
           ((\<lparr>rp_accepted = True, rp_assigned_node_id = rr_node_id r, rp_message = ''registered''\<rparr>, None), s') \<and>
         inv s' \<and> get (rr_node_id r) s' = Some (stored_node now r) \<and>
         (\<forall>j. j \<noteq> rr_node_id r \<longrightarrow> get j s' = get j s)"
proof -
  have "node_id (toNode r) \<noteq> 0" "node_id (toNode r) = rr_node_id r"
    using assms(2) by (simp_all add: well_formed_request_def toNode_def)
  with register_ok [OF assms(1), of "toNode r" now] assms(2) show ?thesis
    by (auto simp: Registration_Register_def Validate_None [THEN iffD2] reqNodeID_def stored_node_def)
qed

lemma service_rejects:
  assumes "\<not> well_formed_request r"
  shows "\<exists>e. Registration_Register (register now) (Some r) s =
           ((failResponse (rr_node_id r) (error_text e), Some e), s) \<and>
         err_is (Registration RegErrInvalidRequest) e"
proof -
  obtain e where "Validate (Some r) = Some e" using assms Validate_None by (cases "Validate (Some r)") auto
  then show ?thesis by (auto simp: Registration_Register_def reqNodeID_def dest: Validate_error)
qed

end

interpretation mem_reg: node_store Memory_Get Memory_Register reg_wf
  by unfold_locales (auto simp: memory_defs Let_def reg_wf_def)

lemma Memory_Service_Register_wf [inv_intros]:
  "reg_wf m \<Longrightarrow> reg_wf (snd (Memory_Service_Register now req m))"
  using reg_wf_Register [of m now "map_option toNode req"]
  by (auto simp: Memory_Service_Register_def Registration_Register_def split: option.split prod.split)

end
