(* ===== verification/LogicNode.thy ===== *)
theory LogicNode imports Errors Registration GoNet "HOL-Library.Multiset" begin

text \<open>
  \<open>internal/logicnode\<close>: the Logic process.  One goroutine receives; DATA requests go through a
  bounded job queue to a fixed number of workers, which echo the known messages; a full queue is
  answered with OVERLOAD.  Registration is repeated until the gateway accepts it, heartbeats follow.
  The transport's \<open>Send\<close> is an argument; the process's Prometheus collectors are a trace of calls.
\<close>

section \<open>Worker pool (\<open>pool.go\<close>)\<close>

definition defaultDataWorkers :: int where "defaultDataWorkers = 512"
definition defaultDataJobQueue :: nat where "defaultDataJobQueue = 4096"

text \<open>\<open>positive\<close> is \<open>CPUCores > 0\<close>, \<open>cores\<close> is \<open>int(CPUCores)\<close>.\<close>

definition dataWorkerCount :: "bool \<Rightarrow> int \<Rightarrow> int" where
  "dataWorkerCount positive cores =
     (if positive
      then (let n = cores * 256; n1 = (if n < 128 then 128 else n) in if n1 > 2048 then 2048 else n1)
      else defaultDataWorkers)"

datatype node_call =
    NRequest | NDataRequestRX | NDataResponseTX | NReceiveError | NSendError
  | NPoolCapacity int | NPoolInUse int | NQueueCapacity int | NQueueDepth int | NQueueDropped int
  | NPoolWait duration bool
  | NProcessing duration | NRegisterStatus bool | NHeartbeatRTT duration | NQueueSize int

text \<open>A job is the captured envelope with the address its answer goes to.\<close>

type_synonym data_job = "envelope \<times> udp_addr option"

record pool =
  pl_workers :: nat
  pl_jobs :: "data_job list" \<comment> \<open>channel of capacity \<open>defaultDataJobQueue\<close>\<close>
  pl_busy :: "data_job list" \<comment> \<open>one entry per worker that runs a job\<close>
  pl_closing :: bool

definition newDataWorkerPool :: "int \<Rightarrow> pool \<times> node_call list" where
  "newDataWorkerPool n =
     (let n' = (if n \<le> 0 then defaultDataWorkers else n)
      in (\<lparr>pl_workers = nat n', pl_jobs = [], pl_busy = [], pl_closing = False\<rparr>,
          [NPoolCapacity n', NPoolInUse 0, NQueueCapacity (int defaultDataJobQueue), NQueueDepth 0]))"

definition Enqueue :: "data_job \<Rightarrow> pool \<Rightarrow> bool \<times> pool \<times> node_call list" where
  "Enqueue j p =
     (if pl_closing p then (False, p, [])
      else if length (pl_jobs p) < defaultDataJobQueue
      then (True, p\<lparr>pl_jobs := pl_jobs p @ [j]\<rparr>, [NQueueDepth (int (length (pl_jobs p) + 1))])
      else (False, p, [NQueueDropped 1]))"

section \<open>State of the process\<close>

record logic =
  lg_pool :: pool
  lg_regCh :: "register_response list" \<comment> \<open>channel of capacity 1\<close>
  lg_inFlight :: int
  lg_heartbeatRTT :: duration
  lg_hbSentAt :: int
  lg_seq :: u64
  lg_met :: "node_call list"
  lg_sent :: "(envelope \<times> udp_addr option) list"

record logic_env =
  le_node :: u32
  le_gw :: "udp_addr option"
  le_send :: "envelope \<Rightarrow> udp_addr option \<Rightarrow> gerr option"

definition lg_call :: "node_call list \<Rightarrow> logic \<Rightarrow> logic" where
  "lg_call cs s = s\<lparr>lg_met := lg_met s @ cs\<rparr>"

section \<open>Answers (\<open>run.go\<close>)\<close>

definition messageCreateCall :: u32 where "messageCreateCall = 1001"
definition messageUpdateCall :: u32 where "messageUpdateCall = 1002"
definition messageDeleteCall :: u32 where "messageDeleteCall = 1003"

text \<open>\<open>envelope\<close> of the source.\<close>

definition logic_envelope :: "time \<Rightarrow> u32 \<Rightarrow> u32 \<Rightarrow> message_type \<Rightarrow> envelope" where
  "logic_envelope now src dst typ =
     \<lparr>env_version = 1, env_type = typ, env_source_node_id = src, env_destination_node_id = dst,
      env_transaction_id = 0, env_timestamp_ms = timestamp_ms now, env_trace_id = [], env_body = None\<rparr>"

definition echoResponse :: "time \<Rightarrow> u32 \<Rightarrow> envelope \<Rightarrow> envelope" where
  "echoResponse now nodeID req =
     (let (msgID, payload) = (case GetDataRequest req of None \<Rightarrow> (0, []) | Some d \<Rightarrow> (dr_message_id d, dr_payload d))
      in (logic_envelope now nodeID (env_source_node_id req) MESSAGE_TYPE_DATA_RESPONSE)
           \<lparr>env_transaction_id := env_transaction_id req, env_trace_id := env_trace_id req,
            env_body := Some (DataResponse \<lparr>dp_message_id = msgID, dp_status = 200, dp_payload = payload\<rparr>)\<rparr>)"

definition handleBusiness :: "time \<Rightarrow> u32 \<Rightarrow> envelope \<Rightarrow> u32 \<Rightarrow> envelope" where
  "handleBusiness now nodeID req msgID =
     (if msgID \<in> {messageCreateCall, messageUpdateCall, messageDeleteCall}
      then echoResponse now nodeID req
      else ErrorEnvelope now nodeID (Some req) ERROR_CODE_INVALID_MESSAGE
             (''unsupported message_id '' @ FormatUint msgID))"

definition lg_transmit :: "logic_env \<Rightarrow> envelope \<Rightarrow> udp_addr option \<Rightarrow> node_call list \<Rightarrow> logic \<Rightarrow> logic" where
  "lg_transmit le out dest ok_calls s =
     (let s1 = s\<lparr>lg_sent := lg_sent s @ [(out, dest)]\<rparr>
      in case le_send le out dest of
           Some err \<Rightarrow> lg_call [NSendError] s1
         | None \<Rightarrow> lg_call ok_calls s1)"

text \<open>A worker: \<open>start\<close> is the part before the work, \<open>handleDataRequest\<close> the whole job.\<close>

definition data_start :: "logic \<Rightarrow> logic" where
  "data_start s = lg_call [NRequest, NQueueSize (max 0 (lg_inFlight s + 1))] (s\<lparr>lg_inFlight := lg_inFlight s + 1\<rparr>)"

definition data_finish :: "logic_env \<Rightarrow> time \<Rightarrow> duration \<Rightarrow> data_job \<Rightarrow> logic \<Rightarrow> logic" where
  "data_finish le now d j s =
     (let env = fst j;
          msgID = (case GetDataRequest env of None \<Rightarrow> 0 | Some r \<Rightarrow> dr_message_id r);
          s1 = lg_transmit le (handleBusiness now (le_node le) env msgID) (snd j) [NDataResponseTX] s;
          s2 = s1\<lparr>lg_inFlight := lg_inFlight s1 - 1\<rparr>
      in lg_call [NQueueSize (max 0 (lg_inFlight s2)), NProcessing (max 0 d)] s2)"

definition handleDataRequest :: "logic_env \<Rightarrow> time \<Rightarrow> duration \<Rightarrow> data_job \<Rightarrow> logic \<Rightarrow> logic" where
  "handleDataRequest le now d j s = data_finish le now d j (data_start s)"

section \<open>Incoming envelopes\<close>

definition reply_to :: "logic_env \<Rightarrow> udp_addr option \<Rightarrow> udp_addr option" where
  "reply_to le src = (if src = None then le_gw le else src)"

definition on_data_request :: "logic_env \<Rightarrow> time \<Rightarrow> envelope \<Rightarrow> udp_addr option \<Rightarrow> logic \<Rightarrow> logic" where
  "on_data_request le now env src s =
     (let dest = reply_to le src;
          (ok, p, calls) = Enqueue (env, dest) (lg_pool s);
          s1 = lg_call (NDataRequestRX # calls) (s\<lparr>lg_pool := p\<rparr>)
      in if ok then s1
         else lg_transmit le (ErrorEnvelope now (le_node le) (Some env) ERROR_CODE_OVERLOAD ''logic data job queue full'')
                dest [NDataResponseTX] s1)"

text \<open>\<open>now\<close> is read as time stamp and as \<open>UnixNano\<close>; the result says whether the envelope was kept.\<close>

definition handleIncoming :: "logic_env \<Rightarrow> time \<Rightarrow> envelope option \<Rightarrow> udp_addr option \<Rightarrow> logic \<Rightarrow> logic" where
  "handleIncoming le now env src s =
     (case env of
        None \<Rightarrow> s
      | Some e \<Rightarrow>
         (case env_type e of
            MESSAGE_TYPE_REGISTER_RESPONSE \<Rightarrow>
              (case GetRegisterResponse e of
                 None \<Rightarrow> s
               | Some rr \<Rightarrow> if lg_regCh s = [] then s\<lparr>lg_regCh := [rr]\<rparr> else s)
          | MESSAGE_TYPE_HEARTBEAT_REQUEST \<Rightarrow>
              let seq = (case GetHeartbeatRequest e of None \<Rightarrow> 0 | Some r \<Rightarrow> hb_sequence r);
                  out = (Reply now (le_node le) (Some e) MESSAGE_TYPE_HEARTBEAT_RESPONSE)
                          \<lparr>env_body := Some (HeartbeatResponse \<lparr>hp_sequence = seq, hp_timestamp_ms = timestamp_ms now\<rparr>)\<rparr>
              in lg_transmit le out (reply_to le src) [] s
          | MESSAGE_TYPE_HEARTBEAT_RESPONSE \<Rightarrow>
              if lg_hbSentAt s > 0
              then let rtt = now - lg_hbSentAt s
                   in lg_call [NHeartbeatRTT (max 0 rtt)] (s\<lparr>lg_heartbeatRTT := rtt\<rparr>)
              else s
          | MESSAGE_TYPE_DATA_REQUEST \<Rightarrow> on_data_request le now e src s
          | _ \<Rightarrow> s))"

text \<open>One round of \<open>receiveLoop\<close>: the loop's error, if it ends.\<close>

definition receive_step ::
  "logic_env \<Rightarrow> time \<Rightarrow> gerr + (envelope \<times> udp_addr option) \<Rightarrow> logic \<Rightarrow> gerr option \<times> logic" where
  "receive_step le now r s =
     (case r of
        Inl err \<Rightarrow>
          if err_is (Context Canceled) err \<or> err_is (Context DeadlineExceeded) err \<or> err_is (Udp ErrTransportClosed) err
          then (Some err, s)
          else if err_is (Udp ErrInvalidMessage) err then (None, lg_call [NReceiveError] s)
          else (Some err, lg_call [NReceiveError] s)
      | Inr (env, src) \<Rightarrow> (None, handleIncoming le now (Some env) src s))"

section \<open>Registration and heartbeats\<close>

record logic_config =
  lc_node_id :: u32
  lc_instance_id :: string
  lc_services :: "service_capability list"
  lc_interval :: duration

definition register_envelope_of :: "logic_config \<Rightarrow> time \<Rightarrow> string \<Rightarrow> u32 \<Rightarrow> envelope" where
  "register_envelope_of cfg now ip port =
     (logic_envelope now (lc_node_id cfg) 0 MESSAGE_TYPE_REGISTER_REQUEST)
       \<lparr>env_body := Some (RegisterRequest
          \<lparr>rr_node_id = lc_node_id cfg, rr_node_type = NODE_TYPE_LOGIC, rr_instance_id = lc_instance_id cfg,
           rr_ip = ip, rr_port = port, rr_services = map Some (lc_services cfg)\<rparr>)\<rparr>"

definition sendRegister :: "logic_env \<Rightarrow> logic_config \<Rightarrow> time \<Rightarrow> string \<Rightarrow> u32 \<Rightarrow> logic \<Rightarrow> gerr option \<times> logic" where
  "sendRegister le cfg now ip port s =
     (let out = register_envelope_of cfg now ip port
      in (le_send le out (le_gw le), s\<lparr>lg_sent := lg_sent s @ [(out, le_gw le)]\<rparr>))"

text \<open>
  What the \<open>select\<close> of \<open>registerUntilAccepted\<close> takes: the context's end, a response (from the
  channel) or the timer.  \<open>None\<close>: the events ran out while it still waits.
\<close>

datatype reg_event = RegCtx ctx_err | RegResp "register_response option" time | RegTimer time

fun register_loop ::
  "logic_env \<Rightarrow> logic_config \<Rightarrow> string \<Rightarrow> u32 \<Rightarrow> reg_event list \<Rightarrow> logic \<Rightarrow> (gerr option \<times> logic) option" where
  "register_loop le cfg ip port [] s = None"
| "register_loop le cfg ip port (RegCtx e # evs) s = Some (Some (Sentinel (Context e)), s)"
| "register_loop le cfg ip port (RegResp resp now # evs) s =
     (if (case resp of None \<Rightarrow> False | Some r \<Rightarrow> rp_accepted r) then Some (None, s)
      else case sendRegister le cfg now ip port s of
             (Some err, s1) \<Rightarrow> Some (Some err, s1)
           | (None, s1) \<Rightarrow> register_loop le cfg ip port evs s1)"
| "register_loop le cfg ip port (RegTimer now # evs) s =
     (case sendRegister le cfg now ip port s of
        (Some err, s1) \<Rightarrow> Some (Some err, s1)
      | (None, s1) \<Rightarrow> register_loop le cfg ip port evs s1)"

definition registerUntilAccepted ::
  "logic_env \<Rightarrow> logic_config \<Rightarrow> time \<Rightarrow> string \<Rightarrow> u32 \<Rightarrow> reg_event list \<Rightarrow> logic \<Rightarrow> (gerr option \<times> logic) option" where
  "registerUntilAccepted le cfg now ip port evs s =
     (case sendRegister le cfg now ip port s of
        (Some err, s1) \<Rightarrow> Some (Some err, s1)
      | (None, s1) \<Rightarrow> register_loop le cfg ip port evs s1)"

text \<open>\<open>uint32(q)\<close> of a non-negative count truncates.\<close>

definition sendHeartbeat :: "logic_env \<Rightarrow> time \<Rightarrow> logic \<Rightarrow> gerr option \<times> logic" where
  "sendHeartbeat le now s =
     (let n = lg_seq s + 1;
          q = word_of_int (max 0 (lg_inFlight s)) :: u32;
          out = (logic_envelope now (le_node le) 0 MESSAGE_TYPE_HEARTBEAT_REQUEST)
            \<lparr>env_transaction_id := n,
             env_body := Some (HeartbeatRequest \<lparr>hb_node_id = le_node le, hb_sequence = n,
               hb_timestamp_ms = timestamp_ms now, hb_load = q, hb_active_transaction = q\<rparr>)\<rparr>
      in (le_send le out (le_gw le),
          s\<lparr>lg_seq := n, lg_hbSentAt := now, lg_sent := lg_sent s @ [(out, le_gw le)]\<rparr>))"

section \<open>The process in operation\<close>

text \<open>
  Receive loop, workers and heartbeat loop interleave.  A worker's job is split where the request
  starts to count as in flight and where its answer is sent.
\<close>

datatype logic_event =
    LReceive time "gerr + (envelope \<times> udp_addr option)"
  | LTake data_job
  | LFinish time duration data_job
  | LHeartbeat time
  | LTakeReg register_response

definition worker_take :: "data_job \<Rightarrow> data_job list \<Rightarrow> logic \<Rightarrow> logic" where
  "worker_take j rest s =
     (let busy = pl_busy (lg_pool s) @ [j];
          s1 = s\<lparr>lg_pool := (lg_pool s)\<lparr>pl_jobs := rest, pl_busy := busy\<rparr>\<rparr>
      in data_start (lg_call [NQueueDepth (int (length rest)), NPoolInUse (int (length busy))] s1))"

definition worker_finish :: "logic_env \<Rightarrow> time \<Rightarrow> duration \<Rightarrow> data_job \<Rightarrow> logic \<Rightarrow> logic" where
  "worker_finish le now d j s =
     (let s1 = data_finish le now d j s;
          busy = remove1 j (pl_busy (lg_pool s1));
          s2 = s1\<lparr>lg_pool := (lg_pool s1)\<lparr>pl_busy := busy\<rparr>\<rparr>
      in lg_call [NPoolInUse (int (length busy)), NQueueDepth (int (length (pl_jobs (lg_pool s2))))] s2)"

inductive logic_step :: "logic_env \<Rightarrow> logic \<Rightarrow> logic_event \<Rightarrow> logic \<Rightarrow> bool" for le where
  receive: "receive_step le now r s = (None, s') \<Longrightarrow> logic_step le s (LReceive now r) s'"
| take: "pl_jobs (lg_pool s) = j # rest \<Longrightarrow> length (pl_busy (lg_pool s)) < pl_workers (lg_pool s) \<Longrightarrow>
         logic_step le s (LTake j) (worker_take j rest s)"
| finish: "j \<in> set (pl_busy (lg_pool s)) \<Longrightarrow> logic_step le s (LFinish now d j) (worker_finish le now d j s)"
| heartbeat: "logic_step le s (LHeartbeat now) (snd (sendHeartbeat le now s))"
| regch: "lg_regCh s = r # rest \<Longrightarrow> logic_step le s (LTakeReg r) (s\<lparr>lg_regCh := rest\<rparr>)"

inductive logic_run :: "logic_env \<Rightarrow> logic \<Rightarrow> logic_event list \<Rightarrow> logic \<Rightarrow> bool" for le where
  nil: "logic_run le s [] s"
| snoc: "logic_run le s evs s1 \<Longrightarrow> logic_step le s1 ev s2 \<Longrightarrow> logic_run le s (evs @ [ev]) s2"

definition logic_start :: "int \<Rightarrow> logic" where
  "logic_start n =
     \<lparr>lg_pool = fst (newDataWorkerPool n), lg_regCh = [], lg_inFlight = 0, lg_heartbeatRTT = 0, lg_hbSentAt = 0,
      lg_seq = 0, lg_met = snd (newDataWorkerPool n) @ [NRegisterStatus False, NQueueSize 0], lg_sent = []\<rparr>"

section \<open>Every request is answered once\<close>

text \<open>The DATA requests of a run with the addresses their answers belong to.\<close>

fun requests :: "logic_env \<Rightarrow> logic_event list \<Rightarrow> data_job list" where
  "requests le [] = []"
| "requests le (LReceive now (Inr (e, src)) # evs) =
     (if env_type e = MESSAGE_TYPE_DATA_REQUEST then (e, reply_to le src) # requests le evs else requests le evs)"
| "requests le (ev # evs) = requests le evs"

definition data_type :: "message_type \<Rightarrow> bool" where
  "data_type t \<longleftrightarrow> t = MESSAGE_TYPE_DATA_RESPONSE \<or> t = MESSAGE_TYPE_ERROR"

definition data_answers :: "logic \<Rightarrow> (envelope \<times> udp_addr option) list" where
  "data_answers s = filter (\<lambda>(r, a). data_type (env_type r)) (lg_sent s)"

text \<open>\<open>r\<close>, sent to \<open>a\<close>, is an answer of node \<open>n\<close> to the job.\<close>

definition answers_job :: "u32 \<Rightarrow> data_job \<Rightarrow> envelope \<times> udp_addr option \<Rightarrow> bool" where
  "answers_job n j ra \<longleftrightarrow>
     (let e = fst j; r = fst ra in
      snd ra = snd j \<and> env_transaction_id r = env_transaction_id e \<and> env_trace_id r = env_trace_id e \<and>
      env_destination_node_id r = env_source_node_id e \<and> env_source_node_id r = n \<and> data_type (env_type r))"

lemma requests_snoc: "requests le (evs @ [ev]) = requests le evs @ requests le [ev]"
  by (induction le evs rule: requests.induct) auto

lemma lg_call_fields [simp]:
  "lg_pool (lg_call cs s) = lg_pool s" "lg_sent (lg_call cs s) = lg_sent s" "lg_regCh (lg_call cs s) = lg_regCh s"
  "lg_inFlight (lg_call cs s) = lg_inFlight s"
  by (simp_all add: lg_call_def)

lemma lg_transmit_fields [simp]:
  "lg_pool (lg_transmit le out dest cs s) = lg_pool s"
  "lg_sent (lg_transmit le out dest cs s) = lg_sent s @ [(out, dest)]"
  "lg_inFlight (lg_transmit le out dest cs s) = lg_inFlight s"
  "lg_regCh (lg_transmit le out dest cs s) = lg_regCh s"
  by (simp_all add: lg_transmit_def Let_def split: option.split)

lemma handleBusiness_answers: "answers_job n (e, a) (handleBusiness now n e m, a)"
  by (simp add: answers_job_def Let_def handleBusiness_def echoResponse_def logic_envelope_def case_prod_beta
    data_type_def ErrorEnvelope_def)

lemma overload_answers: "answers_job n (e, a) (ErrorEnvelope now n (Some e) c m, a)"
  by (simp add: answers_job_def data_type_def ErrorEnvelope_def)

text \<open>\<open>served\<close>: the answered requests in the order of their answers.\<close>

definition serving :: "logic_env \<Rightarrow> data_job list \<Rightarrow> logic_event list \<Rightarrow> logic \<Rightarrow> bool" where
  "serving le served evs s \<longleftrightarrow>
     mset (requests le evs) = mset served + mset (pl_jobs (lg_pool s)) + mset (pl_busy (lg_pool s)) \<and>
     list_all2 (answers_job (le_node le)) served (data_answers s) \<and>
     length (pl_jobs (lg_pool s)) \<le> defaultDataJobQueue \<and> length (pl_busy (lg_pool s)) \<le> pl_workers (lg_pool s) \<and>
     lg_inFlight s = int (length (pl_busy (lg_pool s))) \<and> \<not> pl_closing (lg_pool s) \<and> length (lg_regCh s) \<le> 1"

lemma handleIncoming_serving:
  assumes "serving le served evs s"
  shows "\<exists>served'. serving le served' (evs @ [LReceive now (Inr (e, src))]) (handleIncoming le now (Some e) src s)"
proof (cases "env_type e = MESSAGE_TYPE_DATA_REQUEST")
  case True
  let ?j = "(e, reply_to le src)"
  show ?thesis
  proof (cases "length (pl_jobs (lg_pool s)) < defaultDataJobQueue")
    case room: True
    then have "serving le served (evs @ [LReceive now (Inr (e, src))]) (handleIncoming le now (Some e) src s)"
      using assms True
      by (simp add: serving_def handleIncoming_def on_data_request_def Enqueue_def Let_def requests_snoc data_answers_def
        lg_call_def)
    then show ?thesis ..
  next
    case full: False
    have "serving le (served @ [?j]) (evs @ [LReceive now (Inr (e, src))]) (handleIncoming le now (Some e) src s)"
      using assms True full overload_answers [of "le_node le" e "reply_to le src" now]
      by (auto simp: serving_def handleIncoming_def on_data_request_def Enqueue_def Let_def requests_snoc data_answers_def
        data_type_def intro!: list_all2_appendI)
    then show ?thesis ..
  qed
next
  case False
  have "serving le served (evs @ [LReceive now (Inr (e, src))]) (handleIncoming le now (Some e) src s)"
    using assms False
    by (cases "env_type e")
      (auto simp: serving_def handleIncoming_def requests_snoc data_answers_def Let_def lg_transmit_def data_type_def
        lg_call_def split: option.split)
  then show ?thesis ..
qed

lemma logic_step_serving:
  assumes "logic_step le s ev s'" "serving le served evs s"
  shows "\<exists>served'. serving le served' (evs @ [ev]) s'"
  using assms(1)
proof (cases rule: logic_step.cases)
  case (receive now r)
  show ?thesis
  proof (cases r)
    case (Inl err)
    then have "serving le served (evs @ [ev]) s'"
      using receive assms(2)
      by (auto simp: receive_step_def serving_def requests_snoc data_answers_def lg_call_def split: if_splits)
    then show ?thesis ..
  next
    case (Inr ea)
    then show ?thesis
      using receive handleIncoming_serving [OF assms(2), of now "fst ea" "snd ea"]
      by (cases ea) (simp add: receive_step_def)
  qed
next
  case (take j rest)
  then have "serving le served (evs @ [ev]) s'"
    using assms(2)
    by (simp add: serving_def worker_take_def data_start_def Let_def requests_snoc data_answers_def lg_call_def)
  then show ?thesis ..
next
  case (finish j now d)
  obtain e a where j: "j = (e, a)" by fastforce
  have "mset (pl_busy (lg_pool s)) = add_mset j (mset (remove1 j (pl_busy (lg_pool s))))"
    using finish by simp
  moreover have "length (pl_busy (lg_pool s)) = Suc (length (remove1 j (pl_busy (lg_pool s))))"
    using finish by (simp add: length_remove1) (metis Suc_pred length_pos_if_in_set)
  moreover have "data_type (env_type (handleBusiness now n e m))" for n m
    using handleBusiness_answers [of n e a now m] by (simp add: answers_job_def Let_def)
  ultimately have "serving le (served @ [j]) (evs @ [ev]) s'"
    using assms(2) finish j handleBusiness_answers [of "le_node le" e a now]
    by (auto simp: serving_def worker_finish_def data_finish_def Let_def requests_snoc data_answers_def
      intro!: list_all2_appendI)
  then show ?thesis ..
next
  case (heartbeat now)
  then have "serving le served (evs @ [ev]) s'"
    using assms(2)
    by (simp add: serving_def sendHeartbeat_def Let_def requests_snoc data_answers_def logic_envelope_def data_type_def)
  then show ?thesis ..
next
  case (regch r rest)
  then have "serving le served (evs @ [ev]) s'"
    using assms(2) by (simp add: serving_def requests_snoc data_answers_def)
  then show ?thesis ..
qed

lemma logic_run_serving:
  assumes "logic_run le s0 evs s" "s0 = logic_start n"
  shows "\<exists>served. serving le served evs s"
  using assms
proof (induction rule: logic_run.induct)
  case (nil s)
  then have "serving le [] [] s"
    by (simp add: serving_def logic_start_def newDataWorkerPool_def Let_def data_answers_def)
  then show ?case ..
next
  case (snoc s evs s1 ev s2)
  then show ?case using logic_step_serving by blast
qed

text \<open>
  C27: The Logic node answers every DATA request exactly once: in every run the requests received are
  those answered, those in the job queue and those with a worker; each answer goes to the address of
  its own request, with its transaction and trace id; queue, workers and the count of requests in
  flight stay within their bounds.
\<close>

theorem every_request_answered:
  assumes "logic_run le (logic_start n) evs s"
  shows "\<exists>served. mset (requests le evs) = mset served + mset (pl_jobs (lg_pool s)) + mset (pl_busy (lg_pool s)) \<and>
    list_all2 (answers_job (le_node le)) served (data_answers s) \<and>
    length (pl_jobs (lg_pool s)) \<le> 4096 \<and> length (pl_busy (lg_pool s)) \<le> pl_workers (lg_pool s) \<and>
    lg_inFlight s = int (length (pl_busy (lg_pool s)))"
  using logic_run_serving [OF assms refl] by (auto simp: serving_def defaultDataJobQueue_def)

section \<open>A concrete run\<close>

definition w_lenv :: logic_env where
  "w_lenv = \<lparr>le_node = 2, le_gw = None, le_send = (\<lambda>e a. None)\<rparr>"

definition w_data_request :: "u64 \<Rightarrow> envelope" where
  "w_data_request i = \<lparr>env_version = 1, env_type = MESSAGE_TYPE_DATA_REQUEST, env_source_node_id = 1,
     env_destination_node_id = 2, env_transaction_id = i, env_timestamp_ms = 0, env_trace_id = ''t'',
     env_body = Some (DataRequest \<lparr>dr_message_id = 1001, dr_session_id = ''s'', dr_payload = [1, 2]\<rparr>)\<rparr>"

definition w_events :: "logic_event list" where
  "w_events = [LReceive 0 (Inr (w_data_request 7, None)), LTake (w_data_request 7, None),
     LFinish 1 1 (w_data_request 7, None)]"

lemma w_logic_run: "\<exists>s. logic_run w_lenv (logic_start 1) w_events s"
proof -
  let ?s0 = "logic_start 1" and ?j = "(w_data_request 7, None :: udp_addr option)"
  obtain s1 where s1: "receive_step w_lenv 0 (Inr (w_data_request 7, None)) ?s0 = (None, s1)"
    "pl_jobs (lg_pool s1) = [?j]" "pl_busy (lg_pool s1) = []" "pl_workers (lg_pool s1) = 1"
    by (simp add: receive_step_def handleIncoming_def w_data_request_def on_data_request_def Enqueue_def
      logic_start_def newDataWorkerPool_def defaultDataJobQueue_def reply_to_def w_lenv_def Let_def lg_call_def)
  have t: "logic_step w_lenv s1 (LTake ?j) (worker_take ?j [] s1)"
    using s1 by (intro logic_step.take) simp_all
  have "?j \<in> set (pl_busy (lg_pool (worker_take ?j [] s1)))"
    by (simp add: worker_take_def data_start_def Let_def lg_call_def)
  from logic_step.finish [OF this] have f:
    "logic_step w_lenv (worker_take ?j [] s1) (LFinish 1 1 ?j) (worker_finish w_lenv 1 1 ?j (worker_take ?j [] s1))" .
  have "logic_run w_lenv ?s0 ((([] @ [LReceive 0 (Inr (w_data_request 7, None))]) @ [LTake ?j]) @ [LFinish 1 1 ?j])
      (worker_finish w_lenv 1 1 ?j (worker_take ?j [] s1))"
    using logic_run.snoc [OF logic_run.snoc [OF logic_run.snoc [OF logic_run.nil logic_step.receive [OF s1(1)]] t] f] .
  then show ?thesis by (auto simp: w_events_def)
qed

theorem every_request_answered_witness:
  "\<exists>s served. logic_run w_lenv (logic_start 1) w_events s \<and>
     mset [(w_data_request 7, None)] = mset served + mset (pl_jobs (lg_pool s)) + mset (pl_busy (lg_pool s)) \<and>
     list_all2 (answers_job 2) served (data_answers s)"
proof -
  obtain s where run: "logic_run w_lenv (logic_start 1) w_events s" using w_logic_run by blast
  have "requests w_lenv w_events = [(w_data_request 7, None)]" "le_node w_lenv = 2"
    by (simp_all add: w_events_def w_data_request_def reply_to_def w_lenv_def)
  then show ?thesis using run every_request_answered [OF run] by fastforce
qed

end
