(* ===== verification/HeartbeatSvc.thy ===== *)
theory HeartbeatSvc imports Registry GoNet begin

text \<open>
  \<open>internal/heartbeat\<close>: the configuration check, the two transition functions of the node life
  cycle, the service that handles a heartbeat, the monitor's sweep and the sender's tick.

  The service is written against the \<open>Registry\<close> interface in Go; its model takes the two
  registry operations as arguments, and the locale \<open>registry_store\<close> states what the service
  relies on.  \<open>Memory\<close> is the interpretation.
\<close>

section \<open>Configuration (\<open>config.go\<close>)\<close>

record hb_config =
  Interval :: duration
  SuspectTimeout :: duration
  DeadTimeout :: duration

definition hb_Validate :: "hb_config \<Rightarrow> gerr option" where
  "hb_Validate c =
     (if Interval c \<le> 0 then
        Some (errorf (Heartbeat ErrInvalidConfig) [Lit ''interval must be > 0''])
      else if SuspectTimeout c \<le> 0 then
        Some (errorf (Heartbeat ErrInvalidConfig) [Lit ''suspect timeout must be > 0''])
      else if DeadTimeout c \<le> 0 then
        Some (errorf (Heartbeat ErrInvalidConfig) [Lit ''dead timeout must be > 0''])
      else if Interval c \<ge> SuspectTimeout c then
        Some (errorf (Heartbeat ErrInvalidConfig) [Lit ''interval must be < suspect timeout''])
      else if SuspectTimeout c \<ge> DeadTimeout c then
        Some (errorf (Heartbeat ErrInvalidConfig) [Lit ''suspect timeout must be < dead timeout''])
      else None)"

lemma hb_Validate_None:
  "hb_Validate c = None \<longleftrightarrow>
     0 < Interval c \<and> Interval c < SuspectTimeout c \<and> SuspectTimeout c < DeadTimeout c"
  by (auto simp: hb_Validate_def)

section \<open>Transitions (\<open>state.go\<close>)\<close>

definition NextOnHeartbeat :: hb_transition where
  "NextOnHeartbeat from =
     (case from of
        NodeStateInit \<Rightarrow> Inr NodeStateActive
      | NodeStateRegistered \<Rightarrow> Inr NodeStateActive
      | NodeStateActive \<Rightarrow> Inr NodeStateActive
      | NodeStateSuspect \<Rightarrow> Inr NodeStateActive
      | NodeStateDead \<Rightarrow> Inl (Sentinel (Heartbeat ErrDeadNode))
      | _ \<Rightarrow> Inl (errorf (Heartbeat ErrInvalidTransition)
                   [Lit ''from '', Lit (NodeState_String from)]))"

definition NextOnTimeout ::
  "node_state \<Rightarrow> duration \<Rightarrow> duration \<Rightarrow> duration \<Rightarrow> node_state \<times> bool" where
  "NextOnTimeout from elapsed suspectAfter deadAfter =
     (if from = NodeStateDead \<or> from = NodeStateUnspecified \<or> from = NodeStateStopping
      then (from, False)
      else if elapsed \<ge> deadAfter then (NodeStateDead, from \<noteq> NodeStateDead)
      else if elapsed \<ge> suspectAfter then (NodeStateSuspect, from \<noteq> NodeStateSuspect)
      else (from, False))"

text \<open>The states from which a heartbeat brings a node to ACTIVE.\<close>

definition revivable :: "node_state \<Rightarrow> bool" where
  "revivable s \<longleftrightarrow>
     s = NodeStateInit \<or> s = NodeStateRegistered \<or> s = NodeStateActive \<or> s = NodeStateSuspect"

lemma NextOnHeartbeat_revivable [outcome_simps]:
  "revivable s \<Longrightarrow> NextOnHeartbeat s = Inr NodeStateActive"
  by (auto simp: revivable_def NextOnHeartbeat_def)

lemma NextOnHeartbeat_dead [outcome_simps]:
  "NextOnHeartbeat NodeStateDead = Inl (Sentinel (Heartbeat ErrDeadNode))"
  by (simp add: NextOnHeartbeat_def)

lemma NextOnHeartbeat_Inr: "NextOnHeartbeat s = Inr t \<longleftrightarrow> revivable s \<and> t = NodeStateActive"
  by (cases s) (auto simp: revivable_def NextOnHeartbeat_def)

lemma NextOnHeartbeat_Inl:
  "NextOnHeartbeat s = Inl e \<Longrightarrow>
     s = NodeStateDead \<and> err_is (Heartbeat ErrDeadNode) e \<or>
     (s = NodeStateUnspecified \<or> s = NodeStateStopping) \<and> err_is (Heartbeat ErrInvalidTransition) e"
  by (cases s) (auto simp: NextOnHeartbeat_def)

lemma NextOnHeartbeat_not_found:
  "NextOnHeartbeat s = Inl e \<Longrightarrow> \<not> err_is (Registry ErrNotFound) e"
  by (cases s) (auto simp: NextOnHeartbeat_def)

section \<open>The service (\<open>service.go\<close>)\<close>

definition HeartbeatService_Handle ::
  "(u32 \<Rightarrow> time \<Rightarrow> hb_transition option \<Rightarrow> 's \<Rightarrow> (node option \<times> gerr option) \<times> 's) \<Rightarrow>
   (u32 \<Rightarrow> u32 \<Rightarrow> u32 \<Rightarrow> 's \<Rightarrow> gerr option \<times> 's) \<Rightarrow>
   time \<Rightarrow> heartbeat_request option \<Rightarrow> 's \<Rightarrow> heartbeat_response res \<times> 's" where
  "HeartbeatService_Handle applyHeartbeat setRuntime at req s =
     (case req of
        None \<Rightarrow> (Inl (errorf (Heartbeat ErrInvalidHeartbeat) [Lit ''node_id is required'']), s)
      | Some r \<Rightarrow>
         if hb_node_id r = 0
         then (Inl (errorf (Heartbeat ErrInvalidHeartbeat) [Lit ''node_id is required'']), s)
         else
           (case applyHeartbeat (hb_node_id r) at (Some NextOnHeartbeat) s of
              ((_, Some err), s1) \<Rightarrow>
                if err_is (Registry ErrNotFound) err
                then (Inl (errorf (Heartbeat ErrUnknownNode)
                             [Lit ''node_id='', Num (unat (hb_node_id r))]), s1)
                else (Inl err, s1)
            | ((_, None), s1) \<Rightarrow>
                let s2 = snd (setRuntime (hb_node_id r) (hb_load r) (hb_active_transaction r) s1)
                in (Inr \<lparr>hp_sequence = hb_sequence r, hp_timestamp_ms = timestamp_ms at\<rparr>, s2)))"

text \<open>The service on the in-memory registry, as the gateway wires it.\<close>

definition Memory_Handle :: "time \<Rightarrow> heartbeat_request option \<Rightarrow> memory \<Rightarrow> heartbeat_response res \<times> memory" where
  "Memory_Handle = HeartbeatService_Handle Memory_ApplyHeartbeat Memory_SetRuntime"

section \<open>What the service needs from a registry\<close>

locale registry_store =
  fixes get :: "u32 \<Rightarrow> 's \<Rightarrow> node option"
    and apply_heartbeat ::
      "u32 \<Rightarrow> time \<Rightarrow> hb_transition option \<Rightarrow> 's \<Rightarrow> (node option \<times> gerr option) \<times> 's"
    and set_runtime :: "u32 \<Rightarrow> u32 \<Rightarrow> u32 \<Rightarrow> 's \<Rightarrow> gerr option \<times> 's"
    and inv :: "'s \<Rightarrow> bool"
  assumes apply_unknown:
      "inv s \<Longrightarrow> k \<noteq> 0 \<Longrightarrow> get k s = None \<Longrightarrow>
       apply_heartbeat k at (Some tr) s = ((None, Some (Sentinel (Registry ErrNotFound))), s)"
    and apply_rejected:
      "inv s \<Longrightarrow> k \<noteq> 0 \<Longrightarrow> get k s = Some n \<Longrightarrow> tr (State n) = Inl e \<Longrightarrow>
       apply_heartbeat k at (Some tr) s = ((Some n, Some e), s)"
    and apply_accepted:
      "inv s \<Longrightarrow> k \<noteq> 0 \<Longrightarrow> get k s = Some n \<Longrightarrow> tr (State n) = Inr t \<Longrightarrow>
       \<exists>s'. apply_heartbeat k at (Some tr) s =
              ((Some (n\<lparr>State := t, LastHeartbeatAt := at\<rparr>), None), s') \<and> inv s' \<and>
            get k s' = Some (n\<lparr>State := t, LastHeartbeatAt := at\<rparr>) \<and>
            (\<forall>j. j \<noteq> k \<longrightarrow> get j s' = get j s)"
    and runtime_known:
      "inv s \<Longrightarrow> k \<noteq> 0 \<Longrightarrow> get k s = Some n \<Longrightarrow>
       \<exists>s'. set_runtime k l a s = (None, s') \<and> inv s' \<and>
            get k s' = Some (n\<lparr>Load := l, ActiveTransaction := a\<rparr>) \<and>
            (\<forall>j. j \<noteq> k \<longrightarrow> get j s' = get j s)"
begin

lemma handle_accepted:
  assumes "inv s" "hb_node_id r \<noteq> 0" "get (hb_node_id r) s = Some n" "revivable (State n)"
  shows "\<exists>s'. HeartbeatService_Handle apply_heartbeat set_runtime at (Some r) s =
           (Inr \<lparr>hp_sequence = hb_sequence r, hp_timestamp_ms = timestamp_ms at\<rparr>, s') \<and> inv s' \<and>
         get (hb_node_id r) s' =
           Some (n\<lparr>State := NodeStateActive, LastHeartbeatAt := at,
                   Load := hb_load r, ActiveTransaction := hb_active_transaction r\<rparr>) \<and>
         (\<forall>j. j \<noteq> hb_node_id r \<longrightarrow> get j s' = get j s)"
proof -
  let ?n = "n\<lparr>State := NodeStateActive, LastHeartbeatAt := at\<rparr>"
  obtain s1 where s1: "apply_heartbeat (hb_node_id r) at (Some NextOnHeartbeat) s =
        ((Some ?n, None), s1)" "inv s1" "get (hb_node_id r) s1 = Some ?n"
      "\<forall>j. j \<noteq> hb_node_id r \<longrightarrow> get j s1 = get j s"
    using apply_accepted [where tr = NextOnHeartbeat, OF assms(1-3) NextOnHeartbeat_revivable [OF assms(4)]]
    by blast
  obtain s2 where "set_runtime (hb_node_id r) (hb_load r) (hb_active_transaction r) s1 = (None, s2)"
      "inv s2" "get (hb_node_id r) s2 =
        Some (?n\<lparr>Load := hb_load r, ActiveTransaction := hb_active_transaction r\<rparr>)"
      "\<forall>j. j \<noteq> hb_node_id r \<longrightarrow> get j s2 = get j s1"
    using runtime_known [OF s1(2) assms(2) s1(3)] by blast
  with s1 assms(2) show ?thesis by (auto simp: HeartbeatService_Handle_def)
qed

lemma handle_unknown:
  assumes "inv s" "hb_node_id r \<noteq> 0" "get (hb_node_id r) s = None"
  shows "HeartbeatService_Handle apply_heartbeat set_runtime at (Some r) s =
    (Inl (errorf (Heartbeat ErrUnknownNode) [Lit ''node_id='', Num (unat (hb_node_id r))]), s)"
  using assms by (simp add: HeartbeatService_Handle_def apply_unknown)

lemma handle_rejected:
  assumes "inv s" "hb_node_id r \<noteq> 0" "get (hb_node_id r) s = Some n"
    and "NextOnHeartbeat (State n) = Inl e"
  shows "HeartbeatService_Handle apply_heartbeat set_runtime at (Some r) s = (Inl e, s)"
  using assms by (simp add: HeartbeatService_Handle_def apply_rejected NextOnHeartbeat_not_found)

end

interpretation mem: registry_store Memory_Get Memory_ApplyHeartbeat Memory_SetRuntime reg_wf
  by unfold_locales (auto simp: memory_defs Let_def reg_wf_def)

lemma Memory_Handle_wf [inv_intros]:
  "reg_wf m \<Longrightarrow> reg_wf (snd (Memory_Handle at req m))"
  unfolding Memory_Handle_def HeartbeatService_Handle_def
  using reg_wf_ApplyHeartbeat [of m _ at "Some NextOnHeartbeat"]
  by (auto simp: Let_def intro!: reg_wf_SetRuntime split: option.split prod.split)
     (metis snd_conv)+

section \<open>The monitor (\<open>monitor.go\<close>)\<close>

definition Monitor_transition :: "hb_config \<Rightarrow> to_transition" where
  "Monitor_transition cfg = (\<lambda>state last now.
     (let elapsed = time_sub now last;
          elapsed = (if elapsed < 0 then 0 else elapsed)
      in NextOnTimeout state elapsed (SuspectTimeout cfg) (DeadTimeout cfg)))"

text \<open>\<open>Check\<close> returns the changed nodes and the argument of the \<open>OnTimeout\<close> callback, if called.\<close>

definition Monitor_Check ::
  "hb_config \<Rightarrow> time \<Rightarrow> u32 list \<Rightarrow> memory \<Rightarrow> (node list \<times> nat option) \<times> memory" where
  "Monitor_Check cfg now order m =
     (let (changed, m') = Memory_ApplyTimeouts now (Some (Monitor_transition cfg)) order m
      in ((changed, if changed \<noteq> [] then Some (length changed) else None), m'))"

definition NewMonitor :: "memory option \<Rightarrow> hb_config \<Rightarrow> hb_config res" where
  "NewMonitor reg cfg =
     (case reg of
        None \<Rightarrow> Inl (errorf (Heartbeat ErrInvalidConfig) [Lit ''registry is required''])
      | Some _ \<Rightarrow> (case hb_Validate cfg of Some e \<Rightarrow> Inl e | None \<Rightarrow> Inr cfg))"

text \<open>The state of a node after a sweep at \<open>now\<close>.\<close>

definition check_state :: "hb_config \<Rightarrow> time \<Rightarrow> node \<Rightarrow> node_state" where
  "check_state cfg now n =
     (if Type n = TypeHTTP2GW \<or> \<not> revivable (State n) then State n
      else let elapsed = max 0 (time_sub now (LastHeartbeatAt n)) in
           if elapsed \<ge> DeadTimeout cfg then NodeStateDead
           else if elapsed \<ge> SuspectTimeout cfg then NodeStateSuspect
           else State n)"

lemma swept_check_state:
  "swept now (Some (\<lambda>n. Type n = TypeHTTP2GW)) (Monitor_transition cfg) n =
     n\<lparr>State := check_state cfg now n\<rparr>"
  by (cases "State n")
     (auto simp: swept_def timeout_node_def Monitor_transition_def NextOnTimeout_def Let_def
        check_state_def revivable_def max_def)

lemma Monitor_Check_map:
  assumes "is_order m order"
  shows "snd (Monitor_Check cfg now order m) =
         (\<lambda>k. map_option (\<lambda>n. n\<lparr>State := check_state cfg now n\<rparr>) (m k))"
proof -
  have "swept now (Some (\<lambda>n. Type n = TypeHTTP2GW)) (Monitor_transition cfg) =
      (\<lambda>n. n\<lparr>State := check_state cfg now n\<rparr>)"
    by (rule ext) (rule swept_check_state)
  then show ?thesis
    using ApplyTimeoutsExcept_map [OF assms, of now "Some (\<lambda>n. Type n = TypeHTTP2GW)" "Monitor_transition cfg"]
    by (simp add: Monitor_Check_def Memory_ApplyTimeouts_def case_prod_beta Let_def)
qed

lemma Monitor_Check_wf [inv_intros]:
  "reg_wf m \<Longrightarrow> is_order m order \<Longrightarrow> reg_wf (snd (Monitor_Check cfg now order m))"
  by (simp add: Monitor_Check_def Memory_ApplyTimeouts_def case_prod_beta Let_def
      reg_wf_ApplyTimeoutsExcept)

section \<open>The sender (\<open>sender.go\<close>)\<close>

definition logicUDPAddr :: "node \<Rightarrow> udp_addr res" where
  "logicUDPAddr n =
     (case ParseIP (Address n) of
        None \<Rightarrow> Inl (Wrap [Lit ''address ''] (Opaque []) [Quoted (Address n)])
      | Some ip \<Rightarrow>
          if UDPPort n = 0 \<or> unat (UDPPort n) > 65535
          then Inl (Wrap [Lit ''port ''] (Opaque []) [Num (unat (UDPPort n))])
          else Inr \<lparr>addr_ip = ip, addr_port = UDPPort n\<rparr>)"

text \<open>
  One send of the tick: the sequence counter is incremented first.  \<open>wall\<close> is the system time
  \<open>protocol.Reply\<close> reads, \<open>clock\<close> the time of the sender's clock, both at the send with the given
  sequence number.
\<close>

definition Sender_envelope :: "(u64 \<Rightarrow> time) \<Rightarrow> (u64 \<Rightarrow> time) \<Rightarrow> u32 \<Rightarrow> u32 \<Rightarrow> u64 \<Rightarrow> envelope" where
  "Sender_envelope wall clock nodeID destNodeID n =
     (Reply (wall n) nodeID None MESSAGE_TYPE_HEARTBEAT_REQUEST)
       \<lparr>env_destination_node_id := destNodeID,
        env_transaction_id := n,
        env_body := Some (HeartbeatRequest
          \<lparr>hb_node_id = nodeID, hb_sequence = n, hb_timestamp_ms = timestamp_ms (clock n),
           hb_load = 0, hb_active_transaction = 0\<rparr>)\<rparr>"

fun Sender_tick ::
  "(u64 \<Rightarrow> time) \<Rightarrow> (u64 \<Rightarrow> time) \<Rightarrow> u32 \<Rightarrow> node list \<Rightarrow> u64 \<Rightarrow> (envelope \<times> udp_addr) list \<times> u64" where
  "Sender_tick wall clock nodeID [] seq = ([], seq)"
| "Sender_tick wall clock nodeID (n # ns) seq =
     (if Type n \<noteq> TypeLogic then Sender_tick wall clock nodeID ns seq
      else if State n = NodeStateDead \<or> State n = NodeStateUnspecified
      then Sender_tick wall clock nodeID ns seq
      else case logicUDPAddr n of
        Inl err \<Rightarrow> Sender_tick wall clock nodeID ns seq
      | Inr addr \<Rightarrow>
          let seq' = seq + 1;
              (out, seq'') = Sender_tick wall clock nodeID ns seq'
          in ((Sender_envelope wall clock nodeID (node_id n) seq', addr) # out, seq''))"

definition NewSender :: "u32 \<Rightarrow> bool \<Rightarrow> bool \<Rightarrow> duration \<Rightarrow> (u32 \<times> duration) res" where
  "NewSender nodeID has_reg has_tr interval =
     (if nodeID = 0 then Inl (errorf (Heartbeat ErrInvalidConfig) [Lit ''node_id must be > 0''])
      else if \<not> has_reg then Inl (errorf (Heartbeat ErrInvalidConfig) [Lit ''registry is required''])
      else if \<not> has_tr then Inl (errorf (Heartbeat ErrInvalidConfig) [Lit ''transport is required''])
      else if interval \<le> 0 then Inl (errorf (Heartbeat ErrInvalidConfig) [Lit ''interval must be > 0''])
      else Inr (nodeID, interval))"

end
