(* ===== verification/Lifecycle.thy ===== *)
theory Lifecycle imports HeartbeatSvc Registration begin

text \<open>
  The life cycle of a node in the gateway's registry: the registry is changed by REGISTER requests
  (\<open>registration.Service\<close>), HEARTBEAT requests (\<open>heartbeat.Service\<close>) and the monitor's sweeps
  (\<open>heartbeat.Monitor\<close>), in any interleaving.  Each of the three runs under the registry's
  mutex, so a run of the gateway is a sequence of labelled atomic steps.

  Shown: the steps refine the life-cycle automaton; a DEAD node stays DEAD until it registers
  again; a silent node is DEAD after a sweep past the dead timeout; a node whose heartbeats are
  timely stays ACTIVE.
\<close>

section \<open>Runs\<close>

datatype life_event =
    EvRegister time "register_request option"
  | EvHeartbeat time "heartbeat_request option"
  | EvCheck time

inductive life_step :: "hb_config \<Rightarrow> memory \<Rightarrow> life_event \<Rightarrow> memory \<Rightarrow> bool" for cfg where
  register: "life_step cfg m (EvRegister now req) (snd (Memory_Service_Register now req m))"
| heartbeat: "life_step cfg m (EvHeartbeat at req) (snd (Memory_Handle at req m))"
| check: "is_order m order \<Longrightarrow> life_step cfg m (EvCheck now) (snd (Monitor_Check cfg now order m))"

inductive life_run :: "hb_config \<Rightarrow> memory \<Rightarrow> life_event list \<Rightarrow> memory \<Rightarrow> bool" for cfg where
  nil: "life_run cfg m [] m"
| cons: "life_step cfg m ev m1 \<Longrightarrow> life_run cfg m1 evs m2 \<Longrightarrow> life_run cfg m (ev # evs) m2"

inductive_simps life_run_simps [simp]: "life_run cfg m [] m'" "life_run cfg m (ev # evs) m'"
inductive_cases life_registerE [elim!]: "life_step cfg m (EvRegister now req) m'"
inductive_cases life_heartbeatE [elim!]: "life_step cfg m (EvHeartbeat at req) m'"
inductive_cases life_checkE [elim!]: "life_step cfg m (EvCheck now) m'"

lemma life_step_wf: "life_step cfg m ev m' \<Longrightarrow> reg_wf m \<Longrightarrow> reg_wf m'"
  by (induction rule: life_step.induct)
     (auto intro: Memory_Service_Register_wf Memory_Handle_wf Monitor_Check_wf)

lemma life_run_snocD:
  "life_run cfg m (evs @ [ev]) m' \<Longrightarrow> \<exists>m1. life_run cfg m evs m1 \<and> life_step cfg m1 ev m'"
  by (induction evs arbitrary: m) (simp, fastforce)

lemma life_run_wf: "life_run cfg m evs m' \<Longrightarrow> reg_wf m \<Longrightarrow> reg_wf m'"
  by (induction rule: life_run.induct) (auto dest: life_step_wf)

section \<open>The effect of one event on one node\<close>

text \<open>\<open>registers k ev\<close>: an accepted registration of \<open>k\<close>; \<open>beats k ev\<close>: a heartbeat request of \<open>k\<close>.\<close>

fun registers :: "u32 \<Rightarrow> life_event \<Rightarrow> bool" where
  "registers k (EvRegister t (Some r)) \<longleftrightarrow> rr_node_id r = k \<and> well_formed_request r"
| "registers k _ \<longleftrightarrow> False"

fun beats :: "u32 \<Rightarrow> life_event \<Rightarrow> bool" where
  "beats k (EvHeartbeat t (Some r)) \<longleftrightarrow> hb_node_id r = k"
| "beats k _ \<longleftrightarrow> False"

lemma register_other:
  assumes "reg_wf m" "\<not> registers k (EvRegister now req)"
  shows "snd (Memory_Service_Register now req m) k = m k"
proof (cases req)
  case None
  then show ?thesis
    by (simp add: Memory_Service_Register_def Registration_Register_def Validate_def reg_invalid_def)
next
  case (Some r)
  show ?thesis
  proof (cases "well_formed_request r")
    case True
    with assms Some have "k \<noteq> rr_node_id r" by auto
    then show ?thesis
      using mem_reg.service_accepts [OF assms(1) True, of now] Some
      by (auto simp: Memory_Service_Register_def Memory_Get_def)
  next
    case False
    then show ?thesis
      using mem_reg.service_rejects [OF False, of now m] Some
      by (auto simp: Memory_Service_Register_def)
  qed
qed

lemma register_self:
  assumes "reg_wf m" "well_formed_request r"
  shows "snd (Memory_Service_Register now (Some r) m) (rr_node_id r) = Some (stored_node now r)"
  using mem_reg.service_accepts [OF assms, of now] by (auto simp: Memory_Service_Register_def Memory_Get_def)

lemma handle_none:
  "Memory_Handle at None m = (Inl (errorf (Heartbeat ErrInvalidHeartbeat) [Lit ''node_id is required'']), m)"
  by (simp add: Memory_Handle_def HeartbeatService_Handle_def)

lemma handle_zero:
  "hb_node_id r = 0 \<Longrightarrow> Memory_Handle at (Some r) m =
     (Inl (errorf (Heartbeat ErrInvalidHeartbeat) [Lit ''node_id is required'']), m)"
  by (simp add: Memory_Handle_def HeartbeatService_Handle_def)

lemma handle_missing:
  "reg_wf m \<Longrightarrow> hb_node_id r \<noteq> 0 \<Longrightarrow> m (hb_node_id r) = None \<Longrightarrow> Memory_Handle at (Some r) m =
     (Inl (errorf (Heartbeat ErrUnknownNode) [Lit ''node_id='', Num (unat (hb_node_id r))]), m)"
  using mem.handle_unknown by (simp add: Memory_Handle_def Memory_Get_def)

lemma handle_refused:
  "reg_wf m \<Longrightarrow> m (hb_node_id r) = Some n \<Longrightarrow> \<not> revivable (State n) \<Longrightarrow>
   \<exists>e. Memory_Handle at (Some r) m = (Inl e, m) \<and> NextOnHeartbeat (State n) = Inl e"
  using mem.handle_rejected [of m r n _ at] reg_wfD [of m "hb_node_id r" n] NextOnHeartbeat_Inr [of "State n"]
  by (cases "NextOnHeartbeat (State n)") (auto simp: Memory_Handle_def Memory_Get_def)

lemma handle_self:
  "reg_wf m \<Longrightarrow> m (hb_node_id r) = Some n \<Longrightarrow> revivable (State n) \<Longrightarrow>
   fst (Memory_Handle at (Some r) m) = Inr \<lparr>hp_sequence = hb_sequence r, hp_timestamp_ms = timestamp_ms at\<rparr> \<and>
   snd (Memory_Handle at (Some r) m) (hb_node_id r) =
     Some (n\<lparr>State := NodeStateActive, LastHeartbeatAt := at,
             Load := hb_load r, ActiveTransaction := hb_active_transaction r\<rparr>)"
  using mem.handle_accepted [of m r n at] reg_wfD [of m "hb_node_id r" n]
  by (auto simp: Memory_Handle_def Memory_Get_def)

lemma handle_other:
  assumes "reg_wf m" "\<not> beats k (EvHeartbeat at req)"
  shows "snd (Memory_Handle at req m) k = m k"
proof (cases req)
  case None
  then show ?thesis by (simp add: handle_none)
next
  case (Some r)
  with assms have k: "k \<noteq> hb_node_id r" by auto
  show ?thesis
  proof (cases "m (hb_node_id r)")
    case None
    then show ?thesis
      by (cases "hb_node_id r = 0") (simp_all add: Some handle_zero handle_missing assms(1))
  next
    case (Some n)
    then show ?thesis
      using mem.handle_accepted [of m r n at] handle_refused [OF assms(1) Some, of at] assms(1) k
        reg_wfD [OF assms(1) Some] \<open>req = Some r\<close>
      by (cases "revivable (State n)") (auto simp: Memory_Handle_def Memory_Get_def)
  qed
qed

lemma check_at:
  "is_order m order \<Longrightarrow> m k = Some n \<Longrightarrow>
   snd (Monitor_Check cfg now order m) k = Some (n\<lparr>State := check_state cfg now n\<rparr>)"
  by (simp add: Monitor_Check_map)

section \<open>The life-cycle automaton\<close>

text \<open>The edges of the automaton: absent or any state to REGISTERED, live states to ACTIVE, SUSPECT, DEAD.\<close>

inductive life_edge :: "u32 \<Rightarrow> node_state option \<Rightarrow> life_event \<Rightarrow> node_state option \<Rightarrow> bool" for k where
  stay: "life_edge k s ev s"
| enter: "registers k ev \<Longrightarrow> life_edge k s ev (Some NodeStateRegistered)"
| revive: "beats k ev \<Longrightarrow> revivable s \<Longrightarrow> life_edge k (Some s) ev (Some NodeStateActive)"
| suspect: "revivable s \<Longrightarrow> life_edge k (Some s) (EvCheck now) (Some NodeStateSuspect)"
| die: "revivable s \<Longrightarrow> life_edge k (Some s) (EvCheck now) (Some NodeStateDead)"

definition life_abs :: "memory \<Rightarrow> u32 \<Rightarrow> node_state option" where
  "life_abs m k = map_option State (m k)"

lemma check_state_edge:
  "life_edge k (Some (State n)) (EvCheck now) (Some (check_state cfg now n))"
  by (auto simp: check_state_def Let_def intro: life_edge.intros)

lemma step_edge:
  assumes "life_step cfg m ev m'" "reg_wf m"
  shows "life_edge k (life_abs m k) ev (life_abs m' k)"
  using assms
proof (cases rule: life_step.cases)
  case (register now req)
  show ?thesis
  proof (cases "registers k ev")
    case True
    then obtain r where "req = Some r" "rr_node_id r = k" "well_formed_request r"
      using register by (cases req) auto
    then have "life_abs m' k = Some NodeStateRegistered"
      using register register_self [OF assms(2)] by (auto simp: life_abs_def stored_node_def)
    then show ?thesis using True by (simp add: life_edge.enter)
  next
    case False
    then show ?thesis using register register_other [OF assms(2), of k now req]
      by (simp add: life_abs_def life_edge.stay)
  qed
next
  case (heartbeat at req)
  show ?thesis
  proof (cases "beats k ev \<and> (\<exists>n. m k = Some n \<and> revivable (State n))")
    case True
    then obtain r n where "req = Some r" "hb_node_id r = k" "m k = Some n" "revivable (State n)"
      using heartbeat by (cases req) auto
    with handle_self [OF assms(2), of r n at] heartbeat show ?thesis
      by (auto simp: life_abs_def intro: life_edge.revive)
  next
    case False
    then have "m' k = m k"
      using heartbeat handle_other [OF assms(2), of k at req] handle_refused [OF assms(2), of _ _ at]
        handle_missing [OF assms(2), of _ at] handle_zero [of _ at m]
      by (cases req; cases "m k"; cases "k = 0") fastforce+
    then show ?thesis by (simp add: life_abs_def life_edge.stay)
  qed
next
  case (check order now)
  then show ?thesis
    by (cases "m k") (auto simp: life_abs_def Monitor_Check_map check_state_edge life_edge.stay)
qed

text \<open>
  C12: Every step of the gateway's registry, whatever registrations, heartbeats and sweeps it
  serves, moves each node along an edge of the life-cycle automaton: only a registration enters
  REGISTERED, only a heartbeat of a live node enters ACTIVE, only a sweep enters SUSPECT or DEAD,
  and no edge but a registration leaves DEAD.
\<close>

theorem life_step_refines:
  assumes "life_step cfg m ev m'" "reg_wf m"
  shows "life_edge k (life_abs m k) ev (life_abs m' k)"
  using assms by (rule step_edge)

section \<open>Dead nodes\<close>

lemma step_dead:
  assumes "life_step cfg m ev m'" "reg_wf m" "m k = Some n" "State n = NodeStateDead"
    and "\<not> registers k ev"
  shows "m' k = Some n"
  using assms(1)
proof (cases rule: life_step.cases)
  case (register now req)
  then show ?thesis using register_other [OF assms(2)] assms by simp
next
  case (heartbeat at req)
  show ?thesis
  proof (cases "beats k ev")
    case True
    then obtain r where r: "req = Some r" "hb_node_id r = k" using heartbeat by (cases req) auto
    with handle_refused [OF assms(2), of r n at] assms heartbeat show ?thesis
      by (auto simp: revivable_def)
  next
    case False
    then show ?thesis using heartbeat handle_other [OF assms(2)] assms by simp
  qed
next
  case (check order now)
  then show ?thesis using assms by (simp add: check_at check_state_def revivable_def)
qed

lemma dead_run:
  assumes "life_run cfg m evs m'" "reg_wf m" "m k = Some n" "State n = NodeStateDead"
    and "\<forall>ev \<in> set evs. \<not> registers k ev"
  shows "m' k = Some n"
  using assms
proof (induction rule: life_run.induct)
  case (cons m ev m1 evs m2)
  then have "m1 k = Some n" by (auto intro: step_dead)
  with cons show ?case by (auto dest: life_step_wf)
qed simp

text \<open>
  A DEAD node stays DEAD, byte for byte, through any sequence of heartbeats, sweeps and other
  nodes' registrations: only an accepted registration of the same id changes its entry.
\<close>

theorem dead_until_registered:
  assumes "life_run cfg m evs m'" "reg_wf m" "m k = Some n" "State n = NodeStateDead"
    and "\<forall>ev \<in> set evs. \<not> registers k ev"
  shows "m' k = Some n"
  using dead_run [OF assms] .

section \<open>Silent nodes\<close>

text \<open>What a run without events of \<open>k\<close> leaves of its node: only the state can change.\<close>

lemma silent_step:
  assumes "life_step cfg m ev m'" "reg_wf m" "m k = Some n" "\<not> registers k ev" "\<not> beats k ev"
  shows "\<exists>s. m' k = Some (n\<lparr>State := s\<rparr>) \<and> (revivable (State n) \<longrightarrow> revivable s \<or> s = NodeStateDead)"
  using assms(1)
proof (cases rule: life_step.cases)
  case (register now req)
  then have "m' k = Some (n\<lparr>State := State n\<rparr>)" using register_other [OF assms(2)] assms by simp
  then show ?thesis by blast
next
  case (heartbeat at req)
  then have "m' k = Some (n\<lparr>State := State n\<rparr>)" using handle_other [OF assms(2)] assms by simp
  then show ?thesis by blast
next
  case (check order now)
  then have "m' k = Some (n\<lparr>State := check_state cfg now n\<rparr>)" using assms(3) by (simp add: check_at)
  moreover have "revivable (State n) \<longrightarrow>
      revivable (check_state cfg now n) \<or> check_state cfg now n = NodeStateDead"
    by (auto simp: check_state_def Let_def revivable_def)
  ultimately show ?thesis by blast
qed

lemma silent_run:
  assumes "life_run cfg m evs m'" "reg_wf m" "m k = Some n"
    and "\<forall>ev \<in> set evs. \<not> registers k ev \<and> \<not> beats k ev"
    and "revivable (State n) \<or> State n = NodeStateDead"
  shows "\<exists>s. m' k = Some (n\<lparr>State := s\<rparr>) \<and> (revivable s \<or> s = NodeStateDead)"
  using assms
proof (induction arbitrary: n rule: life_run.induct)
  case (nil m)
  then have "m k = Some (n\<lparr>State := State n\<rparr>)" by simp
  with nil show ?case by blast
next
  case (cons m ev m1 evs m2)
  obtain s where s: "m1 k = Some (n\<lparr>State := s\<rparr>)" "revivable s \<or> s = NodeStateDead"
  proof (cases "State n = NodeStateDead")
    case True
    then have "m1 k = Some (n\<lparr>State := NodeStateDead\<rparr>)"
      using step_dead [OF cons.hyps(1) cons.prems(1,2)] cons.prems(3) by simp
    then show ?thesis using that by simp
  next
    case False
    then show ?thesis
      using silent_step [OF cons.hyps(1) cons.prems(1,2)] cons.prems(3,4) that by (simp, elim exE conjE)
  qed
  then have "\<exists>t. m2 k = Some (n\<lparr>State := s\<rparr>\<lparr>State := t\<rparr>) \<and> (revivable t \<or> t = NodeStateDead)"
    using cons.IH [OF life_step_wf [OF cons.hyps(1) cons.prems(1)] s(1)] cons.prems(3) by simp
  then show ?case by simp
qed

lemma overdue_dead:
  assumes "Type n \<noteq> TypeHTTP2GW" "revivable (State n) \<or> State n = NodeStateDead"
    and "DeadTimeout cfg \<le> now - LastHeartbeatAt n" "DeadTimeout cfg \<le> max_duration"
  shows "check_state cfg now n = NodeStateDead"
proof -
  have "DeadTimeout cfg \<le> max 0 (time_sub now (LastHeartbeatAt n))"
    using assms(3,4) by (auto simp: time_sub_def)
  then show ?thesis using assms(1,2) by (auto simp: check_state_def Let_def)
qed

lemma silent_dead:
  assumes "life_run cfg m (evs @ [EvCheck now]) m'" "reg_wf m" "m k = Some n"
    and "Type n \<noteq> TypeHTTP2GW" "revivable (State n)"
    and "\<forall>ev \<in> set evs. \<not> registers k ev \<and> \<not> beats k ev"
    and "DeadTimeout cfg \<le> now - LastHeartbeatAt n" "DeadTimeout cfg \<le> max_duration"
  shows "m' k = Some (n\<lparr>State := NodeStateDead\<rparr>)"
proof -
  obtain m1 where m1: "life_run cfg m evs m1" "life_step cfg m1 (EvCheck now) m'"
    using life_run_snocD [OF assms(1)] by (elim exE conjE)
  obtain s where "m1 k = Some (n\<lparr>State := s\<rparr>)" "revivable s \<or> s = NodeStateDead"
    using silent_run [OF m1(1) assms(2,3)] assms(5,6) by auto
  moreover have "check_state cfg now (n\<lparr>State := s\<rparr>) = NodeStateDead"
    using overdue_dead [of "n\<lparr>State := s\<rparr>" cfg now] assms(4,7,8) calculation(2) by simp
  ultimately show ?thesis using m1(2) by (auto simp: check_at)
qed

text \<open>
  Failure detection is complete: a node other than a gateway that is registered and live, and
  from which neither a registration nor a heartbeat arrives, is DEAD after the first sweep that
  runs at least the dead timeout after its last heartbeat, whatever else the registry served.
\<close>

theorem silent_node_dead:
  assumes "life_run cfg m (evs @ [EvCheck now]) m'" "reg_wf m" "m k = Some n"
    and "Type n \<noteq> TypeHTTP2GW" "revivable (State n)"
    and "\<forall>ev \<in> set evs. \<not> registers k ev \<and> \<not> beats k ev"
    and "DeadTimeout cfg \<le> now - LastHeartbeatAt n" "DeadTimeout cfg \<le> max_duration"
  shows "m' k = Some (n\<lparr>State := NodeStateDead\<rparr>)"
  using silent_dead [OF assms] .

section \<open>Timely nodes\<close>

text \<open>
  \<open>timely\<close>: no sweep of the run is a suspect timeout or more after the last heartbeat before it.
\<close>

fun timely :: "hb_config \<Rightarrow> u32 \<Rightarrow> time \<Rightarrow> life_event list \<Rightarrow> bool" where
  "timely cfg k lst [] \<longleftrightarrow> True"
| "timely cfg k lst (EvCheck now # evs) \<longleftrightarrow>
     now - lst < SuspectTimeout cfg \<and> timely cfg k lst evs"
| "timely cfg k lst (EvHeartbeat at req # evs) \<longleftrightarrow>
     timely cfg k (if beats k (EvHeartbeat at req) then at else lst) evs"
| "timely cfg k lst (EvRegister now req # evs) \<longleftrightarrow>
     \<not> registers k (EvRegister now req) \<and> timely cfg k lst evs"

lemma timely_check:
  assumes "hb_Validate cfg = None" "State n = NodeStateActive" "now - LastHeartbeatAt n < SuspectTimeout cfg"
  shows "check_state cfg now n = NodeStateActive"
proof -
  have "max 0 (time_sub now (LastHeartbeatAt n)) < SuspectTimeout cfg"
    using assms(1,3) by (auto simp: time_sub_def hb_Validate_None min_duration_def)
  moreover have "SuspectTimeout cfg < DeadTimeout cfg" using assms(1) by (simp add: hb_Validate_None)
  ultimately show ?thesis using assms(2) by (auto simp: check_state_def Let_def)
qed

text \<open>
  Failure detection is accurate: under a valid configuration an ACTIVE node whose heartbeats
  leave no sweep a suspect timeout late stays ACTIVE through the whole run.
\<close>

theorem timely_node_active:
  assumes "life_run cfg m evs m'" "reg_wf m" "m k = Some n" "State n = NodeStateActive"
    and "hb_Validate cfg = None" "timely cfg k (LastHeartbeatAt n) evs"
  shows "\<exists>n'. m' k = Some n' \<and> State n' = NodeStateActive"
  using assms
proof (induction arbitrary: n rule: life_run.induct)
  case (cons m ev m1 evs m2)
  have "\<exists>n1. m1 k = Some n1 \<and> State n1 = NodeStateActive \<and> timely cfg k (LastHeartbeatAt n1) evs"
    using cons.hyps(1)
  proof (cases rule: life_step.cases)
    case (register now req)
    then show ?thesis using register_other [OF cons.prems(1)] cons.prems by auto
  next
    case (heartbeat at req)
    show ?thesis
    proof (cases "beats k ev")
      case True
      then obtain r where "req = Some r" "hb_node_id r = k" using heartbeat by (cases req) auto
      then show ?thesis
        using handle_self [OF cons.prems(1), of r n at] heartbeat cons.prems
        by (auto simp: revivable_def)
    next
      case False
      then show ?thesis using heartbeat handle_other [OF cons.prems(1)] cons.prems by auto
    qed
  next
    case (check order now)
    then show ?thesis using cons.prems timely_check [of cfg n now] by (auto simp: check_at)
  qed
  with cons.IH life_step_wf [OF cons.hyps(1) cons.prems(1)] cons.prems(4) show ?case by blast
qed blast

section \<open>Reachable states\<close>

definition stored_state :: "node_state \<Rightarrow> bool" where
  "stored_state s \<longleftrightarrow>
     s \<in> {NodeStateRegistered, NodeStateActive, NodeStateSuspect, NodeStateDead}"

lemma edge_stored:
  "life_edge k s ev t \<Longrightarrow> pred_option stored_state s \<Longrightarrow> pred_option stored_state t"
  by (induction rule: life_edge.induct) (auto simp: stored_state_def)

lemma run_stored:
  "life_run cfg m evs m' \<Longrightarrow> reg_wf m \<Longrightarrow> pred_option stored_state (life_abs m k) \<Longrightarrow>
   pred_option stored_state (life_abs m' k)"
  by (induction rule: life_run.induct) (auto dest: life_step_wf edge_stored [OF step_edge])

text \<open>
  C20: In a registry that starts empty every node is REGISTERED, ACTIVE, SUSPECT or DEAD and stored
  under its own non-zero id, after any run.
\<close>

theorem reachable_states:
  assumes "life_run cfg NewMemory evs m" "m k = Some n"
  shows "node_id n = k \<and> k \<noteq> 0 \<and>
         State n \<in> {NodeStateRegistered, NodeStateActive, NodeStateSuspect, NodeStateDead}"
  using run_stored [OF assms(1) reg_wf_NewMemory, of k] assms(2)
    reg_wfD [OF life_run_wf [OF assms(1) reg_wf_NewMemory]]
  by (simp add: life_abs_def NewMemory_def stored_state_def)

section \<open>Concrete runs\<close>

definition w_cfg :: hb_config where
  "w_cfg = \<lparr>Interval = 1 * second, SuspectTimeout = 3 * second, DeadTimeout = 5 * second\<rparr>"

definition w_request :: register_request where
  "w_request = \<lparr>rr_node_id = 7, rr_node_type = NODE_TYPE_LOGIC, rr_instance_id = ''logic-7'',
     rr_ip = ''10.0.0.7'', rr_port = 9000,
     rr_services = [Some \<lparr>sc_service_id = 1, sc_service_name = ''echo'', sc_message_types = [42]\<rparr>]\<rparr>"

definition w_beat :: heartbeat_request where
  "w_beat = \<lparr>hb_node_id = 7, hb_sequence = 1, hb_timestamp_ms = 0, hb_load = 3, hb_active_transaction = 2\<rparr>"

definition w_node :: "node_state \<Rightarrow> node" where
  "w_node s = (toNode w_request)\<lparr>State := s, LastHeartbeatAt := 0\<rparr>"

definition w_memory :: "node_state \<Rightarrow> memory" where
  "w_memory s = [7 \<mapsto> w_node s]"

lemma w_node_fields [simp]:
  "node_id (w_node s) = 7" "State (w_node s) = s" "LastHeartbeatAt (w_node s) = 0"
  "Type (w_node s) = TypeLogic"
  by (simp_all add: w_node_def toNode_def w_request_def)

lemma w_memory_wf [simp]: "reg_wf (w_memory s)"
  by (auto simp: reg_wf_def w_memory_def)

lemma w_memory_7 [simp]: "w_memory s 7 = Some (w_node s)"
  by (simp add: w_memory_def)

lemma w_order [simp]: "is_order (w_memory s) [7]"
  by (simp add: is_order_def w_memory_def)

lemma w_dead_handle: "snd (Memory_Handle at (Some w_beat) (w_memory NodeStateDead)) = w_memory NodeStateDead"
  using handle_refused [of "w_memory NodeStateDead" w_beat "w_node NodeStateDead" at]
  by (auto simp: w_beat_def revivable_def)

lemma w_cfg_valid: "hb_Validate w_cfg = None"
  by (simp add: hb_Validate_None w_cfg_def second_def)

lemma life_step_refines_witness:
  "life_edge 7 (life_abs (w_memory NodeStateActive) 7) (EvCheck (5 * second))
     (life_abs (snd (Monitor_Check w_cfg (5 * second) [7] (w_memory NodeStateActive))) 7)"
  by (rule life_step_refines [OF life_step.check [OF w_order]]) simp

lemma dead_until_registered_witness:
  "snd (Monitor_Check w_cfg 9 [7] (snd (Memory_Handle 5 (Some w_beat) (w_memory NodeStateDead)))) 7 =
     Some (w_node NodeStateDead)"
proof -
  let ?m = "snd (Memory_Handle 5 (Some w_beat) (w_memory NodeStateDead))"
  have "life_run w_cfg (w_memory NodeStateDead) [EvHeartbeat 5 (Some w_beat), EvCheck 9]
      (snd (Monitor_Check w_cfg 9 [7] ?m))"
    by (rule life_run.cons [OF life_step.heartbeat], rule life_run.cons [OF life_step.check])
       (simp_all add: w_dead_handle)
  from dead_until_registered [OF this, of 7 "w_node NodeStateDead"] show ?thesis by simp
qed

lemma silent_node_dead_witness:
  "snd (Monitor_Check w_cfg (5 * second) [7] (w_memory NodeStateActive)) 7 = Some (w_node NodeStateDead)"
proof -
  have "life_run w_cfg (w_memory NodeStateActive) ([] @ [EvCheck (5 * second)])
      (snd (Monitor_Check w_cfg (5 * second) [7] (w_memory NodeStateActive)))"
    using life_step.check [OF w_order] by simp
  from silent_node_dead [OF this, of 7 "w_node NodeStateActive"] show ?thesis
    by (simp add: w_cfg_def second_def max_duration_def revivable_def) (simp add: w_node_def)
qed

lemma timely_node_active_witness:
  "\<exists>n'. snd (Monitor_Check w_cfg (4 * second) [7]
            (snd (Memory_Handle (2 * second) (Some w_beat) (w_memory NodeStateActive)))) 7 = Some n' \<and>
        State n' = NodeStateActive"
proof -
  let ?m = "snd (Memory_Handle (2 * second) (Some w_beat) (w_memory NodeStateActive))"
  have "is_order ?m [7]"
    by (auto simp: is_order_def Memory_Handle_def HeartbeatService_Handle_def w_beat_def memory_defs
        NextOnHeartbeat_def Let_def w_memory_def)
  then have "life_run w_cfg (w_memory NodeStateActive)
      [EvHeartbeat (2 * second) (Some w_beat), EvCheck (4 * second)]
      (snd (Monitor_Check w_cfg (4 * second) [7] ?m))"
    by (intro life_run.cons [OF life_step.heartbeat] life_run.cons [OF life_step.check]) simp_all
  from timely_node_active [OF this, of 7 "w_node NodeStateActive"] show ?thesis
    by (simp add: w_cfg_valid) (simp add: w_cfg_def w_beat_def second_def)
qed

lemma w_request_ok: "well_formed_request w_request"
proof -
  have "ParseIP (TrimSpace ''10.0.0.7'') \<noteq> None" "TrimSpace ''logic-7'' \<noteq> []" "ValidString ''logic-7''"
    by code_simp+
  then show ?thesis by (simp add: well_formed_request_def w_request_def)
qed

lemma reachable_states_witness:
  "node_id (stored_node 0 w_request) = 7 \<and> (7 :: u32) \<noteq> 0 \<and> State (stored_node 0 w_request) \<in>
     {NodeStateRegistered, NodeStateActive, NodeStateSuspect, NodeStateDead}"
proof -
  have "snd (Memory_Service_Register 0 (Some w_request) NewMemory) 7 = Some (stored_node 0 w_request)"
    using register_self [OF reg_wf_NewMemory w_request_ok, of 0] by (simp add: w_request_def)
  moreover have "life_run w_cfg NewMemory [EvRegister 0 (Some w_request)]
      (snd (Memory_Service_Register 0 (Some w_request) NewMemory))"
    by (simp add: life_step.register)
  ultimately show ?thesis using reachable_states by blast
qed

end
