(* ===== verification/RouterModel.thy ===== *)
theory RouterModel imports Registry "HOL-Library.Product_Lexorder" "HOL-Library.Multiset" begin

text \<open>
  \<open>internal/router\<close>: the choice of the Logic node that gets a DATA envelope.  The router filters
  and sorts the candidates and hands them to a strategy; the strategy is an argument, a function
  from candidates, key and strategy state to a result and the next state.  \<open>RoundRobin\<close> keeps a
  64-bit counter, \<open>ConsistentHash\<close> a ring of virtual nodes cached under a fingerprint of the
  candidates' ids.  The locale \<open>strategy\<close> is the contract of the Go interface \<open>Strategy\<close>.
\<close>

section \<open>The router (\<open>router.go\<close>)\<close>

text \<open>\<open>MessageType.String\<close>.\<close>

fun message_type_text :: "message_type \<Rightarrow> string" where
  "message_type_text MESSAGE_TYPE_UNKNOWN = ''MESSAGE_TYPE_UNKNOWN''"
| "message_type_text MESSAGE_TYPE_REGISTER_REQUEST = ''MESSAGE_TYPE_REGISTER_REQUEST''"
| "message_type_text MESSAGE_TYPE_REGISTER_RESPONSE = ''MESSAGE_TYPE_REGISTER_RESPONSE''"
| "message_type_text MESSAGE_TYPE_HEARTBEAT_REQUEST = ''MESSAGE_TYPE_HEARTBEAT_REQUEST''"
| "message_type_text MESSAGE_TYPE_HEARTBEAT_RESPONSE = ''MESSAGE_TYPE_HEARTBEAT_RESPONSE''"
| "message_type_text MESSAGE_TYPE_DATA_REQUEST = ''MESSAGE_TYPE_DATA_REQUEST''"
| "message_type_text MESSAGE_TYPE_DATA_RESPONSE = ''MESSAGE_TYPE_DATA_RESPONSE''"
| "message_type_text MESSAGE_TYPE_ERROR = ''MESSAGE_TYPE_ERROR''"
| "message_type_text (MESSAGE_TYPE_OTHER n) = (if n < 0 then ''-'' else []) @ fmt_nat (nat \<bar>n\<bar>)"

definition requestedMessageID :: "envelope \<Rightarrow> u32 res" where
  "requestedMessageID env =
     (case env_type env of
        MESSAGE_TYPE_DATA_REQUEST \<Rightarrow>
          (case GetDataRequest env of
             None \<Rightarrow> Inl (errorf (Router ErrUnsupportedMessageType) [Lit ''missing data_request''])
           | Some b \<Rightarrow> Inr (dr_message_id b))
      | MESSAGE_TYPE_DATA_RESPONSE \<Rightarrow>
          (case GetDataResponse env of
             None \<Rightarrow> Inl (errorf (Router ErrUnsupportedMessageType) [Lit ''missing data_response''])
           | Some b \<Rightarrow> Inr (dp_message_id b))
      | t \<Rightarrow> Inl (errorf (Router ErrUnsupportedMessageType) [Lit (message_type_text t)]))"

definition routingKey :: "envelope \<Rightarrow> string" where
  "routingKey env =
     (let by_tx = (if env_transaction_id env \<noteq> 0 then FormatUint (env_transaction_id env) else [])
      in case GetDataRequest env of
           Some dr \<Rightarrow> if dr_session_id dr \<noteq> [] then dr_session_id dr else by_tx
         | None \<Rightarrow> by_tx)"

definition supports :: "node \<Rightarrow> u32 \<Rightarrow> bool" where
  "supports n msgID \<longleftrightarrow>
     list_ex (\<lambda>svc. list_ex (\<lambda>t. t = msgID) (svc_message_types svc)) (Services n)"

definition eligible :: "node list \<Rightarrow> u32 \<Rightarrow> node list" where
  "eligible nodes msgID =
     filter (\<lambda>n. State n = NodeStateActive \<and> Type n = TypeLogic \<and> supports n msgID) nodes"

type_synonym 'st select = "node list \<Rightarrow> string \<Rightarrow> 'st \<Rightarrow> node res \<times> 'st"

text \<open>
  The candidates \<open>RouteExcluding\<close> passes to the strategy.  An excluded id 0 is ignored; sorting by
  id is \<open>sort.Slice\<close>, whose result is unique because ids in a registry are distinct.
\<close>

definition route_candidates :: "node list \<Rightarrow> u32 \<Rightarrow> u32 list \<Rightarrow> node list" where
  "route_candidates nodes msgID excludeNodeIDs =
     (let exclude = filter (\<lambda>i. i \<noteq> 0) excludeNodeIDs
      in sort_key node_id (filter (\<lambda>n. node_id n \<notin> set exclude) (eligible nodes msgID)))"

text \<open>\<open>ctx\<close> is \<open>ctx.Err()\<close>; \<open>nodes\<close> is what \<open>source.List()\<close> returns.\<close>

definition RouteExcluding ::
  "'st select \<Rightarrow> node list \<Rightarrow> ctx_err option \<Rightarrow> envelope option \<Rightarrow> u32 list \<Rightarrow> 'st \<Rightarrow> node res \<times> 'st" where
  "RouteExcluding select nodes ctx env excludeNodeIDs st =
     (case ctx of
        Some err \<Rightarrow> (Inl (Sentinel (Context err)), st)
      | None \<Rightarrow>
         (case env of
            None \<Rightarrow> (Inl (errorf (Router ErrUnsupportedMessageType) [Lit ''nil envelope'']), st)
          | Some e \<Rightarrow>
             (case requestedMessageID e of
                Inl err \<Rightarrow> (Inl err, st)
              | Inr msgID \<Rightarrow>
                 (let candidates = route_candidates nodes msgID excludeNodeIDs in
                  if candidates = [] then (Inl (Sentinel (Router ErrNoEligibleNode)), st)
                  else select candidates (routingKey e) st))))"

definition Route ::
  "'st select \<Rightarrow> node list \<Rightarrow> ctx_err option \<Rightarrow> envelope option \<Rightarrow> 'st \<Rightarrow> node res \<times> 'st" where
  "Route select nodes ctx env st = RouteExcluding select nodes ctx env [] st"

lemma set_route_candidates:
  "set (route_candidates nodes msgID excl) =
     {n \<in> set nodes. State n = NodeStateActive \<and> Type n = TypeLogic \<and> supports n msgID \<and>
                     (node_id n = 0 \<or> node_id n \<notin> set excl)}"
  by (auto simp: route_candidates_def eligible_def)

lemma route_candidates_perm:
  assumes "set ns = set ns'" "distinct (map node_id ns)" "distinct (map node_id ns')"
  shows "route_candidates ns msgID excl = route_candidates ns' msgID excl"
  unfolding route_candidates_def Let_def
  by (rule sorted_key_unique) (use assms in \<open>auto simp: eligible_def distinct_map_filter\<close>)

lemma route_candidates_distinct:
  "distinct (map node_id ns) \<Longrightarrow> distinct (map node_id (route_candidates ns msgID excl))"
proof -
  assume "distinct (map node_id ns)"
  then have "distinct (map node_id (filter (\<lambda>n. node_id n \<notin> set (filter (\<lambda>i. i \<noteq> 0) excl)) (eligible ns msgID)))"
    by (simp add: eligible_def distinct_map_filter)
  then show ?thesis
    by (simp add: route_candidates_def Let_def distinct_map)
qed

section \<open>The strategy interface (\<open>strategy.go\<close>)\<close>

text \<open>
  The contract of a strategy: on candidates its state \<open>st\<close> is coherent with, it picks a candidate
  when the key is not empty, and it reports the absence of candidates.
\<close>

locale strategy =
  fixes select :: "'st select" and coherent :: "'st \<Rightarrow> node list \<Rightarrow> bool"
  assumes select_empty: "select [] key st = (Inl (Sentinel (Router ErrEmptyCandidates)), st)"
    and select_member:
      "nodes \<noteq> [] \<Longrightarrow> key \<noteq> [] \<Longrightarrow> coherent st nodes \<Longrightarrow> \<exists>n \<in> set nodes. fst (select nodes key st) = Inr n"
    and select_sound: "coherent st nodes \<Longrightarrow> fst (select nodes key st) = Inr n \<Longrightarrow> n \<in> set nodes"
begin

lemma route_sound:
  assumes "fst (RouteExcluding select nodes ctx (Some e) excl st) = Inr n"
    and "\<And>msgID. requestedMessageID e = Inr msgID \<Longrightarrow> coherent st (route_candidates nodes msgID excl)"
  shows "ctx = None \<and> (\<exists>msgID. requestedMessageID e = Inr msgID \<and> supports n msgID) \<and> n \<in> set nodes \<and>
         State n = NodeStateActive \<and> Type n = TypeLogic \<and> (node_id n = 0 \<or> node_id n \<notin> set excl)"
proof -
  obtain msgID where m: "ctx = None" "requestedMessageID e = Inr msgID"
      "fst (select (route_candidates nodes msgID excl) (routingKey e) st) = Inr n"
    using assms(1) by (auto simp: RouteExcluding_def Let_def split: option.splits sum.splits if_splits)
  from select_sound [OF assms(2) [OF m(2)] m(3)] m show ?thesis
    by (auto simp: set_route_candidates)
qed

lemma route_complete:
  assumes "requestedMessageID e = Inr msgID" "routingKey e \<noteq> []"
    and "coherent st (route_candidates nodes msgID excl)"
    and "n \<in> set nodes" "State n = NodeStateActive" "Type n = TypeLogic" "supports n msgID"
      "node_id n \<notin> set excl"
  shows "\<exists>n'. fst (RouteExcluding select nodes None (Some e) excl st) = Inr n'"
proof -
  have "n \<in> set (route_candidates nodes msgID excl)"
    using assms(4-8) by (simp add: set_route_candidates)
  then have "route_candidates nodes msgID excl \<noteq> []" by auto
  with select_member [OF this assms(2,3)] assms(1) show ?thesis
    by (auto simp: RouteExcluding_def Let_def)
qed

end

section \<open>Round robin (\<open>round_robin.go\<close>)\<close>

text \<open>
  The state is the atomic counter.  \<open>i % uint64(len(nodes))\<close> is computed on numbers; a slice is
  shorter than \<open>2 ^ 63\<close>, so the conversion of its length is exact.
\<close>

definition RoundRobin_Select :: "u64 select" where
  "RoundRobin_Select nodes key n =
     (if nodes = [] then (Inl (Sentinel (Router ErrEmptyCandidates)), n)
      else let n' = n + 1; i = n' - 1 in (Inr (nodes ! (unat i mod length nodes)), n'))"

interpretation round_robin: strategy RoundRobin_Select "\<lambda>_ _. True"
proof unfold_locales
  show "fst (RoundRobin_Select nodes key st) = Inr n \<Longrightarrow> n \<in> set nodes" for nodes key st n
    by (auto simp: RoundRobin_Select_def Let_def split: if_splits)
  show "nodes \<noteq> [] \<Longrightarrow> \<exists>n \<in> set nodes. fst (RoundRobin_Select nodes key st) = Inr n" for nodes key st
    by (auto simp: RoundRobin_Select_def Let_def)
qed (simp add: RoundRobin_Select_def)

text \<open>\<open>j\<close> consecutive selections among the same candidates.\<close>

fun rr_run :: "node list \<Rightarrow> nat \<Rightarrow> u64 \<Rightarrow> node res list \<times> u64" where
  "rr_run nodes 0 c = ([], c)"
| "rr_run nodes (Suc j) c =
     (let (r, c') = RoundRobin_Select nodes [] c; (rs, c'') = rr_run nodes j c' in (r # rs, c''))"

lemma rr_run_nth:
  assumes "nodes \<noteq> []" "unat c + j \<le> 2 ^ 64"
  shows "fst (rr_run nodes j c) = map (\<lambda>i. Inr (nodes ! ((unat c + i) mod length nodes))) [0..<j]"
  using assms(2)
proof (induction j arbitrary: c)
  case (Suc j)
  have step: "unat (c + 1) = Suc (unat c)" if "j \<noteq> 0"
  proof -
    have "unat c + 1 < 2 ^ 64" using Suc.prems that by linarith
    then show ?thesis by (simp add: unat_word_ariths)
  qed
  have "fst (rr_run nodes j (c + 1)) =
      map (\<lambda>i. Inr (nodes ! ((unat c + Suc i) mod length nodes))) [0..<j]"
  proof (cases "j = 0")
    case False
    with Suc.IH [of "c + 1"] step Suc.prems show ?thesis by simp
  qed simp
  then show ?case
    using assms(1) by (simp add: RoundRobin_Select_def Let_def case_prod_beta upt_conv_Cons map_Suc_upt [symmetric] del: upt_Suc)
qed simp

lemma rr_period:
  "nodes \<noteq> [] \<Longrightarrow> map (\<lambda>i. nodes ! ((c + i) mod length nodes)) [0..<length nodes] = rotate c nodes"
  by (rule nth_equalityI) (simp_all add: nth_rotate)

lemma count_rotate: "count_list (rotate c xs) x = count_list xs x"
  by (simp add: rotate_drop_take) (metis add.commute append_take_drop_id count_list_append)

lemma rr_count:
  assumes "nodes \<noteq> []"
  shows "count_list (map (\<lambda>i. nodes ! ((c + i) mod length nodes)) [0..<k * length nodes]) x =
         k * count_list nodes x"
proof (induction k)
  case (Suc k)
  let ?f = "\<lambda>i. nodes ! ((c + i) mod length nodes)"
  have "[0..<Suc k * length nodes] =
      [0..<k * length nodes] @ map (\<lambda>i. i + k * length nodes) [0..<length nodes]"
    using upt_add_eq_append [of 0 "k * length nodes" "length nodes"]
    by (simp add: map_add_upt add.commute)
  moreover have "map ?f (map (\<lambda>i. i + k * length nodes) [0..<length nodes]) = map ?f [0..<length nodes]"
    by (simp add: comp_def add.assoc [symmetric])
  ultimately show ?case
    using Suc rr_period [OF assms, of c] by (simp add: count_rotate)
qed simp

lemma distinct_count: "distinct xs \<Longrightarrow> x \<in> set xs \<Longrightarrow> count_list xs x = 1"
  by (induction xs) (auto simp: count_notin)

lemma count_map_Inr: "count_list (map (\<lambda>i. Inr (f i)) is) (Inr x) = count_list (map f is) x"
  by (induction "is") auto

section \<open>Consistent hashing (\<open>consistent_hash.go\<close>)\<close>

record vnode =
  vn_hash :: u64
  vn_node :: node

record hash_state =
  cachedFP :: u64
  ring :: "vnode list option"

definition DefaultVirtualNodes :: nat where "DefaultVirtualNodes = 64"

definition NewConsistentHash :: "int \<Rightarrow> nat \<times> hash_state" where
  "NewConsistentHash virtualNodes =
     (if virtualNodes \<le> 0 then DefaultVirtualNodes else nat virtualNodes, \<lparr>cachedFP = 0, ring = None\<rparr>)"

definition hashString :: "string \<Rightarrow> u64" where
  "hashString s = fnv1a (string_bytes s)"

definition id_bytes :: "u32 \<Rightarrow> bytes" where
  "id_bytes nodeID = (let i = ucast nodeID :: u64 in map (\<lambda>k. ucast (drop_bit (8 * k) i)) [0..<8])"

definition nodesFingerprint :: "node list \<Rightarrow> u64" where
  "nodesFingerprint nodes = fnv1a (concat (map (\<lambda>n. id_bytes (node_id n)) nodes))"

definition node_vnodes :: "nat \<Rightarrow> node \<Rightarrow> vnode list" where
  "node_vnodes virtualNodes n =
     map (\<lambda>v. \<lparr>vn_hash = hashString (fmt_nat (unat (node_id n)) @ ''#'' @ fmt_nat v), vn_node = n\<rparr>)
       [0..<virtualNodes]"

definition vn_key :: "vnode \<Rightarrow> u64 \<times> u32" where
  "vn_key v = (vn_hash v, node_id (vn_node v))"

definition buildRing :: "nat \<Rightarrow> node list \<Rightarrow> vnode list" where
  "buildRing virtualNodes nodes = sort_key vn_key (concat (map (node_vnodes virtualNodes) nodes))"

definition ring_pick :: "vnode list \<Rightarrow> u64 \<Rightarrow> node" where
  "ring_pick r h =
     (let i = sort_Search (length r) (\<lambda>i. vn_hash (r ! i) \<ge> h);
          i = (if i = length r then 0 else i)
      in vn_node (r ! i))"

definition ConsistentHash_Select :: "nat \<Rightarrow> hash_state select" where
  "ConsistentHash_Select virtualNodes nodes key c =
     (if nodes = [] then (Inl (Sentinel (Router ErrEmptyCandidates)), c)
      else if key = [] then (Inl (Sentinel (Router ErrInvalidRoutingKey)), c)
      else let fp = nodesFingerprint nodes;
               c = (if ring c = None \<or> fp \<noteq> cachedFP c
                    then \<lparr>cachedFP = fp, ring = Some (buildRing virtualNodes nodes)\<rparr> else c)
           in (Inr (ring_pick (the (ring c)) (hashString key)), c))"

text \<open>
  A ring pick in declarative terms: the first virtual node at or after the key, or, past the last
  one, the first of the ring.
\<close>

definition ring_successor :: "vnode list \<Rightarrow> u64 \<Rightarrow> node" where
  "ring_successor r h =
     (case find (\<lambda>v. h \<le> vn_hash v) r of Some v \<Rightarrow> vn_node v | None \<Rightarrow> vn_node (hd r))"

definition sorted_ring :: "vnode list \<Rightarrow> bool" where
  "sorted_ring r \<longleftrightarrow> sorted (map vn_hash r)"

lemma buildRing_sorted: "sorted_ring (buildRing v nodes)"
proof -
  have "sorted (map vn_key (buildRing v nodes))" by (simp add: buildRing_def)
  then show ?thesis
    by (auto simp: sorted_ring_def sorted_iff_nth_mono vn_key_def less_eq_prod_def)
       (metis less_le)
qed

lemma set_buildRing:
  "vn_node ` set (buildRing v nodes) = (if v = 0 then {} else set nodes)"
  by (auto simp: buildRing_def node_vnodes_def image_iff)

lemma buildRing_nonempty: "v > 0 \<Longrightarrow> nodes \<noteq> [] \<Longrightarrow> buildRing v nodes \<noteq> []"
  using set_buildRing [of v nodes] by (auto split: if_splits)

lemma ring_pick_successor:
  assumes "sorted_ring r" "r \<noteq> []"
  shows "ring_pick r h = ring_successor r h"
proof -
  let ?f = "\<lambda>i. vn_hash (r ! i) \<ge> h"
  let ?i = "sort_Search (length r) ?f"
  have mono: "\<And>a b. a \<le> b \<Longrightarrow> b < length r \<Longrightarrow> ?f a \<Longrightarrow> ?f b"
    using assms(1) by (auto simp: sorted_ring_def sorted_iff_nth_mono intro: order_trans)
  have first: "?i \<le> length r" "\<And>k. k < ?i \<Longrightarrow> \<not> ?f k" "?i < length r \<Longrightarrow> ?f ?i"
    using sort_Search_first [of "length r" ?f] mono by blast+
  show ?thesis
  proof (cases "?i = length r")
    case True
    then have "find (\<lambda>v. h \<le> vn_hash v) r = None"
      using first(2) by (auto simp: find_None_iff in_set_conv_nth)
    with True assms(2) show ?thesis
      by (simp add: ring_pick_def ring_successor_def Let_def hd_conv_nth)
  next
    case False
    then have lt: "?i < length r" using first(1) by simp
    then have "find (\<lambda>v. h \<le> vn_hash v) r = Some (r ! ?i)"
      using first(2,3) by (auto simp: find_Some_iff intro!: exI [of _ ?i])
    with lt show ?thesis by (simp add: ring_pick_def ring_successor_def Let_def)
  qed
qed

lemma ring_successor_mem: "r \<noteq> [] \<Longrightarrow> ring_successor r h \<in> vn_node ` set r"
  by (auto simp: ring_successor_def find_Some_iff split: option.split)

text \<open>The cache is coherent with the candidates when it is empty, or theirs, or another's fingerprint.\<close>

definition ring_coherent :: "nat \<Rightarrow> hash_state \<Rightarrow> node list \<Rightarrow> bool" where
  "ring_coherent v c nodes \<longleftrightarrow>
     ring c = None \<or> cachedFP c \<noteq> nodesFingerprint nodes \<or> ring c = Some (buildRing v nodes)"

lemma Select_coherent:
  assumes "ring_coherent v c nodes" "v > 0" "nodes \<noteq> []" "key \<noteq> []"
  shows "ConsistentHash_Select v nodes key c =
    (Inr (ring_successor (buildRing v nodes) (hashString key)),
     \<lparr>cachedFP = nodesFingerprint nodes, ring = Some (buildRing v nodes)\<rparr>)"
  using assms
  by (cases c) (auto simp: ConsistentHash_Select_def ring_coherent_def Let_def
      ring_pick_successor buildRing_sorted buildRing_nonempty)

interpretation consistent_hash: strategy "ConsistentHash_Select (Suc v)" "ring_coherent (Suc v)" for v
proof unfold_locales
  show "\<exists>n \<in> set nodes. fst (ConsistentHash_Select (Suc v) nodes key st) = Inr n"
    if "nodes \<noteq> []" "key \<noteq> []" "ring_coherent (Suc v) st nodes" for nodes key st
    using that Select_coherent [OF that(3) _ that(1,2)] set_buildRing [of "Suc v" nodes]
      ring_successor_mem [OF buildRing_nonempty [of "Suc v" nodes], of "hashString key"]
    by auto
  show "n \<in> set nodes"
    if "ring_coherent (Suc v) st nodes" "fst (ConsistentHash_Select (Suc v) nodes key st) = Inr n"
    for nodes key st n
  proof (cases "nodes = [] \<or> key = []")
    case True
    with that(2) show ?thesis by (auto simp: ConsistentHash_Select_def split: if_splits)
  next
    case False
    then show ?thesis
      using that Select_coherent [OF that(1), of key] set_buildRing [of "Suc v" nodes]
        ring_successor_mem [OF buildRing_nonempty [of "Suc v" nodes], of "hashString key"]
      by auto
  qed
qed (simp add: ConsistentHash_Select_def)





section \<open>The cached ring over a history of selections\<close>

text \<open>
  The strategy object is used by all requests.  \<open>select_all v hist c\<close> is its state after the
  selections \<open>hist\<close>, each with its candidates and key; the mutex makes a selection's use of the cache
  atomic.  \<open>fp_separates hist cs\<close>: no selection of the history had candidates with other ids but the
  same 64-bit fingerprint as \<open>cs\<close>.
\<close>

fun select_all :: "nat \<Rightarrow> (node list \<times> string) list \<Rightarrow> hash_state \<Rightarrow> hash_state" where
  "select_all v [] c = c"
| "select_all v ((ns, key) # hist) c = select_all v hist (snd (ConsistentHash_Select v ns key c))"

definition fp_separates :: "(node list \<times> string) list \<Rightarrow> node list \<Rightarrow> bool" where
  "fp_separates hist cs \<longleftrightarrow>
     (\<forall>(ns, key) \<in> set hist. nodesFingerprint ns = nodesFingerprint cs \<longrightarrow> map node_id ns = map node_id cs)"

definition ring_from :: "nat \<Rightarrow> (node list \<times> string) list \<Rightarrow> hash_state \<Rightarrow> bool" where
  "ring_from v hist c \<longleftrightarrow> ring c = None \<or>
     (\<exists>ns key. (ns, key) \<in> set hist \<and> ns \<noteq> [] \<and> ring c = Some (buildRing v ns) \<and> cachedFP c = nodesFingerprint ns)"

lemma ring_from_select:
  "ring_from v hist c \<Longrightarrow> (ns, key) \<in> set hist \<Longrightarrow> ring_from v hist (snd (ConsistentHash_Select v ns key c))"
  by (auto simp: ring_from_def ConsistentHash_Select_def Let_def)

lemma ring_from_all: "ring_from v hist0 c \<Longrightarrow> set hist \<subseteq> set hist0 \<Longrightarrow> ring_from v hist0 (select_all v hist c)"
  by (induction v hist c rule: select_all.induct) (auto intro: ring_from_select)

lemma ring_from_new: "ring_from v hist (select_all v hist (snd (NewConsistentHash vn)))"
  by (rule ring_from_all) (simp_all add: ring_from_def NewConsistentHash_def)

lemma NewConsistentHash_pos: "fst (NewConsistentHash vn) > 0"
  by (simp add: NewConsistentHash_def DefaultVirtualNodes_def)

text \<open>Two candidate lists with the same ids have rings with the same ids.\<close>

lemma map_sort_key: "map f (sort_key f xs) = sort (map f xs)"
  by (rule sym, rule properties_for_sort) simp_all

lemma ring_keys:
  assumes "map node_id ns = map node_id cs"
  shows "map vn_key (buildRing v ns) = map vn_key (buildRing v cs)"
proof -
  have "map vn_key (concat (map (node_vnodes v) ns)) =
      concat (map (\<lambda>i. map (\<lambda>k. (hashString (fmt_nat (unat i) @ ''#'' @ fmt_nat k), i)) [0..<v]) (map node_id ns))" for ns
    by (simp add: map_concat node_vnodes_def vn_key_def comp_def)
  then show ?thesis by (simp only: buildRing_def map_sort_key assms)
qed

lemma find_key: "map_option vn_key (find (\<lambda>v. h \<le> vn_hash v) r) = find (\<lambda>k. h \<le> fst k) (map vn_key r)"
  by (induction r) (simp_all add: vn_key_def)

lemma ring_successor_key:
  assumes "r \<noteq> []"
  shows "node_id (ring_successor r h) =
    snd (case find (\<lambda>k. h \<le> fst k) (map vn_key r) of Some k \<Rightarrow> k | None \<Rightarrow> hd (map vn_key r))"
  unfolding find_key [symmetric] using assms
  by (cases "find (\<lambda>v. h \<le> vn_hash v) r") (auto simp: ring_successor_def hd_map vn_key_def)

lemma ring_successor_ids:
  assumes "map node_id ns = map node_id cs" "ns \<noteq> []" "v > 0"
  shows "node_id (ring_successor (buildRing v ns) h) = node_id (ring_successor (buildRing v cs) h)"
proof -
  have "cs \<noteq> []" using assms(1,2) by auto
  then show ?thesis
    by (simp only: ring_successor_key [OF buildRing_nonempty [OF assms(3)]] assms(2) ring_keys [OF assms(1)]
        not_False_eq_True)
qed

text \<open>A selection after a history answers from a ring of nodes with the candidates' ids.\<close>

lemma Select_history:
  assumes "ring_from v hist c" "fp_separates hist cs" "v > 0" "cs \<noteq> []" "key \<noteq> []"
    and "ConsistentHash_Select v cs key c = (r, c')"
  shows "\<exists>ns. ns \<noteq> [] \<and> map node_id ns = map node_id cs \<and> (ns = cs \<or> (\<exists>k. (ns, k) \<in> set hist)) \<and>
    r = Inr (ring_successor (buildRing v ns) (hashString key))"
proof (cases "ring_coherent v c cs")
  case True
  then show ?thesis using Select_coherent [OF True assms(3-5)] assms(4,6) by auto
next
  case False
  then obtain ns k where ns: "(ns, k) \<in> set hist" "ns \<noteq> []" "ring c = Some (buildRing v ns)"
      "nodesFingerprint ns = nodesFingerprint cs" "cachedFP c = nodesFingerprint cs"
    using assms(1) by (auto simp: ring_coherent_def ring_from_def)
  have "map node_id ns = map node_id cs" using assms(2) ns(1,4) by (auto simp: fp_separates_def)
  moreover have "r = Inr (ring_successor (buildRing v ns) (hashString key))"
    using assms(4-6) ns ring_pick_successor [OF buildRing_sorted buildRing_nonempty [OF assms(3) ns(2)]]
    by (auto simp: ConsistentHash_Select_def Let_def)
  ultimately show ?thesis using ns(1,2) by blast
qed

lemma Select_history_id:
  assumes "ring_from v hist c" "fp_separates hist cs" "v > 0" "key \<noteq> []"
    and "ConsistentHash_Select v cs key c = (Inr n, c')"
  shows "cs \<noteq> [] \<and> node_id n = node_id (ring_successor (buildRing v cs) (hashString key)) \<and>
    ring_successor (buildRing v cs) (hashString key) \<in> set cs \<and>
    (n \<in> set cs \<or> (\<exists>(ns, k) \<in> set hist. n \<in> set ns \<and> map node_id ns = map node_id cs))"
proof -
  have ne: "cs \<noteq> []" using assms(5) by (auto simp: ConsistentHash_Select_def)
  from Select_history [OF assms(1-3) ne assms(4,5)] obtain ns where ns: "ns \<noteq> []"
    "map node_id ns = map node_id cs" "ns = cs \<or> (\<exists>k. (ns, k) \<in> set hist)"
    "n = ring_successor (buildRing v ns) (hashString key)" by auto
  have mem: "ring_successor (buildRing v xs) (hashString key) \<in> set xs" if "xs \<noteq> []" for xs
    using ring_successor_mem [OF buildRing_nonempty [OF assms(3) that]] set_buildRing [of v xs] assms(3) by auto
  show ?thesis
    using mem [OF ne] mem [OF ns(1)] ns ne ring_successor_ids [OF ns(2,1) assms(3)] by auto
qed

section \<open>What routing guarantees\<close>

text \<open>
  Whatever the strategy's choice, a node round-robin routing returns is one the registry
  listed, is an ACTIVE Logic node that offers the requested message id, and is not excluded; it is
  the node at the position of the counter in the id-sorted candidates.
\<close>

theorem round_robin_route:
  assumes "RouteExcluding RoundRobin_Select nodes ctx (Some e) excl c = (Inr n, c')"
  shows "ctx = None \<and> (\<exists>msgID. requestedMessageID e = Inr msgID \<and> supports n msgID) \<and>
         n \<in> set nodes \<and> State n = NodeStateActive \<and> Type n = TypeLogic \<and>
         (node_id n = 0 \<or> node_id n \<notin> set excl) \<and> c' = c + 1"
  using round_robin.route_sound [of nodes ctx e excl c n] assms
  by (auto simp: RouteExcluding_def RoundRobin_Select_def Let_def split: option.splits sum.splits if_splits)

text \<open>Whatever the ring's history, the chosen id is the one of an eligible candidate.\<close>

lemma ch_route_id:
  assumes "RouteExcluding (ConsistentHash_Select (fst (NewConsistentHash vn))) nodes ctx (Some e) excl
      (select_all (fst (NewConsistentHash vn)) hist (snd (NewConsistentHash vn))) = (Inr n, c')"
    and "\<And>msgID. requestedMessageID e = Inr msgID \<Longrightarrow> fp_separates hist (route_candidates nodes msgID excl)"
  shows "\<exists>n0 \<in> set nodes. State n0 = NodeStateActive \<and> node_id n = node_id n0 \<and>
    (node_id n0 = 0 \<or> node_id n0 \<notin> set excl)"
proof -
  let ?v = "fst (NewConsistentHash vn)"
  obtain msgID where m: "requestedMessageID e = Inr msgID" and
    sel: "ConsistentHash_Select ?v (route_candidates nodes msgID excl) (routingKey e)
      (select_all ?v hist (snd (NewConsistentHash vn))) = (Inr n, c')"
    using assms(1) by (auto simp: RouteExcluding_def Let_def split: option.splits sum.splits if_splits)
  then have "routingKey e \<noteq> []" by (auto simp: ConsistentHash_Select_def split: if_splits)
  note id = Select_history_id [OF ring_from_new assms(2) [OF m] NewConsistentHash_pos this sel]
  then show ?thesis using set_route_candidates [of nodes msgID excl] by blast
qed

text \<open>
  C14: Consistent-hash routing after any history of selections with the same strategy object, as
  long as no earlier candidate set with other ids has the same 64-bit fingerprint: the node it
  returns has the id of the first virtual node at or after the hash of the session id (of the
  transaction id without one), wrapping around, on the ring of the current candidates; under that
  id the registry lists an ACTIVE Logic node that offers the message id and is not excluded.  The
  record returned is a current candidate or, the ring being cached by ids, one of an earlier
  selection with the same ids.
\<close>

theorem consistent_hash_route:
  fixes vn :: int and hist :: "(node list \<times> string) list"
  defines "v \<equiv> fst (NewConsistentHash vn)"
  assumes "requestedMessageID e = Inr msgID" "routingKey e \<noteq> []"
    and "fp_separates hist (route_candidates nodes msgID excl)"
    and "RouteExcluding (ConsistentHash_Select v) nodes ctx (Some e) excl
           (select_all v hist (snd (NewConsistentHash vn))) = (Inr n, c')"
    and "n0 = ring_successor (buildRing v (route_candidates nodes msgID excl)) (hashString (routingKey e))"
  shows "ctx = None \<and> node_id n = node_id n0 \<and> n0 \<in> set nodes \<and> State n0 = NodeStateActive \<and>
         Type n0 = TypeLogic \<and> supports n0 msgID \<and> (node_id n0 = 0 \<or> node_id n0 \<notin> set excl) \<and>
         (n \<in> set nodes \<or> (\<exists>(ns, k) \<in> set hist. n \<in> set ns \<and>
            map node_id ns = map node_id (route_candidates nodes msgID excl)))"
proof -
  let ?cs = "route_candidates nodes msgID excl" and ?c = "select_all v hist (snd (NewConsistentHash vn))"
  have v: "v > 0" by (simp add: v_def NewConsistentHash_pos)
  have "ctx = None" "ConsistentHash_Select v ?cs (routingKey e) ?c = (Inr n, c')"
    using assms(2,5) by (auto simp: RouteExcluding_def Let_def split: option.splits if_splits)
  moreover note Select_history_id [OF ring_from_new assms(4) v assms(3) this(2)]
  ultimately show ?thesis using assms(6) set_route_candidates [of nodes msgID excl] by auto
qed

text \<open>
  Routing is complete: when the registry holds an ACTIVE Logic node that offers the message id
  and is not excluded, a live context and an envelope with a session or a transaction id get a
  node, from the round-robin strategy and from a coherent hash ring alike.
\<close>

theorem route_finds_node:
  assumes "requestedMessageID e = Inr msgID" "routingKey e \<noteq> []"
    and "n \<in> set nodes" "State n = NodeStateActive" "Type n = TypeLogic" "supports n msgID"
      "node_id n \<notin> set excl"
    and "ring_coherent (Suc v) c (route_candidates nodes msgID excl)"
  shows "(\<exists>n1. fst (RouteExcluding RoundRobin_Select nodes None (Some e) excl k) = Inr n1) \<and>
         (\<exists>n2. fst (RouteExcluding (ConsistentHash_Select (Suc v)) nodes None (Some e) excl c) = Inr n2)"
  using round_robin.route_complete [OF assms(1,2) _ assms(3-7)]
    consistent_hash.route_complete [OF assms(1,2,8) assms(3-7)] by simp

text \<open>
  Routing does not depend on the order in which Go iterates the registry's map: two listings
  of one well-formed registry route every envelope alike, for any strategy.
\<close>

theorem route_order_independent:
  assumes "reg_wf m" "is_order m o1" "is_order m o2"
  shows "RouteExcluding select (Memory_List o1 m) ctx env excl st =
         RouteExcluding select (Memory_List o2 m) ctx env excl st"
proof -
  have same: "route_candidates (Memory_List o1 m) msgID excl = route_candidates (Memory_List o2 m) msgID excl"
    for msgID
    by (rule route_candidates_perm) (use assms in \<open>simp_all add: List_set List_distinct_ids\<close>)
  show ?thesis by (simp only: RouteExcluding_def same)
qed

text \<open>
  Round robin is fair: while the 64-bit counter does not wrap, \<open>k\<close> rounds over the same
  candidates select every candidate exactly \<open>k\<close> times.
\<close>

theorem round_robin_fair:
  assumes "distinct nodes" "n \<in> set nodes" "unat c + k * length nodes \<le> 2 ^ 64"
  shows "count_list (fst (rr_run nodes (k * length nodes) c)) (Inr n) = k"
proof -
  have ne: "nodes \<noteq> []" using assms(2) by auto
  show ?thesis
    using rr_count [OF ne, of "unat c" k n] assms
    by (simp add: rr_run_nth [OF ne assms(3)] count_map_Inr distinct_count)
qed


text \<open>
  C19: The ring cache is keyed by node ids only: after a selection among \<open>nodes\<close>, a selection
  among nodes with the same ids but other attributes (a node that registered again at another
  address) still returns a node of the old list.
\<close>

theorem stale_ring:
  assumes "v > 0" "nodes \<noteq> []" "key \<noteq> []" "key' \<noteq> []" "ring_coherent v c nodes"
    and "map node_id nodes' = map node_id nodes"
    and "fst (ConsistentHash_Select v nodes' key' (snd (ConsistentHash_Select v nodes key c))) = Inr n"
  shows "n \<in> set nodes"
proof -
  let ?r = "buildRing v nodes"
  have ring: "snd (ConsistentHash_Select v nodes key c) =
      \<lparr>cachedFP = nodesFingerprint nodes, ring = Some ?r\<rparr>"
    using Select_coherent [OF assms(5,1,2,3)] by simp
  have "nodesFingerprint nodes' = nodesFingerprint nodes"
  proof -
    have "map (\<lambda>n. id_bytes (node_id n)) nodes' = map (\<lambda>n. id_bytes (node_id n)) nodes"
      using arg_cong [OF assms(6), of "map id_bytes"] by (simp add: comp_def)
    then show ?thesis by (simp add: nodesFingerprint_def)
  qed
  moreover have "nodes' \<noteq> []" using assms(2,6) by auto
  ultimately have "n = ring_successor ?r (hashString key')"
    using assms(4,7) unfolding ring
    by (simp add: ConsistentHash_Select_def Let_def
        ring_pick_successor [OF buildRing_sorted buildRing_nonempty [OF assms(1,2)]])
  then show ?thesis
    using ring_successor_mem [OF buildRing_nonempty [OF assms(1,2)], of "hashString key'"]
      set_buildRing [of v nodes] assms(1) by auto
qed

section \<open>Concrete routing\<close>

definition w_backend :: "u32 \<Rightarrow> string \<Rightarrow> node" where
  "w_backend i addr = \<lparr>node_id = i, InstanceID = ''logic'', Name = ''logic'', Type = TypeLogic,
     Group = [], Address = addr, UDPPort = 9000, HTTPPort = 0,
     Services = [\<lparr>svc_id = 1, svc_name = ''echo'', svc_message_types = [42]\<rparr>],
     State = NodeStateActive, LastHeartbeatAt = 0, Load = 0, ActiveTransaction = 0,
     Resource = zero_resource\<rparr>"

definition w_data :: envelope where
  "w_data = \<lparr>env_version = 1, env_type = MESSAGE_TYPE_DATA_REQUEST, env_source_node_id = 1,
     env_destination_node_id = 0, env_transaction_id = 0, env_timestamp_ms = 0, env_trace_id = [],
     env_body = Some (DataRequest \<lparr>dr_message_id = 42, dr_session_id = ''s1'', dr_payload = []\<rparr>)\<rparr>"

abbreviation "w_b1 \<equiv> w_backend 1 ''10.0.0.1''"
abbreviation "w_b2 \<equiv> w_backend 2 ''10.0.0.2''"

definition w_empty :: hash_state where "w_empty = \<lparr>cachedFP = 0, ring = None\<rparr>"

lemma w_empty_coherent [simp]: "ring_coherent v w_empty nodes"
  by (simp add: ring_coherent_def w_empty_def)

lemma w_backend_fields [simp]:
  "node_id (w_backend i a) = i" "State (w_backend i a) = NodeStateActive"
  "Type (w_backend i a) = TypeLogic" "supports (w_backend i a) 42" "Address (w_backend i a) = a"
  by (simp_all add: w_backend_def supports_def)

lemma w_data_route [simp]: "requestedMessageID w_data = Inr 42" "routingKey w_data = ''s1''"
  by (simp_all add: w_data_def requestedMessageID_def routingKey_def)

lemma w_candidates [simp]:
  "route_candidates [w_b2, w_b1] 42 [] = [w_b1, w_b2]"
  "route_candidates [w_b2, w_b1] 42 [1] = [w_b2]"
  by (simp_all add: route_candidates_def eligible_def word_le_nat_alt)

lemma w_hashes:
  "hashString ''1#0'' = 5019623627517292423" "hashString ''2#0'' = 6951497443615628342"
  "hashString ''s1'' = 637539755847373129" "fmt_nat (Suc 0) = ''1''" "fmt_nat 2 = ''2''" "fmt_nat 0 = ''0''"
  by code_simp+

lemma w_ring:
  "buildRing 1 [w_backend 1 a, w_backend 2 b] =
     [\<lparr>vn_hash = 5019623627517292423, vn_node = w_backend 1 a\<rparr>,
      \<lparr>vn_hash = 6951497443615628342, vn_node = w_backend 2 b\<rparr>]"
  by (simp add: buildRing_def node_vnodes_def w_hashes vn_key_def)

lemma w_select:
  "ConsistentHash_Select 1 [w_backend 1 a, w_backend 2 b] ''s1'' w_empty =
     (Inr (w_backend 1 a), \<lparr>cachedFP = nodesFingerprint [w_backend 1 a, w_backend 2 b],
        ring = Some (buildRing 1 [w_backend 1 a, w_backend 2 b])\<rparr>)"
  using Select_coherent [of 1 w_empty "[w_backend 1 a, w_backend 2 b]" "''s1''"]
  by (simp add: ring_successor_def w_ring [unfolded One_nat_def] w_hashes)

lemma round_robin_route_witness:
  "w_b2 \<in> set [w_b2, w_b1] \<and> State w_b2 = NodeStateActive \<and> node_id w_b2 \<notin> set [1] \<and>
   (6 :: u64) = 5 + 1"
proof -
  have "RouteExcluding RoundRobin_Select [w_b2, w_b1] None (Some w_data) [1] 5 = (Inr w_b2, 6)"
    by (simp add: RouteExcluding_def RoundRobin_Select_def)
  from round_robin_route [OF this] show ?thesis by simp
qed

text \<open>The second selection is answered from the ring of the first; node 1 has a new address by then.\<close>

lemma consistent_hash_route_witness:
  "\<exists>n c'. RouteExcluding (ConsistentHash_Select 1) [w_b2, w_backend 1 ''10.9.9.9''] None (Some w_data) []
       (select_all 1 [([w_b1, w_b2], ''s1'')] (snd (NewConsistentHash 1))) = (Inr n, c') \<and>
     node_id n = 1 \<and> (\<exists>n0 \<in> set [w_b2, w_backend 1 ''10.9.9.9'']. node_id n = node_id n0)"
proof -
  let ?hist = "[([w_b1, w_b2], ''s1'')]" and ?nodes = "[w_b2, w_backend 1 ''10.9.9.9'']"
  have new: "NewConsistentHash 1 = (1, w_empty)" by (simp add: NewConsistentHash_def w_empty_def)
  have cs: "route_candidates ?nodes 42 [] = [w_backend 1 ''10.9.9.9'', w_b2]"
    by (simp add: route_candidates_def eligible_def word_le_nat_alt)
  have fp: "nodesFingerprint [w_backend 1 ''10.9.9.9'', w_b2] = nodesFingerprint [w_b1, w_b2]"
    by (simp add: nodesFingerprint_def)
  then have sel: "ConsistentHash_Select 1 [w_backend 1 ''10.9.9.9'', w_b2] ''s1''
      (snd (ConsistentHash_Select 1 [w_b1, w_b2] ''s1'' w_empty)) =
      (Inr w_b1, snd (ConsistentHash_Select 1 [w_b1, w_b2] ''s1'' w_empty))"
    unfolding w_select
    by (simp add: ConsistentHash_Select_def Let_def w_ring [unfolded One_nat_def] w_hashes
        ring_pick_successor sorted_ring_def ring_successor_def)
  have sep: "fp_separates ?hist (route_candidates ?nodes 42 [])" by (simp add: fp_separates_def cs)
  have run: "RouteExcluding (ConsistentHash_Select (fst (NewConsistentHash 1))) ?nodes None (Some w_data) []
      (select_all (fst (NewConsistentHash 1)) ?hist (snd (NewConsistentHash 1))) =
      (Inr w_b1, snd (ConsistentHash_Select 1 [w_b1, w_b2] ''s1'' w_empty))"
    using sel by (simp add: RouteExcluding_def Let_def cs new)
  then have "\<exists>n0 \<in> set ?nodes. node_id w_b1 = node_id n0"
    using consistent_hash_route [OF _ _ sep run refl] by auto
  then show ?thesis using run by (auto simp: new)
qed

lemma route_finds_node_witness:
  "(\<exists>n1. fst (RouteExcluding RoundRobin_Select [w_b2, w_b1] None (Some w_data) [1] 0) = Inr n1) \<and>
   (\<exists>n2. fst (RouteExcluding (ConsistentHash_Select (Suc 63)) [w_b2, w_b1] None (Some w_data) [1] w_empty) = Inr n2)"
  by (rule route_finds_node [where msgID = 42 and n = w_b2]) simp_all

lemma route_order_independent_witness:
  "RouteExcluding RoundRobin_Select (Memory_List [1, 2] [1 \<mapsto> w_b1, 2 \<mapsto> w_b2]) None (Some w_data) [] 3 =
   RouteExcluding RoundRobin_Select (Memory_List [2, 1] [1 \<mapsto> w_b1, 2 \<mapsto> w_b2]) None (Some w_data) [] 3"
  by (rule route_order_independent) (auto simp: reg_wf_def is_order_def)

lemma round_robin_fair_witness:
  "count_list (fst (rr_run [w_b1, w_b2] (3 * length [w_b1, w_b2]) 7)) (Inr w_b2) = 3"
  by (rule round_robin_fair) (simp_all add: w_backend_def)


lemma stale_ring_witness:
  "w_backend 1 ''10.0.0.1'' \<in> set [w_backend 1 ''10.0.0.1'', w_backend 2 ''10.0.0.2''] \<and>
   fst (ConsistentHash_Select 1 [w_backend 1 ''10.9.9.9'', w_backend 2 ''10.0.0.2''] ''s1''
     (snd (ConsistentHash_Select 1 [w_b1, w_b2] ''s1'' w_empty))) = Inr (w_backend 1 ''10.0.0.1'')"
proof -
  have "nodesFingerprint [w_backend 1 ''10.9.9.9'', w_backend 2 ''10.0.0.2''] = nodesFingerprint [w_b1, w_b2]"
    by (simp add: nodesFingerprint_def)
  then have pick: "fst (ConsistentHash_Select 1 [w_backend 1 ''10.9.9.9'', w_backend 2 ''10.0.0.2''] ''s1''
     (snd (ConsistentHash_Select 1 [w_b1, w_b2] ''s1'' w_empty))) = Inr (w_backend 1 ''10.0.0.1'')"
    unfolding w_select
    by (simp add: ConsistentHash_Select_def Let_def w_ring [unfolded One_nat_def] w_hashes
        ring_pick_successor sorted_ring_def ring_successor_def)
  from stale_ring [OF _ _ _ _ w_empty_coherent _ this] pick show ?thesis by simp
qed

end
