(* ===== verification/TxService.thy ===== *)
theory TxService imports TxSpec RouterModel GoNet begin

text \<open>
  \<open>internal/transaction/service.go\<close> and \<open>logic_error.go\<close>: one DATA request, from the creation of
  its transaction through routing, sending and waiting to the response, with at most one failover
  when a send fails; and the receive side \<open>OnResponse\<close>.

  The router and the transport are interfaces in Go and arguments here.  A request runs beside
  other goroutines: what they do to the manager between the request's own calls is an argument of
  each attempt (\<open>a_between\<close>, \<open>a_during\<close>, which may depend on the request's id so that a hypothesis can
  say that they leave it alone), and so is the branch \<open>Wait\<close>'s \<open>select\<close> takes.
\<close>

section \<open>Errors from Logic (\<open>logic_error.go\<close>)\<close>

definition LogicErrorFromProto :: "error_message option \<Rightarrow> gerr" where
  "LogicErrorFromProto msg =
     (case msg of None \<Rightarrow> LogicError ERROR_CODE_UNKNOWN [] | Some m \<Rightarrow> LogicError (em_code m) (em_message m))"

section \<open>Destination address\<close>

definition udpAddr :: "node \<Rightarrow> udp_addr res" where
  "udpAddr n =
     (case ParseIP (Address n) of
        None \<Rightarrow> Inl (errorf (Tx TxErrInvalidNode) [Lit ''address '', Quoted (Address n)])
      | Some ip \<Rightarrow>
          if UDPPort n = 0 \<or> unat (UDPPort n) > 65535
          then Inl (errorf (Tx TxErrInvalidNode) [Lit ''port '', Num (unat (UDPPort n))])
          else Inr \<lparr>addr_ip = ip, addr_port = UDPPort n\<rparr>)"

definition appendUnique :: "u32 list \<Rightarrow> u32 \<Rightarrow> u32 list" where
  "appendUnique ids i = (if i \<in> set ids then ids else ids @ [i])"

section \<open>Configuration\<close>

definition DefaultTimeout :: duration where "DefaultTimeout = 5 * second"

definition timeoutOrDefault :: "duration \<Rightarrow> duration" where
  "timeoutOrDefault t = (if t \<le> 0 then DefaultTimeout else t)"

text \<open>\<open>NewService\<close> with its collaborators given as present or nil; the result is the timeout.\<close>

definition NewTxService :: "bool \<Rightarrow> bool \<Rightarrow> bool \<Rightarrow> duration \<Rightarrow> duration res" where
  "NewTxService has_mgr has_router has_transport timeout =
     (if \<not> has_mgr then Inl (errorf (Tx ErrInvalidTransaction) [Lit ''manager is required''])
      else if \<not> has_router then Inl (errorf (Tx ErrInvalidTransaction) [Lit ''router is required''])
      else if \<not> has_transport then Inl (errorf (Tx ErrInvalidTransaction) [Lit ''transport is required''])
      else if timeout < 0 then Inl (errorf (Tx ErrInvalidTransaction) [Lit ''timeout must be > 0''])
      else Inr (timeoutOrDefault timeout))"

section \<open>State of a request\<close>

record tx_counters =
  t_send_errors :: int
  t_failovers :: int
  t_requests :: int
  t_routed :: "(u32 \<times> string) list"

record 'r svc =
  s_sys :: sys
  s_router :: 'r
  s_sent :: "(envelope \<times> udp_addr \<times> gerr option) list"
  s_met :: tx_counters

text \<open>What the environment does to one attempt.\<close>

record attempt =
  a_ctx :: "ctx_err option" \<comment> \<open>\<open>reqCtx.Err()\<close> when the attempt starts\<close>
  a_pid :: "manager \<Rightarrow> pid" \<comment> \<open>the object \<open>pendingPool.Get\<close> hands out\<close>
  a_between :: "u64 \<Rightarrow> sys \<Rightarrow> sys" \<comment> \<open>other goroutines, between \<open>Create\<close> and \<open>Wait\<close>\<close>
  a_during :: "u64 \<Rightarrow> sys \<Rightarrow> sys" \<comment> \<open>other goroutines, while \<open>Wait\<close> is in its \<open>select\<close>\<close>
  a_branch :: "ctx_err option" \<comment> \<open>the branch taken: \<open>ctx.Done\<close> with its cause, or the channel\<close>

text \<open>The interfaces: routing with excluded ids, and the transport's \<open>Send\<close>.\<close>

type_synonym 'r router = "u32 list \<Rightarrow> envelope \<Rightarrow> 'r \<Rightarrow> node res \<times> 'r"
type_synonym transport = "envelope \<Rightarrow> udp_addr \<Rightarrow> gerr option"

definition observeRouted :: "node \<Rightarrow> 'r svc \<Rightarrow> 'r svc" where
  "observeRouted n s =
     s\<lparr>s_met := (s_met s)\<lparr>t_routed := t_routed (s_met s) @ [(node_id n, if Name n = [] then InstanceID n else Name n)]\<rparr>\<rparr>"

definition svc_cancel :: "u64 \<Rightarrow> 'r svc \<Rightarrow> 'r svc option" where
  "svc_cancel i s = map_option (\<lambda>(e, m). s\<lparr>s_sys := (m, snd (s_sys s))\<rparr>) (Manager_Cancel i (fst (s_sys s)))"

text \<open>\<open>mgr.Wait(reqCtx, id)\<close> in the environment of the attempt; \<open>None\<close>: it blocks.\<close>

definition svc_wait :: "attempt \<Rightarrow> u64 \<Rightarrow> sys \<Rightarrow> (tx_result \<times> sys) option" where
  "svc_wait a i s = do {
     (b, m) \<leftarrow> Wait_begin i (fst s);
     case b of
       Inl e \<Rightarrow> Some ((None, Some e), (m, snd s))
     | Inr p \<Rightarrow>
         let s1 = a_during a i (m, (snd s)(i \<mapsto> p)) in do {
           (r, m') \<leftarrow> (case a_branch a of
                          None \<Rightarrow> Wait_recv i p (fst s1)
                        | Some cause \<Rightarrow> Wait_ctx i p cause (fst s1));
           Some (r, (m', (snd s1)(i := None)))
         }
   }"

section \<open>One attempt\<close>

text \<open>An attempt returns from \<open>request\<close> or goes on with the last error and the exclusions.\<close>

datatype verdict = Return "gerr + envelope option" | Continue gerr "u32 list"

definition svc_send_failed ::
  "bool \<Rightarrow> u64 \<Rightarrow> u32 list \<Rightarrow> node \<Rightarrow> gerr \<Rightarrow> 'r svc \<Rightarrow> (verdict \<times> 'r svc) option" where
  "svc_send_failed last_try i exclude n err s = do {
     s1 \<leftarrow> svc_cancel i (s\<lparr>s_met := (s_met s)\<lparr>t_send_errors := t_send_errors (s_met s) + 1\<rparr>\<rparr>);
     Some (if last_try then (Return (Inl err), s1)
           else (Continue err (appendUnique exclude (node_id n)),
                 s1\<lparr>s_met := (s_met s1)\<lparr>t_failovers := t_failovers (s_met s1) + 1\<rparr>\<rparr>))
   }"

definition svc_sent :: "attempt \<Rightarrow> u64 \<Rightarrow> node \<Rightarrow> 'r svc \<Rightarrow> (verdict \<times> 'r svc) option" where
  "svc_sent a i n s = do {
     let s1 = observeRouted n (s\<lparr>s_met := (s_met s)\<lparr>t_requests := t_requests (s_met s) + 1\<rparr>\<rparr>);
     let s2 = s1\<lparr>s_sys := a_between a i (s_sys s1)\<rparr>;
     (r, sys') \<leftarrow> svc_wait a i (s_sys s2);
     Some (Return (case snd r of
                     Some err \<Rightarrow> Inl (if err_is (Context DeadlineExceeded) err
                                      then Sentinel (Tx ErrTransactionTimeout) else err)
                   | None \<Rightarrow> Inr (fst r)),
           s2\<lparr>s_sys := sys'\<rparr>)
   }"

definition svc_attempt ::
  "'r router \<Rightarrow> transport \<Rightarrow> envelope \<Rightarrow> attempt \<Rightarrow> u64 \<Rightarrow> bool \<Rightarrow> u32 list \<Rightarrow> 'r svc \<Rightarrow> (verdict \<times> 'r svc) option" where
  "svc_attempt route send req a createID last_try exclude s = do {
     (c, m) \<leftarrow> Manager_Create (a_pid a (fst (s_sys s))) createID (fst (s_sys s));
     let s1 = s\<lparr>s_sys := (m, snd (s_sys s))\<rparr>;
     case c of
       Inl err \<Rightarrow> Some (Return (Inl err), s1)
     | Inr i \<Rightarrow>
         let req1 = req\<lparr>env_transaction_id := i\<rparr>;
             (n, r') = route exclude req1 (s_router s1);
             s2 = s1\<lparr>s_router := r'\<rparr>
         in case n of
           Inl err \<Rightarrow> map_option (Pair (Return (Inl err))) (svc_cancel i s2)
         | Inr nd \<Rightarrow>
             let req2 = req1\<lparr>env_destination_node_id := node_id nd\<rparr> in
             case udpAddr nd of
               Inl err \<Rightarrow> map_option (Pair (Return (Inl err))) (svc_cancel i s2)
             | Inr addr \<Rightarrow>
                 let result = send req2 addr;
                     s3 = s2\<lparr>s_sent := s_sent s2 @ [(req2, addr, result)]\<rparr>
                 in case result of
                      Some err \<Rightarrow> svc_send_failed last_try i exclude nd err s3
                    | None \<Rightarrow> svc_sent a i nd s3
   }"

section \<open>The request\<close>

definition maxRouteAttempts :: nat where "maxRouteAttempts = 2"

text \<open>
  The loop over the attempts that remain, one environment each; \<open>first\<close> is \<open>attempt == 0\<close>.
\<close>

fun svc_loop ::
  "'r router \<Rightarrow> transport \<Rightarrow> envelope \<Rightarrow> attempt list \<Rightarrow> bool \<Rightarrow> u32 list \<Rightarrow> gerr option \<Rightarrow> 'r svc \<Rightarrow>
   ((gerr + envelope option) \<times> 'r svc) option" where
  "svc_loop route send req [] first exclude lastErr s =
     Some (Inl (case lastErr of Some e \<Rightarrow> e | None \<Rightarrow> Sentinel (Tx ErrTransactionTimeout)), s)"
| "svc_loop route send req (a # rest) first exclude lastErr s =
     (case a_ctx a of
        Some err \<Rightarrow> Some (Inl (case lastErr of Some e \<Rightarrow> e | None \<Rightarrow> Sentinel (Context err)), s)
      | None \<Rightarrow>
          (case svc_attempt route send req a (if first then env_transaction_id req else 0) (rest = []) exclude s of
             None \<Rightarrow> None
           | Some (Return r, s') \<Rightarrow> Some (r, s')
           | Some (Continue err exclude', s') \<Rightarrow>
               svc_loop route send req rest False exclude' (Some err) s'))"

text \<open>\<open>ctx0\<close> is \<open>ctx.Err()\<close> at the call; \<open>envs\<close> holds \<open>maxRouteAttempts\<close> attempts.\<close>

definition request ::
  "'r router \<Rightarrow> transport \<Rightarrow> ctx_err option \<Rightarrow> envelope option \<Rightarrow> attempt list \<Rightarrow> 'r svc \<Rightarrow>
   ((gerr + envelope option) \<times> 'r svc) option" where
  "request route send ctx0 req envs s =
     (case req of
        None \<Rightarrow> Some (Inl (errorf (Tx ErrInvalidRequest) [Lit ''require DATA_REQUEST'']), s)
      | Some e \<Rightarrow>
          if env_type e \<noteq> MESSAGE_TYPE_DATA_REQUEST \<or> GetDataRequest e = None
          then Some (Inl (errorf (Tx ErrInvalidRequest) [Lit ''require DATA_REQUEST'']), s)
          else case ctx0 of
            Some err \<Rightarrow> Some (Inl (Sentinel (Context err)), s)
          | None \<Rightarrow> svc_loop route send e (take maxRouteAttempts envs) True [] None s)"

section \<open>Responses\<close>

definition OnResponse :: "envelope option \<Rightarrow> manager \<Rightarrow> (gerr option \<times> manager) option" where
  "OnResponse env m =
     (case env of
        None \<Rightarrow> Some (Some (errorf (Tx ErrInvalidResponse) [Lit ''nil envelope'']), m)
      | Some e \<Rightarrow>
          if env_transaction_id e = 0
          then Some (Some (errorf (Tx ErrInvalidResponse) [Lit ''missing transaction_id'']), m)
          else if env_type e = MESSAGE_TYPE_DATA_RESPONSE
          then Manager_Complete (env_transaction_id e) (Some e) m
          else if env_type e = MESSAGE_TYPE_ERROR
          then Manager_Fail (env_transaction_id e) (Some (LogicErrorFromProto (GetError e))) m
          else Some (Some (errorf (Tx ErrInvalidResponse) [Lit ''require DATA_RESPONSE or ERROR'']), m))"

definition dataStatus :: "envelope option \<Rightarrow> u32" where
  "dataStatus env =
     (case env of None \<Rightarrow> 0
      | Some e \<Rightarrow> (case GetDataResponse e of None \<Rightarrow> 0 | Some r \<Rightarrow> dp_status r))"

section \<open>Sends\<close>

lemma svc_cancel_sent: "svc_cancel i s = Some s' \<Longrightarrow> s_sent s' = s_sent s"
  by (auto simp: svc_cancel_def)

lemma svc_send_failed_cases:
  assumes "svc_send_failed last_try i ex n err s = Some (v, s')"
  shows "s_sent s' = s_sent s \<and>
    v = (if last_try then Return (Inl err) else Continue err (appendUnique ex (node_id n)))"
  using assms by (auto simp: svc_send_failed_def bind_eq_Some_conv dest: svc_cancel_sent split: if_splits)

lemma svc_sent_cases:
  assumes "svc_sent a i n s = Some (v, s')"
  shows "s_sent s' = s_sent s \<and> (\<exists>r. v = Return r)"
  using assms by (auto simp: svc_sent_def observeRouted_def bind_eq_Some_conv Let_def)

text \<open>An attempt sends at most once, to the node the router chose; it continues only after a failed send.\<close>

lemma svc_attempt_cases:
  assumes "svc_attempt route send req a c last_try ex s = Some (v, s')"
  shows "s_sent s' = s_sent s \<and> (\<exists>r. v = Return r) \<or>
    (\<exists>i n r' addr. route ex (req\<lparr>env_transaction_id := i\<rparr>) (s_router s) = (Inr n, r') \<and> udpAddr n = Inr addr \<and>
       (let e = req\<lparr>env_transaction_id := i, env_destination_node_id := node_id n\<rparr> in
        s_sent s' = s_sent s @ [(e, addr, send e addr)] \<and>
        (case v of Return r \<Rightarrow> send e addr = None \<or> last_try \<and> (\<exists>err. send e addr = Some err \<and> r = Inl err)
         | Continue err ex' \<Rightarrow> send e addr = Some err \<and> \<not> last_try \<and> ex' = appendUnique ex (node_id n))))"
proof -
  obtain c' m where cr: "Manager_Create (a_pid a (fst (s_sys s))) c (fst (s_sys s)) = Some (c', m)"
    using assms by (auto simp: svc_attempt_def bind_eq_Some_conv)
  show ?thesis
  proof (cases c')
    case (Inl err)
    then show ?thesis using assms cr by (auto simp: svc_attempt_def)
  next
    case (Inr i)
    obtain n r' where rt: "route ex (req\<lparr>env_transaction_id := i\<rparr>) (s_router s) = (n, r')" by fastforce
    show ?thesis
    proof (cases n)
      case (Inl err)
      then show ?thesis using assms cr Inr rt
        by (auto simp: svc_attempt_def dest: svc_cancel_sent)
    next
      case nd: (Inr nd)
      show ?thesis
      proof (cases "udpAddr nd")
        case (Inl err)
        then show ?thesis using assms cr Inr rt nd
          by (auto simp: svc_attempt_def dest: svc_cancel_sent)
      next
        case addr: (Inr addr)
        let ?e = "req\<lparr>env_transaction_id := i, env_destination_node_id := node_id nd\<rparr>"
        define s3 where "s3 = s\<lparr>s_sys := (m, snd (s_sys s)), s_router := r',
          s_sent := s_sent s @ [(?e, addr, send ?e addr)]\<rparr>"
        have att: "svc_attempt route send req a c last_try ex s =
            (case send ?e addr of Some err \<Rightarrow> svc_send_failed last_try i ex nd err s3
             | None \<Rightarrow> svc_sent a i nd s3)"
          by (simp add: svc_attempt_def cr Inr rt nd addr s3_def Let_def split: option.split)
        have sent3: "s_sent s3 = s_sent s @ [(?e, addr, send ?e addr)]" by (simp add: s3_def)
        have "s_sent s' = s_sent s @ [(?e, addr, send ?e addr)] \<and>
          (case v of Return r \<Rightarrow> send ?e addr = None \<or> last_try \<and> (\<exists>err. send ?e addr = Some err \<and> r = Inl err)
           | Continue err ex' \<Rightarrow> send ?e addr = Some err \<and> \<not> last_try \<and> ex' = appendUnique ex (node_id nd))"
        proof (cases "send ?e addr")
          case None
          then show ?thesis using assms att svc_sent_cases [of a i nd s3 v s'] sent3 by auto
        next
          case (Some err)
          then show ?thesis using assms att svc_send_failed_cases [of last_try i ex nd err s3 v s'] sent3
            by (cases last_try) auto
        qed
        with rt nd addr show ?thesis by (auto simp: Let_def)
      qed
    qed
  qed
qed


lemma svc_cancel_router: "svc_cancel i s = Some s' \<Longrightarrow> s_router s' = s_router s"
  by (auto simp: svc_cancel_def)

lemma svc_attempt_router:
  assumes "svc_attempt route send req a c last_try ex s = Some (v, s')"
  shows "s_router s' = s_router s \<or> (\<exists>e. s_router s' = snd (route ex e (s_router s)))"
proof -
  have failed: "s_router t' = s_router t" if "svc_send_failed last_try i ex nd err t = Some (v, t')" for i nd err t t'
    using that by (auto simp: svc_send_failed_def bind_eq_Some_conv dest: svc_cancel_router split: if_splits)
  have sent: "s_router t' = s_router t" if "svc_sent a i nd t = Some (v, t')" for i nd t t'
    using that by (auto simp: svc_sent_def observeRouted_def bind_eq_Some_conv Let_def)
  obtain c' m where cr: "Manager_Create (a_pid a (fst (s_sys s))) c (fst (s_sys s)) = Some (c', m)"
    using assms by (auto simp: svc_attempt_def bind_eq_Some_conv)
  show ?thesis
  proof (cases c')
    case (Inl err)
    then show ?thesis using assms cr by (auto simp: svc_attempt_def)
  next
    case (Inr i)
    obtain n r' where rt: "route ex (req\<lparr>env_transaction_id := i\<rparr>) (s_router s) = (n, r')" by fastforce
    have "s_router s' = r'"
    proof (cases n)
      case (Inl err)
      then show ?thesis using assms cr Inr rt
        by (auto simp: svc_attempt_def dest: svc_cancel_router)
    next
      case nd: (Inr nd)
      show ?thesis
      proof (cases "udpAddr nd")
        case (Inl err)
        then show ?thesis using assms cr Inr rt nd
          by (auto simp: svc_attempt_def dest: svc_cancel_router)
      next
        case addr: (Inr addr)
        then show ?thesis using assms cr Inr rt nd
          by (auto simp: svc_attempt_def Let_def split: option.splits dest!: failed sent)
      qed
    qed
    then show ?thesis using rt by (metis snd_conv)
  qed
qed

section \<open>Failover\<close>

text \<open>The contract of the \<open>excludingRouter\<close> interface.\<close>

locale failover_router =
  fixes route :: "'r router" and ok :: "'r \<Rightarrow> bool"
  assumes route_excludes: "ok r \<Longrightarrow> route ex e r = (Inr n, r') \<Longrightarrow> node_id n \<notin> set ex"
    and route_keeps: "ok r \<Longrightarrow> ok (snd (route ex e r))"
begin

lemma request_sends:
  assumes "request route send ctx0 req envs s = Some (res, s')" "ok (s_router s)"
  shows "s_sent s' = s_sent s \<or> (\<exists>x. s_sent s' = s_sent s @ [x]) \<or>
    (\<exists>x y. s_sent s' = s_sent s @ [x, y] \<and> snd (snd x) \<noteq> None \<and>
       env_destination_node_id (fst y) \<noteq> env_destination_node_id (fst x))"
proof (cases "s_sent s' = s_sent s")
  case False
  then obtain e a rest where e: "req = Some e" "take maxRouteAttempts envs = a # rest" "a_ctx a = None"
      and loop: "svc_loop route send e (a # rest) True [] None s = Some (res, s')"
    using assms(1) by (auto simp: request_def split: option.splits if_splits elim: svc_loop.elims)
  have rest: "rest = [] \<or> (\<exists>b. rest = [b])"
  proof -
    have "length (a # rest) \<le> 2" using e(2) by (metis length_take maxRouteAttempts_def min.cobounded2)
    then show ?thesis by (cases rest) auto
  qed
  obtain v s1 where at1: "svc_attempt route send e a (env_transaction_id e) (rest = []) [] s = Some (v, s1)"
    using loop e(3) by (auto split: option.splits)
  have r1: "v = Return res \<and> s1 = s' \<or>
      (\<exists>err ex. v = Continue err ex \<and> svc_loop route send e rest False ex (Some err) s1 = Some (res, s'))"
    using loop e(3) at1 by (cases v) auto
  have ok1: "ok (s_router s1)"
    using svc_attempt_router [OF at1] route_keeps assms(2) by auto
  show ?thesis
    using svc_attempt_cases [OF at1]
  proof (elim disjE exE conjE)
    fix r assume "s_sent s1 = s_sent s" "v = Return r"
    then show ?thesis using r1 by auto
  next
    fix i n r' addr
    assume one: "let e' = e\<lparr>env_transaction_id := i, env_destination_node_id := node_id n\<rparr> in
      s_sent s1 = s_sent s @ [(e', addr, send e' addr)] \<and>
      (case v of Return r \<Rightarrow> send e' addr = None \<or> (rest = []) \<and> (\<exists>err. send e' addr = Some err \<and> r = Inl err)
       | Continue err ex' \<Rightarrow> send e' addr = Some err \<and> \<not> rest = [] \<and> ex' = appendUnique [] (node_id n))"
    define e1 where "e1 = e\<lparr>env_transaction_id := i, env_destination_node_id := node_id n\<rparr>"
    have sent1: "s_sent s1 = s_sent s @ [(e1, addr, send e1 addr)]"
      using one by (simp add: e1_def Let_def)
    show ?thesis
    proof (cases v)
      case (Return r)
      then show ?thesis using r1 sent1 by auto
    next
      case (Continue err ex)
      then have c: "send e1 addr = Some err" "ex = [node_id n]" "rest \<noteq> []"
        using one by (simp_all add: e1_def Let_def appendUnique_def)
      then obtain b where b: "rest = [b]" using rest by blast
      have loop2: "svc_loop route send e [b] False ex (Some err) s1 = Some (res, s')"
        using r1 Continue b by auto
      show ?thesis
      proof (cases "a_ctx b")
        case (Some x)
        then show ?thesis using loop2 sent1 by auto
      next
        case None
        then obtain w s2 where at2: "svc_attempt route send e b 0 True ex s1 = Some (w, s2)"
          using loop2 by (auto split: option.splits)
        have s2: "s2 = s'" using loop2 None at2 by (cases w) auto
        show ?thesis
          using svc_attempt_cases [OF at2]
        proof (elim disjE exE conjE)
          fix r assume "s_sent s2 = s_sent s1"
          then show ?thesis using s2 sent1 by auto
        next
          fix j m r2 addr2
          assume rt: "route ex (e\<lparr>env_transaction_id := j\<rparr>) (s_router s1) = (Inr m, r2)"
            and two: "let e' = e\<lparr>env_transaction_id := j, env_destination_node_id := node_id m\<rparr> in
              s_sent s2 = s_sent s1 @ [(e', addr2, send e' addr2)] \<and>
              (case w of Return r \<Rightarrow> send e' addr2 = None \<or> True \<and> (\<exists>err. send e' addr2 = Some err \<and> r = Inl err)
               | Continue err ex' \<Rightarrow> send e' addr2 = Some err \<and> \<not> True \<and> ex' = appendUnique ex (node_id m))"
          have "node_id m \<noteq> node_id n" using route_excludes [OF ok1 rt] c(2) by auto
          then have "\<exists>x y. s_sent s' = s_sent s @ [x, y] \<and> snd (snd x) \<noteq> None \<and>
              env_destination_node_id (fst y) \<noteq> env_destination_node_id (fst x)"
            using two s2 sent1 c(1) by (auto simp: Let_def e1_def)
          then show ?thesis by blast
        qed
      qed
    qed
  qed
qed simp

end

section \<open>The gateway's router behind the service\<close>

text \<open>
  \<open>Service.route\<close> on \<open>*router.Router\<close>.  The router's state is the strategy's, and what the registry
  lists and the context says at each call to come.
\<close>

type_synonym 'st gw_router = "'st \<times> (node list \<times> ctx_err option) list"

fun svc_route :: "'st select \<Rightarrow> 'st gw_router router" where
  "svc_route select exclude req (st, []) = (Inl (Sentinel (Router ErrNoEligibleNode)), (st, []))"
| "svc_route select exclude req (st, (nodes, ctx) # calls) =
     (let (n, st') = (if exclude \<noteq> [] then RouteExcluding select nodes ctx (Some req) exclude st
                      else Route select nodes ctx (Some req) st)
      in (n, (st', calls)))"

lemma svc_route_excluding:
  "svc_route select exclude req (st, (nodes, ctx) # calls) =
     (let (n, st') = RouteExcluding select nodes ctx (Some req) exclude st in (n, (st', calls)))"
  by (simp add: Route_def)

definition ids_nonzero :: "(node list \<times> ctx_err option) list \<Rightarrow> bool" where
  "ids_nonzero calls \<longleftrightarrow> (\<forall>(nodes, ctx) \<in> set calls. \<forall>n \<in> set nodes. node_id n \<noteq> 0)"

interpretation rr_failover: failover_router "svc_route RoundRobin_Select" "\<lambda>(st, calls). ids_nonzero calls"
proof
  fix r :: "u64 gw_router" and ex e n r'
  assume ok: "case r of (st, calls) \<Rightarrow> ids_nonzero calls" and rt: "svc_route RoundRobin_Select ex e r = (Inr n, r')"
  then obtain st nodes ctx calls where r: "r = (st, (nodes, ctx) # calls)"
    by (cases r; cases "snd r") auto
  have route: "fst (RouteExcluding RoundRobin_Select nodes ctx (Some e) ex st) = Inr n"
    using rt unfolding r svc_route_excluding by (auto simp: Let_def case_prod_beta)
  then have "n \<in> set nodes" "node_id n = 0 \<or> node_id n \<notin> set ex"
    using round_robin.route_sound [OF route] by simp_all
  then show "node_id n \<notin> set ex" using ok r by (auto simp: ids_nonzero_def)
next
  fix r :: "u64 gw_router" and ex e
  assume "case r of (st, calls) \<Rightarrow> ids_nonzero calls"
  then show "case snd (svc_route RoundRobin_Select ex e r) of (st, calls) \<Rightarrow> ids_nonzero calls"
    by (cases r; cases "snd r") (auto simp: ids_nonzero_def case_prod_beta Let_def)
qed

text \<open>
  For the hash ring, ids stand for nodes: the cached ring is one of an id list in \<open>ids\<close>, and the
  64-bit fingerprint does not collide on the ascending id lists over \<open>ids\<close>.
\<close>

definition fp_ids :: "u32 list \<Rightarrow> u64" where
  "fp_ids l = fnv1a (concat (map id_bytes l))"

definition id_lists :: "u32 set \<Rightarrow> u32 list set" where
  "id_lists ids = {l. sorted l \<and> distinct l \<and> set l \<subseteq> ids}"

definition ch_ok :: "nat \<Rightarrow> u32 set \<Rightarrow> hash_state gw_router \<Rightarrow> bool" where
  "ch_ok v ids r \<longleftrightarrow> (let (c, calls) = r in
     v > 0 \<and> 0 \<notin> ids \<and> inj_on fp_ids (id_lists ids) \<and>
     (\<forall>(nodes, ctx) \<in> set calls. distinct (map node_id nodes) \<and> node_id ` set nodes \<subseteq> ids) \<and>
     (ring c = None \<or> (\<exists>ns. ns \<noteq> [] \<and> ring c = Some (buildRing v ns) \<and> cachedFP c = nodesFingerprint ns \<and>
        map node_id ns \<in> id_lists ids)))"

lemma fp_ids: "nodesFingerprint ns = fp_ids (map node_id ns)"
  by (simp add: nodesFingerprint_def fp_ids_def comp_def)

text \<open>The ring used for \<open>cs\<close> is one of nodes with the same ids.\<close>

lemma Select_ids:
  assumes "ch_ok v ids (c, calls)" "cs \<noteq> []" "key \<noteq> []" "map node_id cs \<in> id_lists ids"
    and "ConsistentHash_Select v cs key c = (r, c')"
  shows "\<exists>ns. ns \<noteq> [] \<and> map node_id ns = map node_id cs \<and>
    c' = \<lparr>cachedFP = nodesFingerprint cs, ring = Some (buildRing v ns)\<rparr> \<and>
    r = Inr (ring_successor (buildRing v ns) (hashString key))"
proof -
  have v: "v > 0" using assms(1) by (simp add: ch_ok_def)
  show ?thesis
  proof (cases "ring_coherent v c cs")
    case True
    then show ?thesis using Select_coherent [OF True v assms(2,3)] assms(5,2) by auto
  next
    case False
    then obtain ns where ns: "ns \<noteq> []" "ring c = Some (buildRing v ns)" "cachedFP c = nodesFingerprint ns"
        "map node_id ns \<in> id_lists ids" "nodesFingerprint ns = nodesFingerprint cs"
      using assms(1) by (auto simp: ring_coherent_def ch_ok_def)
    have same: "map node_id ns = map node_id cs"
      using assms(1,4) ns(4,5) by (auto simp: ch_ok_def fp_ids dest: inj_onD)
    have "c = \<lparr>cachedFP = nodesFingerprint cs, ring = Some (buildRing v ns)\<rparr>" using ns by (cases c) simp
    moreover have "ring_pick (buildRing v ns) (hashString key) = ring_successor (buildRing v ns) (hashString key)"
      by (rule ring_pick_successor) (simp_all add: buildRing_sorted buildRing_nonempty v ns(1))
    ultimately show ?thesis using assms(2,3,5) ns same
      by (auto simp: ConsistentHash_Select_def Let_def)
  qed
qed

lemma candidates_ids:
  assumes "distinct (map node_id nodes)" "node_id ` set nodes \<subseteq> ids"
  shows "map node_id (route_candidates nodes msgID ex) \<in> id_lists ids"
proof -
  have "sorted (map node_id (route_candidates nodes msgID ex))" by (simp add: route_candidates_def Let_def)
  moreover have "set (map node_id (route_candidates nodes msgID ex)) \<subseteq> ids"
    using assms(2) by (auto simp: set_route_candidates)
  ultimately show ?thesis using route_candidates_distinct [OF assms(1)] by (simp add: id_lists_def)
qed

lemma ch_route_cases:
  assumes "ch_ok v ids (c, (nodes, ctx) # calls)"
    and "RouteExcluding (ConsistentHash_Select v) nodes ctx (Some e) ex c = (r, c')"
  shows "ch_ok v ids (c', calls) \<and> (\<forall>n. r = Inr n \<longrightarrow> node_id n \<notin> set ex)"
proof -
  have ok: "ch_ok v ids (c, calls)" using assms(1) by (simp add: ch_ok_def)
  show ?thesis
  proof (cases "\<exists>msgID. ctx = None \<and> requestedMessageID e = Inr msgID \<and> routingKey e \<noteq> [] \<and>
                route_candidates nodes msgID ex \<noteq> []")
    case False
    then have "c' = c \<and> (\<forall>n. r \<noteq> Inr n)"
      using assms(2) by (auto simp: RouteExcluding_def Let_def ConsistentHash_Select_def
          split: option.splits sum.splits if_splits)
    then show ?thesis using ok by simp
  next
    case True
    then obtain msgID where m: "ctx = None" "requestedMessageID e = Inr msgID" "routingKey e \<noteq> []"
      "route_candidates nodes msgID ex \<noteq> []" by blast
    let ?cs = "route_candidates nodes msgID ex"
    have nodes: "distinct (map node_id nodes)" "node_id ` set nodes \<subseteq> ids" "0 \<notin> ids"
      using assms(1) by (auto simp: ch_ok_def)
    have sel: "ConsistentHash_Select v ?cs (routingKey e) c = (r, c')"
      using assms(2) m by (simp add: RouteExcluding_def Let_def)
    from Select_ids [OF ok m(4,3) candidates_ids [OF nodes(1,2)] sel]
    obtain ns where ns: "ns \<noteq> []" "map node_id ns = map node_id ?cs"
      "c' = \<lparr>cachedFP = nodesFingerprint ?cs, ring = Some (buildRing v ns)\<rparr>"
      "r = Inr (ring_successor (buildRing v ns) (hashString (routingKey e)))" by blast
    have v: "v > 0" using ok by (simp add: ch_ok_def)
    have "ring_successor (buildRing v ns) (hashString (routingKey e)) \<in> set ns"
      using ring_successor_mem [OF buildRing_nonempty [OF v ns(1)]] set_buildRing [of v ns] v by auto
    then have "node_id (ring_successor (buildRing v ns) (hashString (routingKey e))) \<in> node_id ` set ?cs"
      using ns(2) by (metis image_eqI image_set)
    moreover have "x \<notin> set ex" if "x \<in> node_id ` set ?cs" for x
      using that nodes(2,3) by (auto simp: set_route_candidates)
    moreover have "ch_ok v ids (c', calls)"
      using ok ns candidates_ids [OF nodes(1,2), of msgID ex] by (auto simp: ch_ok_def fp_ids)
    ultimately show ?thesis using ns(4) by auto
  qed
qed

interpretation ch_failover: failover_router "svc_route (ConsistentHash_Select v)" "ch_ok v ids" for v ids
proof
  fix r :: "hash_state gw_router" and ex e n r'
  assume ok: "ch_ok v ids r" and rt: "svc_route (ConsistentHash_Select v) ex e r = (Inr n, r')"
  then obtain c nodes ctx calls where r: "r = (c, (nodes, ctx) # calls)"
    by (cases r; cases "snd r") auto
  obtain x c' where x: "RouteExcluding (ConsistentHash_Select v) nodes ctx (Some e) ex c = (x, c')" by fastforce
  then have "x = Inr n" using rt unfolding r svc_route_excluding by simp
  then show "node_id n \<notin> set ex" using ch_route_cases [OF _ x] ok r by auto
next
  fix r :: "hash_state gw_router" and ex e
  assume ok: "ch_ok v ids r"
  show "ch_ok v ids (snd (svc_route (ConsistentHash_Select v) ex e r))"
  proof (cases "snd r")
    case Nil
    then show ?thesis using ok by (cases r) simp
  next
    case (Cons call calls)
    then obtain c nodes ctx where r: "r = (c, (nodes, ctx) # calls)" by (cases r; cases call) auto
    obtain x c' where x: "RouteExcluding (ConsistentHash_Select v) nodes ctx (Some e) ex c = (x, c')" by fastforce
    then show ?thesis using ch_route_cases [OF _ x] ok unfolding r svc_route_excluding by simp
  qed
qed

text \<open>What a request may have sent: nothing, one envelope, or a second one to another node after a failed first.\<close>

definition sends_at_most_twice :: "'r svc \<Rightarrow> 'r svc \<Rightarrow> bool" where
  "sends_at_most_twice s s' \<longleftrightarrow>
     s_sent s' = s_sent s \<or> (\<exists>x. s_sent s' = s_sent s @ [x]) \<or>
     (\<exists>x y. s_sent s' = s_sent s @ [x, y] \<and> snd (snd x) \<noteq> None \<and>
        env_destination_node_id (fst y) \<noteq> env_destination_node_id (fst x))"

text \<open>
  C23: Failover with the gateway's two strategies: a request sends at most two envelopes, the second
  one only when the first send returned an error, so never after a timeout of \<open>Wait\<close>, and then to
  another node, also if the registry changed in between.  For round robin the listed ids are not 0;
  for consistent hashing the 64-bit fingerprint does not collide on the ascending id lists over the
  ids the registry lists (\<open>ch_ok\<close>).
\<close>

theorem failover_only_on_send_error:
  "(request (svc_route RoundRobin_Select) send ctx0 req envs r = Some (res, r') \<longrightarrow>
      ids_nonzero (snd (s_router r)) \<longrightarrow> sends_at_most_twice r r') \<and>
   (request (svc_route (ConsistentHash_Select v)) send ctx0 req envs s = Some (res', s') \<longrightarrow>
      ch_ok v ids (s_router s) \<longrightarrow> sends_at_most_twice s s')"
  unfolding sends_at_most_twice_def
  using rr_failover.request_sends [of send ctx0 req envs r res r']
    ch_failover.request_sends [of v send ctx0 req envs s res' s' ids]
  by (auto simp: case_prod_beta)

section \<open>No transaction is left behind\<close>

text \<open>
  The gateway never cancels an id in \<open>Wait\<close>, so a waiter's id is registered until \<open>Close\<close>.
  \<open>keeps i f\<close>: what other goroutines do leaves the manager consistent and \<open>i\<close> to its owner, \<open>Close\<close>
  and deliveries to \<open>i\<close> included.  \<open>fair_env own a\<close>: the other goroutines do so, around the attempt
  \<open>a\<close>, with the id of the attempt and with the ids \<open>own\<close>.
\<close>

definition svc_inv :: "sys \<Rightarrow> bool" where
  "svc_inv s \<longleftrightarrow> sys_inv s \<and> (\<forall>i. snd s i \<noteq> None \<longrightarrow> wait (fst s) i \<noteq> None \<or> closed (fst s))"

definition keeps :: "u64 \<Rightarrow> (sys \<Rightarrow> sys) \<Rightarrow> bool" where
  "keeps i f \<longleftrightarrow> (\<forall>s. svc_inv s \<longrightarrow> svc_inv (f s) \<and> snd (f s) i = snd s i \<and>
     (wait (fst (f s)) i = wait (fst s) i \<or> closed (fst (f s))))"

definition fair_env :: "u64 set \<Rightarrow> attempt \<Rightarrow> bool" where
  "fair_env own a \<longleftrightarrow> (\<forall>m. finite (dom (heap m)) \<longrightarrow> acquirable (a_pid a m) m) \<and>
     (\<forall>i. \<forall>j \<in> insert i own. keeps j (a_between a i) \<and> keeps j (a_during a i))"

lemma keepsD:
  "keeps i f \<Longrightarrow> svc_inv s \<Longrightarrow> svc_inv (f s) \<and> snd (f s) i = snd s i \<and>
     (wait (fst (f s)) i = wait (fst s) i \<or> closed (fst (f s)))"
  unfolding keeps_def by blast

lemma svc_invD: "svc_inv (m, ws) \<Longrightarrow> sys_inv (m, ws)" "svc_inv (m, ws) \<Longrightarrow> \<not> closed m \<Longrightarrow> wait m i = None \<Longrightarrow> ws i = None"
  by (fastforce simp: svc_inv_def)+

definition absent :: "u64 \<Rightarrow> sys \<Rightarrow> bool" where
  "absent j s \<longleftrightarrow> wait (fst s) j = None \<and> snd s j = None"

lemma keeps_absent: "keeps j f \<Longrightarrow> svc_inv s \<Longrightarrow> absent j s \<Longrightarrow> absent j (f s)"
  using keepsD [of j f s] inv_basic(3) [of "fst (f s)" "snd (f s)"] svc_invD(1) [of "fst (f s)" "snd (f s)"]
  by (auto simp: absent_def)

lemma gone: "snd (spec_of (m, ws)) i = None \<Longrightarrow> wait m i = None \<and> ws i = None"
  by (simp add: spec_of_def split: option.splits)

lemma finish_wait: "finish i r m = Some (e, m') \<Longrightarrow> wait m' = wait m"
  by (auto simp: finish_def finish_deliver_def tryDeliver_def bind_eq_Some_conv split: sum.splits)

lemma finish_closed: "finish i r m = Some (e, m') \<Longrightarrow> closed m' = closed m"
  by (auto simp: finish_def finish_deliver_def tryDeliver_def bind_eq_Some_conv split: sum.splits)

lemma finish_same: "finish i r m = Some (e, m') \<Longrightarrow> wait m' = wait m \<and> closed m' = closed m"
  using finish_wait finish_closed by blast

lemma create_ok:
  assumes "svc_inv (m, ws)" "acquirable p m" "Manager_Create p c m = Some (Inr i, m')"
  shows "svc_inv (m', ws) \<and> wait m' = (wait m)(i \<mapsto> p) \<and> wait m i = None \<and> ws i = None \<and> \<not> closed m'"
proof -
  have open_: "\<not> closed m" "\<not> (c \<noteq> 0 \<and> wait m c \<noteq> None)"
    using assms(3) by (auto simp: Manager_Create_def split: if_splits)
  from create_fresh [OF assms(3) open_] obtain n x where *: "wait m i = None"
    "m' = (acquirePending p i (m\<lparr>nextID := n\<rparr>))\<lparr>wait := (wait m)(i \<mapsto> p), met := x\<rparr>" by auto
  moreover have "ws i = None" using svc_invD(2) [OF assms(1) open_(1) *(1)] .
  ultimately show ?thesis using create_step [OF svc_invD(1) [OF assms(1)] assms(2,3)] open_(1) assms(1)
    by (auto simp: acquirePending_def svc_inv_def)
qed

lemma create_err: "Manager_Create p c m = Some (Inl err, m') \<Longrightarrow> m' = m"
  by (auto simp: Manager_Create_def bind_eq_Some_conv Let_def split: if_splits)

lemma cancel_ok:
  assumes "svc_inv (m, ws)" "ws i = None" "Manager_Cancel i m = Some (e, m')"
  shows "svc_inv (m', ws) \<and> wait m' = (wait m)(i := None)"
proof -
  have "wait m' = (wait m)(i := None)" "closed m' = closed m"
    using assms(3)
    by (auto simp: Manager_Cancel_def bind_eq_Some_conv remove_def Let_def dest: finish_wait finish_closed)
  then show ?thesis using cancel_step [OF svc_invD(1) [OF assms(1)] assms(3)] assms(1,2)
    by (auto simp: svc_inv_def)
qed

text \<open>The end of \<open>Wait\<close> deletes its id and nothing else.\<close>

lemma recv_wait: "Wait_recv i p m = Some (r, m') \<Longrightarrow> wait m' = (wait m)(i := None) \<and> closed m' = closed m"
  by (auto simp: Wait_recv_eq releasePending_def remove_def Let_def)

lemma ctx_wait: "Wait_ctx i p cause m = Some (r, m') \<Longrightarrow> wait m' = (wait m)(i := None) \<and> closed m' = closed m"
  by (auto simp: Wait_ctx_def Let_def bind_eq_Some_conv dest!: recv_wait finish_same split: if_splits)

lemma svc_wait_ok:
  assumes "svc_inv (m, ws)" "wait m i \<noteq> None \<or> closed m" "ws i = None" "keeps i (a_during a i)"
    and "svc_wait a i (m, ws) = Some (r, s')"
  shows "svc_inv s' \<and> absent i s' \<and> (\<forall>j. keeps j (a_during a i) \<longrightarrow> absent j (m, ws) \<longrightarrow> absent j s')"
proof (cases "closed m")
  case True
  then have "wait m i = None" using inv_basic(3) svc_invD(1) [OF assms(1)] by simp
  then show ?thesis using assms(1,3,5) Wait_begin_none [OF svc_invD(1) [OF assms(1)], of i]
    by (auto simp: svc_wait_def absent_def)
next
  case False
  then obtain p where p: "wait m i = Some p" using assms(2) by auto
  define m1 where "m1 = m\<lparr>heap := (heap m)(p \<mapsto> (obj m p)\<lparr>p_waiting := True\<rparr>)\<rparr>"
  have b: "Wait_begin i m = Some (Inr p, m1)"
    using Wait_begin_eq [OF svc_invD(1) [OF assms(1)] p] assms(3) by (simp add: m1_def)
  obtain m2 ws2 where d: "a_during a i (m1, ws(i \<mapsto> p)) = (m2, ws2)" by fastforce
  have inv1: "svc_inv (m1, ws(i \<mapsto> p))"
    using wait_ok_step [OF svc_invD(1) [OF assms(1)] b] assms(1) p by (auto simp: svc_inv_def m1_def)
  then have inv2: "svc_inv (m2, ws2)" "ws2 i = Some p"
    using keepsD [OF assms(4), of "(m1, ws(i \<mapsto> p))"] d by simp_all
  obtain m' where s': "s' = (m', ws2(i := None))"
    "(case a_branch a of None \<Rightarrow> Wait_recv i p m2 | Some c \<Rightarrow> Wait_ctx i p c m2) = Some (r, m')"
    using assms(5) by (auto simp: svc_wait_def b d Let_def bind_eq_Some_conv split: option.splits)
  have wait': "wait m' = (wait m2)(i := None)" "closed m' = closed m2"
    using s'(2) recv_wait ctx_wait by (auto split: option.splits)
  have "sys_inv s'"
    using s' return_step [OF svc_invD(1) [OF inv2(1)] inv2(2)] expire_step [OF svc_invD(1) [OF inv2(1)] inv2(2)]
    by (auto split: option.splits)
  then have "svc_inv s'" using inv2(1) by (auto simp: svc_inv_def s'(1) wait')
  moreover have "absent i s'" by (simp add: absent_def s'(1) wait')
  moreover have "absent j s'" if "keeps j (a_during a i)" "absent j (m, ws)" for j
  proof (cases "j = i")
    case False
    then have "absent j (m1, ws(i \<mapsto> p))" using that(2) by (simp add: absent_def m1_def)
    from keeps_absent [OF that(1) inv1 this] show ?thesis by (auto simp: absent_def s'(1) wait' d)
  qed (use \<open>absent i s'\<close> in simp)
  ultimately show ?thesis by blast
qed

text \<open>
  The ids of the sends from position \<open>n\<close> on, and a request's state when it returns: all its ids are
  gone, and without a successful send the manager's map and its waiters are those from before.
\<close>

definition ids_from :: "nat \<Rightarrow> 'r svc \<Rightarrow> u64 set" where
  "ids_from n s = (\<lambda>x. env_transaction_id (fst x)) ` set (drop n (s_sent s))"

definition same_sys :: "'r svc \<Rightarrow> 'r svc \<Rightarrow> bool" where
  "same_sys s s' \<longleftrightarrow> wait (fst (s_sys s')) = wait (fst (s_sys s)) \<and> snd (s_sys s') = snd (s_sys s)"

lemma same_absent: "same_sys s s' \<Longrightarrow> absent j (s_sys s') \<longleftrightarrow> absent j (s_sys s)"
  by (simp add: same_sys_def absent_def)

lemma svc_cancel_ok:
  assumes "svc_inv (s_sys s)" "snd (s_sys s) i = None" "svc_cancel i s = Some s'"
  shows "svc_inv (s_sys s') \<and> wait (fst (s_sys s')) = (wait (fst (s_sys s)))(i := None) \<and>
    snd (s_sys s') = snd (s_sys s) \<and> s_sent s' = s_sent s"
  using assms cancel_ok [of "fst (s_sys s)" "snd (s_sys s)" i] by (auto simp: svc_cancel_def)

text \<open>
  One attempt: it changes nothing, sends in vain and changes nothing, or sends and has waited.
\<close>

lemma svc_attempt_settled:
  assumes "svc_attempt route send req a c last_try ex s = Some (v, s')" "svc_inv (s_sys s)" "fair_env own a"
  shows "svc_inv (s_sys s') \<and>
    (same_sys s s' \<and> s_sent s' = s_sent s \<and> (\<exists>r. v = Return r) \<or>
     same_sys s s' \<and> (\<exists>x. s_sent s' = s_sent s @ [x] \<and> snd (snd x) \<noteq> None \<and>
        absent (env_transaction_id (fst x)) (s_sys s)) \<or>
     (\<exists>r. v = Return r) \<and> (\<exists>x. s_sent s' = s_sent s @ [x] \<and> snd (snd x) = None \<and>
        (\<forall>j. j = env_transaction_id (fst x) \<or> j \<in> own \<and> absent j (s_sys s) \<longrightarrow> absent j (s_sys s'))))"
proof -
  obtain m ws where sys: "s_sys s = (m, ws)" by fastforce
  have inv: "svc_inv (m, ws)" and acq: "acquirable (a_pid a m) m"
    using assms(2,3) sys inv_basic(6) [OF svc_invD(1), of m ws] by (auto simp: fair_env_def)
  have keep: "keeps j (a_between a i)" "keeps j (a_during a i)" if "j = i \<or> j \<in> own" for i j
    using assms(3) that by (auto simp: fair_env_def)
  obtain c' m1 where cr: "Manager_Create (a_pid a m) c m = Some (c', m1)"
    using assms(1) sys by (auto simp: svc_attempt_def bind_eq_Some_conv)
  show ?thesis
  proof (cases c')
    case (Inl err)
    then have "m1 = m" using create_err cr by simp
    then show ?thesis using assms(1) cr Inl sys inv by (auto simp: svc_attempt_def same_sys_def)
  next
    case (Inr i)
    have ok: "svc_inv (m1, ws)" "wait m1 = (wait m)(i \<mapsto> a_pid a m)" "wait m i = None" "ws i = None"
      using create_ok [OF inv acq] cr Inr by auto
    have undo: "(wait m1)(i := None) = wait m" using ok(2,3) by (simp add: fun_upd_idem)
    obtain n r' where rt: "route ex (req\<lparr>env_transaction_id := i\<rparr>) (s_router s) = (n, r')" by fastforce
    define s2 where "s2 = s\<lparr>s_sys := (m1, ws), s_router := r'\<rparr>"
    have cancelled: "svc_inv (s_sys t) \<and> same_sys s t \<and> s_sent t = s_sent u"
      if "svc_cancel i u = Some t" "s_sys u = (m1, ws)" for t u
      using svc_cancel_ok [OF _ _ that(1)] that(2) ok undo sys by (simp add: same_sys_def)
    show ?thesis
    proof (cases "\<exists>nd addr. n = Inr nd \<and> udpAddr nd = Inr addr")
      case False
      then obtain r where "svc_cancel i s2 = Some s'" "v = Return r"
        using assms(1) cr Inr rt sys by (cases n)
          (auto simp: svc_attempt_def Let_def s2_def split: sum.splits)
      then show ?thesis using cancelled [of s2 s'] by (simp add: s2_def)
    next
      case True
      then obtain nd addr where nd: "n = Inr nd" "udpAddr nd = Inr addr" by blast
      let ?e = "req\<lparr>env_transaction_id := i, env_destination_node_id := node_id nd\<rparr>"
      define s3 where "s3 = s2\<lparr>s_sent := s_sent s @ [(?e, addr, send ?e addr)]\<rparr>"
      have s3: "s_sent s3 = s_sent s @ [(?e, addr, send ?e addr)]" "s_sys s3 = (m1, ws)"
        by (simp_all add: s3_def s2_def)
      have abs: "absent i (s_sys s)" using ok(3,4) sys by (simp add: absent_def)
      show ?thesis
      proof (cases "send ?e addr")
        case (Some err)
        then have "svc_send_failed last_try i ex nd err s3 = Some (v, s')"
          using assms(1) cr Inr rt nd sys by (simp add: svc_attempt_def Let_def s3_def s2_def)
        then obtain t where t: "svc_cancel i (s3\<lparr>s_met := (s_met s3)\<lparr>t_send_errors := t_send_errors (s_met s3) + 1\<rparr>\<rparr>) = Some t"
            "s_sys s' = s_sys t" "s_sent s' = s_sent t"
          by (auto simp: svc_send_failed_def bind_eq_Some_conv split: if_splits)
        then show ?thesis using cancelled [OF t(1)] s3 Some abs by (auto simp: same_sys_def)
      next
        case None
        then have "svc_sent a i nd s3 = Some (v, s')"
          using assms(1) cr Inr rt nd sys by (simp add: svc_attempt_def Let_def s3_def s2_def)
        then obtain r sys' w where w: "svc_wait a i (a_between a i (m1, ws)) = Some (r, sys')" "s_sys s' = sys'"
            "s_sent s' = s_sent s3" "v = Return w"
          by (auto simp: svc_sent_def observeRouted_def bind_eq_Some_conv Let_def s3)
        obtain m4 ws4 where b: "a_between a i (m1, ws) = (m4, ws4)" by fastforce
        have inv4: "svc_inv (m4, ws4)" "ws4 i = None" "wait m4 i \<noteq> None \<or> closed m4"
          using keepsD [OF keep(1) [of i], of i "(m1, ws)"] ok b by auto
        note waited = svc_wait_ok [OF inv4(1,3,2) keep(2) w(1) [unfolded b]]
        have "absent j sys'" if "j \<in> own" "absent j (s_sys s)" "j \<noteq> i" for j
        proof -
          have "absent j (m1, ws)" using that(2,3) sys ok(2) by (simp add: absent_def)
          from keeps_absent [OF keep(1) ok(1) this, of i] that(1) b have "absent j (m4, ws4)" by auto
          then show ?thesis using waited keep(2) [of j i] that(1) by blast
        qed
        then show ?thesis using waited w(2-4) None s3 by auto
      qed
    qed
  qed
qed

text \<open>What holds when the loop returns, with \<open>n\<close> sends before the request.\<close>

definition settled :: "nat \<Rightarrow> 'r svc \<Rightarrow> 'r svc \<Rightarrow> bool" where
  "settled n s s' \<longleftrightarrow> svc_inv (s_sys s') \<and> (\<forall>j \<in> ids_from n s'. absent j (s_sys s')) \<and>
     ((\<forall>x \<in> set (drop n (s_sent s')). snd (snd x) \<noteq> None) \<longrightarrow> same_sys s s')"

lemma ids_from_same: "s_sent s' = s_sent s \<Longrightarrow> ids_from n s' = ids_from n s"
  by (simp add: ids_from_def)

lemma ids_from_snoc:
  "s_sent s' = s_sent s @ [x] \<Longrightarrow> n \<le> length (s_sent s) \<Longrightarrow>
   ids_from n s' = insert (env_transaction_id (fst x)) (ids_from n s)"
  by (simp add: ids_from_def)

lemma svc_loop_settled:
  assumes "svc_loop route send req as first ex le s = Some (res, s')" "svc_inv (s_sys s)"
    and "\<forall>a \<in> set as. fair_env (ids_from n s') a" "n \<le> length (s_sent s)"
    and "\<forall>j \<in> ids_from n s. absent j (s_sys s)" "\<forall>x \<in> set (drop n (s_sent s)). snd (snd x) \<noteq> None"
  shows "settled n s s' \<and> (\<exists>xs. s_sent s' = s_sent s @ xs)"
  using assms
proof (induction as arbitrary: first ex le s)
  case Nil
  then show ?case by (auto simp: settled_def same_sys_def)
next
  case (Cons a as)
  show ?case
  proof (cases "a_ctx a")
    case (Some err)
    then show ?thesis using Cons.prems by (auto simp: settled_def same_sys_def)
  next
    case None
    then obtain v s1 where at: "svc_attempt route send req a (if first then env_transaction_id req else 0)
        (as = []) ex s = Some (v, s1)"
      using Cons.prems(1) by (auto split: option.splits)
    have fair: "fair_env (ids_from n s') a" "\<forall>b \<in> set as. fair_env (ids_from n s') b" using Cons.prems(3) by auto
    note step = svc_attempt_settled [OF at Cons.prems(2) fair(1)]
    then obtain xs where xs: "s_sent s1 = s_sent s @ xs" by auto
    show ?thesis
    proof (cases v)
      case (Return r)
      then have "s1 = s'" using at None Cons.prems(1) by simp
      with step show ?thesis
      proof (elim conjE disjE exE)
        assume "same_sys s s1" "s_sent s1 = s_sent s" "svc_inv (s_sys s1)"
        then show ?thesis using \<open>s1 = s'\<close> Cons.prems(5)
          by (auto simp: settled_def ids_from_same [of s' s] same_absent [of s s'])
      next
        fix x assume "same_sys s s1" "s_sent s1 = s_sent s @ [x]" "svc_inv (s_sys s1)"
          "absent (env_transaction_id (fst x)) (s_sys s)"
        then show ?thesis using \<open>s1 = s'\<close> Cons.prems(4,5)
          by (auto simp: settled_def ids_from_snoc [of s' s x] same_absent [of s s'])
      next
        fix x assume sent: "s_sent s1 = s_sent s @ [x]" and inv: "svc_inv (s_sys s1)" "snd (snd x) = None"
          and off: "\<forall>j. j = env_transaction_id (fst x) \<or> j \<in> ids_from n s' \<and> absent j (s_sys s) \<longrightarrow> absent j (s_sys s1)"
        have ids: "ids_from n s' = insert (env_transaction_id (fst x)) (ids_from n s)"
          using ids_from_snoc [OF sent Cons.prems(4)] \<open>s1 = s'\<close> by simp
        have "absent j (s_sys s')" if "j \<in> ids_from n s'" for j
          using off [rule_format, of j] that Cons.prems(5) \<open>s1 = s'\<close> unfolding ids by blast
        moreover have "x \<in> set (drop n (s_sent s'))" using sent Cons.prems(4) \<open>s1 = s'\<close> by simp
        ultimately show ?thesis using inv sent \<open>s1 = s'\<close> unfolding settled_def by blast
      qed
    next
      case (Continue err ex')
      then have loop: "svc_loop route send req as False ex' (Some err) s1 = Some (res, s')"
        using at None Cons.prems(1) by simp
      from step Continue obtain x where x: "svc_inv (s_sys s1)" "same_sys s s1" "s_sent s1 = s_sent s @ [x]"
        "snd (snd x) \<noteq> None" "absent (env_transaction_id (fst x)) (s_sys s)" by auto
      have "settled n s1 s' \<and> (\<exists>xs. s_sent s' = s_sent s1 @ xs)"
        by (rule Cons.IH [OF loop x(1) fair(2)])
           (use x Cons.prems(4-6) in \<open>auto simp: ids_from_snoc [of s1 s x] same_absent [of s s1]\<close>)
      then show ?thesis using x(2,3) by (auto simp: settled_def same_sys_def)
    qed
  qed
qed

text \<open>
  C24: A request leaves no transaction behind, by whatever path it returns and whatever the router,
  the transport and the other goroutines did: no id of an envelope it sent, failed first attempt
  included, is pending or waited for any more; and when no send succeeded, the pending transactions
  and the waiters are exactly those from before, so ids it created without sending are gone as well.
  The calls on the manager are atomic here, and other goroutines leave the request's ids alone
  (deliveries to them and \<open>Close\<close> excepted).
\<close>

theorem request_leaves_no_transaction:
  assumes "request route send ctx0 req envs s = Some (res, s')" "svc_inv (s_sys s)"
    and "\<forall>a \<in> set envs. fair_env (ids_from (length (s_sent s)) s') a"
  shows "svc_inv (s_sys s') \<and>
    (\<forall>x \<in> set (drop (length (s_sent s)) (s_sent s')).
       wait (fst (s_sys s')) (env_transaction_id (fst x)) = None \<and>
       snd (s_sys s') (env_transaction_id (fst x)) = None) \<and>
    ((\<forall>x \<in> set (drop (length (s_sent s)) (s_sent s')). snd (snd x) \<noteq> None) \<longrightarrow>
       wait (fst (s_sys s')) = wait (fst (s_sys s)) \<and> snd (s_sys s') = snd (s_sys s))"
proof -
  have "s' = s \<or> (\<exists>e. svc_loop route send e (take maxRouteAttempts envs) True [] None s = Some (res, s'))"
    using assms(1) by (auto simp: request_def split: option.splits if_splits)
  moreover have "\<forall>a \<in> set (take maxRouteAttempts envs). fair_env (ids_from (length (s_sent s)) s') a"
    using assms(3) by (meson in_set_takeD)
  moreover have "settled (length (s_sent s)) s s" using assms(2) by (simp add: settled_def same_sys_def ids_from_def)
  ultimately have "settled (length (s_sent s)) s s'"
    using assms(2) svc_loop_settled [of route send _ _ True "[]" None s res s' "length (s_sent s)"]
    by (fastforce simp: ids_from_def)
  then show ?thesis by (auto simp: settled_def same_sys_def ids_from_def absent_def)
qed

text \<open>A waiter without a result is filled by the first \<open>finish\<close>, and \<open>Wait\<close> returns that result.\<close>

lemma finish_reaches_waiter:
  assumes "mgr_run idle evs (m, ws)" "ws i = Some p" "p_ch (obj m p) = None"
  shows "finish i r m = Some (None, fill p r m) \<and>
    (\<exists>m''. Wait_recv i p (count_finish None (fill p r m)) = Some (r, m''))"
proof -
  note inv = idle_run_inv [OF assms(1)]
  from inv_waiter [OF inv assms(2)] obtain pd where pd: "heap m p = Some pd" "p_ch pd = None \<longleftrightarrow> \<not> p_done pd"
    "wait m i = Some p \<and> \<not> closed m \<or> wait m i = None \<and> p_done pd" .
  have "\<not> p_done pd" using pd(1,2) assms(3) by simp
  then have "finish i r m = Some (None, fill p r m)"
    using finish_eq [OF inv, of i r] pd by auto
  moreover have "heap (count_finish None (fill p r m)) p = Some (pd\<lparr>p_done := True, p_ch := Some r\<rparr>)"
    using pd(1) by (simp add: count_finish_def fill_def)
  ultimately show ?thesis by (simp add: Wait_recv_def)
qed

lemma error_reaches_waiter:
  assumes "mgr_run idle evs (m, ws)" "ws (env_transaction_id e) = Some p" "p_ch (obj m p) = None"
    and "env_transaction_id e \<noteq> 0" "env_type e = MESSAGE_TYPE_ERROR"
  shows "\<exists>m' m''. OnResponse (Some e) m = Some (None, m') \<and>
    Wait_recv (env_transaction_id e) p m' = Some ((None, Some (LogicErrorFromProto (GetError e))), m'')"
  using finish_reaches_waiter [OF assms(1-3), of "(None, Some (LogicErrorFromProto (GetError e)))"] assms(4,5)
  by (simp add: OnResponse_def Manager_Fail_def Let_def)

lemma response_reaches_waiter:
  assumes "mgr_run idle evs (m, ws)" "ws (env_transaction_id e) = Some p" "p_ch (obj m p) = None"
    and "env_transaction_id e \<noteq> 0" "env_type e = MESSAGE_TYPE_DATA_RESPONSE"
  shows "\<exists>m' m''. OnResponse (Some e) m = Some (None, m') \<and>
    Wait_recv (env_transaction_id e) p m' = Some ((Some e, None), m'')"
  using finish_reaches_waiter [OF assms(1-3), of "(Some e, None)"] assms(4,5)
  by (simp add: OnResponse_def Manager_Complete_def)

text \<open>
  An ERROR envelope from Logic ends the wait: with a waiter that has no result yet it is
  accepted, and the waiter gets the \<open>LogicError\<close> with the envelope's code and message.
\<close>

theorem error_envelope_ends_wait:
  assumes "mgr_run idle evs (m, ws)" "ws (env_transaction_id e) = Some p" "p_ch (obj m p) = None"
    and "env_transaction_id e \<noteq> 0" "env_type e = MESSAGE_TYPE_ERROR" "GetError e = Some msg"
  shows "\<exists>m' m''. OnResponse (Some e) m = Some (None, m') \<and>
    Wait_recv (env_transaction_id e) p m' =
      Some ((None, Some (LogicError (em_code msg) (em_message msg))), m'')"
  using error_reaches_waiter [OF assms(1-5)] assms(6) by (simp add: LogicErrorFromProto_def)

section \<open>A concrete failover\<close>

definition w_send :: transport where
  "w_send e addr = (if env_destination_node_id e = 1 then Some (Opaque ''connection refused'') else None)"

definition w_attempt :: "pid \<Rightarrow> attempt" where
  "w_attempt p = \<lparr>a_ctx = None, a_pid = (\<lambda>m. p), a_between = (\<lambda>i s. s), a_during = (\<lambda>i s. s),
     a_branch = Some DeadlineExceeded\<rparr>"

definition w_svc :: "hash_state gw_router svc" where
  "w_svc = \<lparr>s_sys = idle, s_router = (w_empty, [([w_b2, w_b1], None), ([w_b2, w_b1], None)]), s_sent = [],
     s_met = \<lparr>t_send_errors = 0, t_failovers = 0, t_requests = 0, t_routed = []\<rparr>\<rparr>"

lemma w_id_bytes: "id_bytes 1 = [1, 0, 0, 0, 0, 0, 0, 0]" "id_bytes 2 = [2, 0, 0, 0, 0, 0, 0, 0]"
  by (simp_all add: id_bytes_def upt_rec Let_def)

lemma w_fps:
  "fp_ids [] = 14695981039346656037" "fp_ids [1] = 9929646806074584996"
  "fp_ids [2] = 16626593026977353223" "fp_ids [1, 2] = 8581494755304202342"
proof -
  have "fnv1a [] = 14695981039346656037" "fnv1a [1, 0, 0, 0, 0, 0, 0, 0] = 9929646806074584996"
    "fnv1a [2, 0, 0, 0, 0, 0, 0, 0] = 16626593026977353223"
    "fnv1a [1, 0, 0, 0, 0, 0, 0, 0, 2, 0, 0, 0, 0, 0, 0, 0] = 8581494755304202342"
    by code_simp+
  then show "fp_ids [] = 14695981039346656037" "fp_ids [1] = 9929646806074584996"
    "fp_ids [2] = 16626593026977353223" "fp_ids [1, 2] = 8581494755304202342"
    by (simp_all add: fp_ids_def w_id_bytes)
qed

lemma w_id_lists: "l \<in> id_lists {1, 2} \<Longrightarrow> l \<in> {[], [1], [2], [1, 2]}"
proof -
  assume l: "l \<in> id_lists {1, 2}"
  then have "set l \<in> Pow {1, 2}" and sd: "sorted l" "distinct l" by (simp_all add: id_lists_def)
  then have "set l \<in> {{}, {1}, {2}, {1, 2}}" by (simp only: Pow_insert Pow_empty) blast
  moreover have "l = m" if "set l = set m" "sorted m" "distinct m" for m
    using that sd sorted_distinct_set_unique by blast
  ultimately show ?thesis
    by (auto simp: word_le_nat_alt)
qed

lemma w_ch_ok: "ch_ok 1 {1, 2} (s_router w_svc)"
proof -
  have "inj_on fp_ids (id_lists {1, 2})"
    by (rule inj_onI) (auto dest!: w_id_lists simp: w_fps)
  then show ?thesis by (simp add: ch_ok_def w_svc_def w_empty_def)
qed

lemma w_addrs:
  "udpAddr w_b1 = Inr \<lparr>addr_ip = v4_mapped [10, 0, 0, 1], addr_port = 9000\<rparr>"
  "udpAddr w_b2 = Inr \<lparr>addr_ip = v4_mapped [10, 0, 0, 2], addr_port = 9000\<rparr>"
proof -
  have "ParseIP ''10.0.0.1'' = Some (v4_mapped [10, 0, 0, 1])" "ParseIP ''10.0.0.2'' = Some (v4_mapped [10, 0, 0, 2])"
    by code_simp+
  then show "udpAddr w_b1 = Inr \<lparr>addr_ip = v4_mapped [10, 0, 0, 1], addr_port = 9000\<rparr>"
    "udpAddr w_b2 = Inr \<lparr>addr_ip = v4_mapped [10, 0, 0, 2], addr_port = 9000\<rparr>"
    by (simp_all add: udpAddr_def w_backend_def)
qed

definition w_ring12 :: hash_state where
  "w_ring12 = \<lparr>cachedFP = nodesFingerprint [w_b1, w_b2], ring = Some (buildRing 1 [w_b1, w_b2])\<rparr>"

lemma w_data_tx [simp]:
  "requestedMessageID (w_data\<lparr>env_transaction_id := i\<rparr>) = Inr 42"
  "routingKey (w_data\<lparr>env_transaction_id := i\<rparr>) = ''s1''"
  by (simp_all add: w_data_def requestedMessageID_def routingKey_def)

lemma w_route1:
  "svc_route (ConsistentHash_Select 1) [] (w_data\<lparr>env_transaction_id := i\<rparr>) (s_router w_svc) =
     (Inr w_b1, (w_ring12, [([w_b2, w_b1], None)]))"
  by (simp add: w_svc_def Route_def RouteExcluding_def Let_def w_select [unfolded One_nat_def] w_ring12_def)

lemma w_route2:
  "\<exists>c. svc_route (ConsistentHash_Select 1) [1] (w_data\<lparr>env_transaction_id := i\<rparr>) (w_ring12, [([w_b2, w_b1], None)]) =
     (Inr w_b2, (c, []))"
proof -
  have "ring_coherent 1 w_ring12 [w_b2]"
    by (simp add: ring_coherent_def w_ring12_def fp_ids w_fps)
  from Select_coherent [OF this, of "''s1''"]
    ring_successor_mem [OF buildRing_nonempty [of 1 "[w_b2]"], of "hashString ''s1''"] set_buildRing [of 1 "[w_b2]"]
  show ?thesis by (simp add: RouteExcluding_def Let_def)
qed

definition w_svc1 :: "hash_state gw_router svc" where
  "w_svc1 = \<lparr>s_sys = (\<lparr>nextID = 1, closed = False, wait = Map.empty,
       heap = [0 \<mapsto> \<lparr>p_id = 1, p_ch = Some (None, Some (Sentinel (Context Canceled))), p_done = True, p_waiting = False\<rparr>],
       pool = [], met = \<lparr>c_pending = 0, c_created = 1, c_completed = 0, c_timeout = 0, c_not_found = 0\<rparr>\<rparr>, Map.empty),
     s_router = (w_ring12, [([w_b2, w_b1], None)]),
     s_sent = [(w_data\<lparr>env_transaction_id := 1, env_destination_node_id := 1\<rparr>,
       \<lparr>addr_ip = v4_mapped [10, 0, 0, 1], addr_port = 9000\<rparr>, Some (Opaque ''connection refused''))],
     s_met = \<lparr>t_send_errors = 1, t_failovers = 1, t_requests = 0, t_routed = []\<rparr>\<rparr>"

lemma w_attempt1:
  "svc_attempt (svc_route (ConsistentHash_Select 1)) w_send w_data (w_attempt 0) 0 False [] w_svc =
     Some (Continue (Opaque ''connection refused'') [1], w_svc1)"
proof -
  have c: "Manager_Create 0 0 NewManager = Some (Inr 1, w_mgr False None 0)"
    by (simp add: NewManager_def Manager_Create_def next_free.simps [of "Map.empty"]
        acquirePending_def w_mgr_def Let_def)
  have sys: "fst (s_sys w_svc) = NewManager" "snd (s_sys w_svc) = Map.empty" "a_pid (w_attempt 0) m = 0" for m
    by (simp_all add: w_svc_def idle_def w_attempt_def)
  have "svc_attempt (svc_route (ConsistentHash_Select 1)) w_send w_data (w_attempt 0) 0 False [] w_svc =
      svc_send_failed False 1 [] w_b1 (Opaque ''connection refused'')
        (w_svc\<lparr>s_sys := (w_mgr False None 0, Map.empty), s_router := (w_ring12, [([w_b2, w_b1], None)]),
          s_sent := s_sent w_svc @ [(w_data\<lparr>env_transaction_id := 1, env_destination_node_id := 1\<rparr>,
            \<lparr>addr_ip = v4_mapped [10, 0, 0, 1], addr_port = 9000\<rparr>, Some (Opaque ''connection refused''))]\<rparr>)"
    by (simp add: svc_attempt_def c sys w_route1 [unfolded One_nat_def] w_addrs Let_def w_send_def)
  also have "\<dots> = Some (Continue (Opaque ''connection refused'') [1], w_svc1)"
    by (simp add: svc_send_failed_def svc_cancel_def Manager_Cancel_def finish_def finish_lookup_def
        finish_deliver_def tryDeliver_def p_tryDeliver_def remove_def w_mgr_def w_svc_def w_svc1_def
        appendUnique_def Let_def)
  finally show ?thesis .
qed

lemma w_attempt2:
  "\<exists>s'. svc_attempt (svc_route (ConsistentHash_Select 1)) w_send w_data (w_attempt 1) 0 True [1] w_svc1 =
     Some (Return (Inl (Sentinel (Tx ErrTransactionTimeout))), s') \<and> length (s_sent s') = 2"
proof -
  obtain c where rt: "svc_route (ConsistentHash_Select 1) [1] (w_data\<lparr>env_transaction_id := 2\<rparr>)
      (w_ring12, [([w_b2, w_b1], None)]) = (Inr w_b2, (c, []))"
    using w_route2 by blast
  show ?thesis
    by (simp add: svc_attempt_def w_svc1_def w_attempt_def Manager_Create_def acquirePending_def
        next_free.simps [of "Map.empty"] rt [unfolded One_nat_def] w_addrs Let_def w_send_def
        svc_sent_def observeRouted_def svc_wait_def Wait_begin_def p_claimWait_def Wait_ctx_def finish_def
        finish_lookup_def finish_deliver_def tryDeliver_def p_tryDeliver_def Wait_recv_def
        del: svc_route.simps)
qed
lemma failover_only_on_send_error_witness:
  "\<exists>s'. request (svc_route (ConsistentHash_Select 1)) w_send None (Some w_data) [w_attempt 0, w_attempt 1] w_svc =
      Some (Inl (Sentinel (Tx ErrTransactionTimeout)), s') \<and>
    (\<exists>x y. s_sent s' = [x, y] \<and> snd (snd x) \<noteq> None \<and>
       env_destination_node_id (fst y) \<noteq> env_destination_node_id (fst x))"
proof -
  obtain s' where s': "svc_attempt (svc_route (ConsistentHash_Select 1)) w_send w_data (w_attempt 1) 0 True [1] w_svc1 =
     Some (Return (Inl (Sentinel (Tx ErrTransactionTimeout))), s')" "length (s_sent s') = 2"
    using w_attempt2 by blast
  have "env_transaction_id w_data = 0" "env_type w_data = MESSAGE_TYPE_DATA_REQUEST" "env_body w_data = Some (DataRequest \<lparr>dr_message_id = 42, dr_session_id = ''s1'', dr_payload = []\<rparr>)"
    "a_ctx (w_attempt p) = None" for p
    by (simp_all add: w_data_def w_attempt_def)
  then have run: "request (svc_route (ConsistentHash_Select 1)) w_send None (Some w_data) [w_attempt 0, w_attempt 1] w_svc =
      Some (Inl (Sentinel (Tx ErrTransactionTimeout)), s')"
    using s'(1) w_attempt1 by (simp add: request_def maxRouteAttempts_def)
  have "s_sent w_svc = []" by (simp add: w_svc_def)
  then show ?thesis
    using failover_only_on_send_error [of w_send None "Some w_data" "[w_attempt 0, w_attempt 1]", THEN conjunct2,
        rule_format, OF run w_ch_ok] s'(2) run
    by (auto simp: sends_at_most_twice_def)
qed

definition w_fair :: attempt where
  "w_fair = (w_attempt 0)\<lparr>a_pid := \<lambda>m. LEAST p. heap m p = None\<rparr>"

lemma w_fair: "fair_env own w_fair"
proof -
  have "acquirable (LEAST p. heap m p = None) m" if "finite (dom (heap m))" for m
  proof -
    obtain p where "p \<notin> dom (heap m)" using ex_new_if_finite [OF infinite_UNIV_nat \<open>finite (dom (heap m))\<close>] by blast
    then have "heap m p = None" by auto
    then have "heap m (LEAST p. heap m p = None) = None" by (rule LeastI)
    then show ?thesis by (simp add: acquirable_def)
  qed
  then show ?thesis by (simp add: fair_env_def w_fair_def w_attempt_def keeps_def)
qed

text \<open>An attempt uses its environment only through these fields.\<close>

lemma svc_attempt_env:
  assumes "a_pid a (fst (s_sys s)) = a_pid b (fst (s_sys s))" "a_between a = a_between b"
    "a_during a = a_during b" "a_branch a = a_branch b"
  shows "svc_attempt route send req a c last_try ex s = svc_attempt route send req b c last_try ex s"
proof -
  have "svc_wait a = svc_wait b"
    by (intro ext) (unfold svc_wait_def assms(3,4), rule refl)
  then have "svc_sent a = svc_sent b"
    by (intro ext) (unfold svc_sent_def assms(2), simp only:)
  show ?thesis unfolding svc_attempt_def assms(1) \<open>svc_sent a = svc_sent b\<close> ..
qed

lemma w_fair_pid: "a_pid w_fair (fst (s_sys w_svc)) = 0" "a_pid w_fair (fst (s_sys w_svc1)) = 1"
proof -
  show "a_pid w_fair (fst (s_sys w_svc)) = 0"
    by (simp add: w_fair_def w_svc_def idle_def NewManager_def)
  have "(LEAST p :: pid. p \<noteq> 0) = 1" by (rule Least_equality) auto
  then show "a_pid w_fair (fst (s_sys w_svc1)) = 1" by (simp add: w_fair_def w_svc1_def)
qed

text \<open>The first send fails, the second attempt times out: both ids are gone.\<close>

lemma request_leaves_no_transaction_witness:
  "\<exists>s'. request (svc_route (ConsistentHash_Select 1)) w_send None (Some w_data) [w_fair, w_fair] w_svc =
     Some (Inl (Sentinel (Tx ErrTransactionTimeout)), s') \<and> length (s_sent s') = 2 \<and>
     (\<forall>x \<in> set (s_sent s'). wait (fst (s_sys s')) (env_transaction_id (fst x)) = None)"
proof -
  obtain s' where s': "svc_attempt (svc_route (ConsistentHash_Select 1)) w_send w_data (w_attempt 1) 0 True [1] w_svc1 =
     Some (Return (Inl (Sentinel (Tx ErrTransactionTimeout))), s')" "length (s_sent s') = 2"
    using w_attempt2 by blast
  have env: "a_between w_fair = a_between (w_attempt p)" "a_during w_fair = a_during (w_attempt p)"
    "a_branch w_fair = a_branch (w_attempt p)" "a_pid (w_attempt p) m = p" for p m
    by (simp_all add: w_fair_def w_attempt_def)
  have at: "svc_attempt r w_send w_data w_fair 0 False [] w_svc = svc_attempt r w_send w_data (w_attempt 0) 0 False [] w_svc" for r
    by (rule svc_attempt_env [OF _ env(1-3)]) (simp only: w_fair_pid env(4))
  have at': "svc_attempt r w_send w_data w_fair 0 True [1] w_svc1 = svc_attempt r w_send w_data (w_attempt 1) 0 True [1] w_svc1" for r
    by (rule svc_attempt_env [OF _ env(1-3)]) (simp only: w_fair_pid env(4))
  have d: "env_transaction_id w_data = 0" "env_type w_data = MESSAGE_TYPE_DATA_REQUEST" "env_body w_data = Some (DataRequest \<lparr>dr_message_id = 42, dr_session_id = ''s1'', dr_payload = []\<rparr>)"
    "a_ctx w_fair = None"
    by (simp_all add: w_data_def w_fair_def w_attempt_def)
  then have run: "request (svc_route (ConsistentHash_Select 1)) w_send None (Some w_data) [w_fair, w_fair] w_svc =
      Some (Inl (Sentinel (Tx ErrTransactionTimeout)), s')"
    using s'(1) w_attempt1 at at' by (simp add: request_def maxRouteAttempts_def)
  have "svc_inv (s_sys w_svc)" "s_sent w_svc = []"
    using sys_inv_idle by (simp_all add: w_svc_def idle_def svc_inv_def)
  then show ?thesis using request_leaves_no_transaction [OF run] w_fair s'(2) run by auto
qed

lemma error_envelope_ends_wait_witness:
  "\<exists>m' m''. OnResponse (Some (ErrorEnvelope 0 7 (Some (w_data\<lparr>env_transaction_id := 1\<rparr>)) ERROR_CODE_OVERLOAD ''busy''))
       (fst w_waiting) = Some (None, m') \<and>
     Wait_recv 1 0 m' = Some ((None, Some (LogicError ERROR_CODE_OVERLOAD ''busy'')), m'')"
proof -
  let ?e = "ErrorEnvelope 0 7 (Some (w_data\<lparr>env_transaction_id := 1\<rparr>)) ERROR_CODE_OVERLOAD ''busy''"
  have "p_ch (obj (fst w_waiting) 0) = None" by (simp add: w_mgr_def)
  then show ?thesis
    using error_envelope_ends_wait [OF w_run2, of ?e 0 "\<lparr>em_code = ERROR_CODE_OVERLOAD, em_message = ''busy''\<rparr>"]
    by simp
qed

section \<open>\<open>Request\<close> and \<open>Close\<close>\<close>

text \<open>
  \<open>Request\<close> measures \<open>request\<close>: with a metrics sink every return is observed once, whatever the result.
  \<open>started\<close> and \<open>ended\<close> are the clock at the call and at the return.
\<close>

definition Service_Request ::
  "bool \<Rightarrow> time \<Rightarrow> time \<Rightarrow> 'r router \<Rightarrow> transport \<Rightarrow> ctx_err option \<Rightarrow> envelope option \<Rightarrow> attempt list \<Rightarrow> 'r svc \<Rightarrow>
   ((gerr + envelope option) \<times> 'r svc \<times> duration list) option" where
  "Service_Request has_met started ended route send ctx0 req envs s =
     (case request route send ctx0 req envs s of
        None \<Rightarrow> None
      | Some (res, s') \<Rightarrow> Some (res, s', if has_met then [time_sub ended started] else []))"

definition Service_Close :: "u64 list \<Rightarrow> manager option \<Rightarrow> manager option option" where
  "Service_Close order mgr =
     (case mgr of None \<Rightarrow> Some None | Some m \<Rightarrow> map_option Some (Manager_Close order m))"

text \<open>The box of the metrics sink: empty, or holding a sink that may itself be nil.\<close>

definition SetMetrics :: "'m option \<Rightarrow> 'm option option \<Rightarrow> 'm option option" where
  "SetMetrics sink box = Some sink"

definition metrics_of :: "'m option option \<Rightarrow> 'm option" where
  "metrics_of box = (case box of None \<Rightarrow> None | Some holder \<Rightarrow> holder)"

lemma metrics_of_set: "metrics_of (SetMetrics sink box) = sink" "metrics_of None = None"
  by (simp_all add: metrics_of_def SetMetrics_def)

lemma request_observed_once:
  "Service_Request True started ended route send ctx0 req envs s = Some (res, s', obs) \<Longrightarrow>
   request route send ctx0 req envs s = Some (res, s') \<and> length obs = 1"
  by (auto simp: Service_Request_def split: option.splits prod.splits)

end
