(* ===== verification/Dispatch.thy ===== *)
theory Dispatch imports Lifecycle TxService "HOL-Library.Sublist" begin

text \<open>
  \<open>internal/dispatch\<close>: the single consumer of the gateway's UDP transport.  \<open>handle\<close> routes one
  envelope to the registrar, the heartbeater, the completer or the outbound HTTP client and sends
  the reply; \<open>Run\<close> puts received envelopes on a bounded queue that a fixed number of workers
  drain.  The four collaborators and the transport's \<open>Send\<close> are interfaces in Go and fields of a
  record of operations here; \<open>gateway_ops\<close> is the wiring of the gateway.
\<close>

section \<open>Configuration\<close>

definition defaultInboundQueueSize :: int where "defaultInboundQueueSize = 8192"
definition defaultInboundWorkers :: int where "defaultInboundWorkers = 2"

record disp_config =
  InboundQueueSize :: int
  InboundWorkers :: int

definition disp_normalized :: "disp_config \<Rightarrow> disp_config" where
  "disp_normalized c =
     \<lparr>InboundQueueSize = (if InboundQueueSize c \<le> 0 then defaultInboundQueueSize else InboundQueueSize c),
      InboundWorkers = (if InboundWorkers c \<le> 0 then defaultInboundWorkers else InboundWorkers c)\<rparr>"

text \<open>\<open>New\<close>, with each collaborator given as present or nil.\<close>

definition NewDispatcher ::
  "u32 \<Rightarrow> bool \<Rightarrow> bool \<Rightarrow> bool \<Rightarrow> bool \<Rightarrow> disp_config \<Rightarrow> disp_config res" where
  "NewDispatcher nodeID has_tr has_reg has_hb has_tx cfg =
     (if nodeID = 0 then Inl (Opaque ''dispatcher node_id must be > 0'')
      else if \<not> has_tr then Inl (Opaque ''dispatcher transport is required'')
      else if \<not> has_reg then Inl (Opaque ''dispatcher registrar is required'')
      else if \<not> has_hb then Inl (Opaque ''dispatcher heartbeater is required'')
      else if \<not> has_tx then Inl (Opaque ''dispatcher completer is required'')
      else Inr (disp_normalized cfg))"

section \<open>State and collaborators\<close>

record disp_counters =
  n_udp_rx :: int
  n_udp_tx :: int
  n_receive_error :: int
  n_data_response_rx :: int
  n_logic_registered :: int
  n_heartbeat_success :: int
  n_queue_full :: int
  n_dropped :: int

record 's disp =
  d_state :: 's
  d_sent :: "(envelope \<times> udp_addr option) list"
  d_met :: disp_counters

text \<open>
  \<open>op_outbound\<close> is \<open>None\<close> when the outbound client is nil or not configured.  \<open>op_tx\<close> may block
  (\<open>None\<close>).  \<open>op_now\<close> is the time \<open>protocol.Reply\<close> reads.
\<close>

record 's disp_ops =
  op_register :: "register_request option \<Rightarrow> 's \<Rightarrow> (register_response \<times> gerr option) \<times> 's"
  op_heartbeat :: "heartbeat_request option \<Rightarrow> 's \<Rightarrow> heartbeat_response res \<times> 's"
  op_tx :: "envelope \<Rightarrow> 's \<Rightarrow> (gerr option \<times> 's) option"
  op_outbound :: "(envelope \<Rightarrow> data_response res) option"
  op_send :: "envelope \<Rightarrow> udp_addr option \<Rightarrow> gerr option"
  op_now :: time
  op_node :: u32

section \<open>Sending\<close>

definition d_send :: "'s disp_ops \<Rightarrow> envelope \<Rightarrow> udp_addr option \<Rightarrow> 's disp \<Rightarrow> 's disp" where
  "d_send ops env to s =
     (let s1 = s\<lparr>d_sent := d_sent s @ [(env, to)]\<rparr> in
      case op_send ops env to of
        Some err \<Rightarrow> s1
      | None \<Rightarrow> s1\<lparr>d_met := (d_met s1)\<lparr>n_udp_tx := n_udp_tx (d_met s1) + 1\<rparr>\<rparr>)"

definition d_sendError ::
  "'s disp_ops \<Rightarrow> udp_addr option \<Rightarrow> envelope option \<Rightarrow> error_code \<Rightarrow> string \<Rightarrow> 's disp \<Rightarrow> 's disp" where
  "d_sendError ops to inn code message s =
     (if to = None then s
      else d_send ops (ErrorEnvelope (op_now ops) (op_node ops) inn code message) to s)"

section \<open>Timeout errors\<close>

definition isTimeoutErr :: "gerr option \<Rightarrow> bool" where
  "isTimeoutErr err =
     (case err of
        None \<Rightarrow> False
      | Some e \<Rightarrow>
          if err_is (Context DeadlineExceeded) e then True
          else let s = to_lower (error_text e) in contains s ''timeout'' \<or> contains s ''deadline exceeded'')"

section \<open>The handlers\<close>

definition onRegister :: "'s disp_ops \<Rightarrow> envelope \<Rightarrow> udp_addr option \<Rightarrow> 's disp \<Rightarrow> 's disp" where
  "onRegister ops env src s =
     (let ((resp, err), st) = op_register ops (GetRegisterRequest env) (d_state s);
          s1 = s\<lparr>d_state := st\<rparr>;
          s2 = (case err of
                  Some e \<Rightarrow> s1
                | None \<Rightarrow> if rp_accepted resp
                    then s1\<lparr>d_met := (d_met s1)\<lparr>n_logic_registered := n_logic_registered (d_met s1) + 1\<rparr>\<rparr>
                    else s1);
          out = (Reply (op_now ops) (op_node ops) (Some env) MESSAGE_TYPE_REGISTER_RESPONSE)
                  \<lparr>env_body := Some (RegisterResponse resp)\<rparr>
      in d_send ops out src s2)"

definition onHeartbeat :: "'s disp_ops \<Rightarrow> envelope \<Rightarrow> udp_addr option \<Rightarrow> 's disp \<Rightarrow> 's disp" where
  "onHeartbeat ops env src s =
     (case op_heartbeat ops (GetHeartbeatRequest env) (d_state s) of
        (Inl err, st) \<Rightarrow>
          d_sendError ops src (Some env) ERROR_CODE_NODE_NOT_AVAILABLE (error_text err) (s\<lparr>d_state := st\<rparr>)
      | (Inr resp, st) \<Rightarrow>
          let s1 = s\<lparr>d_state := st, d_met := (d_met s)\<lparr>n_heartbeat_success := n_heartbeat_success (d_met s) + 1\<rparr>\<rparr>;
              out = (Reply (op_now ops) (op_node ops) (Some env) MESSAGE_TYPE_HEARTBEAT_RESPONSE)
                      \<lparr>env_body := Some (HeartbeatResponse resp)\<rparr>
          in d_send ops out src s1)"

definition onDataRequest :: "'s disp_ops \<Rightarrow> envelope \<Rightarrow> udp_addr option \<Rightarrow> 's disp \<Rightarrow> 's disp" where
  "onDataRequest ops env src s =
     (case op_outbound ops of
        None \<Rightarrow> d_sendError ops src (Some env) ERROR_CODE_NO_ROUTING_TARGET
                  ''outbound remote URL is not configured'' s
      | Some forward \<Rightarrow>
         (case forward env of
            Inl err \<Rightarrow>
              d_sendError ops src (Some env)
                (if err_is (Context DeadlineExceeded) err \<or> isTimeoutErr (Some err)
                 then ERROR_CODE_TIMEOUT else ERROR_CODE_NODE_NOT_AVAILABLE)
                (error_text err) s
          | Inr data \<Rightarrow>
              d_send ops (DataResponseEnvelope (op_now ops) (op_node ops) (Some env)
                            (dp_message_id data) (dp_status data) (dp_payload data)) src s))"

text \<open>
  \<open>handle\<close> returns whether it gave the envelope back to the pool (\<open>udp.ReleaseEnvelope\<close>).  The
  goroutine of a DATA_REQUEST is run to its end.
\<close>

definition handle :: "'s disp_ops \<Rightarrow> envelope option \<Rightarrow> udp_addr option \<Rightarrow> 's disp \<Rightarrow> (bool \<times> 's disp) option" where
  "handle ops env src s =
     (case env of
        None \<Rightarrow> Some (False, s)
      | Some e \<Rightarrow>
         (case env_type e of
            MESSAGE_TYPE_REGISTER_REQUEST \<Rightarrow> Some (True, onRegister ops e src s)
          | MESSAGE_TYPE_HEARTBEAT_REQUEST \<Rightarrow> Some (True, onHeartbeat ops e src s)
          | MESSAGE_TYPE_HEARTBEAT_RESPONSE \<Rightarrow> Some (True, s)
          | MESSAGE_TYPE_DATA_RESPONSE \<Rightarrow> do {
              (err, st) \<leftarrow> op_tx ops e (d_state s);
              Some (err \<noteq> None, s\<lparr>d_state := st,
                d_met := (d_met s)\<lparr>n_data_response_rx := n_data_response_rx (d_met s) + 1\<rparr>\<rparr>)
            }
          | MESSAGE_TYPE_ERROR \<Rightarrow> do {
              (err, st) \<leftarrow> op_tx ops e (d_state s);
              Some (err \<noteq> None, s\<lparr>d_state := st,
                d_met := (d_met s)\<lparr>n_data_response_rx := n_data_response_rx (d_met s) + 1\<rparr>\<rparr>)
            }
          | MESSAGE_TYPE_DATA_REQUEST \<Rightarrow> Some (True, onDataRequest ops e src s)
          | _ \<Rightarrow> Some (True, d_sendError ops src (Some e) ERROR_CODE_INVALID_MESSAGE ''unsupported message type'' s)))"

section \<open>The receive loop\<close>

text \<open>\<open>rateLimitLog\<close>: at most one warning per interval; \<open>prev\<close> is the shared time stamp.\<close>

definition rateLimitLog :: "int \<Rightarrow> duration \<Rightarrow> int \<Rightarrow> bool \<times> int" where
  "rateLimitLog now every prev = (if now - prev < every then (False, prev) else (True, now))"

type_synonym inboundMsg = "envelope \<times> udp_addr option"

text \<open>The dispatcher in operation: queue and envelopes taken by a worker, oldest first.\<close>

record 's disp_run =
  q_disp :: "'s disp"
  q_queue :: "inboundMsg list"
  q_busy :: "inboundMsg list"

datatype received = Envelope envelope "udp_addr option" | ReceiveErr gerr "udp_addr option"

text \<open>The body of \<open>Run\<close>'s loop after \<open>Receive\<close>: go on with a state, or return an error.\<close>

definition run_received ::
  "'s disp_ops \<Rightarrow> nat \<Rightarrow> received \<Rightarrow> 's disp_run \<Rightarrow> gerr option \<times> 's disp_run" where
  "run_received ops queueSize r s =
     (let d = q_disp s; m = d_met d in
      case r of
        ReceiveErr err src \<Rightarrow>
          if err_is (Context Canceled) err \<or> err_is (Context DeadlineExceeded) err \<or> err_is (Udp ErrTransportClosed) err
          then (Some err, s)
          else if err_is (Udp ErrInvalidMessage) err
          then (None, s\<lparr>q_disp := d_sendError ops src None ERROR_CODE_INVALID_MESSAGE (error_text err)
                   (d\<lparr>d_met := m\<lparr>n_udp_rx := n_udp_rx m + 1, n_receive_error := n_receive_error m + 1\<rparr>\<rparr>)\<rparr>)
          else (Some err, s\<lparr>q_disp := d\<lparr>d_met := m\<lparr>n_receive_error := n_receive_error m + 1\<rparr>\<rparr>\<rparr>)
      | Envelope env src \<Rightarrow>
          let d1 = d\<lparr>d_met := m\<lparr>n_udp_rx := n_udp_rx m + 1\<rparr>\<rparr>; m1 = d_met d1 in
          if length (q_queue s) < queueSize
          then (None, s\<lparr>q_disp := d1, q_queue := q_queue s @ [(env, src)]\<rparr>)
          else (None, s\<lparr>q_disp := d1\<lparr>d_met := m1\<lparr>n_queue_full := n_queue_full m1 + 1, n_dropped := n_dropped m1 + 1\<rparr>\<rparr>\<rparr>))"

text \<open>Receive loop and workers interleave; a worker's \<open>handle\<close> takes effect when it ends.\<close>

datatype run_event = EvReceive received | EvTake inboundMsg | EvDone inboundMsg bool

inductive run_step :: "'s disp_ops \<Rightarrow> nat \<Rightarrow> nat \<Rightarrow> 's disp_run \<Rightarrow> run_event \<Rightarrow> 's disp_run \<Rightarrow> bool"
  for ops queueSize workers where
  receive: "run_received ops queueSize r s = (None, s') \<Longrightarrow> run_step ops queueSize workers s (EvReceive r) s'"
| take: "q_queue s = msg # rest \<Longrightarrow> length (q_busy s) < workers \<Longrightarrow>
         run_step ops queueSize workers s (EvTake msg) (s\<lparr>q_queue := rest, q_busy := q_busy s @ [msg]\<rparr>)"
| finish: "msg \<in> set (q_busy s) \<Longrightarrow> handle ops (Some (fst msg)) (snd msg) (q_disp s) = Some (b, d) \<Longrightarrow>
         run_step ops queueSize workers s (EvDone msg b) (s\<lparr>q_disp := d, q_busy := remove1 msg (q_busy s)\<rparr>)"

inductive run_steps :: "'s disp_ops \<Rightarrow> nat \<Rightarrow> nat \<Rightarrow> 's disp_run \<Rightarrow> run_event list \<Rightarrow> 's disp_run \<Rightarrow> bool"
  for ops queueSize workers where
  nil: "run_steps ops queueSize workers s [] s"
| snoc: "run_steps ops queueSize workers s evs s1 \<Longrightarrow> run_step ops queueSize workers s1 ev s2 \<Longrightarrow>
         run_steps ops queueSize workers s (evs @ [ev]) s2"

section \<open>The gateway's wiring\<close>

text \<open>Registry, transaction manager; both services on their in-memory stores.\<close>

definition gateway_ops ::
  "time \<Rightarrow> u32 \<Rightarrow> (envelope \<Rightarrow> data_response res) option \<Rightarrow> (envelope \<Rightarrow> udp_addr option \<Rightarrow> gerr option) \<Rightarrow>
   (memory \<times> manager) disp_ops" where
  "gateway_ops now nodeID outbound send =
     \<lparr>op_register = \<lambda>req (m, t). let (r, m') = Memory_Service_Register now req m in (r, (m', t)),
      op_heartbeat = \<lambda>req (m, t). let (r, m') = Memory_Handle now req m in (r, (m', t)),
      op_tx = \<lambda>env (m, t). map_option (\<lambda>(e, t'). (e, (m, t'))) (OnResponse (Some env) t),
      op_outbound = outbound, op_send = send, op_now = now, op_node = nodeID\<rparr>"

section \<open>Replies\<close>

definition reply_type :: "message_type \<Rightarrow> bool" where
  "reply_type t \<longleftrightarrow> t \<in> {MESSAGE_TYPE_REGISTER_RESPONSE, MESSAGE_TYPE_HEARTBEAT_RESPONSE,
     MESSAGE_TYPE_DATA_RESPONSE, MESSAGE_TYPE_ERROR}"

definition answers :: "u32 \<Rightarrow> envelope \<Rightarrow> envelope \<Rightarrow> bool" where
  "answers self e r \<longleftrightarrow> env_transaction_id r = env_transaction_id e \<and> env_trace_id r = env_trace_id e \<and>
     env_destination_node_id r = env_source_node_id e \<and> env_source_node_id r = self \<and> reply_type (env_type r)"

lemma d_send_sent [simp]: "d_sent (d_send ops env to s) = d_sent s @ [(env, to)]"
  by (simp add: d_send_def Let_def split: option.split)

lemma d_send_state [simp]: "d_state (d_send ops env to s) = d_state s"
  by (simp add: d_send_def Let_def split: option.split)

lemma d_sendError_state [simp]: "d_state (d_sendError ops to i c m s) = d_state s"
  by (simp add: d_sendError_def)

lemma d_sendError_sent:
  "d_sent (d_sendError ops to i c m s) =
     d_sent s @ (if to = None then [] else [(ErrorEnvelope (op_now ops) (op_node ops) i c m, to)])"
  by (simp add: d_sendError_def)

lemma answers_Reply [simp]:
  "reply_type t \<Longrightarrow> answers n e ((Reply now n (Some e) t)\<lparr>env_body := b\<rparr>)"
  by (simp add: answers_def)

lemma answers_Error [simp]: "answers n e (ErrorEnvelope now n (Some e) c m)"
  by (simp add: ErrorEnvelope_def reply_type_def)

lemma answers_Data [simp]: "answers n e (DataResponseEnvelope now n (Some e) i st pl)"
  by (simp add: DataResponseEnvelope_def reply_type_def)

lemma handle_sent:
  assumes "handle ops (Some e) src s = Some (b, s')"
  shows "d_sent s' = d_sent s \<or> (\<exists>r. d_sent s' = d_sent s @ [(r, src)] \<and> answers (op_node ops) e r \<and>
    env_type e \<noteq> MESSAGE_TYPE_ERROR \<and> env_type e \<noteq> MESSAGE_TYPE_DATA_RESPONSE \<and>
    env_type e \<noteq> MESSAGE_TYPE_HEARTBEAT_RESPONSE \<and>
    (reply_type (env_type e) \<longrightarrow> env_type r = MESSAGE_TYPE_ERROR))"
  using assms
  by (cases "env_type e")
     (auto simp: handle_def onRegister_def onHeartbeat_def onDataRequest_def d_sendError_sent bind_eq_Some_conv
        reply_type_def case_prod_beta Let_def answers_Reply [unfolded reply_type_def]
        split: option.splits sum.splits if_splits)

text \<open>
  The dispatcher answers an envelope at most once, to the address it came from, and the answer
  carries the envelope's transaction id and trace id, is addressed to its source node and is of a
  reply type.
\<close>

theorem handle_answers_once:
  assumes "handle ops (Some e) src s = Some (b, s')"
  shows "d_sent s' = d_sent s \<or> (\<exists>r. d_sent s' = d_sent s @ [(r, src)] \<and> answers (op_node ops) e r)"
  using handle_sent [OF assms] by auto

text \<open>
  No reply storm: between dispatchers a chain of answers to an envelope has at most two links;
  the answer to an answer is an ERROR, and an ERROR is never answered, whatever node handles it.
\<close>

theorem reply_chain_stops:
  assumes "handle ops1 (Some e) a1 s1 = Some (b1, s1')" "d_sent s1' = d_sent s1 @ [(r1, x1)]"
    and "handle ops2 (Some r1) a2 s2 = Some (b2, s2')" "d_sent s2' = d_sent s2 @ [(r2, x2)]"
    and "handle ops3 (Some r2) a3 s3 = Some (b3, s3')"
  shows "env_type r2 = MESSAGE_TYPE_ERROR \<and> d_sent s3' = d_sent s3"
proof -
  have "reply_type (env_type r1)" using handle_sent [OF assms(1)] assms(2) by (auto simp: answers_def)
  then have "env_type r2 = MESSAGE_TYPE_ERROR" using handle_sent [OF assms(3)] assms(4) by auto
  then show ?thesis using handle_sent [OF assms(5)] by auto
qed

section \<open>Ownership of a response\<close>

text \<open>
  Ownership of a DATA_RESPONSE in the gateway: the envelope is either handed to the waiter of
  its transaction and kept out of the pool, or released with the manager's waiters untouched; never
  both and never neither.
\<close>

theorem data_response_ownership:
  assumes "handle (gateway_ops now n ob snd_op) (Some e) src s = Some (released, s')"
    and "env_type e = MESSAGE_TYPE_DATA_RESPONSE" "d_state s = (mem, t)" "sys_inv (t, ws)"
  shows "\<exists>t'. d_state s' = (mem, t') \<and>
    (if released then heap t' = heap t \<and> wait t' = wait t
     else \<exists>p. wait t (env_transaction_id e) = Some p \<and> p_ch (obj t p) = None \<and> p_ch (obj t' p) = Some (Some e, None))"
proof -
  obtain err t' where o: "OnResponse (Some e) t = Some (err, t')" "released = (err \<noteq> None)" "d_state s' = (mem, t')"
    using assms(1-3) by (auto simp: handle_def gateway_ops_def bind_eq_Some_conv)
  show ?thesis
  proof (cases "env_transaction_id e = 0")
    case True
    then show ?thesis using o by (auto simp: OnResponse_def)
  next
    case False
    then obtain t1 where f: "finish (env_transaction_id e) (Some e, None) t = Some (err, t1)" "t' = count_finish err t1"
      using o(1) assms(2) by (auto simp: OnResponse_def Manager_Complete_def bind_eq_Some_conv)
    have keep: "heap (count_finish x y) = heap y" "wait (count_finish x y) = wait y" for x y
      by (simp_all add: count_finish_def split: option.split)
    show ?thesis
      using assms(4) f(1)
    proof (cases rule: finish_cases)
      case (rejected x)
      then show ?thesis using o f(2) keep by simp
    next
      case (filled p w)
      moreover have "p_ch (obj t p) = None"
        using inv_wait [OF assms(4) filled(3)] filled(6,7) filled(3) by (auto simp: spec_of_def split: option.splits)
      moreover have "p_ch (obj (fill p (Some e, None) t) p) = Some (Some e, None)" by (simp add: fill_def)
      ultimately show ?thesis using o f(2) keep by simp
    qed
  qed
qed

section \<open>Registration over UDP\<close>

lemma register_handled:
  assumes "handle (gateway_ops now n ob snd_op) (Some e) src s = Some (b, s')"
    and "env_type e = MESSAGE_TYPE_REGISTER_REQUEST" "env_body e = Some (RegisterRequest r)"
    and "d_state s = (mem, t)" "reg_wf mem"
  shows "\<exists>mem' out resp. d_state s' = (mem', t) \<and> d_sent s' = d_sent s @ [(out, src)] \<and> answers n e out \<and>
    env_type out = MESSAGE_TYPE_REGISTER_RESPONSE \<and> env_body out = Some (RegisterResponse resp) \<and> rp_assigned_node_id resp = rr_node_id r \<and>
    (rp_accepted resp \<longleftrightarrow> well_formed_request r) \<and> reg_wf mem' \<and>
    mem' = (if well_formed_request r then mem(rr_node_id r \<mapsto> stored_node now r) else mem)"
proof -
  obtain resp err mem' where reg: "Memory_Service_Register now (Some r) mem = ((resp, err), mem')"
    by (metis prod.exhaust)
  let ?out = "(Reply now n (Some e) MESSAGE_TYPE_REGISTER_RESPONSE)\<lparr>env_body := Some (RegisterResponse resp)\<rparr>"
  have h: "d_state s' = (mem', t)" "d_sent s' = d_sent s @ [(?out, src)]"
    using assms(1-4) reg
    by (auto simp: handle_def onRegister_def gateway_ops_def Let_def split: option.splits)
  have *: "rp_assigned_node_id resp = rr_node_id r \<and> (rp_accepted resp \<longleftrightarrow> well_formed_request r) \<and>
    mem' = (if well_formed_request r then mem(rr_node_id r \<mapsto> stored_node now r) else mem)"
  proof (cases "well_formed_request r")
    case True
    from mem_reg.service_accepts [OF assms(5) True, of now] reg
    have "rp_assigned_node_id resp = rr_node_id r" "rp_accepted resp"
      "mem' (rr_node_id r) = Some (stored_node now r)" "\<forall>j. j \<noteq> rr_node_id r \<longrightarrow> mem' j = mem j"
      by (auto simp: Memory_Service_Register_def Memory_Get_def)
    then show ?thesis using True by (auto simp: fun_eq_iff)
  next
    case False
    from mem_reg.service_rejects [OF False, of now mem] reg show ?thesis
      using False by (auto simp: Memory_Service_Register_def failResponse_def)
  qed
  have "reg_wf mem'" using Memory_Service_Register_wf [OF assms(5), of now "Some r"] reg by simp
  then show ?thesis using h * by (auto simp: reply_type_def)
qed

text \<open>
  A REGISTER envelope at the gateway: a well-formed request is stored as a REGISTERED node under
  its id and answered with an accepted response, any other leaves the registry as it is and is
  answered with a rejection; other nodes' entries and the transactions are never touched.
\<close>

theorem register_envelope:
  assumes "handle (gateway_ops now n ob snd_op) (Some e) src s = Some (b, s')"
    and "env_type e = MESSAGE_TYPE_REGISTER_REQUEST" "env_body e = Some (RegisterRequest r)"
    and "d_state s = (mem, t)" "reg_wf mem"
  shows "\<exists>mem' out resp. d_state s' = (mem', t) \<and> d_sent s' = d_sent s @ [(out, src)] \<and> answers n e out \<and>
    env_type out = MESSAGE_TYPE_REGISTER_RESPONSE \<and> env_body out = Some (RegisterResponse resp) \<and> rp_assigned_node_id resp = rr_node_id r \<and>
    (rp_accepted resp \<longleftrightarrow> well_formed_request r) \<and> reg_wf mem' \<and>
    mem' = (if well_formed_request r then mem(rr_node_id r \<mapsto> stored_node now r) else mem)"
  using register_handled [OF assms] .

section \<open>The inbound queue\<close>

fun rx :: "run_event list \<Rightarrow> inboundMsg list" where
  "rx [] = []"
| "rx (EvReceive (Envelope e a) # evs) = (e, a) # rx evs"
| "rx (ev # evs) = rx evs"

fun taken :: "run_event list \<Rightarrow> inboundMsg list" where
  "taken [] = []"
| "taken (EvTake msg # evs) = msg # taken evs"
| "taken (ev # evs) = taken evs"

fun finished :: "run_event list \<Rightarrow> nat" where
  "finished [] = 0"
| "finished (EvDone msg b # evs) = Suc (finished evs)"
| "finished (ev # evs) = finished evs"

lemma rx_snoc: "rx (evs @ [ev]) = rx evs @ rx [ev]"
  by (induction evs rule: rx.induct) auto

lemma taken_snoc: "taken (evs @ [ev]) = taken evs @ taken [ev]"
  by (induction evs rule: taken.induct) auto

lemma finished_snoc: "finished (evs @ [ev]) = finished evs + finished [ev]"
  by (induction evs rule: finished.induct) auto

lemma handle_dropped:
  "handle ops e a d = Some (b, d') \<Longrightarrow> n_dropped (d_met d') = n_dropped (d_met d)"
  by (auto simp: handle_def onRegister_def onHeartbeat_def onDataRequest_def d_sendError_def d_send_def
      bind_eq_Some_conv case_prod_beta Let_def split: option.splits sum.splits if_splits message_type.splits)

definition run_start :: "'s disp \<Rightarrow> 's disp_run" where
  "run_start d = \<lparr>q_disp = d, q_queue = [], q_busy = []\<rparr>"

lemma run_queue:
  assumes "run_steps ops queueSize workers s0 evs s" "s0 = run_start d"
  shows "length (q_queue s) \<le> queueSize \<and> length (q_busy s) \<le> workers \<and>
    subseq (taken evs @ q_queue s) (rx evs) \<and>
    int (length (rx evs)) = int (length (taken evs @ q_queue s)) + (n_dropped (d_met (q_disp s)) - n_dropped (d_met d)) \<and>
    length (taken evs) = finished evs + length (q_busy s)"
  using assms
proof (induction rule: run_steps.induct)
  case (snoc s evs s1 ev s2)
  note IH = snoc.IH [OF snoc.prems]
  from snoc.hyps(2) show ?case
  proof (cases rule: run_step.cases)
    case (receive r)
    show ?thesis
    proof (cases r)
      case (Envelope e a)
      then show ?thesis using receive IH
        by (auto simp: run_received_def Let_def rx_snoc taken_snoc finished_snoc subseq_append'
            split: if_splits intro: list_emb_append_mono list_emb_append2 simp flip: append_assoc)
    next
      case (ReceiveErr err a)
      then show ?thesis using receive IH
        by (auto simp: run_received_def Let_def rx_snoc taken_snoc finished_snoc d_sendError_def d_send_def
            split: if_splits option.splits)
    qed
  next
    case (take msg rest)
    then show ?thesis using IH by (auto simp: rx_snoc taken_snoc finished_snoc)
  next
    case (finish msg b d')
    have "length (remove1 msg (q_busy s1)) = length (q_busy s1) - 1" "length (q_busy s1) > 0"
      using finish(3) by (auto simp: length_remove1 length_pos_if_in_set)
    then show ?thesis using finish IH handle_dropped [OF finish(4)]
      by (auto simp: rx_snoc taken_snoc finished_snoc)
  qed
qed (simp add: run_start_def)

text \<open>
  The inbound queue: in every run the queue never exceeds its capacity and at most the
  configured number of workers is busy; the workers take envelopes in the order of their arrival;
  and every received envelope is finished, in a worker, in the queue, or counted as dropped.
\<close>

theorem inbound_queue:
  assumes "run_steps ops queueSize workers (run_start d) evs s"
  shows "length (q_queue s) \<le> queueSize \<and> length (q_busy s) \<le> workers \<and>
    subseq (taken evs @ q_queue s) (rx evs) \<and>
    int (length (rx evs)) = int (finished evs + length (q_busy s) + length (q_queue s)) +
      (n_dropped (d_met (q_disp s)) - n_dropped (d_met d))"
  using run_queue [OF assms refl] by simp

text \<open>
  A malformed datagram never stops the dispatcher: it is counted, answered with an
  INVALID_MESSAGE error when its source is known, and the loop goes on; only a cancelled context,
  a closed transport or an unknown receive error ends it.
\<close>

theorem malformed_continues:
  assumes "err_is (Udp ErrInvalidMessage) err"
  shows "\<exists>s'. run_received ops queueSize (ReceiveErr err src) s = (None, s') \<and>
    q_queue s' = q_queue s \<and> q_busy s' = q_busy s \<and> d_state (q_disp s') = d_state (q_disp s) \<and>
    d_sent (q_disp s') = d_sent (q_disp s) @ (if src = None then []
      else [(ErrorEnvelope (op_now ops) (op_node ops) None ERROR_CODE_INVALID_MESSAGE (error_text err), src)]) \<and>
    n_receive_error (d_met (q_disp s')) = n_receive_error (d_met (q_disp s)) + 1"
proof -
  have "\<not> err_is (Context Canceled) err" "\<not> err_is (Context DeadlineExceeded) err" "\<not> err_is (Udp ErrTransportClosed) err"
    using err_is_unique [OF assms] by auto
  then show ?thesis using assms
    by (simp add: run_received_def Let_def d_sendError_def d_send_def split: option.split)
qed

section \<open>A concrete dispatcher\<close>

definition w_ops :: "(memory \<times> manager) disp_ops" where
  "w_ops = gateway_ops 0 1 None (\<lambda>env to. None)"

definition w_disp :: "manager \<Rightarrow> (memory \<times> manager) disp" where
  "w_disp t = \<lparr>d_state = (NewMemory, t), d_sent = [],
     d_met = \<lparr>n_udp_rx = 0, n_udp_tx = 0, n_receive_error = 0, n_data_response_rx = 0, n_logic_registered = 0,
              n_heartbeat_success = 0, n_queue_full = 0, n_dropped = 0\<rparr>\<rparr>"

definition w_src :: "udp_addr option" where
  "w_src = Some \<lparr>addr_ip = v4_mapped [10, 0, 0, 7], addr_port = 9000\<rparr>"

definition w_register :: envelope where
  "w_register = \<lparr>env_version = 1, env_type = MESSAGE_TYPE_REGISTER_REQUEST, env_source_node_id = 7,
     env_destination_node_id = 1, env_transaction_id = 5, env_timestamp_ms = 0, env_trace_id = ''t'',
     env_body = Some (RegisterRequest w_request)\<rparr>"

lemma w_register_fields [simp]:
  "env_type w_register = MESSAGE_TYPE_REGISTER_REQUEST" "env_body w_register = Some (RegisterRequest w_request)"
  by (simp_all add: w_register_def)

lemma handle_register:
  "env_type e = MESSAGE_TYPE_REGISTER_REQUEST \<Longrightarrow> handle ops (Some e) src s = Some (True, onRegister ops e src s)"
  by (simp add: handle_def)

lemma register_envelope_witness:
  "\<exists>s' mem'. handle w_ops (Some w_register) w_src (w_disp NewManager) = Some (True, s') \<and>
     d_state s' = (mem', NewManager) \<and> mem' = NewMemory(7 \<mapsto> stored_node 0 w_request)"
proof -
  let ?s' = "onRegister w_ops w_register w_src (w_disp NewManager)"
  have h: "handle (gateway_ops 0 1 None (\<lambda>env to. None)) (Some w_register) w_src (w_disp NewManager) = Some (True, ?s')"
    by (simp add: handle_register w_ops_def)
  from register_envelope [OF h, of w_request NewMemory NewManager]
  show ?thesis
    using w_request_ok reg_wf_NewMemory handle_register [of w_register w_ops w_src "w_disp NewManager"]
    by (auto simp: w_disp_def w_request_def)
qed

lemma handle_answers_once_witness:
  "\<exists>s'. handle w_ops (Some w_register) w_src (w_disp NewManager) = Some (True, s') \<and>
     (d_sent s' = [] \<or> (\<exists>r. d_sent s' = [(r, w_src)] \<and> answers (op_node w_ops) w_register r))"
  using handle_answers_once [OF handle_register [of w_register w_ops w_src "w_disp NewManager"]]
    handle_register [of w_register w_ops w_src "w_disp NewManager"]
  by (simp add: w_disp_def)

lemma reply_chain_stops_witness:
  "\<exists>r1 r2 s. d_sent (onRegister w_ops w_register w_src (w_disp NewManager)) = [(r1, w_src)] \<and>
     handle w_ops (Some r1) w_src (w_disp NewManager) =
       Some (True, d_sendError w_ops w_src (Some r1) ERROR_CODE_INVALID_MESSAGE ''unsupported message type'' (w_disp NewManager)) \<and>
     handle w_ops (Some r2) w_src (w_disp NewManager) = Some (True, s) \<and>
     env_type r2 = MESSAGE_TYPE_ERROR \<and> d_sent s = d_sent (w_disp NewManager)"
proof -
  let ?d = "w_disp NewManager"
  obtain resp err mem' where reg: "Memory_Service_Register 0 (Some w_request) NewMemory = ((resp, err), mem')"
    by (metis prod.exhaust)
  define r1 where "r1 = (Reply 0 1 (Some w_register) MESSAGE_TYPE_REGISTER_RESPONSE)\<lparr>env_body := Some (RegisterResponse resp)\<rparr>"
  have s1: "d_sent (onRegister w_ops w_register w_src ?d) = d_sent ?d @ [(r1, w_src)]"
    using reg by (simp add: onRegister_def w_ops_def gateway_ops_def w_disp_def r1_def Let_def split: option.split)
  have h2: "handle w_ops (Some r1) w_src ?d =
      Some (True, d_sendError w_ops w_src (Some r1) ERROR_CODE_INVALID_MESSAGE ''unsupported message type'' ?d)"
    by (simp add: handle_def r1_def)
  define r2 where "r2 = ErrorEnvelope (op_now w_ops) (op_node w_ops) (Some r1) ERROR_CODE_INVALID_MESSAGE ''unsupported message type''"
  have s2: "d_sent (d_sendError w_ops w_src (Some r1) ERROR_CODE_INVALID_MESSAGE ''unsupported message type'' ?d) =
      d_sent ?d @ [(r2, w_src)]"
    by (simp add: d_sendError_def r2_def w_src_def)
  have "env_transaction_id r2 = 5" by (simp add: r2_def r1_def w_register_def)
  then have "\<exists>s. handle w_ops (Some r2) w_src ?d = Some (True, s)"
    by (simp add: handle_def r2_def w_ops_def gateway_ops_def w_disp_def OnResponse_def Manager_Fail_def Let_def
        finish_def finish_lookup_def NewManager_def)
  then obtain s where h3: "handle w_ops (Some r2) w_src ?d = Some (True, s)" by blast
  from reply_chain_stops [OF handle_register s1 h2 s2 h3] h2 h3 s1 show ?thesis
    by (intro exI [of _ r1] exI [of _ r2] exI [of _ s]) (simp add: w_disp_def)
qed

lemma data_response_ownership_witness:
  "\<exists>s' t'. handle w_ops (Some (w_env\<lparr>env_transaction_id := 1\<rparr>)) w_src (w_disp (fst w_waiting)) = Some (False, s') \<and>
     d_state s' = (NewMemory, t') \<and> p_ch (obj t' 0) = Some (Some (w_env\<lparr>env_transaction_id := 1\<rparr>), None)"
proof -
  let ?e = "w_env\<lparr>env_transaction_id := 1\<rparr>"
  have t: "env_type ?e = MESSAGE_TYPE_DATA_RESPONSE" by (simp add: w_env_def)
  have "OnResponse (Some ?e) (fst w_waiting) \<noteq> None \<and> fst (the (OnResponse (Some ?e) (fst w_waiting))) = None"
    using t by (simp add: OnResponse_def Manager_Complete_def finish_def finish_lookup_def finish_deliver_def
        tryDeliver_def p_tryDeliver_def w_mgr_def)
  then obtain t1 where "OnResponse (Some ?e) (fst w_waiting) = Some (None, t1)"
    by (cases "OnResponse (Some ?e) (fst w_waiting)") auto
  then have "\<exists>s'. handle w_ops (Some ?e) w_src (w_disp (fst w_waiting)) = Some (False, s')"
    using t by (simp add: handle_def w_ops_def gateway_ops_def w_disp_def)
  then obtain s' where h: "handle (gateway_ops 0 1 None (\<lambda>env to. None)) (Some ?e) w_src (w_disp (fst w_waiting)) = Some (False, s')"
    by (auto simp: w_ops_def)
  from data_response_ownership [OF h t, of NewMemory "fst w_waiting" "snd w_waiting"] idle_run_inv [OF w_run2] h
  show ?thesis by (auto simp: w_disp_def w_ops_def w_mgr_def)
qed

lemma inbound_queue_witness:
  "\<exists>s. run_steps w_ops 1 2 (run_start (w_disp NewManager))
         ([] @ [EvReceive (Envelope w_data None)] @ [EvReceive (Envelope w_register None)]) s \<and>
       length (q_queue s) \<le> 1 \<and> n_dropped (d_met (q_disp s)) = 1"
proof -
  let ?s0 = "run_start (w_disp NewManager)"
  define s1 where "s1 = snd (run_received w_ops 1 (Envelope w_data None) ?s0)"
  define s2 where "s2 = snd (run_received w_ops 1 (Envelope w_register None) s1)"
  have "run_received w_ops 1 (Envelope w_data None) ?s0 = (None, s1)"
    "run_received w_ops 1 (Envelope w_register None) s1 = (None, s2)"
    by (simp_all add: s1_def s2_def run_received_def Let_def)
  then have "run_steps w_ops 1 2 ?s0 ([] @ [EvReceive (Envelope w_data None)]) s1"
    and st: "run_step w_ops 1 2 s1 (EvReceive (Envelope w_register None)) s2"
    by (intro run_steps.snoc [OF run_steps.nil] run_step.receive; simp)+
  from run_steps.snoc [OF this] have
    run: "run_steps w_ops 1 2 ?s0 ([] @ [EvReceive (Envelope w_data None)] @ [EvReceive (Envelope w_register None)]) s2"
    by simp
  have q: "q_queue s2 = [(w_data, None)]" "q_busy s2 = []"
    by (simp_all add: s1_def s2_def run_received_def Let_def run_start_def)
  from inbound_queue [OF run] run show ?thesis by (auto simp: q w_disp_def)
qed

lemma malformed_continues_witness:
  "\<exists>s'. run_received w_ops 4 (ReceiveErr (errorf (Udp ErrInvalidMessage) [Lit ''bad'']) w_src) (run_start (w_disp NewManager)) = (None, s') \<and>
     n_receive_error (d_met (q_disp s')) = 1"
  using malformed_continues [of "errorf (Udp ErrInvalidMessage) [Lit ''bad'']" w_ops 4 w_src "run_start (w_disp NewManager)"]
  by (auto simp: run_start_def w_disp_def)

section \<open>What the dispatcher logs\<close>

text \<open>
  The accessors of the log lines; \<open>show_addr\<close> is \<open>net.UDPAddr.String\<close>, \<open>type_name\<close> and \<open>code_name\<close> are the
  generated names of the enums.
\<close>

definition addrString :: "(udp_addr \<Rightarrow> string) \<Rightarrow> udp_addr option \<Rightarrow> string" where
  "addrString show_addr a = (case a of None \<Rightarrow> '''' | Some x \<Rightarrow> show_addr x)"

definition dataResponsePayload :: "envelope option \<Rightarrow> bytes" where
  "dataResponsePayload env =
     (case env of None \<Rightarrow> [] | Some e \<Rightarrow> (case GetDataResponse e of None \<Rightarrow> [] | Some r \<Rightarrow> dp_payload r))"

definition dataResponseStatus :: "envelope option \<Rightarrow> u32" where
  "dataResponseStatus env =
     (case env of None \<Rightarrow> 0 | Some e \<Rightarrow> (case GetDataResponse e of None \<Rightarrow> 0 | Some r \<Rightarrow> dp_status r))"

definition heartbeatResponseSequence :: "envelope option \<Rightarrow> u64" where
  "heartbeatResponseSequence env =
     (case env of None \<Rightarrow> 0 | Some e \<Rightarrow> (case GetHeartbeatResponse e of None \<Rightarrow> 0 | Some r \<Rightarrow> hp_sequence r))"

definition errorEnvelopeCode :: "(error_code \<Rightarrow> string) \<Rightarrow> envelope option \<Rightarrow> string" where
  "errorEnvelopeCode code_name env =
     (case env of None \<Rightarrow> '''' | Some e \<Rightarrow> (case GetError e of None \<Rightarrow> '''' | Some r \<Rightarrow> code_name (em_code r)))"

definition errorEnvelopeMessage :: "envelope option \<Rightarrow> string" where
  "errorEnvelopeMessage env =
     (case env of None \<Rightarrow> '''' | Some e \<Rightarrow> (case GetError e of None \<Rightarrow> '''' | Some r \<Rightarrow> em_message r))"

definition envelopeType :: "(message_type \<Rightarrow> string) \<Rightarrow> envelope option \<Rightarrow> string" where
  "envelopeType type_name env = (case env of None \<Rightarrow> '''' | Some e \<Rightarrow> type_name (env_type e))"

definition envelopeTxID :: "envelope option \<Rightarrow> u64" where
  "envelopeTxID env = (case env of None \<Rightarrow> 0 | Some e \<Rightarrow> env_transaction_id e)"

text \<open>The log of an answer shows what the answer carries.\<close>

lemma log_of_answers:
  "dataResponsePayload (Some (DataResponseEnvelope now n inn mid st body)) = body"
  "dataResponseStatus (Some (DataResponseEnvelope now n inn mid st body)) = st"
  "errorEnvelopeCode cn (Some (ErrorEnvelope now n inn code msg)) = cn code"
  "errorEnvelopeMessage (Some (ErrorEnvelope now n inn code msg)) = msg"
  "envelopeTxID (Some (ErrorEnvelope now n (Some e) code msg)) = env_transaction_id e"
  "envelopeTxID (Some (DataResponseEnvelope now n (Some e) mid st body)) = env_transaction_id e"
  "envelopeType tn (Some (ErrorEnvelope now n inn code msg)) = tn MESSAGE_TYPE_ERROR"
  by (simp_all add: dataResponsePayload_def dataResponseStatus_def errorEnvelopeCode_def errorEnvelopeMessage_def
      envelopeTxID_def envelopeType_def DataResponseEnvelope_def ErrorEnvelope_def Reply_def Let_def split: option.split)

end
