(* ===== verification/LogicLife.thy ===== *)
theory LogicLife imports LogicNode Lifecycle Dispatch begin

text \<open>
  A registered Logic node against the gateway's registry: what the node sends once it has been
  accepted, and what that can do to its entry.  The registry events an envelope causes are those of
  the dispatcher (\<open>handle_life\<close>).
\<close>

section \<open>The registry events of an envelope\<close>

fun event_of :: "time \<Rightarrow> envelope \<Rightarrow> life_event option" where
  "event_of now e =
     (if env_type e = MESSAGE_TYPE_REGISTER_REQUEST then Some (EvRegister now (GetRegisterRequest e))
      else if env_type e = MESSAGE_TYPE_HEARTBEAT_REQUEST then Some (EvHeartbeat now (GetHeartbeatRequest e))
      else None)"

lemma onRegister_memory:
  assumes "d_state d = (m, t)"
  shows "fst (d_state (onRegister (gateway_ops now n ob so) e src d)) =
    snd (Memory_Service_Register now (GetRegisterRequest e) m)"
  using assms
  by (cases "Memory_Service_Register now (GetRegisterRequest e) m")
     (auto simp: onRegister_def gateway_ops_def Let_def split: option.split prod.split)

lemma onHeartbeat_memory:
  assumes "d_state d = (m, t)"
  shows "fst (d_state (onHeartbeat (gateway_ops now n ob so) e src d)) =
    snd (Memory_Handle now (GetHeartbeatRequest e) m)"
  using assms
  by (cases "Memory_Handle now (GetHeartbeatRequest e) m")
     (auto simp: onHeartbeat_def gateway_ops_def Let_def split: sum.split)

lemma onDataRequest_memory: "d_state (onDataRequest ops e src d) = d_state d"
  by (auto simp: onDataRequest_def split: option.split sum.split)

lemma handle_life:
  assumes "handle (gateway_ops now n ob so) (Some e) src d = Some (b, d')" "d_state d = (m, t)"
  shows "case event_of now e of
      Some ev \<Rightarrow> life_step cfg m ev (fst (d_state d'))
    | None \<Rightarrow> fst (d_state d') = m"
proof (cases "env_type e")
  case MESSAGE_TYPE_REGISTER_REQUEST
  then have "d' = onRegister (gateway_ops now n ob so) e src d" using assms(1) by (simp add: handle_def)
  then show ?thesis
    using MESSAGE_TYPE_REGISTER_REQUEST onRegister_memory [OF assms(2)] by (simp add: life_step.register)
next
  case MESSAGE_TYPE_HEARTBEAT_REQUEST
  then have "d' = onHeartbeat (gateway_ops now n ob so) e src d" using assms(1) by (simp add: handle_def)
  then show ?thesis
    using MESSAGE_TYPE_HEARTBEAT_REQUEST onHeartbeat_memory [OF assms(2)] by (simp add: life_step.heartbeat)
next
  case MESSAGE_TYPE_DATA_REQUEST
  then show ?thesis using assms by (auto simp: handle_def onDataRequest_memory)
next
  case MESSAGE_TYPE_DATA_RESPONSE
  then show ?thesis
    using assms by (auto simp: handle_def gateway_ops_def split: prod.splits Option.bind_splits)
next
  case MESSAGE_TYPE_ERROR
  then show ?thesis
    using assms by (auto simp: handle_def gateway_ops_def split: prod.splits Option.bind_splits)
qed (use assms in \<open>auto simp: handle_def\<close>)

section \<open>What an accepted node sends\<close>

definition new_sends :: "logic \<Rightarrow> logic \<Rightarrow> (envelope \<times> udp_addr option) list" where
  "new_sends s s' = drop (length (lg_sent s)) (lg_sent s')"

lemma handleBusiness_type: "env_type (handleBusiness now n e m) \<noteq> MESSAGE_TYPE_REGISTER_REQUEST"
  by (simp add: handleBusiness_def echoResponse_def logic_envelope_def case_prod_beta Let_def)

lemma step_sends:
  assumes "logic_step le s ev s'"
  shows "\<exists>xs. lg_sent s' = lg_sent s @ xs \<and> (\<forall>x \<in> set xs. env_type (fst x) \<noteq> MESSAGE_TYPE_REGISTER_REQUEST)"
  using assms
proof (cases rule: logic_step.cases)
  case (receive now r)
  show ?thesis
  proof (cases r)
    case (Inl err)
    then show ?thesis using receive by (auto simp: receive_step_def split: if_splits)
  next
    case (Inr x)
    obtain e src where x: "x = (e, src)" by (cases x)
    then have s': "s' = handleIncoming le now (Some e) src s" using receive Inr by (simp add: receive_step_def)
    show ?thesis
    proof (cases "env_type e = MESSAGE_TYPE_DATA_REQUEST")
      case True
      then show ?thesis
        by (auto simp: s' handleIncoming_def on_data_request_def Let_def split: prod.split)
    next
      case False
      then show ?thesis
        by (auto simp: s' handleIncoming_def Let_def split: message_type.split option.split)
    qed
  qed
next
  case (take j rest)
  then show ?thesis by (auto simp: worker_take_def data_start_def Let_def)
next
  case (finish j now d)
  then show ?thesis
    using handleBusiness_type by (auto simp: worker_finish_def data_finish_def Let_def)
next
  case (heartbeat now)
  then show ?thesis by (auto simp: sendHeartbeat_def logic_envelope_def Let_def)
qed auto

lemma run_sends:
  "logic_run le s evs s' \<Longrightarrow>
   \<exists>xs. lg_sent s' = lg_sent s @ xs \<and> (\<forall>x \<in> set xs. env_type (fst x) \<noteq> MESSAGE_TYPE_REGISTER_REQUEST)"
proof (induction rule: logic_run.induct)
  case (snoc s evs s1 ev s2)
  then obtain xs where "lg_sent s1 = lg_sent s @ xs" "\<forall>x \<in> set xs. env_type (fst x) \<noteq> MESSAGE_TYPE_REGISTER_REQUEST"
    by blast
  moreover obtain ys where "lg_sent s2 = lg_sent s1 @ ys" "\<forall>x \<in> set ys. env_type (fst x) \<noteq> MESSAGE_TYPE_REGISTER_REQUEST"
    using step_sends [OF snoc.hyps(2)] by blast
  ultimately have "lg_sent s2 = lg_sent s @ (xs @ ys) \<and>
      (\<forall>x \<in> set (xs @ ys). env_type (fst x) \<noteq> MESSAGE_TYPE_REGISTER_REQUEST)" by auto
  then show ?case by blast
qed auto

text \<open>
  C5: A Logic node the gateway has declared dead is lost for good: the node registers only when it
  starts, so nothing it sends afterwards, in any order, delayed or repeated, brings its DEAD entry
  back, whatever the other nodes do; and the ERROR the gateway answers its heartbeats with leaves
  the node as it is.
\<close>

theorem dead_logic_stays_dead:
  assumes "logic_run le s evs s'" "life_run cfg m gevs m'" "reg_wf m" "m (le_node le) = Some n" "State n = NodeStateDead"
    and "\<forall>ev \<in> set gevs. \<not> registers (le_node le) ev \<or> (\<exists>now. \<exists>x \<in> set (new_sends s s'). event_of now (fst x) = Some ev)"
    and "env_type r = MESSAGE_TYPE_ERROR"
  shows "m' (le_node le) = Some n \<and> handleIncoming le now (Some r) src s' = s'"
proof -
  obtain xs where xs: "lg_sent s' = lg_sent s @ xs" "\<forall>x \<in> set xs. env_type (fst x) \<noteq> MESSAGE_TYPE_REGISTER_REQUEST"
    using run_sends [OF assms(1)] by blast
  then have "new_sends s s' = xs" by (simp add: new_sends_def)
  then have "\<forall>ev \<in> set gevs. \<not> registers (le_node le) ev"
    using assms(6) xs(2) by (fastforce split: if_splits)
  then have "m' (le_node le) = Some n" by (rule dead_run [OF assms(2-5)])
  then show ?thesis using assms(7) by (simp add: handleIncoming_def)
qed

definition w_dead :: node where
  "w_dead = (stored_node 0 w_request)\<lparr>node_id := le_node w_lenv, State := NodeStateDead\<rparr>"

theorem dead_logic_stays_dead_witness:
  "\<exists>s' ev m'. logic_run w_lenv (logic_start 1) [LHeartbeat 9] s' \<and> event_of 9 (fst (last (lg_sent s'))) = Some ev \<and>
     life_run w_cfg [le_node w_lenv \<mapsto> w_dead] [ev] m' \<and> m' (le_node w_lenv) = Some w_dead"
proof -
  let ?s = "snd (sendHeartbeat w_lenv 9 (logic_start 1))"
  let ?e = "fst (last (lg_sent ?s))" and ?m = "[le_node w_lenv \<mapsto> w_dead]"
  have run: "logic_run w_lenv (logic_start 1) ([] @ [LHeartbeat 9]) ?s"
    by (rule logic_run.snoc [OF logic_run.nil logic_step.heartbeat])
  have sends: "new_sends (logic_start 1) ?s = [last (lg_sent ?s)]"
    by (simp add: new_sends_def sendHeartbeat_def Let_def logic_start_def)
  have ev: "event_of 9 ?e = Some (EvHeartbeat 9 (GetHeartbeatRequest ?e))"
    by (simp add: sendHeartbeat_def Let_def logic_envelope_def)
  let ?m' = "snd (Memory_Handle 9 (GetHeartbeatRequest ?e) ?m)"
  have life: "life_run w_cfg ?m [EvHeartbeat 9 (GetHeartbeatRequest ?e)] ?m'"
    by (simp add: life_step.heartbeat)
  have wf: "reg_wf ?m" by (simp add: reg_wf_def w_dead_def w_lenv_def)
  have err: "env_type (ErrorEnvelope 0 1 None ERROR_CODE_NODE_NOT_AVAILABLE []) = MESSAGE_TYPE_ERROR" by simp
  have "?m' (le_node w_lenv) = Some w_dead"
    using dead_logic_stays_dead [OF run life wf _ _ _ err, of w_dead] sends ev by (simp add: w_dead_def)
  then show ?thesis
    using run ev life
    by (intro exI [of _ ?s] exI [of _ "EvHeartbeat 9 (GetHeartbeatRequest ?e)"] exI [of _ ?m'] conjI) simp_all
qed

end
