(* ===== verification/Supervise.thy ===== *)
theory Supervise imports Errors begin

text \<open>
  How a process runs its goroutines: the second half of \<open>gateway.Run\<close> and \<open>master.Run\<close>.  Each
  component is a goroutine that reports a failure on the buffered channel \<open>errCh\<close> and then cancels
  the run's context; \<open>Run\<close> selects between that channel and the context's end, makes its shutdown
  calls in order, waits for the goroutines and returns.  A component is the result it returns
  with, at a time the environment chooses.
\<close>

section \<open>The supervisor\<close>

datatype shutdown_call = ShutdownHTTP | CloseUDP | CloseTx | CancelRun

text \<open>
  \<open>su_reports\<close>: per goroutine, what it puts on the channel when its component returned an error
  (\<open>None\<close>: the error is ignored); \<open>su_cap\<close>: the capacity of \<open>errCh\<close>; \<open>su_calls\<close>: the calls between
  the \<open>select\<close> and \<open>wg.Wait\<close>.
\<close>

record supervisor =
  su_reports :: "(gerr \<Rightarrow> gerr option) list"
  su_cap :: nat
  su_calls :: "shutdown_call list"

text \<open>A goroutine: in its component, about to send on \<open>errCh\<close>, about to call \<open>cancel\<close>, ended.\<close>

datatype routine = Serving | Sending gerr | Cancelling | Gone

text \<open>
  \<open>Run\<close>: before the \<open>select\<close>, waiting in it, in its context case before \<open>ctx.Err()\<close> is read, in the
  shutdown calls (then in \<open>wg.Wait\<close>), returned.
\<close>

datatype main_point = Starting | Selecting | CtxCase | Stopping "gerr option" "shutdown_call list" | RunReturned "gerr option"

record sup =
  sv_parent :: "ctx_err option" \<comment> \<open>\<open>ctx.Err()\<close> of the context \<open>Run\<close> got\<close>
  sv_cancelled :: bool \<comment> \<open>\<open>runCtx\<close> has ended\<close>
  sv_errCh :: "gerr list"
  sv_routines :: "routine list"
  sv_main :: main_point
  sv_calls :: "shutdown_call list"

definition sup_start :: "supervisor \<Rightarrow> sup" where
  "sup_start sp = \<lparr>sv_parent = None, sv_cancelled = False, sv_errCh = [],
     sv_routines = replicate (length (su_reports sp)) Serving, sv_main = Starting, sv_calls = []\<rparr>"

definition routine_to :: "nat \<Rightarrow> routine \<Rightarrow> sup \<Rightarrow> sup" where
  "routine_to i r s = s\<lparr>sv_routines := (sv_routines s)[i := r]\<rparr>"

definition routine_at :: "nat \<Rightarrow> routine \<Rightarrow> sup \<Rightarrow> bool" where
  "routine_at i r s \<longleftrightarrow> i < length (sv_routines s) \<and> sv_routines s ! i = r"

text \<open>The component of goroutine \<open>i\<close> returns \<open>err\<close>.\<close>

definition sup_finish :: "supervisor \<Rightarrow> nat \<Rightarrow> gerr option \<Rightarrow> sup \<Rightarrow> sup" where
  "sup_finish sp i err s =
     (case err of
        None \<Rightarrow> routine_to i Gone s
      | Some e \<Rightarrow> (case (su_reports sp ! i) e of None \<Rightarrow> routine_to i Gone s | Some e' \<Rightarrow> routine_to i (Sending e') s))"

text \<open>
  A send to a channel somebody waits on hands the value over; the end of the context wakes a
  waiting \<open>Run\<close> in its context case.
\<close>

definition sup_send :: "supervisor \<Rightarrow> gerr \<Rightarrow> sup \<Rightarrow> sup" where
  "sup_send sp e s =
     (if sv_main s = Selecting then s\<lparr>sv_main := Stopping (Some e) (su_calls sp)\<rparr>
      else s\<lparr>sv_errCh := sv_errCh s @ [e]\<rparr>)"

definition end_context :: "sup \<Rightarrow> sup" where
  "end_context s = s\<lparr>sv_cancelled := True, sv_main := (if sv_main s = Selecting then CtxCase else sv_main s)\<rparr>"

definition sup_call :: "shutdown_call \<Rightarrow> shutdown_call list \<Rightarrow> gerr option \<Rightarrow> sup \<Rightarrow> sup" where
  "sup_call c cs r s =
     (let s1 = s\<lparr>sv_main := Stopping r cs, sv_calls := sv_calls s @ [c]\<rparr>
      in if c = CancelRun then end_context s1 else s1)"

datatype sup_event =
    Finish nat "gerr option" | Send nat | Cancel nat | ParentEnd ctx_err
  | TakeCtx | TakeErr | Wait | ReadCtx | ShutCall shutdown_call | Return

inductive sup_step :: "supervisor \<Rightarrow> sup \<Rightarrow> sup_event \<Rightarrow> sup \<Rightarrow> bool" for sp where
  finish: "routine_at i Serving s \<Longrightarrow> sup_step sp s (Finish i err) (sup_finish sp i err s)"
| send: "routine_at i (Sending e) s \<Longrightarrow> sv_main s = Selecting \<or> length (sv_errCh s) < su_cap sp \<Longrightarrow>
    sup_step sp s (Send i) (sup_send sp e (routine_to i Cancelling s))"
| cancel: "routine_at i Cancelling s \<Longrightarrow> sup_step sp s (Cancel i) (end_context (routine_to i Gone s))"
| parent: "sv_parent s = None \<Longrightarrow> sup_step sp s (ParentEnd e) (end_context (s\<lparr>sv_parent := Some e\<rparr>))"
| take_ctx: "sv_main s = Starting \<Longrightarrow> sv_cancelled s \<Longrightarrow> sup_step sp s TakeCtx (s\<lparr>sv_main := CtxCase\<rparr>)"
| take_err: "sv_main s = Starting \<Longrightarrow> sv_errCh s = e # rest \<Longrightarrow>
    sup_step sp s TakeErr (s\<lparr>sv_main := Stopping (Some e) (su_calls sp), sv_errCh := rest\<rparr>)"
| wait: "sv_main s = Starting \<Longrightarrow> \<not> sv_cancelled s \<Longrightarrow> sv_errCh s = [] \<Longrightarrow> sup_step sp s Wait (s\<lparr>sv_main := Selecting\<rparr>)"
| read_ctx: "sv_main s = CtxCase \<Longrightarrow>
    sup_step sp s ReadCtx (s\<lparr>sv_main := Stopping (map_option (\<lambda>e. Sentinel (Context e)) (sv_parent s)) (su_calls sp)\<rparr>)"
| call: "sv_main s = Stopping r (c # cs) \<Longrightarrow> sup_step sp s (ShutCall c) (sup_call c cs r s)"
| return: "sv_main s = Stopping r [] \<Longrightarrow> set (sv_routines s) \<subseteq> {Gone} \<Longrightarrow> sup_step sp s Return (s\<lparr>sv_main := RunReturned r\<rparr>)"

inductive sup_steps :: "supervisor \<Rightarrow> sup \<Rightarrow> sup_event list \<Rightarrow> sup \<Rightarrow> bool" for sp s0 where
  nil: "sup_steps sp s0 [] s0"
| snoc: "sup_steps sp s0 evs s \<Longrightarrow> sup_step sp s ev s' \<Longrightarrow> sup_steps sp s0 (evs @ [ev]) s'"

definition sup_run :: "supervisor \<Rightarrow> sup_event list \<Rightarrow> sup \<Rightarrow> bool" where
  "sup_run sp = sup_steps sp (sup_start sp)"

section \<open>The processes\<close>

definition wrap_text :: "string \<Rightarrow> gerr \<Rightarrow> gerr" where
  "wrap_text t e = Wrap [Lit t] e []"

definition unless_is :: "sentinel list \<Rightarrow> (gerr \<Rightarrow> gerr) \<Rightarrow> gerr \<Rightarrow> gerr option" where
  "unless_is ss f e = (if list_ex (\<lambda>s. err_is s e) ss then None else Some (f e))"

text \<open>\<open>agent\<close>: whether a Master is configured.\<close>

definition gateway_supervisor :: "bool \<Rightarrow> supervisor" where
  "gateway_supervisor agent =
     \<lparr>su_reports =
        [\<lambda>_. None, \<comment> \<open>gauge tick\<close>
         unless_is [Context Canceled] (wrap_text ''heartbeat monitor: ''),
         unless_is [Context Canceled] (wrap_text ''heartbeat sender: ''),
         unless_is [Context Canceled, Udp ErrTransportClosed] (wrap_text ''dispatcher: ''),
         unless_is [Http ErrServerClosed] (wrap_text ''http: '')] @
        (if agent then [\<lambda>_. None] else []),
      su_cap = 6, su_calls = [ShutdownHTTP, CloseUDP, CloseTx, CancelRun]\<rparr>"

definition master_supervisor :: supervisor where
  "master_supervisor =
     \<lparr>su_reports = [unless_is [Context Canceled] id, unless_is [Http ErrServerClosed] id],
      su_cap = 2, su_calls = [ShutdownHTTP, CancelRun]\<rparr>"

text \<open>The exit status of \<open>main\<close>: \<open>load\<close> and \<open>run\<close> are the errors of \<open>config.Load\<close> and \<open>Run\<close>.\<close>

definition exit_code :: "gerr option \<Rightarrow> gerr option \<Rightarrow> int" where
  "exit_code load run =
     (case load of
        Some _ \<Rightarrow> 1
      | None \<Rightarrow> (case run of Some e \<Rightarrow> if err_is (Context Canceled) e then 0 else 1 | None \<Rightarrow> 0))"

section \<open>Invariant\<close>

text \<open>What the goroutines reported, or are about to report, in a run.\<close>

definition failures :: "supervisor \<Rightarrow> sup_event list \<Rightarrow> gerr set" where
  "failures sp evs = {e'. \<exists>i e. i < length (su_reports sp) \<and> Finish i (Some e) \<in> set evs \<and> (su_reports sp ! i) e = Some e'}"

lemma failures_mono: "e \<in> failures sp evs \<Longrightarrow> e \<in> failures sp (evs @ [ev])"
  by (auto simp: failures_def)

lemma failures_finish:
  "i < length (su_reports sp) \<Longrightarrow> (su_reports sp ! i) e = Some e' \<Longrightarrow> e' \<in> failures sp (evs @ [Finish i (Some e)])"
  by (auto simp: failures_def)

definition unreported :: "routine \<Rightarrow> bool" where
  "unreported r \<longleftrightarrow> r = Serving \<or> (\<exists>e. r = Sending e)"

text \<open>A result of \<open>Run\<close> is explained by the end of the caller's context or by a failed component.\<close>

definition explained :: "supervisor \<Rightarrow> sup_event list \<Rightarrow> sup \<Rightarrow> gerr option \<Rightarrow> bool" where
  "explained sp evs s r \<longleftrightarrow>
     (case r of
        Some e \<Rightarrow> e \<in> failures sp evs \<or> (\<exists>c. sv_parent s = Some c \<and> e = Sentinel (Context c))
      | None \<Rightarrow> failures sp evs \<noteq> {})"

definition main_ok :: "supervisor \<Rightarrow> sup_event list \<Rightarrow> sup \<Rightarrow> bool" where
  "main_ok sp evs s \<longleftrightarrow>
     (case sv_main s of
        Starting \<Rightarrow> sv_calls s = []
      | Selecting \<Rightarrow> sv_calls s = [] \<and> \<not> sv_cancelled s \<and> sv_errCh s = []
      | CtxCase \<Rightarrow> sv_calls s = [] \<and> sv_cancelled s
      | Stopping r cs \<Rightarrow> sv_calls s @ cs = su_calls sp \<and> explained sp evs s r
      | RunReturned r \<Rightarrow> sv_calls s = su_calls sp \<and> explained sp evs s r \<and> set (sv_routines s) \<subseteq> {Gone})"

definition sup_inv :: "supervisor \<Rightarrow> sup_event list \<Rightarrow> sup \<Rightarrow> bool" where
  "sup_inv sp evs s \<longleftrightarrow>
     length (sv_routines s) = length (su_reports sp) \<and>
     length (sv_errCh s) + length (filter unreported (sv_routines s)) \<le> length (su_reports sp) \<and>
     set (sv_errCh s) \<subseteq> failures sp evs \<and> (\<forall>e. Sending e \<in> set (sv_routines s) \<longrightarrow> e \<in> failures sp evs) \<and>
     (Cancelling \<in> set (sv_routines s) \<longrightarrow> failures sp evs \<noteq> {}) \<and>
     (sv_parent s \<noteq> None \<longrightarrow> sv_cancelled s) \<and>
     (sv_cancelled s \<longrightarrow> sv_parent s \<noteq> None \<or> failures sp evs \<noteq> {} \<or> CancelRun \<in> set (sv_calls s)) \<and>
     main_ok sp evs s"

lemma filter_update:
  "i < length xs \<Longrightarrow> length (filter P (xs[i := x])) + (if P (xs ! i) then 1 else 0) =
     length (filter P xs) + (if P x then 1 else 0)"
proof (induction xs arbitrary: i)
  case (Cons y ys)
  then show ?case by (cases i) auto
qed simp

lemma routine_updated: "r \<in> set ((sv_routines s)[i := r']) \<Longrightarrow> r \<in> set (sv_routines s) \<or> r = r'"
  using set_update_subset_insert [of "sv_routines s" i r'] by blast

lemma routine_at_mem: "routine_at i r s \<Longrightarrow> r \<in> set (sv_routines s)"
  by (auto simp: routine_at_def)

lemma routine_to_fields [simp]:
  "sv_parent (routine_to i r s) = sv_parent s" "sv_cancelled (routine_to i r s) = sv_cancelled s"
  "sv_errCh (routine_to i r s) = sv_errCh s" "sv_main (routine_to i r s) = sv_main s"
  "sv_calls (routine_to i r s) = sv_calls s" "sv_routines (routine_to i r s) = (sv_routines s)[i := r]"
  by (simp_all add: routine_to_def)

lemma end_context_fields [simp]:
  "sv_parent (end_context s) = sv_parent s" "sv_cancelled (end_context s)" "sv_errCh (end_context s) = sv_errCh s"
  "sv_calls (end_context s) = sv_calls s" "sv_routines (end_context s) = sv_routines s"
  "sv_main (end_context s) = (if sv_main s = Selecting then CtxCase else sv_main s)"
  by (simp_all add: end_context_def)

lemma explained_later:
  "explained sp evs s r \<Longrightarrow> sv_parent s' = sv_parent s \<or> sv_parent s = None \<Longrightarrow> explained sp (evs @ [ev]) s' r"
  unfolding explained_def using failures_mono by (cases r) fastforce+

lemma explained_same: "sv_parent s' = sv_parent s \<Longrightarrow> explained sp evs s' = explained sp evs s"
  by (rule ext) (simp add: explained_def split: option.split)

lemma explained_upd [simp]:
  "explained sp evs (s\<lparr>sv_main := m\<rparr>) = explained sp evs s" "explained sp evs (s\<lparr>sv_errCh := ch\<rparr>) = explained sp evs s"
  by (rule explained_same, simp)+

lemma explained_to: "explained sp evs (routine_to i r s) = explained sp evs s"
  by (rule explained_same) simp

lemma unreported_simps [simp]: "unreported Serving" "unreported (Sending e)" "\<not> unreported Cancelling" "\<not> unreported Gone"
  by (simp_all add: unreported_def)

lemma unreported_to:
  assumes "routine_at i r s"
  shows "length (filter unreported ((sv_routines s)[i := r'])) + (if unreported r then 1 else 0) =
    length (filter unreported (sv_routines s)) + (if unreported r' then 1 else 0)"
  using filter_update [of i "sv_routines s" unreported r'] assms by (auto simp: routine_at_def)

lemma not_returned: "sup_inv sp evs s \<Longrightarrow> routine_at i r s \<Longrightarrow> r \<noteq> Gone \<Longrightarrow> sv_main s \<noteq> RunReturned r'"
  using routine_at_mem by (fastforce simp: sup_inv_def main_ok_def)

lemma sup_invD:
  assumes "sup_inv sp evs s"
  shows "length (sv_routines s) = length (su_reports sp)"
    and "length (sv_errCh s) + length (filter unreported (sv_routines s)) \<le> length (su_reports sp)"
    and "set (sv_errCh s) \<subseteq> failures sp evs" "Sending e \<in> set (sv_routines s) \<Longrightarrow> e \<in> failures sp evs"
    and "Cancelling \<in> set (sv_routines s) \<Longrightarrow> failures sp evs \<noteq> {}"
    and "sv_parent s \<noteq> None \<Longrightarrow> sv_cancelled s"
    and "sv_cancelled s \<Longrightarrow> sv_parent s = None \<Longrightarrow> failures sp evs = {} \<Longrightarrow> CancelRun \<in> set (sv_calls s)"
    and "main_ok sp evs s"
  using assms by (auto simp: sup_inv_def)

lemma sup_invI:
  assumes "length (sv_routines s) = length (su_reports sp)"
    and "length (sv_errCh s) + length (filter unreported (sv_routines s)) \<le> length (su_reports sp)"
    and "set (sv_errCh s) \<subseteq> failures sp evs" "\<And>e. Sending e \<in> set (sv_routines s) \<Longrightarrow> e \<in> failures sp evs"
    and "Cancelling \<in> set (sv_routines s) \<Longrightarrow> failures sp evs \<noteq> {}"
    and "sv_parent s \<noteq> None \<Longrightarrow> sv_cancelled s"
    and "sv_cancelled s \<Longrightarrow> sv_parent s = None \<Longrightarrow> failures sp evs = {} \<Longrightarrow> CancelRun \<in> set (sv_calls s)"
    and "main_ok sp evs s"
  shows "sup_inv sp evs s"
  unfolding sup_inv_def using assms by blast

lemma failures_subset: "failures sp evs \<subseteq> failures sp (evs @ [ev])"
  using failures_mono by blast

lemma sup_inv_later:
  assumes "sup_inv sp evs s"
  shows "sup_inv sp (evs @ [ev]) s"
proof (rule sup_invI)
  show "main_ok sp (evs @ [ev]) s"
    using sup_invD(8) [OF assms] explained_later [of sp evs s _ s ev] by (auto simp: main_ok_def split: main_point.splits)
qed (use sup_invD(1-7) [OF assms] failures_subset [of sp evs ev] in blast)+

text \<open>A goroutine changes its state without touching the rest.\<close>

lemma routine_keeps:
  assumes "sup_inv sp evs s" "routine_at i r s" "r \<noteq> Gone" "unreported r' \<longrightarrow> unreported r"
    and "r' \<noteq> Cancelling" "\<And>e. r' = Sending e \<Longrightarrow> e \<in> failures sp evs"
  shows "sup_inv sp evs (routine_to i r' s)"
proof (rule sup_invI)
  show "length (sv_errCh (routine_to i r' s)) + length (filter unreported (sv_routines (routine_to i r' s))) \<le> length (su_reports sp)"
    using sup_invD(2) [OF assms(1)] unreported_to [OF assms(2), of r'] assms(4) by (auto split: if_splits)
  show "main_ok sp evs (routine_to i r' s)"
    using sup_invD(8) [OF assms(1)] not_returned [OF assms(1-3)]
    by (auto simp: main_ok_def explained_to split: main_point.splits)
  show "e \<in> failures sp evs" if "Sending e \<in> set (sv_routines (routine_to i r' s))" for e
    using that routine_updated [of "Sending e" s i r'] sup_invD(4) [OF assms(1)] assms(6) by auto
  show "failures sp evs \<noteq> {}" if "Cancelling \<in> set (sv_routines (routine_to i r' s))"
    using that routine_updated [of Cancelling s i r'] sup_invD(5) [OF assms(1)] assms(5) by auto
qed (use sup_invD(1,3,6,7) [OF assms(1)] in simp_all)

lemma finish_keeps:
  assumes "sup_inv sp evs s" "routine_at i Serving s"
  shows "sup_inv sp (evs @ [Finish i err]) (sup_finish sp i err s)"
proof -
  have "i < length (su_reports sp)" using sup_invD(1) [OF assms(1)] assms(2) by (simp add: routine_at_def)
  then have "sup_inv sp (evs @ [Finish i err]) (routine_to i (Sending e') s)"
    if "err = Some e" "(su_reports sp ! i) e = Some e'" for e e'
    using that failures_finish [of i sp e e' evs] by (intro routine_keeps [OF sup_inv_later [OF assms(1)] assms(2)]) auto
  moreover have "sup_inv sp (evs @ [Finish i err]) (routine_to i Gone s)"
    by (rule routine_keeps [OF sup_inv_later [OF assms(1)] assms(2)]) auto
  ultimately show ?thesis by (auto simp: sup_finish_def split: option.split)
qed

lemma sup_send_fields:
  "sv_parent (sup_send sp e s) = sv_parent s" "sv_cancelled (sup_send sp e s) = sv_cancelled s"
  "sv_calls (sup_send sp e s) = sv_calls s" "sv_routines (sup_send sp e s) = sv_routines s"
  by (simp_all add: sup_send_def)

lemma send_keeps:
  assumes "sup_inv sp evs s" "routine_at i (Sending e) s"
  shows "sup_inv sp evs (sup_send sp e (routine_to i Cancelling s))"
proof (rule sup_invI)
  have e: "e \<in> failures sp evs" using sup_invD(4) [OF assms(1)] routine_at_mem [OF assms(2)] by blast
  then show "failures sp evs \<noteq> {}" by blast
  show "main_ok sp evs (sup_send sp e (routine_to i Cancelling s))"
  proof -
    have "explained sp evs t (Some e)" for t using e by (simp add: explained_def)
    moreover have "explained sp evs (routine_to i Cancelling s\<lparr>sv_errCh := ch\<rparr>) = explained sp evs s" for ch
      by (rule explained_same) simp
    ultimately show ?thesis
      using sup_invD(8) [OF assms(1)] not_returned [OF assms]
      by (auto simp: main_ok_def sup_send_def split: main_point.splits)
  qed
  show "set (sv_errCh (sup_send sp e (routine_to i Cancelling s))) \<subseteq> failures sp evs"
    using sup_invD(3) [OF assms(1)] e by (simp add: sup_send_def)
  show "length (sv_errCh (sup_send sp e (routine_to i Cancelling s))) +
      length (filter unreported (sv_routines (sup_send sp e (routine_to i Cancelling s)))) \<le> length (su_reports sp)"
    using sup_invD(2) [OF assms(1)] unreported_to [OF assms(2), of Cancelling] by (simp add: sup_send_def)
  show "e' \<in> failures sp evs" if "Sending e' \<in> set (sv_routines (sup_send sp e (routine_to i Cancelling s)))" for e'
    using that routine_updated [of "Sending e'" s i Cancelling] sup_invD(4) [OF assms(1)]
    by (auto simp: sup_send_def split: if_splits)
qed (use sup_invD(1,6,7) [OF assms(1)] in \<open>simp_all add: sup_send_fields\<close>)

lemma end_context_keeps:
  assumes "sup_inv sp evs s" "failures sp evs \<noteq> {} \<or> p \<noteq> None" "p = sv_parent s \<or> sv_parent s = None"
  shows "sup_inv sp evs (end_context (s\<lparr>sv_parent := p\<rparr>))"
proof (rule sup_invI)
  have "explained sp evs (end_context (s\<lparr>sv_parent := p\<rparr>)) r" if "explained sp evs s r" for r
    using that assms(3) by (auto simp: explained_def split: option.splits)
  then show "main_ok sp evs (end_context (s\<lparr>sv_parent := p\<rparr>))"
    using sup_invD(8) [OF assms(1)] by (auto simp: main_ok_def split: main_point.splits)
qed (use sup_invD(1-5) [OF assms(1)] assms(2) in auto)

lemma cancel_keeps:
  assumes "sup_inv sp evs s" "routine_at i Cancelling s"
  shows "sup_inv sp evs (end_context (routine_to i Gone s))"
proof -
  have "failures sp evs \<noteq> {}" using sup_invD(5) [OF assms(1)] routine_at_mem [OF assms(2)] by blast
  moreover have "sup_inv sp evs (routine_to i Gone s)" using routine_keeps [OF assms, of Gone] by simp
  ultimately show ?thesis
    using end_context_keeps [of sp evs "routine_to i Gone s" "sv_parent (routine_to i Gone s)"] by (simp add: routine_to_def)
qed

text \<open>Steps of \<open>Run\<close> itself.\<close>

lemma main_keeps:
  assumes "sup_inv sp evs s" "main_ok sp evs s'"
    and "sv_parent s' = sv_parent s" "sv_cancelled s' = sv_cancelled s \<or> CancelRun \<in> set (sv_calls s')"
    and "sv_cancelled s \<Longrightarrow> sv_cancelled s'"
    and "sv_errCh s' = sv_errCh s \<or> (\<exists>e. sv_errCh s = e # sv_errCh s')" "sv_routines s' = sv_routines s"
    and "set (sv_calls s) \<subseteq> set (sv_calls s')"
  shows "sup_inv sp evs s'"
proof (rule sup_invI)
  note inv = sup_invD [OF assms(1)]
  show "length (sv_routines s') = length (su_reports sp)" using inv(1) assms(7) by simp
  show "length (sv_errCh s') + length (filter unreported (sv_routines s')) \<le> length (su_reports sp)"
    using inv(2) assms(6,7) by auto
  show "set (sv_errCh s') \<subseteq> failures sp evs" using inv(3) assms(6) by auto
  show "e \<in> failures sp evs" if "Sending e \<in> set (sv_routines s')" for e using inv(4) assms(7) that by simp
  show "Cancelling \<in> set (sv_routines s') \<Longrightarrow> failures sp evs \<noteq> {}" using inv(5) assms(7) by simp
  show "sv_parent s' \<noteq> None \<Longrightarrow> sv_cancelled s'" using inv(6) assms(3,5) by simp
  show "CancelRun \<in> set (sv_calls s')" if "sv_cancelled s'" "sv_parent s' = None" "failures sp evs = {}"
    using inv(7) assms(3,4,8) that by auto
qed (rule assms(2))

lemma call_keeps:
  assumes "sup_inv sp evs s" "sv_main s = Stopping r (c # cs)"
  shows "sup_inv sp evs (sup_call c cs r s)"
  by (rule main_keeps [OF assms(1)])
    (use assms in \<open>auto simp: sup_inv_def main_ok_def sup_call_def Let_def explained_def split: option.splits\<close>)

lemma main_to:
  assumes "sup_inv sp evs s" "s' = s\<lparr>sv_main := m, sv_errCh := ch\<rparr>" "main_ok sp evs s'"
    and "ch = sv_errCh s \<or> (\<exists>e. sv_errCh s = e # ch)"
  shows "sup_inv sp evs s'"
proof (rule main_keeps [OF assms(1,3)])
  show "sv_errCh s' = sv_errCh s \<or> (\<exists>e. sv_errCh s = e # sv_errCh s')" using assms(2,4) by auto
qed (simp_all add: assms(2))

lemma sup_step_inv_now:
  assumes "sup_step sp s ev s'" "sup_inv sp evs s" "\<And>i err. ev \<noteq> Finish i err"
  shows "sup_inv sp evs s'"
proof -
  note ok = sup_invD(8) [OF assms(2)]
  show ?thesis
    using assms(1)
  proof cases
    case (send i e)
    then show ?thesis using send_keeps assms(2) by simp
  next
    case (cancel i)
    then show ?thesis using cancel_keeps assms(2) by simp
  next
    case (parent e)
    then show ?thesis using end_context_keeps [OF assms(2), of "Some e"] by simp
  next
    case take_ctx
    then show ?thesis
      using main_to [OF assms(2), where s' = s' and m = CtxCase and ch = "sv_errCh s"] ok by (simp add: main_ok_def)
  next
    case (take_err e rest)
    then have "explained sp evs s (Some e)" using sup_invD(3) [OF assms(2)] by (simp add: explained_def)
    then show ?thesis
      using take_err main_to [OF assms(2), where s' = s' and m = "Stopping (Some e) (su_calls sp)" and ch = rest] ok
      by (simp add: main_ok_def)
  next
    case wait
    then show ?thesis
      using main_to [OF assms(2), where s' = s' and m = Selecting and ch = "sv_errCh s"] ok by (simp add: main_ok_def)
  next
    case read_ctx
    let ?r = "map_option (\<lambda>e. Sentinel (Context e)) (sv_parent s)"
    have "sv_cancelled s" "sv_calls s = []" using read_ctx ok by (simp_all add: main_ok_def)
    then have "explained sp evs s ?r"
      using sup_invD(7) [OF assms(2)] by (cases "sv_parent s") (auto simp: explained_def)
    then show ?thesis
      using read_ctx main_to [OF assms(2), where s' = s' and m = "Stopping ?r (su_calls sp)" and ch = "sv_errCh s"] ok
      by (simp add: main_ok_def)
  next
    case (call r c cs)
    then show ?thesis using call_keeps assms(2) by simp
  next
    case (return r)
    then show ?thesis
      using main_to [OF assms(2), where s' = s' and m = "RunReturned r" and ch = "sv_errCh s"] ok by (simp add: main_ok_def)
  qed (use assms(3) in blast)
qed

lemma sup_step_inv:
  assumes "sup_step sp s ev s'" "sup_inv sp evs s"
  shows "sup_inv sp (evs @ [ev]) s'"
proof (cases "\<exists>i err. ev = Finish i err")
  case True
  then show ?thesis using assms by (auto elim!: sup_step.cases intro: finish_keeps)
next
  case False
  then show ?thesis using sup_step_inv_now [OF assms(1) sup_inv_later [OF assms(2)]] by blast
qed

lemma sup_start_inv: "sup_inv sp [] (sup_start sp)"
  by (auto simp: sup_inv_def sup_start_def main_ok_def)

lemma sup_run_inv: "sup_run sp evs s \<Longrightarrow> sup_inv sp evs s"
  unfolding sup_run_def by (induction rule: sup_steps.induct) (auto intro: sup_step_inv sup_start_inv)

lemma parent_event: "sup_run sp evs s \<Longrightarrow> sv_parent s = Some c \<Longrightarrow> ParentEnd c \<in> set evs"
  unfolding sup_run_def
proof (induction arbitrary: c rule: sup_steps.induct)
  case nil
  then show ?case by (simp add: sup_start_def)
next
  case (snoc evs s ev s')
  from snoc(2) have "sv_parent s' = sv_parent s \<or> (\<exists>e. ev = ParentEnd e \<and> sv_parent s' = Some e)"
    by cases (auto simp: sup_finish_def sup_send_fields sup_call_def Let_def split: option.split)
  then show ?case using snoc by auto
qed

section \<open>Every run ends\<close>

fun routine_weight :: "routine \<Rightarrow> nat" where
  "routine_weight Serving = 3"
| "routine_weight (Sending e) = 2"
| "routine_weight Cancelling = 1"
| "routine_weight Gone = 0"

fun main_weight :: "nat \<Rightarrow> main_point \<Rightarrow> nat" where
  "main_weight n Starting = n + 4"
| "main_weight n Selecting = n + 3"
| "main_weight n CtxCase = n + 2"
| "main_weight n (Stopping r cs) = length cs + 1"
| "main_weight n (RunReturned r) = 0"

definition sup_measure :: "supervisor \<Rightarrow> sup \<Rightarrow> nat" where
  "sup_measure sp s = sum_list (map routine_weight (sv_routines s)) + main_weight (length (su_calls sp)) (sv_main s) +
     (if sv_parent s = None then 1 else 0)"

lemma weight_update:
  "i < length xs \<Longrightarrow> sum_list (map routine_weight (xs[i := x])) + routine_weight (xs ! i) =
     sum_list (map routine_weight xs) + routine_weight x"
proof (induction xs arbitrary: i)
  case (Cons y ys)
  then show ?case by (cases i) auto
qed simp

lemma measure_to:
  "routine_at i r s \<Longrightarrow> sup_measure sp (routine_to i r' s) + routine_weight r = sup_measure sp s + routine_weight r'"
  using weight_update [of i "sv_routines s" r'] by (auto simp: routine_at_def sup_measure_def)

lemma measure_end_context: "sup_measure sp (end_context s) \<le> sup_measure sp s"
  by (simp add: sup_measure_def)

lemma measure_send: "sup_measure sp (sup_send sp e s) \<le> sup_measure sp s"
  by (simp add: sup_measure_def sup_send_def)

lemma sup_step_measure:
  assumes "sup_step sp s ev s'"
  shows "sup_measure sp s' < sup_measure sp s"
  using assms
proof cases
  case (finish i err)
  have "sup_measure sp (routine_to i r s) < sup_measure sp s" if "routine_weight r < 3" for r
    using measure_to [OF finish(3), of sp r] that by simp
  then show ?thesis using finish by (auto simp: sup_finish_def split: option.split)
next
  case (send i e)
  then show ?thesis
    using measure_to [OF send(3), of sp Cancelling] measure_send [of sp e "routine_to i Cancelling s"] by simp
next
  case (cancel i)
  then show ?thesis
    using measure_to [OF cancel(3), of sp Gone] measure_end_context [of sp "routine_to i Gone s"] by simp
next
  case (parent e)
  have "sup_measure sp (s\<lparr>sv_parent := Some e\<rparr>) < sup_measure sp s" using parent by (simp add: sup_measure_def)
  then show ?thesis using parent measure_end_context [of sp "s\<lparr>sv_parent := Some e\<rparr>"] by simp
qed (auto simp: sup_measure_def sup_call_def Let_def)

lemma sup_run_measure: "sup_run sp evs s \<Longrightarrow> length evs + sup_measure sp s \<le> sup_measure sp (sup_start sp)"
  unfolding sup_run_def
proof (induction rule: sup_steps.induct)
  case (snoc evs s ev s')
  then show ?case using sup_step_measure [OF snoc(2)] by simp
qed simp

lemma sup_start_measure: "sup_measure sp (sup_start sp) = 3 * length (su_reports sp) + length (su_calls sp) + 5"
  by (simp add: sup_measure_def sup_start_def sum_list_replicate)

text \<open>
  A step of \<open>Run\<close> or of a goroutine outside its component is possible: one that neither the caller's
  context nor a component decides.
\<close>

definition own_step :: "supervisor \<Rightarrow> sup \<Rightarrow> bool" where
  "own_step sp s \<longleftrightarrow> (\<exists>ev s'. sup_step sp s ev s' \<and> (\<forall>e. ev \<noteq> ParentEnd e) \<and> (\<forall>i err. ev \<noteq> Finish i err))"

text \<open>
  The contract between \<open>Run\<close> and its channel: room for one error per goroutine.  Then no goroutine
  blocks when it reports, and \<open>wg.Wait\<close> returns.
\<close>

locale roomy_supervisor =
  fixes sp :: supervisor
  assumes room: "length (su_reports sp) \<le> su_cap sp"
begin

lemma send_never_blocks:
  assumes "sup_run sp evs s" "routine_at i (Sending e) s"
  shows "length (sv_errCh s) < su_cap sp"
proof -
  have "filter unreported (sv_routines s) \<noteq> []"
    using routine_at_mem [OF assms(2)] by (auto simp: filter_empty_conv intro: bexI [of _ "Sending e"])
  then have "0 < length (filter unreported (sv_routines s))" by blast
  then show ?thesis using sup_invD(2) [OF sup_run_inv [OF assms(1)]] room by linarith
qed

lemma routine_steps:
  assumes "sup_run sp evs s" "r \<in> set (sv_routines s)" "r \<noteq> Serving" "r \<noteq> Gone"
  shows "own_step sp s"
proof -
  obtain i where i: "routine_at i r s" using assms(2) unfolding routine_at_def in_set_conv_nth by blast
  then consider e where "r = Sending e" | "r = Cancelling" using assms(3,4) by (cases r) auto
  then show ?thesis
  proof cases
    case 1
    then show ?thesis using sup_step.send [of i e s] i send_never_blocks [OF assms(1)] unfolding own_step_def by blast
  next
    case 2
    then show ?thesis using sup_step.cancel i unfolding own_step_def by blast
  qed
qed

lemma waits_for_components:
  assumes "sup_run sp evs s" "\<not> own_step sp s" "\<not> (\<exists>r. sv_main s = RunReturned r)"
  shows "sv_main s = Selecting \<and> \<not> sv_cancelled s \<and> sv_errCh s = [] \<and> set (sv_routines s) \<subseteq> {Serving, Gone} \<or>
    (\<exists>r. sv_main s = Stopping r []) \<and> sv_calls s = su_calls sp \<and> Serving \<in> set (sv_routines s)"
proof -
  have idle: "set (sv_routines s) \<subseteq> {Serving, Gone}" using routine_steps [OF assms(1)] assms(2) by blast
  have ok: "main_ok sp evs s" using sup_invD(8) [OF sup_run_inv [OF assms(1)]] .
  show ?thesis
  proof (cases "sv_main s")
    case Starting
    have "own_step sp s"
      using sup_step.take_ctx [OF Starting] sup_step.take_err [OF Starting] sup_step.wait [OF Starting]
      unfolding own_step_def by (cases "sv_errCh s") blast+
    then show ?thesis using assms(2) by blast
  next
    case Selecting
    then show ?thesis using ok idle by (simp add: main_ok_def)
  next
    case CtxCase
    then show ?thesis using sup_step.read_ctx assms(2) unfolding own_step_def by blast
  next
    case (Stopping r cs)
    have "cs = []" using sup_step.call Stopping assms(2) unfolding own_step_def by (cases cs) blast+
    moreover have "\<not> set (sv_routines s) \<subseteq> {Gone}"
      using sup_step.return Stopping \<open>cs = []\<close> assms(2) unfolding own_step_def by blast
    ultimately show ?thesis using Stopping ok idle by (auto simp: main_ok_def)
  next
    case (RunReturned r)
    then show ?thesis using assms(3) by blast
  qed
qed

end

interpretation gateway_run: roomy_supervisor "gateway_supervisor agent" for agent
  by unfold_locales (simp add: gateway_supervisor_def)

interpretation master_run_sup: roomy_supervisor master_supervisor
  by unfold_locales (simp add: master_supervisor_def)

section \<open>What \<open>Run\<close> returns\<close>

definition process_supervisor :: "supervisor \<Rightarrow> bool" where
  "process_supervisor sp \<longleftrightarrow> sp = gateway_supervisor True \<or> sp = gateway_supervisor False \<or> sp = master_supervisor"

text \<open>
  C36: \<open>Run\<close> of gateway and Master returns the error its caller's context ended with or the error a
  failed component reported, nothing else, after all shutdown calls in the order of the code and
  after every goroutine has ended.  It returns nil only when a component failed: the failure was
  lost.
\<close>

theorem run_result_explained:
  assumes "process_supervisor sp" "sup_run sp evs s" "sv_main s = RunReturned r"
  shows "sv_calls s = su_calls sp \<and> set (sv_routines s) \<subseteq> {Gone} \<and>
    (case r of
       Some e \<Rightarrow> (\<exists>c. ParentEnd c \<in> set evs \<and> e = Sentinel (Context c)) \<or>
         (\<exists>i err. Finish i (Some err) \<in> set evs \<and> (su_reports sp ! i) err = Some e)
     | None \<Rightarrow> (\<exists>i err e. Finish i (Some err) \<in> set evs \<and> (su_reports sp ! i) err = Some e))"
proof -
  have "sv_calls s = su_calls sp" "explained sp evs s r" "set (sv_routines s) \<subseteq> {Gone}"
    using sup_invD(8) [OF sup_run_inv [OF assms(2)]] assms(3) by (simp_all add: main_ok_def)
  then show ?thesis
    using parent_event [OF assms(2)] by (cases r) (fastforce simp: explained_def failures_def)+
qed

text \<open>Once \<open>Run\<close> has chosen a result it keeps it.\<close>

lemma result_step:
  assumes "sup_step sp s ev s'" "sv_main s = Stopping r cs \<or> sv_main s = RunReturned r"
  shows "(\<exists>cs'. sv_main s' = Stopping r cs') \<or> sv_main s' = RunReturned r"
  using assms(1)
  by cases (use assms(2) in \<open>auto simp: sup_finish_def sup_send_def sup_call_def Let_def split: option.splits\<close>)

lemma result_steps:
  assumes "sup_steps sp s evs s'" "sv_main s = Stopping r cs"
  shows "(\<exists>cs'. sv_main s' = Stopping r cs') \<or> sv_main s' = RunReturned r"
  using assms
proof (induction rule: sup_steps.induct)
  case (snoc evs s1 ev s2)
  then show ?case using result_step [OF snoc(2)] by blast
qed simp

text \<open>A failure that comes while \<open>Run\<close> waits in its \<open>select\<close> is returned.\<close>

lemma awaited_failure_returned:
  assumes "sv_main s = Selecting" "sup_step sp s (Send i) s'" "routine_at i (Sending e) s"
    and "sup_steps sp s' evs t" "sv_main t = RunReturned r"
  shows "r = Some e"
proof -
  have "sv_main s' = Stopping (Some e) (su_calls sp)"
    using assms(2) by cases (use assms(1,3) in \<open>auto simp: routine_at_def sup_send_def\<close>)
  then show ?thesis using result_steps [OF assms(4)] assms(5) by auto
qed

text \<open>
  C37: \<open>Run\<close> of gateway and Master waits for nothing but its components: no run is longer than the
  number of its goroutines and shutdown calls allows; no goroutine blocks on the error channel; and in
  every reachable state \<open>Run\<close> has returned, or it or a goroutine outside its component can take a step,
  or it is in its \<open>select\<close> with the context alive and nothing reported, or it has made all shutdown
  calls and waits for a component that has not returned.  The shutdown calls are taken to return.  A
  component that never returns, as one caught in \<open>submit_hang_reachable\<close>, keeps \<open>Run\<close> in the last state.
\<close>

theorem run_ends:
  assumes "process_supervisor sp" "sup_run sp evs s"
  shows "length evs \<le> 3 * length (su_reports sp) + length (su_calls sp) + 5 \<and>
    (routine_at i (Sending e) s \<longrightarrow> sup_step sp s (Send i) (sup_send sp e (routine_to i Cancelling s))) \<and>
    ((\<exists>r. sv_main s = RunReturned r) \<or>
     (\<exists>ev s'. sup_step sp s ev s' \<and> (\<forall>c. ev \<noteq> ParentEnd c) \<and> (\<forall>j err. ev \<noteq> Finish j err)) \<or>
     sv_main s = Selecting \<and> \<not> sv_cancelled s \<and> sv_errCh s = [] \<and> set (sv_routines s) \<subseteq> {Serving, Gone} \<or>
     (\<exists>r. sv_main s = Stopping r []) \<and> sv_calls s = su_calls sp \<and> Serving \<in> set (sv_routines s))"
proof -
  have room: "roomy_supervisor sp"
    using assms(1) gateway_run.roomy_supervisor_axioms master_run_sup.roomy_supervisor_axioms
    by (auto simp: process_supervisor_def)
  have "length evs \<le> 3 * length (su_reports sp) + length (su_calls sp) + 5"
    using sup_run_measure [OF assms(2)] sup_start_measure [of sp] by simp
  moreover have "routine_at i (Sending e) s \<longrightarrow> sup_step sp s (Send i) (sup_send sp e (routine_to i Cancelling s))"
    using roomy_supervisor.send_never_blocks [OF room assms(2)] sup_step.send by blast
  ultimately show ?thesis
    using roomy_supervisor.waits_for_components [OF room assms(2)] own_step_def [of sp s] by blast
qed

section \<open>Concrete runs\<close>

text \<open>The steps as a function, to play a run.\<close>

fun sup_exec :: "supervisor \<Rightarrow> sup_event \<Rightarrow> sup \<Rightarrow> sup option" where
  "sup_exec sp (Finish i err) s = (if routine_at i Serving s then Some (sup_finish sp i err s) else None)"
| "sup_exec sp (Send i) s =
     (if i < length (sv_routines s) \<and> (sv_main s = Selecting \<or> length (sv_errCh s) < su_cap sp)
      then case sv_routines s ! i of Sending e \<Rightarrow> Some (sup_send sp e (routine_to i Cancelling s)) | _ \<Rightarrow> None
      else None)"
| "sup_exec sp (Cancel i) s = (if routine_at i Cancelling s then Some (end_context (routine_to i Gone s)) else None)"
| "sup_exec sp (ParentEnd e) s = (if sv_parent s = None then Some (end_context (s\<lparr>sv_parent := Some e\<rparr>)) else None)"
| "sup_exec sp TakeCtx s = (if sv_main s = Starting \<and> sv_cancelled s then Some (s\<lparr>sv_main := CtxCase\<rparr>) else None)"
| "sup_exec sp TakeErr s =
     (if sv_main s = Starting
      then case sv_errCh s of [] \<Rightarrow> None | e # rest \<Rightarrow> Some (s\<lparr>sv_main := Stopping (Some e) (su_calls sp), sv_errCh := rest\<rparr>)
      else None)"
| "sup_exec sp Wait s =
     (if sv_main s = Starting \<and> \<not> sv_cancelled s \<and> sv_errCh s = [] then Some (s\<lparr>sv_main := Selecting\<rparr>) else None)"
| "sup_exec sp ReadCtx s =
     (if sv_main s = CtxCase
      then Some (s\<lparr>sv_main := Stopping (map_option (\<lambda>e. Sentinel (Context e)) (sv_parent s)) (su_calls sp)\<rparr>) else None)"
| "sup_exec sp (ShutCall c) s =
     (case sv_main s of Stopping r (c' # cs) \<Rightarrow> if c' = c then Some (sup_call c cs r s) else None | _ \<Rightarrow> None)"
| "sup_exec sp Return s =
     (case sv_main s of
        Stopping r [] \<Rightarrow> if list_all (\<lambda>x. x = Gone) (sv_routines s) then Some (s\<lparr>sv_main := RunReturned r\<rparr>) else None
      | _ \<Rightarrow> None)"

lemma sup_exec_step: "sup_exec sp ev s = Some s' \<Longrightarrow> sup_step sp s ev s'"
  by (cases ev)
    (auto simp: list_all_iff routine_at_def split: if_splits routine.splits list.splits main_point.splits
      intro!: sup_step.intros)

definition sup_play :: "supervisor \<Rightarrow> sup_event list \<Rightarrow> sup option" where
  "sup_play sp = foldl (\<lambda>r ev. Option.bind r (sup_exec sp ev)) (Some (sup_start sp))"

lemma sup_play_run: "sup_play sp evs = Some s \<Longrightarrow> sup_run sp evs s"
proof (induction evs arbitrary: s rule: rev_induct)
  case Nil
  then show ?case by (auto simp: sup_play_def sup_run_def intro: sup_steps.nil)
next
  case (snoc ev evs)
  then obtain s1 where s1: "sup_play sp evs = Some s1" "sup_exec sp ev s1 = Some s"
    by (auto simp: sup_play_def bind_eq_Some_conv)
  then show ?case using sup_steps.snoc snoc(1) sup_exec_step unfolding sup_run_def by blast
qed

definition w_listen :: gerr where "w_listen = Opaque ''listen http: address already in use''"

definition w_canceled :: "gerr option" where "w_canceled = Some (Sentinel (Context Canceled))"

text \<open>The HTTP listener fails before \<open>Run\<close> reaches its \<open>select\<close>; the others stop when told to.\<close>

definition w_lost :: "sup_event list" where
  "w_lost = [Finish 4 (Some w_listen), Send 4, Cancel 4, TakeCtx, ReadCtx, ShutCall ShutdownHTTP, ShutCall CloseUDP,
     ShutCall CloseTx, ShutCall CancelRun, Finish 0 None, Finish 1 w_canceled, Finish 2 w_canceled, Finish 3 w_canceled, Return]"

text \<open>
  C39: A component's failure can be lost: the goroutine reports its error and cancels the context, and
  when \<open>Run\<close> then reaches its \<open>select\<close> both cases are ready; if it takes the context's, it returns
  nil, because only the caller's context is asked, and the process exits with status 0.
\<close>

theorem start_failure_can_be_lost:
  "\<exists>evs s err. sup_run (gateway_supervisor False) evs s \<and> Finish 4 (Some err) \<in> set evs \<and>
     (su_reports (gateway_supervisor False) ! 4) err = Some (wrap_text ''http: '' err) \<and>
     sv_parent s = None \<and> sv_main s = RunReturned None \<and> exit_code None None = 0"
proof -
  have "map_option (\<lambda>s. (sv_main s, sv_parent s)) (sup_play (gateway_supervisor False) w_lost) = Some (RunReturned None, None)"
    by code_simp
  then obtain s where "sup_play (gateway_supervisor False) w_lost = Some s" "sv_main s = RunReturned None" "sv_parent s = None"
    by auto
  then show ?thesis
    using sup_play_run [of "gateway_supervisor False" w_lost s]
    by (intro exI [of _ w_lost] exI [of _ s] exI [of _ w_listen])
      (simp add: w_lost_def gateway_supervisor_def unless_is_def w_listen_def exit_code_def)
qed

text \<open>The same failure while \<open>Run\<close> waits.\<close>

definition w_seen :: "sup_event list" where
  "w_seen = [Wait, Finish 1 (Some w_listen), Send 1, Cancel 1, ShutCall ShutdownHTTP, ShutCall CancelRun,
     Finish 0 w_canceled, Return]"

lemma w_seen_play:
  "map_option (\<lambda>s. (sv_main s, sv_calls s)) (sup_play master_supervisor w_seen) =
     Some (RunReturned (Some w_listen), [ShutdownHTTP, CancelRun])"
  by code_simp

theorem run_result_explained_witness:
  "\<exists>s. sup_run master_supervisor w_seen s \<and> sv_calls s = [ShutdownHTTP, CancelRun] \<and> set (sv_routines s) \<subseteq> {Gone}"
proof -
  obtain s where s: "sup_run master_supervisor w_seen s" "sv_main s = RunReturned (Some w_listen)"
    using w_seen_play sup_play_run by fastforce
  have "process_supervisor master_supervisor" by (simp add: process_supervisor_def)
  from run_result_explained [OF this s] show ?thesis using s(1) by (auto simp: master_supervisor_def)
qed

theorem run_ends_witness:
  "\<exists>s ev s'. sup_run master_supervisor (butlast w_seen) s \<and> length (butlast w_seen) \<le> 13 \<and> sup_step master_supervisor s ev s'"
proof -
  have "map_option (\<lambda>s. (sv_cancelled s, sv_routines s, sv_main s)) (sup_play master_supervisor (butlast w_seen)) =
      Some (True, [Gone, Gone], Stopping (Some w_listen) [])"
    by code_simp
  then obtain s where s: "sup_run master_supervisor (butlast w_seen) s" "sv_cancelled s" "sv_routines s = [Gone, Gone]"
    "sv_main s = Stopping (Some w_listen) []"
    using sup_play_run by fastforce
  have p: "process_supervisor master_supervisor" by (simp add: process_supervisor_def)
  have "length (su_reports master_supervisor) = 2" "length (su_calls master_supervisor) = 2"
    by (simp_all add: master_supervisor_def)
  then have "length (butlast w_seen) \<le> 13" "\<exists>ev s'. sup_step master_supervisor s ev s'"
    using run_ends [OF p s(1), of 0 w_listen] s(2-4) by (simp, auto)
  then show ?thesis using s(1) by blast
qed

end
