(* ===== verification/NetAddr.thy ===== *)
theory NetAddr imports Errors GoNet begin

text \<open>
  \<open>internal/netaddr/host.go\<close>: which host strings are accepted, and the address a host resolves to.
  The DNS lookup is an argument.  A nil \<open>net.IP\<close> is the empty list.
\<close>

section \<open>Hosts\<close>

definition is_letter :: "char \<Rightarrow> bool" where
  "is_letter c \<longleftrightarrow> 65 \<le> byte c \<and> byte c \<le> 90 \<or> 97 \<le> byte c \<and> byte c \<le> 122"

text \<open>The loop over the runes of a label; a byte above 127 belongs to a rune above ASCII.\<close>

definition label_byte :: "string \<Rightarrow> nat \<Rightarrow> bool" where
  "label_byte s i \<longleftrightarrow> byte (s ! i) \<le> 127 \<and>
     (is_letter (s ! i) \<or> is_digit (s ! i) \<or> (s ! i = CHR ''-'' \<and> i > 0 \<and> i < length s - 1))"

definition validDNSLabel :: "string \<Rightarrow> bool" where
  "validDNSLabel s \<longleftrightarrow> 1 \<le> length s \<and> length s \<le> 63 \<and> list_all (label_byte s) [0..<length s]"

definition validHostname :: "string \<Rightarrow> bool" where
  "validHostname s \<longleftrightarrow> length s \<noteq> 0 \<and> length s \<le> 253 \<and>
     list_all validDNSLabel (Split (CHR ''.'') (TrimSuffix s ''.''))"

definition ParseHost :: "string \<Rightarrow> string res" where
  "ParseHost s0 =
     (let s = TrimSpace s0 in
      if s = [] then Inl (Opaque ''host is empty'')
      else if ParseIP s \<noteq> None then Inr s
      else if CHR '':'' \<in> set s
      then Inl (Wrap [Lit ''host '', Quoted s, Lit '' must not include a port''] (Opaque []) [])
      else if \<not> validHostname s
      then Inl (Wrap [Lit ''host '', Quoted s, Lit '' is not a valid IP or hostname''] (Opaque []) [])
      else Inr s)"

definition IsUnspecified :: "string \<Rightarrow> bool" where
  "IsUnspecified s = (case ParseIP (TrimSpace s) of None \<Rightarrow> False | Some ip \<Rightarrow> ip_unspecified ip)"

section \<open>Resolution\<close>

definition preferIPv4 :: "IP list \<Rightarrow> IP option" where
  "preferIPv4 ips =
     (case List.map_filter (\<lambda>ip. if ip = [] then None else To4 ip) ips of
        v4 # _ \<Rightarrow> Some v4
      | [] \<Rightarrow> find (\<lambda>ip. ip \<noteq> []) ips)"

text \<open>\<open>strings.EqualFold\<close> with an ASCII word, on an ASCII string.\<close>

definition EqualFold :: "string \<Rightarrow> string \<Rightarrow> bool" where
  "EqualFold s t \<longleftrightarrow> map lower_byte s = map lower_byte t"

definition ResolveIPLookup :: "(string \<Rightarrow> IP list res) \<Rightarrow> string \<Rightarrow> IP res" where
  "ResolveIPLookup lookup host0 =
     bind_res (ParseHost host0) (\<lambda>host.
       if IsUnspecified host
       then Inl (Wrap [Lit ''host '', Quoted host, Lit '' is unspecified; set a reachable advertise/gateway address''] (Opaque []) [])
       else case ParseIP host of
         Some ip \<Rightarrow> Inr (case To4 ip of Some v4 \<Rightarrow> v4 | None \<Rightarrow> ip)
       | None \<Rightarrow>
           if EqualFold host ''localhost'' then Inr (v4_mapped [127, 0, 0, 1])
           else (case lookup host of
             Inl err \<Rightarrow> Inl (Wrap [Lit ''resolve host '', Quoted host, Lit '': ''] err [])
           | Inr ips \<Rightarrow>
               (case preferIPv4 ips of
                  Some ip \<Rightarrow>
                    if ip_unspecified ip
                    then Inl (Wrap [Lit ''host '', Quoted host, Lit '' resolved to unspecified address''] (Opaque []) [])
                    else Inr ip
                | None \<Rightarrow> Inl (Wrap [Lit ''resolve host '', Quoted host, Lit '': no addresses''] (Opaque []) []))))"

definition ResolveUDPAddrLookup :: "(string \<Rightarrow> IP list res) \<Rightarrow> string \<Rightarrow> int \<Rightarrow> (IP \<times> int) res" where
  "ResolveUDPAddrLookup lookup host port =
     (if port \<le> 0 \<or> port > 65535 then Inl (Wrap [Lit ''port '', Lit (Itoa port), Lit '' out of range''] (Opaque []) [])
      else bind_res (ResolveIPLookup lookup host) (\<lambda>ip. Inr (ip, port)))"

section \<open>What a resolved address is\<close>

lemma preferIPv4_Some:
  assumes "preferIPv4 ips = Some ip"
  shows "(\<exists>x \<in> set ips. x \<noteq> [] \<and> (ip = x \<or> To4 x = Some ip)) \<and> ((\<exists>x \<in> set ips. x \<noteq> [] \<and> To4 x \<noteq> None) \<longrightarrow> length ip = 4)"
proof (cases "List.map_filter (\<lambda>ip. if ip = [] then None else To4 ip) ips")
  case Nil
  then have none: "\<forall>x \<in> set ips. x \<noteq> [] \<longrightarrow> To4 x = None"
    using map_filter_set [of "\<lambda>ip. if ip = [] then None else To4 ip" ips]
    by (auto split: if_splits) (metis not_None_eq)+
  have "find (\<lambda>ip. ip \<noteq> []) ips = Some ip" using assms Nil by (simp add: preferIPv4_def)
  then show ?thesis using none by (auto simp: find_Some_iff)
next
  case (Cons v4 rest)
  then have "ip \<in> set (List.map_filter (\<lambda>ip. if ip = [] then None else To4 ip) ips)"
    using assms by (simp add: preferIPv4_def)
  then obtain x where "x \<in> set ips" "x \<noteq> []" "To4 x = Some ip"
    by (auto simp: map_filter_set split: if_splits)
  then show ?thesis by (auto simp: To4_def split: if_splits)
qed

lemma ParseHost_Inr: "ParseHost s = Inr h \<Longrightarrow> h = TrimSpace s \<and> h \<noteq> [] \<and> (ParseIP h \<noteq> None \<or> validHostname h)"
  by (auto simp: ParseHost_def Let_def split: if_splits)

lemma To4_length: "To4 ip = Some v4 \<Longrightarrow> length v4 = 4"
  by (auto simp: To4_def split: if_splits)

lemma ip_unspecified_To4:
  assumes "To4 ip = Some v4"
  shows "ip_unspecified v4 \<longleftrightarrow> ip_unspecified ip"
proof -
  have "v4 \<noteq> replicate 16 0" "To4 v4 = Some v4" using To4_length [OF assms] by (auto simp: To4_def)
  moreover have "To4 (replicate 16 0) = None" by (simp add: To4_def numeral_eq_Suc)
  then have "ip \<noteq> replicate 16 0" using assms by auto
  ultimately show ?thesis using assms by (simp add: ip_unspecified_def)
qed

lemma resolve_host:
  assumes "ResolveIPLookup lookup host = Inr ip"
  shows "\<not> ip_unspecified ip \<and>
    ((\<exists>x. ParseIP (TrimSpace host) = Some x \<and> (ip = x \<or> To4 x = Some ip)) \<or>
     ParseIP (TrimSpace host) = None \<and> EqualFold (TrimSpace host) ''localhost'' \<and> ip = v4_mapped [127, 0, 0, 1] \<or>
     ParseIP (TrimSpace host) = None \<and> (\<exists>ips. lookup (TrimSpace host) = Inr ips \<and>
       (\<exists>x \<in> set ips. x \<noteq> [] \<and> (ip = x \<or> To4 x = Some ip)) \<and>
       ((\<exists>x \<in> set ips. x \<noteq> [] \<and> To4 x \<noteq> None) \<longrightarrow> length ip = 4)))"
proof -
  define h where "h = TrimSpace host"
  have ph: "ParseHost host = Inr h" "\<not> IsUnspecified h"
    using assms ParseHost_Inr by (auto simp: ResolveIPLookup_def bind_res_def h_def split: sum.splits if_splits)
  have local: "\<not> ip_unspecified (v4_mapped [127, 0, 0, 1])"
    by (simp add: ip_unspecified_def To4_def v4_mapped_def numeral_eq_Suc)
  show ?thesis
  proof (cases "ParseIP h")
    case (Some x)
    then have "\<not> ip_unspecified x" using ph(2) by (simp add: IsUnspecified_def h_def)
    then show ?thesis
      using assms ph Some ip_unspecified_To4 by (auto simp: ResolveIPLookup_def h_def split: option.splits)
  next
    case None
    then show ?thesis
      using assms ph local preferIPv4_Some
      by (auto simp: ResolveIPLookup_def h_def split: if_splits sum.splits option.splits)
  qed
qed

text \<open>
  An address the network layer resolves is usable: the port is in range, the address is not
  the unspecified one, an IP literal is taken as written without a lookup, localhost is the
  loopback address, and a looked-up name yields one of its addresses, an IPv4 one if there is any.
\<close>

theorem resolved_address_usable:
  assumes "ResolveUDPAddrLookup lookup host port = Inr (ip, p)"
  shows "p = port \<and> 1 \<le> p \<and> p \<le> 65535 \<and> \<not> ip_unspecified ip \<and>
    (case ParseIP (TrimSpace host) of
       Some x \<Rightarrow> ip = x \<or> To4 x = Some ip
     | None \<Rightarrow> ip = v4_mapped [127, 0, 0, 1] \<or>
         (\<exists>ips. lookup (TrimSpace host) = Inr ips \<and> (\<exists>x \<in> set ips. x \<noteq> [] \<and> (ip = x \<or> To4 x = Some ip)) \<and>
            ((\<exists>x \<in> set ips. x \<noteq> [] \<and> To4 x \<noteq> None) \<longrightarrow> length ip = 4)))"
proof -
  have "ResolveIPLookup lookup host = Inr ip" "p = port" "1 \<le> p" "p \<le> 65535"
    using assms by (auto simp: ResolveUDPAddrLookup_def bind_res_eq_Inr split: if_splits)
  then show ?thesis using resolve_host [of lookup host ip] by (auto split: option.split)
qed

theorem resolved_address_usable_witness:
  "ResolveUDPAddrLookup (\<lambda>h. Inr [[], replicate 16 1, [10, 0, 0, 8]]) ''http2gw'' 9000 = Inr ([10, 0, 0, 8], 9000) \<and>
   length [10, 0, 0, 8 :: nat] = 4"
proof -
  have r: "ResolveUDPAddrLookup (\<lambda>h. Inr [[], replicate 16 1, [10, 0, 0, 8]]) ''http2gw'' 9000 = Inr ([10, 0, 0, 8], 9000)"
    by code_simp
  have "ParseIP (TrimSpace ''http2gw'') = None" by code_simp
  then show ?thesis using resolved_address_usable [OF r] r by simp
qed

end
