(* ===== verification/Config.thy ===== *)
theory Config imports NetAddr HeartbeatSvc begin

text \<open>
  \<open>internal/config\<close>: the configuration records of the four kinds of process, the defaults applied
  after the YAML file is read and the validation of the result.  Reading and decoding the file are
  not modelled: a record here is what the decoder produced.  A \<open>float64\<close> is a bit pattern;
  \<open>scan\<close> stands for \<open>fmt.Sscanf(s, "%f", &n)\<close> and \<open>scale\<close> for \<open>uint64(n * float64(mult))\<close>, the two
  floating point operations of \<open>ParseMemoryBytes\<close>.
\<close>

section \<open>Helpers\<close>

abbreviation blank :: "string \<Rightarrow> bool" where "blank s \<equiv> TrimSpace s = []"

definition plain :: "part list \<Rightarrow> gerr" where
  "plain ps = Wrap ps (Opaque []) []"

definition or_default :: "string \<Rightarrow> string \<Rightarrow> string" where
  "or_default d s = (if blank s then d else s)"

text \<open>The first failing check of a list of guards, then the rest of the validation.\<close>

fun checks :: "(bool \<times> gerr) list \<Rightarrow> gerr option \<Rightarrow> gerr option" where
  "checks [] rest = rest"
| "checks ((bad, err) # gs) rest = (if bad then Some err else checks gs rest)"

lemma checks_None [simp]: "checks gs rest = None \<longleftrightarrow> (\<forall>g \<in> set gs. \<not> fst g) \<and> rest = None"
  by (induction gs rest rule: checks.induct) auto

declare checks.simps(2) [simp del]

text \<open>\<open>x < 0\<close> of a \<open>float64\<close>: the sign bit of a number that is neither NaN nor a zero.\<close>

definition float_nan :: "float64 \<Rightarrow> bool" where
  "float_nan f \<longleftrightarrow> take_bit 63 f > 0x7FF0000000000000"

definition float_neg :: "float64 \<Rightarrow> bool" where
  "float_neg f \<longleftrightarrow> \<not> float_nan f \<and> f > 0x8000000000000000"

text \<open>\<open>2 * d\<close> wraps to a signed 64-bit number.\<close>

definition twice :: "duration \<Rightarrow> duration" where
  "twice d = (2 * d + 2 ^ 63) mod 2 ^ 64 - 2 ^ 63"

lemma twice_0 [simp]: "twice 0 = 0"
  by (simp add: twice_def)

lemma twice_small: "- (2 ^ 62) \<le> d \<Longrightarrow> d < 2 ^ 62 \<Longrightarrow> twice d = 2 * d"
  by (simp add: twice_def)

section \<open>Resources (\<open>resource.go\<close>)\<close>

record resource_cfg =
  CPUCores :: float64
  res_Memory :: string

definition memory_suffix :: "string \<Rightarrow> u64 \<times> string" where
  "memory_suffix s =
     (if HasSuffix s ''GI'' then (2 ^ 30, TrimSuffix s ''GI'')
      else if HasSuffix s ''G'' then (2 ^ 30, TrimSuffix s ''G'')
      else if HasSuffix s ''MI'' then (2 ^ 20, TrimSuffix s ''MI'')
      else if HasSuffix s ''M'' then (2 ^ 20, TrimSuffix s ''M'')
      else if HasSuffix s ''KI'' then (2 ^ 10, TrimSuffix s ''KI'')
      else if HasSuffix s ''K'' then (2 ^ 10, TrimSuffix s ''K'')
      else (1, s))"

definition ParseMemoryBytes ::
  "(string \<Rightarrow> float64 res) \<Rightarrow> (float64 \<Rightarrow> u64 \<Rightarrow> u64) \<Rightarrow> string \<Rightarrow> u64 res" where
  "ParseMemoryBytes scan scale s0 =
     (let s = TrimSpace (to_upper s0) in
      if s = [] then Inr 0
      else let (mult, s) = memory_suffix s in
        case scan s of
          Inl _ \<Rightarrow> Inl (plain [Lit ''invalid memory '', Quoted s])
        | Inr n \<Rightarrow> if float_neg n then Inl (plain [Lit ''invalid memory '', Quoted s]) else Inr (scale n mult))"

definition Resource_Validate ::
  "(string \<Rightarrow> float64 res) \<Rightarrow> (float64 \<Rightarrow> u64 \<Rightarrow> u64) \<Rightarrow> string \<Rightarrow> resource_cfg \<Rightarrow> gerr option" where
  "Resource_Validate scan scale prefix r =
     (if float_neg (CPUCores r) then Some (plain [Lit prefix, Lit ''.cpu_cores must be >= 0''])
      else case ParseMemoryBytes scan scale (res_Memory r) of
        Inl err \<Rightarrow> Some (Wrap [Lit prefix, Lit ''.memory: ''] err [])
      | Inr _ \<Rightarrow> None)"

definition MemoryBytes :: "(string \<Rightarrow> float64 res) \<Rightarrow> (float64 \<Rightarrow> u64 \<Rightarrow> u64) \<Rightarrow> resource_cfg \<Rightarrow> u64" where
  "MemoryBytes scan scale r =
     (case ParseMemoryBytes scan scale (res_Memory r) of Inl _ \<Rightarrow> 0 | Inr n \<Rightarrow> n)"

section \<open>Records\<close>

record node_cfg =
  NodeID :: u32
  cfg_InstanceID :: string
  cfg_Name :: string
  cfg_Type :: string
  cfg_Group :: string
  cfg_IP :: string

record http_cfg =
  http_Listen :: string
  http_Port :: int
  TLSCert :: string
  TLSKey :: string
  Remote :: string
  MaxRPS :: float64
  MaxRPSBurst :: int
  MaxPending :: int
  PprofListen :: string

record udp_cfg =
  udp_Listen :: string
  udp_Port :: int
  udp_InboundQueueSize :: int
  udp_InboundWorkers :: int

record heartbeat_cfg =
  h_Interval :: duration
  h_Timeout :: duration
  h_DeadTimeout :: duration

record service_cfg =
  svc_ServiceID :: u32
  svc_ServiceName :: string
  svc_MessageTypes :: "u32 list"

record http2gw_cfg =
  gw_Node :: node_cfg
  gw_HTTP :: http_cfg
  gw_UDP :: udp_cfg
  gw_Heartbeat :: heartbeat_cfg
  gw_TxTimeout :: duration
  gw_Strategy :: string
  gw_Services :: "service_cfg list"
  gw_Resource :: resource_cfg
  gw_MasterURL :: string

record metrics_http =
  met_Listen :: string
  met_Port :: int

record gateway_addr =
  gwa_Host :: string
  gwa_Port :: int

record logic_cfg =
  lo_Node :: node_cfg
  lo_UDP :: udp_cfg
  lo_Gateway :: gateway_addr
  lo_Heartbeat :: heartbeat_cfg
  lo_Services :: "service_cfg list"
  lo_Resource :: resource_cfg
  lo_MasterURL :: string
  lo_Metrics :: metrics_http

record master_cfg =
  ms_Node :: node_cfg
  ms_HTTP :: http_cfg
  ms_Heartbeat :: heartbeat_cfg
  ms_Resource :: resource_cfg

record load_client_cfg =
  cl_Node :: node_cfg
  cl_Target :: string
  cl_MessageID :: u32
  cl_SessionID :: string
  cl_UniqueSession :: bool
  cl_Body :: string
  cl_Timeout :: duration
  cl_Concurrency :: int
  cl_QPS :: float64
  cl_Duration :: duration
  cl_N :: int
  cl_MasterURL :: string
  cl_Resource :: resource_cfg

section \<open>Checks shared by the processes\<close>

definition heartbeat_checks :: "heartbeat_cfg \<Rightarrow> (bool \<times> gerr) list" where
  "heartbeat_checks h =
    [(h_Interval h \<le> 0, plain [Lit ''heartbeat.interval must be > 0'']),
     (h_Timeout h \<le> 0, plain [Lit ''heartbeat.timeout must be > 0'']),
     (h_DeadTimeout h \<le> 0, plain [Lit ''heartbeat.dead_timeout must be > 0'']),
     (h_Interval h \<ge> h_Timeout h, plain [Lit ''heartbeat.interval must be < heartbeat.timeout'']),
     (h_Timeout h \<ge> h_DeadTimeout h, plain [Lit ''heartbeat.timeout must be < heartbeat.dead_timeout''])]"

definition out_of_range :: "string \<Rightarrow> int \<Rightarrow> gerr" where
  "out_of_range key n = plain [Lit key, Lit '' '', Lit (Itoa n), Lit '' out of range'']"

fun services_checks :: "nat \<Rightarrow> service_cfg list \<Rightarrow> (bool \<times> gerr) list" where
  "services_checks i [] = []"
| "services_checks i (svc # svcs) =
     (svc_ServiceID svc = 0, plain [Lit ''services['', Num i, Lit ''].service_id is required'']) #
     services_checks (Suc i) svcs"

lemma services_checks_ok:
  "(\<forall>g \<in> set (services_checks i svcs). \<not> fst g) \<longleftrightarrow> (\<forall>svc \<in> set svcs. svc_ServiceID svc \<noteq> 0)"
  by (induction svcs arbitrary: i) auto

definition parse_check :: "string \<Rightarrow> string \<Rightarrow> (bool \<times> gerr) list" where
  "parse_check key host =
     (case ParseHost host of
        Inl err \<Rightarrow> [(True, Wrap [Lit key, Lit '': ''] err [])]
      | Inr _ \<Rightarrow> [])"

lemma parse_check_ok: "(\<forall>g \<in> set (parse_check key host). \<not> fst g) \<longleftrightarrow> \<not> isl (ParseHost host)"
  by (cases "ParseHost host") (auto simp: parse_check_def)

section \<open>The gateway (\<open>http2gw.go\<close>)\<close>

definition default_heartbeat :: "heartbeat_cfg \<Rightarrow> heartbeat_cfg" where
  "default_heartbeat h =
     (if h_DeadTimeout h = 0 \<and> h_Timeout h > 0 then h\<lparr>h_DeadTimeout := twice (h_Timeout h)\<rparr> else h)"

text \<open>The identity defaults; the name falls back to the instance id, itself defaulted first.\<close>

definition default_node :: "string \<Rightarrow> string \<Rightarrow> node_cfg \<Rightarrow> node_cfg" where
  "default_node inst typ n =
     (let i = or_default inst (cfg_InstanceID n) in
      n\<lparr>NodeID := (if NodeID n = 0 then 1 else NodeID n), cfg_InstanceID := i,
        cfg_Name := or_default i (cfg_Name n), cfg_Type := or_default typ (cfg_Type n),
        cfg_Group := or_default ''local-server'' (cfg_Group n)\<rparr>)"

definition default_services :: "u32 \<Rightarrow> string \<Rightarrow> service_cfg list \<Rightarrow> service_cfg list" where
  "default_services sid name svcs =
     (if svcs = [] then [\<lparr>svc_ServiceID = sid, svc_ServiceName = name, svc_MessageTypes = [1001, 1002, 1003]\<rparr>]
      else svcs)"

definition HTTP2GW_applyDefaults :: "http2gw_cfg \<Rightarrow> http2gw_cfg" where
  "HTTP2GW_applyDefaults c =
     c\<lparr>gw_Node := default_node ''http2gw-1'' ''http2_server'' (gw_Node c),
       gw_HTTP := (gw_HTTP c)\<lparr>http_Listen := or_default ''0.0.0.0'' (http_Listen (gw_HTTP c)),
         http_Port := (if http_Port (gw_HTTP c) = 0 then 8080 else http_Port (gw_HTTP c))\<rparr>,
       gw_UDP := (gw_UDP c)\<lparr>udp_Listen := or_default ''0.0.0.0'' (udp_Listen (gw_UDP c))\<rparr>,
       gw_Heartbeat := default_heartbeat (gw_Heartbeat c),
       gw_Strategy := or_default ''consistent_hash'' (gw_Strategy c),
       gw_Services := default_services 1 ''http2gw'' (gw_Services c)\<rparr>"

definition strategy_supported :: "string \<Rightarrow> bool" where
  "strategy_supported s \<longleftrightarrow> to_lower (TrimSpace s) \<in>
     {''consistent_hash'', ''consistent-hash'', ''round_robin'', ''round-robin''}"

definition HTTP2GW_Validate ::
  "(string \<Rightarrow> float64 res) \<Rightarrow> (float64 \<Rightarrow> u64 \<Rightarrow> u64) \<Rightarrow> http2gw_cfg \<Rightarrow> gerr option" where
  "HTTP2GW_Validate scan scale c =
     (let http = gw_HTTP c; udp = gw_UDP c in
      checks
       ([(NodeID (gw_Node c) = 0, plain [Lit ''node.node_id must be > 0''])] @
        (if blank (cfg_IP (gw_Node c)) then [] else parse_check ''node.ip'' (TrimSpace (cfg_IP (gw_Node c)))) @
        [(http_Port http < 0 \<or> http_Port http > 65535, out_of_range ''http.port'' (http_Port http)),
         (float_neg (MaxRPS http), plain [Lit ''http.max_rps must be >= 0'']),
         (MaxRPSBurst http < 0 \<or> MaxRPSBurst http > 100000, out_of_range ''http.max_rps_burst'' (MaxRPSBurst http)),
         ((TLSCert http = []) \<noteq> (TLSKey http = []),
            plain [Lit ''http.tls_cert and http.tls_key must both be set or both empty'']),
         (udp_Port udp < 0 \<or> udp_Port udp > 65535, out_of_range ''udp.port'' (udp_Port udp)),
         (udp_InboundQueueSize udp < 0 \<or> udp_InboundQueueSize udp > 100000,
            out_of_range ''udp.inbound_queue_size'' (udp_InboundQueueSize udp)),
         (udp_InboundWorkers udp < 0 \<or> udp_InboundWorkers udp > 64,
            out_of_range ''udp.inbound_workers'' (udp_InboundWorkers udp))] @
        heartbeat_checks (gw_Heartbeat c) @
        [(gw_TxTimeout c \<le> 0, plain [Lit ''transaction.timeout must be > 0'']),
         (\<not> strategy_supported (gw_Strategy c),
            plain [Lit ''routing.strategy '', Quoted (gw_Strategy c), Lit '' is not supported''])] @
        services_checks 0 (gw_Services c))
       (Resource_Validate scan scale ''resource'' (gw_Resource c)))"

definition StrategyName :: "http2gw_cfg \<Rightarrow> string" where
  "StrategyName c = underscores (to_lower (TrimSpace (gw_Strategy c)))"

text \<open>\<open>LoadHTTP2GW\<close> after the file is decoded.\<close>

definition LoadHTTP2GW ::
  "(string \<Rightarrow> float64 res) \<Rightarrow> (float64 \<Rightarrow> u64 \<Rightarrow> u64) \<Rightarrow> http2gw_cfg \<Rightarrow> http2gw_cfg res" where
  "LoadHTTP2GW scan scale c =
     (let c' = HTTP2GW_applyDefaults c in
      case HTTP2GW_Validate scan scale c' of Some err \<Rightarrow> Inl err | None \<Rightarrow> Inr c')"

section \<open>Logic (\<open>logic.go\<close>)\<close>

definition Logic_applyDefaults :: "logic_cfg \<Rightarrow> logic_cfg" where
  "Logic_applyDefaults c =
     c\<lparr>lo_Node := default_node ''logic-1'' ''logic'' (lo_Node c),
       lo_UDP := (lo_UDP c)\<lparr>udp_Listen := or_default ''0.0.0.0'' (udp_Listen (lo_UDP c))\<rparr>,
       lo_Gateway := (lo_Gateway c)\<lparr>gwa_Host := or_default ''127.0.0.1'' (gwa_Host (lo_Gateway c))\<rparr>,
       lo_Services := default_services 100 ''call'' (lo_Services c),
       lo_Metrics := (if blank (met_Listen (lo_Metrics c)) \<and> met_Port (lo_Metrics c) > 0
         then (lo_Metrics c)\<lparr>met_Listen := ''0.0.0.0''\<rparr> else lo_Metrics c)\<rparr>"

definition Logic_Validate ::
  "(string \<Rightarrow> float64 res) \<Rightarrow> (float64 \<Rightarrow> u64 \<Rightarrow> u64) \<Rightarrow> logic_cfg \<Rightarrow> gerr option" where
  "Logic_Validate scan scale c =
     (let ip = TrimSpace (cfg_IP (lo_Node c)); host = gwa_Host (lo_Gateway c) in
      checks
       ([(NodeID (lo_Node c) = 0, plain [Lit ''node.node_id must be > 0'']),
         (blank (cfg_InstanceID (lo_Node c)), plain [Lit ''node.instance_id is required'']),
         (udp_Port (lo_UDP c) < 0 \<or> udp_Port (lo_UDP c) > 65535, out_of_range ''udp.port'' (udp_Port (lo_UDP c)))] @
        parse_check ''gateway.host'' host @
        [(IsUnspecified host, plain [Lit ''gateway.host '', Quoted host, Lit '' is unspecified; use a reachable host or IP'']),
         (gwa_Port (lo_Gateway c) \<le> 0 \<or> gwa_Port (lo_Gateway c) > 65535,
            out_of_range ''gateway.port'' (gwa_Port (lo_Gateway c))),
         (h_Interval (lo_Heartbeat c) \<le> 0, plain [Lit ''heartbeat.interval must be > 0''])] @
        (if ip = [] then []
         else parse_check ''node.ip'' ip @
           [(IsUnspecified ip, plain [Lit ''node.ip '', Quoted ip, Lit '' is unspecified; advertise a reachable address''])]) @
        services_checks 0 (lo_Services c) @
        [(met_Port (lo_Metrics c) < 0 \<or> met_Port (lo_Metrics c) > 65535,
            out_of_range ''metrics.port'' (met_Port (lo_Metrics c)))])
       (Resource_Validate scan scale ''resource'' (lo_Resource c)))"

definition AdvertiseHost :: "logic_cfg \<Rightarrow> string" where
  "AdvertiseHost c =
     (let ip = TrimSpace (cfg_IP (lo_Node c)); host = TrimSpace (udp_Listen (lo_UDP c)) in
      if ip \<noteq> [] then ip
      else if host \<noteq> [] \<and> \<not> IsUnspecified host \<and> \<not> isl (ParseHost host) then host
      else ''127.0.0.1'')"

definition LoadLogic ::
  "(string \<Rightarrow> float64 res) \<Rightarrow> (float64 \<Rightarrow> u64 \<Rightarrow> u64) \<Rightarrow> logic_cfg \<Rightarrow> logic_cfg res" where
  "LoadLogic scan scale c =
     (let c' = Logic_applyDefaults c in
      case Logic_Validate scan scale c' of Some err \<Rightarrow> Inl err | None \<Rightarrow> Inr c')"

section \<open>Master and load client (\<open>master.go\<close>)\<close>

definition Master_applyDefaults :: "master_cfg \<Rightarrow> master_cfg" where
  "Master_applyDefaults c =
     (let n = ms_Node c; http = ms_HTTP c; h = ms_Heartbeat c in
      c\<lparr>ms_Node := n\<lparr>NodeID := (if NodeID n = 0 then 1 else NodeID n),
          cfg_InstanceID := or_default ''master-1'' (cfg_InstanceID n), cfg_Name := or_default ''master'' (cfg_Name n),
          cfg_Type := or_default ''master'' (cfg_Type n), cfg_Group := or_default ''local-server'' (cfg_Group n)\<rparr>,
        ms_HTTP := http\<lparr>http_Listen := or_default ''127.0.0.1'' (http_Listen http),
          http_Port := (if http_Port http = 0 then 9200 else http_Port http)\<rparr>,
        ms_Heartbeat := default_heartbeat
          (h\<lparr>h_Interval := (if h_Interval h \<le> 0 then second else h_Interval h),
             h_Timeout := (if h_Timeout h \<le> 0 then 3 * second else h_Timeout h)\<rparr>)\<rparr>)"

definition normalizeNodeType :: "string \<Rightarrow> string" where
  "normalizeNodeType s0 =
     (let s = underscores (to_lower (TrimSpace s0)) in
      if s \<in> {''http2gw'', ''http2_server'', ''http2server''} then ''http2_server''
      else if s \<in> {''http2_client'', ''http2client''} then ''http2_client''
      else s)"

definition Master_Validate ::
  "(string \<Rightarrow> float64 res) \<Rightarrow> (float64 \<Rightarrow> u64 \<Rightarrow> u64) \<Rightarrow> master_cfg \<Rightarrow> gerr option" where
  "Master_Validate scan scale c =
     checks
      ([(NodeID (ms_Node c) = 0, plain [Lit ''node.node_id must be > 0'']),
        (normalizeNodeType (cfg_Type (ms_Node c)) \<noteq> ''master'',
           plain [Lit ''node.type must be master, got '', Quoted (cfg_Type (ms_Node c))]),
        (http_Port (ms_HTTP c) \<le> 0 \<or> http_Port (ms_HTTP c) > 65535,
           out_of_range ''http.port'' (http_Port (ms_HTTP c)))] @
       heartbeat_checks (ms_Heartbeat c))
      (Resource_Validate scan scale ''resource'' (ms_Resource c))"

definition LoadMaster ::
  "(string \<Rightarrow> float64 res) \<Rightarrow> (float64 \<Rightarrow> u64 \<Rightarrow> u64) \<Rightarrow> master_cfg \<Rightarrow> master_cfg res" where
  "LoadMaster scan scale c =
     (let c' = Master_applyDefaults c in
      case Master_Validate scan scale c' of Some err \<Rightarrow> Inl err | None \<Rightarrow> Inr c')"

definition default_session :: "load_client_cfg \<Rightarrow> string" where
  "default_session c =
     (if blank (cl_SessionID c) then
        (if cfg_Name (cl_Node c) \<noteq> [] then cfg_Name (cl_Node c)
         else if cfg_InstanceID (cl_Node c) \<noteq> [] then cfg_InstanceID (cl_Node c)
         else ''sess'')
      else cl_SessionID c)"

definition LoadClient_applyDefaults :: "load_client_cfg \<Rightarrow> load_client_cfg" where
  "LoadClient_applyDefaults c =
     c\<lparr>cl_Node := (cl_Node c)\<lparr>cfg_Group := or_default ''tool-client'' (cfg_Group (cl_Node c))\<rparr>,
       cl_Target := or_default ''http://127.0.0.1:8080'' (cl_Target c),
       cl_MessageID := (if cl_MessageID c = 0 then 1001 else cl_MessageID c),
       cl_SessionID := default_session c,
       cl_Body := or_default ''hello'' (cl_Body c),
       cl_Timeout := (if cl_Timeout c \<le> 0 then 10 * second else cl_Timeout c),
       cl_Concurrency := (if cl_Concurrency c < 1 then 1 else cl_Concurrency c),
       cl_MasterURL := or_default ''http://127.0.0.1:9200'' (cl_MasterURL c)\<rparr>"

definition LoadClient_Validate ::
  "(string \<Rightarrow> float64 res) \<Rightarrow> (float64 \<Rightarrow> u64 \<Rightarrow> u64) \<Rightarrow> load_client_cfg \<Rightarrow> gerr option" where
  "LoadClient_Validate scan scale c =
     (let n = cl_Node c; nt = normalizeNodeType (cfg_Type n) in
      checks
       [(NodeID n = 0, plain [Lit ''node.node_id must be > 0'']),
        (blank (cfg_InstanceID n), plain [Lit ''node.instance_id is required'']),
        (nt \<noteq> ''http2_client'' \<and> nt \<noteq> ''performance'',
           plain [Lit ''node.type must be http2_client or performance, got '', Quoted (cfg_Type n)]),
        (blank (cl_Target c), plain [Lit ''target is required'']),
        (cl_MessageID c = 0, plain [Lit ''message_id must be > 0'']),
        (cl_Concurrency c < 1, plain [Lit ''concurrency must be >= 1'']),
        (float_neg (cl_QPS c), plain [Lit ''qps must be >= 0'']),
        (cl_N c < 0, plain [Lit ''n must be >= 0'']),
        (cl_N c = 0 \<and> cl_Duration c \<le> 0, plain [Lit ''need n > 0 or duration > 0'']),
        (cl_Timeout c \<le> 0, plain [Lit ''timeout must be > 0''])]
       (Resource_Validate scan scale ''resource'' (cl_Resource c)))"

definition LoadLoadClient ::
  "(string \<Rightarrow> float64 res) \<Rightarrow> (float64 \<Rightarrow> u64 \<Rightarrow> u64) \<Rightarrow> load_client_cfg \<Rightarrow> load_client_cfg res" where
  "LoadLoadClient scan scale c =
     (let c' = LoadClient_applyDefaults c in
      case LoadClient_Validate scan scale c' of Some err \<Rightarrow> Inl err | None \<Rightarrow> Inr c')"

section \<open>What validation and defaulting guarantee\<close>

definition monitor_config :: "heartbeat_cfg \<Rightarrow> hb_config" where
  "monitor_config h = \<lparr>Interval = h_Interval h, SuspectTimeout = h_Timeout h, DeadTimeout = h_DeadTimeout h\<rparr>"

lemma heartbeat_checks_ok: "(\<forall>g \<in> set (heartbeat_checks h). \<not> fst g) \<longleftrightarrow> hb_Validate (monitor_config h) = None"
  by (auto simp: heartbeat_checks_def hb_Validate_None monitor_config_def)

lemma default_idem [simp]: "\<not> blank d \<Longrightarrow> or_default d (or_default d s) = or_default d s"
  by (simp add: or_default_def)

lemma default_not_blank [simp]: "\<not> blank d \<Longrightarrow> \<not> blank (or_default d s)"
  by (simp add: or_default_def)

lemma default_services_idem [simp]: "default_services i n (default_services i n s) = default_services i n s"
  by (simp add: default_services_def)

lemma default_heartbeat_idem [simp]: "default_heartbeat (default_heartbeat h) = default_heartbeat h"
  by (auto simp: default_heartbeat_def)

lemma default_node_idem [simp]:
  "\<not> blank inst \<Longrightarrow> \<not> blank typ \<Longrightarrow> default_node inst typ (default_node inst typ n) = default_node inst typ n"
proof -
  assume "\<not> blank inst" "\<not> blank typ"
  moreover have "\<not> blank ''local-server''" by code_simp
  ultimately show ?thesis by (simp add: default_node_def Let_def) 
qed

lemma HTTP2GW_Validate_None:
  "HTTP2GW_Validate scan scale c = None \<longleftrightarrow>
     NodeID (gw_Node c) \<noteq> 0 \<and> (\<not> blank (cfg_IP (gw_Node c)) \<longrightarrow> \<not> isl (ParseHost (TrimSpace (cfg_IP (gw_Node c))))) \<and>
     0 \<le> http_Port (gw_HTTP c) \<and> http_Port (gw_HTTP c) \<le> 65535 \<and> \<not> float_neg (MaxRPS (gw_HTTP c)) \<and>
     0 \<le> MaxRPSBurst (gw_HTTP c) \<and> MaxRPSBurst (gw_HTTP c) \<le> 100000 \<and>
     (TLSCert (gw_HTTP c) = [] \<longleftrightarrow> TLSKey (gw_HTTP c) = []) \<and>
     0 \<le> udp_Port (gw_UDP c) \<and> udp_Port (gw_UDP c) \<le> 65535 \<and>
     0 \<le> udp_InboundQueueSize (gw_UDP c) \<and> udp_InboundQueueSize (gw_UDP c) \<le> 100000 \<and>
     0 \<le> udp_InboundWorkers (gw_UDP c) \<and> udp_InboundWorkers (gw_UDP c) \<le> 64 \<and>
     hb_Validate (monitor_config (gw_Heartbeat c)) = None \<and> 0 < gw_TxTimeout c \<and>
     strategy_supported (gw_Strategy c) \<and> (\<forall>svc \<in> set (gw_Services c). svc_ServiceID svc \<noteq> 0) \<and>
     Resource_Validate scan scale ''resource'' (gw_Resource c) = None"
  by (simp add: HTTP2GW_Validate_def Let_def ball_Un heartbeat_checks_ok services_checks_ok parse_check_ok not_less not_le) auto

lemma Logic_Validate_None:
  "Logic_Validate scan scale c = None \<longleftrightarrow>
     NodeID (lo_Node c) \<noteq> 0 \<and> \<not> blank (cfg_InstanceID (lo_Node c)) \<and>
     0 \<le> udp_Port (lo_UDP c) \<and> udp_Port (lo_UDP c) \<le> 65535 \<and>
     \<not> isl (ParseHost (gwa_Host (lo_Gateway c))) \<and> \<not> IsUnspecified (gwa_Host (lo_Gateway c)) \<and>
     0 < gwa_Port (lo_Gateway c) \<and> gwa_Port (lo_Gateway c) \<le> 65535 \<and> 0 < h_Interval (lo_Heartbeat c) \<and>
     (\<not> blank (cfg_IP (lo_Node c)) \<longrightarrow> \<not> isl (ParseHost (TrimSpace (cfg_IP (lo_Node c)))) \<and>
        \<not> IsUnspecified (TrimSpace (cfg_IP (lo_Node c)))) \<and>
     (\<forall>svc \<in> set (lo_Services c). svc_ServiceID svc \<noteq> 0) \<and>
     0 \<le> met_Port (lo_Metrics c) \<and> met_Port (lo_Metrics c) \<le> 65535 \<and>
     Resource_Validate scan scale ''resource'' (lo_Resource c) = None"
  by (simp add: Logic_Validate_def Let_def ball_Un services_checks_ok parse_check_ok not_less not_le) auto

lemma default_texts [simp]:
  "\<not> blank ''http2gw-1''" "\<not> blank ''http2_server''" "\<not> blank ''0.0.0.0''" "\<not> blank ''consistent_hash''"
  "\<not> blank ''logic-1''" "\<not> blank ''logic''" "\<not> blank ''127.0.0.1''" "\<not> blank ''master-1''" "\<not> blank ''master''"
  "\<not> blank ''local-server''" "\<not> blank ''tool-client''" "\<not> blank ''http://127.0.0.1:8080''" "\<not> blank ''hello''"
  "\<not> blank ''http://127.0.0.1:9200''"
  by code_simp+

lemma blank_Nil [simp]: "blank []"
  by simp

lemma default_session_idem: "default_session (c\<lparr>cl_SessionID := default_session c\<rparr>) = default_session c"
  by (auto simp: default_session_def)

lemma HTTP2GW_defaults_idem: "HTTP2GW_applyDefaults (HTTP2GW_applyDefaults c) = HTTP2GW_applyDefaults c"
  by (simp add: HTTP2GW_applyDefaults_def)

lemma Logic_defaults_idem: "Logic_applyDefaults (Logic_applyDefaults c) = Logic_applyDefaults c"
  by (simp add: Logic_applyDefaults_def)

lemma Master_defaults_idem: "Master_applyDefaults (Master_applyDefaults c) = Master_applyDefaults c"
  by (auto simp: Master_applyDefaults_def Let_def default_heartbeat_def second_def)

lemma LoadClient_defaults_idem: "LoadClient_applyDefaults (LoadClient_applyDefaults c) = LoadClient_applyDefaults c"
  by (auto simp: LoadClient_applyDefaults_def default_session_def second_def)

text \<open>
  Loading is stable: a configuration that a process loaded passes its own validation, applying
  the defaults to it again changes nothing, and loading it again gives the same configuration; this
  holds for the gateway, the Logic node, the Master and the load client.
\<close>

theorem load_stable:
  "(LoadHTTP2GW scan scale g = Inr g' \<longrightarrow> HTTP2GW_Validate scan scale g' = None \<and> LoadHTTP2GW scan scale g' = Inr g') \<and>
   (LoadLogic scan scale l = Inr l' \<longrightarrow> Logic_Validate scan scale l' = None \<and> LoadLogic scan scale l' = Inr l') \<and>
   (LoadMaster scan scale m = Inr m' \<longrightarrow> Master_Validate scan scale m' = None \<and> LoadMaster scan scale m' = Inr m') \<and>
   (LoadLoadClient scan scale k = Inr k' \<longrightarrow>
      LoadClient_Validate scan scale k' = None \<and> LoadLoadClient scan scale k' = Inr k')"
proof (intro conjI [of "_ \<longrightarrow> _"] impI)
  show "LoadHTTP2GW scan scale g = Inr g' \<Longrightarrow> HTTP2GW_Validate scan scale g' = None \<and> LoadHTTP2GW scan scale g' = Inr g'"
    by (auto simp: LoadHTTP2GW_def Let_def HTTP2GW_defaults_idem split: option.splits)
  show "LoadLogic scan scale l = Inr l' \<Longrightarrow> Logic_Validate scan scale l' = None \<and> LoadLogic scan scale l' = Inr l'"
    by (auto simp: LoadLogic_def Let_def Logic_defaults_idem split: option.splits)
  show "LoadMaster scan scale m = Inr m' \<Longrightarrow> Master_Validate scan scale m' = None \<and> LoadMaster scan scale m' = Inr m'"
    by (auto simp: LoadMaster_def Let_def Master_defaults_idem split: option.splits)
  show "LoadLoadClient scan scale k = Inr k' \<Longrightarrow>
      LoadClient_Validate scan scale k' = None \<and> LoadLoadClient scan scale k' = Inr k'"
    by (auto simp: LoadLoadClient_def Let_def LoadClient_defaults_idem split: option.splits)
qed

lemma parse_trimmed: "\<not> isl (ParseHost (TrimSpace s)) \<longleftrightarrow> \<not> isl (ParseHost s)"
  by (simp add: ParseHost_def)

lemma host_resolvable:
  assumes "\<not> isl (ParseHost host)" "\<not> IsUnspecified host"
  shows "ParseHost host = Inr (TrimSpace host)" "\<not> IsUnspecified (TrimSpace host)"
  using assms ParseHost_Inr by (cases "ParseHost host"; force simp: IsUnspecified_def)+

text \<open>
  A validated Logic configuration advertises a usable host: an accepted IP address or hostname,
  never the unspecified address it may listen on, so that it resolves unless the DNS lookup of a
  hostname fails or yields no specified address.
\<close>

theorem advertised_host_usable:
  assumes "Logic_Validate scan scale c = None"
  shows "ParseHost (AdvertiseHost c) = Inr (AdvertiseHost c) \<and> \<not> IsUnspecified (AdvertiseHost c) \<and>
    (ParseIP (AdvertiseHost c) \<noteq> None \<longrightarrow> \<not> isl (ResolveIPLookup lookup (AdvertiseHost c)))"
proof -
  have lo: "ParseHost ''127.0.0.1'' = Inr ''127.0.0.1''" "\<not> IsUnspecified ''127.0.0.1''" by code_simp+
  have "ParseHost (AdvertiseHost c) = Inr (AdvertiseHost c) \<and> \<not> IsUnspecified (AdvertiseHost c)"
    using assms lo host_resolvable [of "TrimSpace (cfg_IP (lo_Node c))"]
      host_resolvable [of "TrimSpace (udp_Listen (lo_UDP c))"]
    by (auto simp: AdvertiseHost_def Let_def Logic_Validate_None parse_trimmed)
  then show ?thesis by (auto simp: ResolveIPLookup_def split: option.split)
qed

section \<open>Concrete configurations\<close>

definition w_node_cfg :: "string \<Rightarrow> node_cfg" where
  "w_node_cfg ty = \<lparr>NodeID = 4, cfg_InstanceID = ''node-4'', cfg_Name = [], cfg_Type = ty, cfg_Group = [], cfg_IP = []\<rparr>"

definition w_http_cfg :: http_cfg where
  "w_http_cfg = \<lparr>http_Listen = [], http_Port = 0, TLSCert = [], TLSKey = [], Remote = [], MaxRPS = 0,
     MaxRPSBurst = 0, MaxPending = 0, PprofListen = []\<rparr>"

definition w_udp_cfg :: udp_cfg where
  "w_udp_cfg = \<lparr>udp_Listen = ''0.0.0.0'', udp_Port = 9000, udp_InboundQueueSize = 0, udp_InboundWorkers = 0\<rparr>"

definition w_hb_cfg :: heartbeat_cfg where
  "w_hb_cfg = \<lparr>h_Interval = second, h_Timeout = 3 * second, h_DeadTimeout = 0\<rparr>"

definition w_resource :: resource_cfg where "w_resource = \<lparr>CPUCores = 0, res_Memory = []\<rparr>"

definition w_gw_cfg :: http2gw_cfg where
  "w_gw_cfg = \<lparr>gw_Node = w_node_cfg [], gw_HTTP = w_http_cfg, gw_UDP = w_udp_cfg, gw_Heartbeat = w_hb_cfg,
     gw_TxTimeout = second, gw_Strategy = ''Round-Robin'', gw_Services = [], gw_Resource = w_resource, gw_MasterURL = []\<rparr>"

definition w_logic_cfg :: logic_cfg where
  "w_logic_cfg = \<lparr>lo_Node = w_node_cfg [], lo_UDP = w_udp_cfg, lo_Gateway = \<lparr>gwa_Host = [], gwa_Port = 9000\<rparr>,
     lo_Heartbeat = w_hb_cfg, lo_Services = [], lo_Resource = w_resource, lo_MasterURL = [],
     lo_Metrics = \<lparr>met_Listen = [], met_Port = 0\<rparr>\<rparr>"

definition w_client_cfg :: load_client_cfg where
  "w_client_cfg = \<lparr>cl_Node = w_node_cfg ''performance'', cl_Target = [], cl_MessageID = 0, cl_SessionID = [],
     cl_UniqueSession = False, cl_Body = [], cl_Timeout = 0, cl_Concurrency = 0, cl_QPS = 0, cl_Duration = second,
     cl_N = 0, cl_MasterURL = [], cl_Resource = w_resource\<rparr>"

definition w_scan :: "string \<Rightarrow> float64 res" where "w_scan s = Inr 0"
definition w_scale :: "float64 \<Rightarrow> u64 \<Rightarrow> u64" where "w_scale n mult = 0"

lemma w_texts:
  "to_lower (TrimSpace ''Round-Robin'') = ''round-robin''" "TrimSpace ''node-4'' = ''node-4''"
  "normalizeNodeType ''performance'' = ''performance''" "ParseHost ''127.0.0.1'' = Inr ''127.0.0.1''"
  "\<not> IsUnspecified ''127.0.0.1''" "IsUnspecified ''0.0.0.0''" "TrimSpace ''0.0.0.0'' = ''0.0.0.0''" "to_upper [] = []"
  "TrimSpace ''Round-Robin'' \<noteq> []" "TrimSpace ''performance'' \<noteq> []"
  by code_simp+

lemmas w_cfg_defs = w_node_cfg_def w_http_cfg_def w_udp_cfg_def w_hb_cfg_def w_resource_def or_default_def
  default_node_def default_services_def default_heartbeat_def twice_def second_def float_neg_def
  Resource_Validate_def ParseMemoryBytes_def monitor_config_def hb_Validate_None Let_def w_texts

lemma w_gw_valid: "HTTP2GW_Validate w_scan w_scale (HTTP2GW_applyDefaults w_gw_cfg) = None"
  by (simp add: HTTP2GW_Validate_None HTTP2GW_applyDefaults_def w_gw_cfg_def strategy_supported_def w_cfg_defs)

lemma w_logic_valid: "Logic_Validate w_scan w_scale (Logic_applyDefaults w_logic_cfg) = None"
  by (simp add: Logic_Validate_None Logic_applyDefaults_def w_logic_cfg_def w_cfg_defs)

lemma w_client_valid: "LoadClient_Validate w_scan w_scale (LoadClient_applyDefaults w_client_cfg) = None"
  by (simp add: LoadClient_Validate_def LoadClient_applyDefaults_def w_client_cfg_def default_session_def w_cfg_defs)

lemma w_loads:
  "LoadHTTP2GW w_scan w_scale w_gw_cfg = Inr (HTTP2GW_applyDefaults w_gw_cfg)"
  "LoadLogic w_scan w_scale w_logic_cfg = Inr (Logic_applyDefaults w_logic_cfg)"
  "LoadLoadClient w_scan w_scale w_client_cfg = Inr (LoadClient_applyDefaults w_client_cfg)"
  by (simp_all add: LoadHTTP2GW_def LoadLogic_def LoadLoadClient_def w_gw_valid w_logic_valid w_client_valid Let_def)

theorem load_stable_witness:
  "LoadHTTP2GW w_scan w_scale (HTTP2GW_applyDefaults w_gw_cfg) = Inr (HTTP2GW_applyDefaults w_gw_cfg) \<and>
   LoadLogic w_scan w_scale (Logic_applyDefaults w_logic_cfg) = Inr (Logic_applyDefaults w_logic_cfg)"
  using load_stable [of w_scan w_scale w_gw_cfg _ w_logic_cfg] w_loads by blast

theorem advertised_host_usable_witness:
  "AdvertiseHost (Logic_applyDefaults w_logic_cfg) = ''127.0.0.1'' \<and> \<not> IsUnspecified ''127.0.0.1''"
proof -
  have a: "AdvertiseHost (Logic_applyDefaults w_logic_cfg) = ''127.0.0.1''"
    by (simp add: AdvertiseHost_def Logic_applyDefaults_def w_logic_cfg_def w_cfg_defs)
  show ?thesis using advertised_host_usable [OF w_logic_valid] a by simp
qed

end
