(* ===== verification/ControlPlane.thy ===== *)
theory ControlPlane imports Config Registration begin

text \<open>
  \<open>internal/controlplane\<close>: the JSON payloads of the control plane, the node type names, the view of
  a registry entry, and the agent that registers a process with the Master and then sends it
  heartbeats.  Payloads are the decoded records; the JSON text and the HTTP connection are not
  modelled, an HTTP exchange is its outcome.
\<close>

section \<open>Payloads (\<open>agent.go\<close>)\<close>

record register_body =
  rb_NodeID :: u32
  rb_InstanceID :: string
  rb_Name :: string
  rb_Type :: string
  rb_Group :: string
  rb_Address :: string
  rb_UDPPort :: u32
  rb_HTTPPort :: u32
  rb_CPUCores :: float64
  rb_Memory :: string
  rb_MemoryBytes :: u64

record heartbeat_body =
  hbb_NodeID :: u32
  hbb_Load :: u32
  hbb_ActiveTransaction :: u32

record node_view =
  nv_NodeID :: u32
  nv_InstanceID :: string
  nv_Name :: string
  nv_Type :: string
  nv_Group :: string
  nv_Address :: string
  nv_UDPPort :: u32
  nv_HTTPPort :: u32
  nv_State :: string
  nv_LastHeartbeatUnix :: int
  nv_Load :: u32
  nv_ActiveTransaction :: u32
  nv_CPULimitCores :: float64
  nv_MemoryLimitBytes :: u64

definition ParseType :: "string \<Rightarrow> ntype res" where
  "ParseType s0 =
     (let s = underscores (to_lower (TrimSpace s0)) in
      if s \<in> {''http2gw'', ''http2_server'', ''http2server''} then Inr TypeHTTP2GW
      else if s = ''logic'' then Inr TypeLogic
      else if s = ''master'' then Inr TypeMaster
      else if s \<in> {''http2_client'', ''http2client''} then Inr TypeHTTP2Client
      else if s \<in> {''performance'', ''perf''} then Inr TypePerformance
      else Inl (plain [Lit ''unknown node type '', Quoted s]))"

definition ToView :: "node option \<Rightarrow> node_view" where
  "ToView n =
     (case n of
        None \<Rightarrow> \<lparr>nv_NodeID = 0, nv_InstanceID = [], nv_Name = [], nv_Type = [], nv_Group = [], nv_Address = [],
          nv_UDPPort = 0, nv_HTTPPort = 0, nv_State = [], nv_LastHeartbeatUnix = 0, nv_Load = 0,
          nv_ActiveTransaction = 0, nv_CPULimitCores = 0, nv_MemoryLimitBytes = 0\<rparr>
      | Some nd \<Rightarrow>
          \<lparr>nv_NodeID = node_id nd, nv_InstanceID = InstanceID nd,
           nv_Name = (if Name nd = [] then InstanceID nd else Name nd),
           nv_Type = Type_String (Type nd), nv_Group = Group nd, nv_Address = Address nd,
           nv_UDPPort = UDPPort nd, nv_HTTPPort = HTTPPort nd, nv_State = NodeState_String (State nd),
           nv_LastHeartbeatUnix = (if LastHeartbeatAt nd = zero_time then 0 else LastHeartbeatAt nd div second),
           nv_Load = Load nd, nv_ActiveTransaction = ActiveTransaction nd,
           nv_CPULimitCores = CPULimitCores (Resource nd), nv_MemoryLimitBytes = MemoryLimitBytes (Resource nd)\<rparr>)"

section \<open>The body of each process (\<open>body.go\<close>)\<close>

definition BodyFromHTTP2GW :: "(resource_cfg \<Rightarrow> u64) \<Rightarrow> http2gw_cfg \<Rightarrow> register_body" where
  "BodyFromHTTP2GW memory_bytes cfg =
     \<lparr>rb_NodeID = NodeID (gw_Node cfg), rb_InstanceID = cfg_InstanceID (gw_Node cfg), rb_Name = cfg_Name (gw_Node cfg),
      rb_Type = ''http2_server'', rb_Group = cfg_Group (gw_Node cfg), rb_Address = cfg_IP (gw_Node cfg),
      rb_UDPPort = word_of_int (udp_Port (gw_UDP cfg)), rb_HTTPPort = word_of_int (http_Port (gw_HTTP cfg)),
      rb_CPUCores = CPUCores (gw_Resource cfg), rb_Memory = res_Memory (gw_Resource cfg),
      rb_MemoryBytes = memory_bytes (gw_Resource cfg)\<rparr>"

definition BodyFromLogic :: "(resource_cfg \<Rightarrow> u64) \<Rightarrow> logic_cfg \<Rightarrow> u32 \<Rightarrow> register_body" where
  "BodyFromLogic memory_bytes cfg udpPort =
     \<lparr>rb_NodeID = NodeID (lo_Node cfg), rb_InstanceID = cfg_InstanceID (lo_Node cfg), rb_Name = cfg_Name (lo_Node cfg),
      rb_Type = ''logic'', rb_Group = cfg_Group (lo_Node cfg), rb_Address = AdvertiseHost cfg,
      rb_UDPPort = udpPort, rb_HTTPPort = 0,
      rb_CPUCores = CPUCores (lo_Resource cfg), rb_Memory = res_Memory (lo_Resource cfg),
      rb_MemoryBytes = memory_bytes (lo_Resource cfg)\<rparr>"

definition BodyFromLoadClient :: "(resource_cfg \<Rightarrow> u64) \<Rightarrow> load_client_cfg \<Rightarrow> register_body" where
  "BodyFromLoadClient memory_bytes cfg =
     \<lparr>rb_NodeID = NodeID (cl_Node cfg), rb_InstanceID = cfg_InstanceID (cl_Node cfg), rb_Name = cfg_Name (cl_Node cfg),
      rb_Type = cfg_Type (cl_Node cfg), rb_Group = cfg_Group (cl_Node cfg), rb_Address = cfg_IP (cl_Node cfg),
      rb_UDPPort = 0, rb_HTTPPort = 0,
      rb_CPUCores = CPUCores (cl_Resource cfg), rb_Memory = res_Memory (cl_Resource cfg),
      rb_MemoryBytes = memory_bytes (cl_Resource cfg)\<rparr>"

section \<open>The agent (\<open>Agent.Run\<close>)\<close>

record agent =
  ag_MasterURL :: string
  ag_Body :: register_body
  ag_Interval :: duration

datatype outcome = DoErr gerr | Status int

text \<open>The error \<open>postJSON\<close> returns for an exchange.\<close>

fun postJSON :: "outcome \<Rightarrow> gerr option" where
  "postJSON (DoErr err) = Some err"
| "postJSON (Status code) = (if code \<ge> 300 then Some (plain [Lit ''status '', Lit (Itoa code)]) else None)"

datatype agent_request = AgRegister register_body | AgHeartbeat heartbeat_body | AgLeave u32

text \<open>
  Where the agent is: at the head of its registration loop, in the \<open>select\<close> after a failed
  registration, in the heartbeat loop, or returned.  An event is what the agent meets next: the
  registration attempt with the context's error at the loop head and the outcome of the request,
  the end of the context or the timer in the \<open>select\<close>, a tick with the outcome of its heartbeat.
\<close>

datatype agent_phase = Registering | AwaitRetry | Beating | Returned "ctx_err option"

datatype agent_event = ATry "ctx_err option" outcome | ADone ctx_err | ATimer | ATick outcome

definition agent_start :: "agent \<Rightarrow> agent_phase" where
  "agent_start a = (if blank (ag_MasterURL a) then Returned None else Registering)"

definition agent_interval :: "agent \<Rightarrow> duration" where
  "agent_interval a = (if ag_Interval a \<le> 0 then second else ag_Interval a)"

fun agent_step :: "agent \<Rightarrow> agent_phase \<Rightarrow> agent_event \<Rightarrow> (agent_phase \<times> agent_request list) option" where
  "agent_step a Registering (ATry (Some e) out) = Some (Returned (Some e), [])"
| "agent_step a Registering (ATry None out) =
     Some (if postJSON out = None then Beating else AwaitRetry, [AgRegister (ag_Body a)])"
| "agent_step a AwaitRetry (ADone e) = Some (Returned (Some e), [])"
| "agent_step a AwaitRetry ATimer = Some (Registering, [])"
| "agent_step a Beating (ATick out) =
     Some (Beating, [AgHeartbeat \<lparr>hbb_NodeID = rb_NodeID (ag_Body a), hbb_Load = 0, hbb_ActiveTransaction = 0\<rparr>])"
| "agent_step a Beating (ADone e) = Some (Returned (Some e), [AgLeave (rb_NodeID (ag_Body a))])"
| "agent_step a _ _ = None"

fun agent_run :: "agent \<Rightarrow> agent_phase \<Rightarrow> agent_event list \<Rightarrow> (agent_phase \<times> agent_request list) option" where
  "agent_run a p [] = Some (p, [])"
| "agent_run a p (ev # evs) =
     (case agent_step a p ev of
        None \<Rightarrow> None
      | Some (p', rs) \<Rightarrow> map_option (\<lambda>(q, rs'). (q, rs @ rs')) (agent_run a p' evs))"

lemma agent_step_beating:
  "agent_step a Beating ev = Some (p, rs) \<Longrightarrow>
     (\<exists>out. ev = ATick out) \<and> p = Beating \<and>
       rs = [AgHeartbeat \<lparr>hbb_NodeID = rb_NodeID (ag_Body a), hbb_Load = 0, hbb_ActiveTransaction = 0\<rparr>] \<or>
     (\<exists>e. ev = ADone e \<and> p = Returned (Some e) \<and> rs = [AgLeave (rb_NodeID (ag_Body a))])"
  by (cases ev) auto

lemma agent_step_returned: "agent_step a (Returned e) ev = None"
  by (cases ev) auto

section \<open>The types a validated configuration carries\<close>

lemma ParseType_normalized:
  "ParseType s = (case normalizeNodeType s of
     t \<Rightarrow> if t = ''http2_server'' then Inr TypeHTTP2GW else if t = ''logic'' then Inr TypeLogic
          else if t = ''master'' then Inr TypeMaster else if t = ''http2_client'' then Inr TypeHTTP2Client
          else if t = ''performance'' \<or> t = ''perf'' then Inr TypePerformance
          else Inl (plain [Lit ''unknown node type '', Quoted t]))"
  by (simp add: ParseType_def normalizeNodeType_def Let_def)

lemma LoadClient_type:
  assumes "LoadClient_Validate scan scale c = None"
  shows "ParseType (cfg_Type (cl_Node c)) \<in> {Inr TypeHTTP2Client, Inr TypePerformance}"
proof -
  have "normalizeNodeType (cfg_Type (cl_Node c)) \<in> {''http2_client'', ''performance''}"
    using assms by (auto simp: LoadClient_Validate_def Let_def)
  then show ?thesis by (auto simp: ParseType_normalized)
qed

end
