(* ===== verification/Outbound.thy ===== *)
theory Outbound imports Dispatch begin

text \<open>
  \<open>internal/outbound/client.go\<close>: the HTTP/2 client a DATA_REQUEST of a Logic node is forwarded
  with.  \<open>http.NewRequestWithContext\<close> may fail (\<open>new_request\<close>, by the URL); \<open>do\<close> is the exchange
  with the remote: an error, or the status with the bytes of the body and the error, if any, that
  ends it.
\<close>

section \<open>The client\<close>

record outbound =
  ob_baseURL :: string
  ob_timeout :: duration

definition NewOutbound :: "string \<Rightarrow> duration \<Rightarrow> outbound" where
  "NewOutbound baseURL timeout =
     \<lparr>ob_baseURL = TrimRightSlash (TrimSpace baseURL), ob_timeout = (if timeout \<le> 0 then 5 * second else timeout)\<rparr>"

definition Configured :: "outbound \<Rightarrow> bool" where
  "Configured c \<longleftrightarrow> ob_baseURL c \<noteq> []"

record http_post =
  po_url :: string
  po_body :: bytes
  po_headers :: "(string \<times> string) list"

type_synonym exchange = "http_post \<Rightarrow> (int \<times> bytes \<times> gerr option) res"

definition outboundMaxBody :: nat where "outboundMaxBody = 2 ^ 20"

text \<open>\<open>io.ReadAll(io.LimitReader(resp.Body, n))\<close>: an error behind the first \<open>n\<close> bytes is not met.\<close>

definition read_limited :: "nat \<Rightarrow> bytes \<Rightarrow> gerr option \<Rightarrow> bytes res" where
  "read_limited n bs err =
     (if length bs \<ge> n then Inr (take n bs)
      else case err of Some e \<Rightarrow> Inl e | None \<Rightarrow> Inr bs)"

definition outbound_headers :: "envelope \<Rightarrow> data_request \<Rightarrow> (string \<times> string) list" where
  "outbound_headers env inn =
     [(''Content-Type'', ''application/octet-stream''), (''X-Message-Id'', FormatUint (dr_message_id inn))] @
     (let sid = TrimSpace (dr_session_id inn) in if sid \<noteq> [] then [(''X-Session-Id'', sid)] else []) @
     (let tid = TrimSpace (env_trace_id env) in if tid \<noteq> [] then [(''X-Trace-Id'', tid)] else []) @
     (if env_transaction_id env \<noteq> 0 then [(''X-Transaction-Id'', FormatUint (env_transaction_id env))] else [])"

definition outbound_status :: "int \<Rightarrow> u32" where
  "outbound_status code =
     (let status = (word_of_int code :: u32) in if status < 100 \<or> status > 599 then 502 else status)"

definition Forward ::
  "(string \<Rightarrow> gerr option) \<Rightarrow> exchange \<Rightarrow> outbound \<Rightarrow> envelope option \<Rightarrow> data_response res" where
  "Forward new_request exch c env =
     (if ob_baseURL c = [] then Inl (Opaque ''outbound remote URL is not configured'')
      else case env of
        None \<Rightarrow> Inl (Opaque ''require DATA_REQUEST'')
      | Some e \<Rightarrow>
         (case GetDataRequest e of
            None \<Rightarrow> Inl (Opaque ''require DATA_REQUEST'')
          | Some inn \<Rightarrow>
              let url = ob_baseURL c @ ''/v1/data'' in
              (case new_request url of
                 Some err \<Rightarrow> Inl err
               | None \<Rightarrow>
                   bind_res (exch \<lparr>po_url = url, po_body = dr_payload inn, po_headers = outbound_headers e inn\<rparr>)
                     (\<lambda>(code, bs, err).
                       bind_res (read_limited (outboundMaxBody + 1) bs err)
                         (\<lambda>body. Inr \<lparr>dp_message_id = dr_message_id inn, dp_status = outbound_status code,
                            dp_payload = (if length body > outboundMaxBody then take outboundMaxBody body else body)\<rparr>)))))"

text \<open>The dispatcher's view of the client: present when configured.\<close>

definition outbound_op ::
  "(string \<Rightarrow> gerr option) \<Rightarrow> exchange \<Rightarrow> outbound \<Rightarrow> (envelope \<Rightarrow> data_response res) option" where
  "outbound_op new_request exch c = (if Configured c then Some (\<lambda>e. Forward new_request exch c (Some e)) else None)"

section \<open>What the remote's answer becomes\<close>

lemma read_limited_Inr: "read_limited n bs err = Inr b \<Longrightarrow> b = take n bs \<and> (length bs < n \<longrightarrow> err = None)"
  by (auto simp: read_limited_def split: if_splits option.splits)

lemma outbound_status_range: "100 \<le> unat (outbound_status code) \<and> unat (outbound_status code) \<le> 599"
  by (auto simp: outbound_status_def Let_def word_less_nat_alt not_less)

lemma outbound_status_id: "100 \<le> code \<Longrightarrow> code \<le> 599 \<Longrightarrow> outbound_status code = word_of_int code"
  by (auto simp: outbound_status_def Let_def word_less_def unsigned_of_int take_bit_int_eq_self)

lemma Forward_Inr:
  assumes "Forward new_request exch c (Some e) = Inr d"
  shows "\<exists>inn post code bs err. GetDataRequest e = Some inn \<and> exch post = Inr (code, bs, err) \<and>
    post = \<lparr>po_url = ob_baseURL c @ ''/v1/data'', po_body = dr_payload inn, po_headers = outbound_headers e inn\<rparr> \<and>
    dp_message_id d = dr_message_id inn \<and> dp_status d = outbound_status code \<and>
    dp_payload d = take outboundMaxBody bs \<and> (length bs \<le> outboundMaxBody \<longrightarrow> err = None)"
proof -
  obtain inn where i: "GetDataRequest e = Some inn"
    using assms by (auto simp: Forward_def split: if_splits option.splits)
  let ?post = "\<lparr>po_url = ob_baseURL c @ ''/v1/data'', po_body = dr_payload inn, po_headers = outbound_headers e inn\<rparr>"
  obtain code bs err body where x: "exch ?post = Inr (code, bs, err)"
      "read_limited (outboundMaxBody + 1) bs err = Inr body"
      "d = \<lparr>dp_message_id = dr_message_id inn, dp_status = outbound_status code,
         dp_payload = (if length body > outboundMaxBody then take outboundMaxBody body else body)\<rparr>"
    using assms i by (auto simp: Forward_def bind_res_eq_Inr Let_def split: if_splits option.splits)
  have "dp_payload d = take outboundMaxBody bs"
    using x(3) read_limited_Inr [OF x(2)] by (auto simp: min_def)
  then show ?thesis using i x read_limited_Inr [OF x(2)] by auto
qed

text \<open>
  C16: A DATA request a Logic node sends to the gateway is answered exactly once.  With a
  remote configured, a completed exchange becomes a DATA response with the request's message id, the
  remote's status (502 when it is not an HTTP status) and the first MiB of the remote's body, and a
  failed one an ERROR; without a remote the answer is ERROR NO_ROUTING_TARGET.  The state of
  registry and transactions is untouched.
\<close>

theorem outbound_answered:
  assumes "env_type e = MESSAGE_TYPE_DATA_REQUEST"
    and "handle (gateway_ops now n (outbound_op nr exch c) so) (Some e) (Some src) d = Some (b, d')"
  shows "d_state d' = d_state d \<and> (\<exists>r. d_sent d' = d_sent d @ [(r, Some src)] \<and> answers n e r \<and>
    (if Configured c then
       (case Forward nr exch c (Some e) of
          Inr dr \<Rightarrow> env_type r = MESSAGE_TYPE_DATA_RESPONSE \<and> GetDataResponse r = Some dr \<and>
            (\<exists>inn post code bs err. GetDataRequest e = Some inn \<and> exch post = Inr (code, bs, err) \<and>
               po_body post = dr_payload inn \<and> po_url post = ob_baseURL c @ ''/v1/data'' \<and>
               dp_message_id dr = dr_message_id inn \<and> dp_payload dr = take (2 ^ 20) bs \<and>
               (100 \<le> code \<and> code \<le> 599 \<longrightarrow> dp_status dr = word_of_int code) \<and>
               100 \<le> unat (dp_status dr) \<and> unat (dp_status dr) \<le> 599)
        | Inl err \<Rightarrow> env_type r = MESSAGE_TYPE_ERROR \<and>
            (\<exists>code. GetError r = Some \<lparr>em_code = code, em_message = error_text err\<rparr>))
     else GetError r = Some \<lparr>em_code = ERROR_CODE_NO_ROUTING_TARGET,
       em_message = ''outbound remote URL is not configured''\<rparr>))"
proof -
  have d': "d' = onDataRequest (gateway_ops now n (outbound_op nr exch c) so) e (Some src) d"
    using assms by (simp add: handle_def)
  show ?thesis
  proof (cases "Configured c")
    case False
    then show ?thesis
      by (auto simp: d' onDataRequest_def gateway_ops_def outbound_op_def d_sendError_def d_send_def Let_def
          answers_def reply_type_def split: option.split) (auto simp: ErrorEnvelope_def)
  next
    case True
    show ?thesis
    proof (cases "Forward nr exch c (Some e)")
      case (Inl err)
      with True show ?thesis
        by (auto simp: d' onDataRequest_def gateway_ops_def outbound_op_def d_sendError_def d_send_def Let_def
            answers_def reply_type_def split: option.split) (auto simp: ErrorEnvelope_def)
    next
      case (Inr dr)
      obtain inn post code bs err where f: "GetDataRequest e = Some inn" "exch post = Inr (code, bs, err)"
          "po_body post = dr_payload inn" "po_url post = ob_baseURL c @ ''/v1/data''"
          "dp_message_id dr = dr_message_id inn" "dp_status dr = outbound_status code"
          "dp_payload dr = take outboundMaxBody bs"
        using Forward_Inr [OF Inr] by auto
      let ?r = "DataResponseEnvelope now n (Some e) (dp_message_id dr) (dp_status dr) (dp_payload dr)"
      have "d_state d' = d_state d" "d_sent d' = d_sent d @ [(?r, Some src)]"
        using True Inr by (auto simp: d' onDataRequest_def gateway_ops_def outbound_op_def d_send_def Let_def split: option.split)
      moreover have "answers n e ?r" "env_type ?r = MESSAGE_TYPE_DATA_RESPONSE" "GetDataResponse ?r = Some dr"
        by (auto simp: answers_def reply_type_def DataResponseEnvelope_def)
      ultimately show ?thesis
        using True Inr f outbound_status_range [of code] outbound_status_id [of code]
        by (auto simp: outboundMaxBody_def)
    qed
  qed
qed

definition w_remote :: outbound where "w_remote = NewOutbound '' http://remote:8080// '' 0"

definition w_exchange :: exchange where
  "w_exchange p = (if po_url p = ''http://remote:8080/v1/data'' then Inr (700, po_body p @ [9], None) else Inl (Opaque []))"

definition w_outbound_request :: envelope where
  "w_outbound_request = \<lparr>env_version = 1, env_type = MESSAGE_TYPE_DATA_REQUEST, env_source_node_id = 4,
     env_destination_node_id = 1, env_transaction_id = 8, env_timestamp_ms = 0, env_trace_id = [],
     env_body = Some (DataRequest \<lparr>dr_message_id = 1001, dr_session_id = [], dr_payload = [7]\<rparr>)\<rparr>"

theorem outbound_answered_witness:
  "\<exists>(d' :: (memory \<times> manager) disp) r. d_sent d' = [(r, w_src)] \<and>
     GetDataResponse r = Some \<lparr>dp_message_id = 1001, dp_status = 502, dp_payload = [7, 9]\<rparr>"
proof -
  let ?ops = "gateway_ops 0 1 (outbound_op (\<lambda>_. None) w_exchange w_remote) (\<lambda>_ _. None)"
  let ?d = "w_disp NewManager"
  have base: "ob_baseURL w_remote = ''http://remote:8080''"
    unfolding w_remote_def NewOutbound_def by simp code_simp
  have f: "Forward (\<lambda>_. None) w_exchange w_remote (Some w_outbound_request) =
      Inr \<lparr>dp_message_id = 1001, dp_status = 502, dp_payload = [7, 9]\<rparr>"
    by (simp add: Forward_def base w_outbound_request_def w_exchange_def read_limited_def outboundMaxBody_def
        outbound_status_def)
  obtain src where src: "w_src = Some src" by (simp add: w_src_def)
  obtain d' where h: "handle ?ops (Some w_outbound_request) (Some src) ?d = Some (True, d')"
    by (simp add: handle_def w_outbound_request_def)
  have "d_sent ?d = []" by (simp add: w_disp_def)
  then show ?thesis
    using outbound_answered [OF _ h] f base src by (auto simp: Configured_def w_outbound_request_def)
qed

section \<open>The choice of the HTTP/2 transport\<close>

text \<open>\<open>parse\<close> is \<open>url.Parse\<close>, of which only the scheme is used.\<close>

definition isHTTPS :: "(string \<Rightarrow> string res) \<Rightarrow> string \<Rightarrow> bool" where
  "isHTTPS parse baseURL = (case parse baseURL of Inl err \<Rightarrow> False | Inr scheme \<Rightarrow> to_lower scheme = ''https'')"

record http2_client =
  h2_timeout :: duration
  h2_allow_http :: bool
  h2_plain_dial :: bool \<comment> \<open>\<open>DialTLSContext\<close> dials without TLS\<close>

definition newHTTP2Client :: "duration \<Rightarrow> bool \<Rightarrow> http2_client" where
  "newHTTP2Client timeout https =
     (let tr = \<lparr>h2_timeout = timeout, h2_allow_http = False, h2_plain_dial = False\<rparr>
      in if \<not> https then tr\<lparr>h2_allow_http := True, h2_plain_dial := True\<rparr> else tr)"

text \<open>The client of \<open>New\<close> when no \<open>Doer\<close> is given.\<close>

definition default_client :: "(string \<Rightarrow> string res) \<Rightarrow> outbound \<Rightarrow> http2_client" where
  "default_client parse c = newHTTP2Client (ob_timeout c) (isHTTPS parse (ob_baseURL c))"

text \<open>A remote whose scheme is https is never spoken to in the clear, and the exchange always has a time limit.\<close>

lemma https_keeps_tls:
  assumes "parse (ob_baseURL (NewOutbound base timeout)) = Inr scheme" "to_lower scheme = ''https''"
  shows "\<not> h2_plain_dial (default_client parse (NewOutbound base timeout))"
    "\<not> h2_allow_http (default_client parse (NewOutbound base timeout))"
    "0 < h2_timeout (default_client parse (NewOutbound base timeout))"
  using assms by (auto simp: default_client_def isHTTPS_def newHTTP2Client_def NewOutbound_def second_def Let_def)

end
