(* ===== verification/Metrics.thy ===== *)
theory Metrics imports GoLib begin

text \<open>
  \<open>internal/metrics\<close>: the gateway's request counters, kept twice, once under a mutex for the JSON
  snapshot and once in Prometheus collectors.  The collectors are library objects; what the code
  calls on them is kept as a trace of calls.  The \<open>int64\<close> counters are integers here; a method is
  one atomic step, as its critical section is.
\<close>

section \<open>Reasons\<close>

datatype reason =
    ReasonOK | ReasonMissingMessageID | ReasonInvalidBody | ReasonBodyTooLarge | ReasonInvalidRequest
  | ReasonInvalidNode | ReasonCanceled | ReasonEmptyResponse | ReasonUDPSendFailed | ReasonManagerClosed
  | ReasonNoRoutingTarget | ReasonTimeout | ReasonRateLimited | ReasonLogicError | ReasonUnknown
  | ReasonEmpty \<comment> \<open>the empty string, which \<open>Observe\<close> accepts for a success\<close>

definition knownFailStatus :: "int list" where
  "knownFailStatus = [400, 413, 429, 499, 502, 503, 504]"

definition knownFailReasons :: "reason list" where
  "knownFailReasons =
     [ReasonMissingMessageID, ReasonInvalidBody, ReasonBodyTooLarge, ReasonInvalidRequest,
      ReasonInvalidNode, ReasonCanceled, ReasonEmptyResponse, ReasonUDPSendFailed,
      ReasonManagerClosed, ReasonNoRoutingTarget, ReasonTimeout, ReasonRateLimited,
      ReasonLogicError, ReasonUnknown]"

section \<open>State\<close>

text \<open>The counters that exist both as a field and as a Prometheus counter.\<close>

datatype counter =
    LogicRegistered | HeartbeatSuccess | HeartbeatTimeout | UDPRx | UDPTx | RouteFailed
  | TransactionTimeout | ManagerCreated | ManagerCompleted | ManagerTimeout | ManagerCompleteNotFound
  | GWUDPDataRequestTX | GWUDPDataResponseRX | GWUDPSendError | GWUDPReceiveError
  | UDPResponseQueueFull | UDPResponseDropped | HTTP504 | Timeout | ContextDeadline
  | HTTPReceived | HTTPRateLimited

text \<open>Calls on the collectors; \<open>Seconds()\<close> of a duration is kept as the duration.\<close>

datatype prom_call =
    PAdd counter int
  | PRequest string string \<comment> \<open>status and result labels\<close>
  | PFail string reason
  | PDuration duration
  | PManagerWait duration
  | PTransactionTotal duration
  | PInFlight int
  | PManagerPending int
  | PQueueDepth int
  | PRPS int
  | PLogicNodes string int
  | PFailover int
  | PRouted string string

record metrics =
  mt_total :: int
  mt_ok :: int
  mt_fail :: int
  mt_inFlight :: int
  mt_sum :: duration
  mt_min :: duration
  mt_max :: duration
  mt_byStatus :: "int \<rightharpoonup> int"
  mt_failByCode :: "int \<rightharpoonup> int"
  mt_failByReason :: "reason \<rightharpoonup> int"
  mt_count :: "counter \<Rightarrow> int"
  mt_routed :: "string \<rightharpoonup> int"
  mt_pending :: int
  mt_queueDepth :: int
  mt_rps :: int
  mt_prom :: "prom_call list"

definition NewMetrics :: metrics where
  "NewMetrics =
     \<lparr>mt_total = 0, mt_ok = 0, mt_fail = 0, mt_inFlight = 0, mt_sum = 0, mt_min = 0, mt_max = 0,
      mt_byStatus = Map.empty, mt_failByCode = Map.empty, mt_failByReason = Map.empty,
      mt_count = (\<lambda>_. 0), mt_routed = Map.empty, mt_pending = 0, mt_queueDepth = 0, mt_rps = 0,
      mt_prom = []\<rparr>"

definition prom :: "prom_call list \<Rightarrow> metrics \<Rightarrow> metrics" where
  "prom calls m = m\<lparr>mt_prom := mt_prom m @ calls\<rparr>"

text \<open>\<open>m[k]++\<close> on a Go map: an absent key counts as 0.\<close>

definition get0 :: "('k \<rightharpoonup> int) \<Rightarrow> 'k \<Rightarrow> int" where
  "get0 f k = (case f k of None \<Rightarrow> 0 | Some n \<Rightarrow> n)"

definition incr :: "'k \<Rightarrow> ('k \<rightharpoonup> int) \<Rightarrow> ('k \<rightharpoonup> int)" where
  "incr k f = f(k \<mapsto> get0 f k + 1)"

section \<open>Requests\<close>

definition AddInFlight :: "int \<Rightarrow> metrics \<Rightarrow> metrics" where
  "AddInFlight delta m =
     (let cur = (if mt_inFlight m + delta < 0 then 0 else mt_inFlight m + delta)
      in prom [PInFlight cur] (m\<lparr>mt_inFlight := cur\<rparr>))"

definition observeProm :: "duration \<Rightarrow> int \<Rightarrow> reason \<Rightarrow> bool \<Rightarrow> metrics \<Rightarrow> metrics" where
  "observeProm d status reason ok =
     prom ([PRequest (Itoa status) (if ok then ''ok'' else ''fail''), PDuration d] @
           (if ok then [] else [PFail (Itoa status) reason]))"

definition Observe :: "duration \<Rightarrow> int \<Rightarrow> reason \<Rightarrow> metrics \<Rightarrow> metrics" where
  "Observe d0 status reason m =
     (let d = (if d0 < 0 then 0 else d0);
          ok = (200 \<le> status \<and> status < 400);
          reason' = (if \<not> ok \<and> (reason = ReasonEmpty \<or> reason = ReasonOK) then ReasonUnknown else reason);
          m1 = m\<lparr>mt_total := mt_total m + 1, mt_sum := mt_sum m + d,
                 mt_min := (if mt_min m = 0 \<or> d < mt_min m then d else mt_min m),
                 mt_max := (if d > mt_max m then d else mt_max m),
                 mt_byStatus := incr status (mt_byStatus m)\<rparr>;
          m2 = (if ok then m1\<lparr>mt_ok := mt_ok m + 1\<rparr>
                else m1\<lparr>mt_fail := mt_fail m + 1, mt_failByCode := incr status (mt_failByCode m),
                        mt_failByReason := incr reason' (mt_failByReason m)\<rparr>)
      in observeProm d status reason' ok m2)"

section \<open>Counters\<close>

definition add_counter :: "counter \<Rightarrow> int \<Rightarrow> metrics \<Rightarrow> metrics" where
  "add_counter c n m =
     prom (if n > 0 then [PAdd c n] else []) (m\<lparr>mt_count := (mt_count m)(c := mt_count m c + n)\<rparr>)"

definition add_nonzero :: "counter \<Rightarrow> int \<Rightarrow> metrics \<Rightarrow> metrics" where
  "add_nonzero c n m = (if n = 0 then m else add_counter c n m)"

definition AddLogicRegistered where "AddLogicRegistered = add_counter LogicRegistered"
definition AddHeartbeatSuccess where "AddHeartbeatSuccess = add_counter HeartbeatSuccess"
definition AddHeartbeatTimeout where "AddHeartbeatTimeout = add_counter HeartbeatTimeout"
definition AddUDPRx where "AddUDPRx = add_counter UDPRx"
definition AddUDPTx where "AddUDPTx = add_counter UDPTx"
definition AddRouteFailed where "AddRouteFailed = add_counter RouteFailed"
definition AddTransactionTimeout where "AddTransactionTimeout = add_counter TransactionTimeout"
definition AddManagerCreated where "AddManagerCreated = add_nonzero ManagerCreated"
definition AddManagerCompleted where "AddManagerCompleted = add_nonzero ManagerCompleted"
definition AddManagerTimeout where "AddManagerTimeout = add_nonzero ManagerTimeout"
definition AddManagerCompleteNotFound where
  "AddManagerCompleteNotFound = add_nonzero ManagerCompleteNotFound"
definition AddGWUDPDataRequestTX where "AddGWUDPDataRequestTX = add_nonzero GWUDPDataRequestTX"
definition AddGWUDPDataResponseRX where "AddGWUDPDataResponseRX = add_nonzero GWUDPDataResponseRX"
definition AddGWUDPSendError where "AddGWUDPSendError = add_nonzero GWUDPSendError"
definition AddGWUDPReceiveError where "AddGWUDPReceiveError = add_nonzero GWUDPReceiveError"
definition AddUDPResponseQueueFull where "AddUDPResponseQueueFull = add_nonzero UDPResponseQueueFull"
definition AddUDPResponseDropped where "AddUDPResponseDropped = add_nonzero UDPResponseDropped"
definition AddHTTP504 where "AddHTTP504 = add_nonzero HTTP504"
definition AddTimeout where "AddTimeout = add_nonzero Timeout"
definition AddContextDeadline where "AddContextDeadline = add_nonzero ContextDeadline"
definition AddHTTPReceived where "AddHTTPReceived = add_nonzero HTTPReceived"
definition AddHTTPRateLimited where "AddHTTPRateLimited = add_nonzero HTTPRateLimited"

definition AddFailoverRetry :: "int \<Rightarrow> metrics \<Rightarrow> metrics" where
  "AddFailoverRetry n m = (if n \<le> 0 then m else prom [PFailover n] m)"

definition AddLogicRouted :: "u32 \<Rightarrow> string \<Rightarrow> metrics \<Rightarrow> metrics" where
  "AddLogicRouted nodeID nodeName m =
     (let idLabel = FormatUint nodeID;
          name = (if TrimSpace nodeName = [] then idLabel else TrimSpace nodeName)
      in prom [PRouted idLabel name] (m\<lparr>mt_routed := incr name (mt_routed m)\<rparr>))"

section \<open>Gauges and histograms\<close>

text \<open>\<open>byState\<close> is a Go map read at five keys.\<close>

definition ObserveLogicRegistry :: "(string \<Rightarrow> int) \<Rightarrow> metrics \<Rightarrow> metrics" where
  "ObserveLogicRegistry byState =
     prom (map (\<lambda>st. PLogicNodes st (byState st)) [''registered'', ''active'', ''suspect'', ''dead'', ''init''])"

definition SetManagerPending :: "int \<Rightarrow> metrics \<Rightarrow> metrics" where
  "SetManagerPending n m =
     (let n' = (if n < 0 then 0 else n) in prom [PManagerPending n'] (m\<lparr>mt_pending := n'\<rparr>))"

definition GetManagerPending :: "metrics \<Rightarrow> int" where
  "GetManagerPending m = mt_pending m"

definition ObserveManagerWait :: "duration \<Rightarrow> metrics \<Rightarrow> metrics" where
  "ObserveManagerWait d = prom [PManagerWait (if d < 0 then 0 else d)]"

definition ObserveTransactionTotal :: "duration \<Rightarrow> metrics \<Rightarrow> metrics" where
  "ObserveTransactionTotal d = prom [PTransactionTotal (if d < 0 then 0 else d)]"

definition SetUDPResponseQueueDepth :: "int \<Rightarrow> metrics \<Rightarrow> metrics" where
  "SetUDPResponseQueueDepth n m =
     (let n' = (if n < 0 then 0 else n) in prom [PQueueDepth n'] (m\<lparr>mt_queueDepth := n'\<rparr>))"

definition SetHTTPRPS :: "int \<Rightarrow> metrics \<Rightarrow> metrics" where
  "SetHTTPRPS rps m = (let r = (if rps < 0 then 0 else rps) in prom [PRPS r] (m\<lparr>mt_rps := r\<rparr>))"

section \<open>Snapshot\<close>

text \<open>
  The maps of the snapshot have the decimal codes as keys.  \<open>codes\<close>, \<open>fcodes\<close> and \<open>freasons\<close> are the
  iteration orders of the three maps.  The average is the truncated quotient of durations.
\<close>

record request_stats =
  st_total :: int
  st_ok :: int
  st_fail :: int
  st_inFlight :: int
  st_byStatus :: "string \<rightharpoonup> int"
  st_failByCode :: "string \<rightharpoonup> int"
  st_failByReason :: "reason \<rightharpoonup> int"
  st_latency_count :: int
  st_latency_min :: duration
  st_latency_max :: duration
  st_latency_sum :: duration
  st_latency_avg :: duration
  st_count :: "counter \<Rightarrow> int"
  st_routed :: "string \<rightharpoonup> int"
  st_pending :: int
  st_queueDepth :: int
  st_rps :: int

definition copy_map :: "('k \<Rightarrow> 'l) \<Rightarrow> ('k \<Rightarrow> int) \<Rightarrow> 'k list \<Rightarrow> ('l \<rightharpoonup> int) \<Rightarrow> ('l \<rightharpoonup> int)" where
  "copy_map key val ks f = fold (\<lambda>k g. g(key k \<mapsto> val k)) ks f"

definition Snapshot :: "int list \<Rightarrow> int list \<Rightarrow> reason list \<Rightarrow> metrics \<Rightarrow> request_stats" where
  "Snapshot codes fcodes freasons m =
     \<lparr>st_total = mt_total m, st_ok = mt_ok m, st_fail = mt_fail m, st_inFlight = mt_inFlight m,
      st_byStatus = copy_map Itoa (get0 (mt_byStatus m)) codes Map.empty,
      st_failByCode = copy_map Itoa (get0 (mt_failByCode m)) fcodes
        (copy_map Itoa (get0 (mt_failByCode m)) knownFailStatus Map.empty),
      st_failByReason = copy_map id (get0 (mt_failByReason m)) freasons
        (copy_map id (get0 (mt_failByReason m)) knownFailReasons Map.empty),
      st_latency_count = mt_total m, st_latency_min = mt_min m, st_latency_max = mt_max m,
      st_latency_sum = mt_sum m,
      st_latency_avg = (if mt_total m > 0 then mt_sum m div mt_total m else 0),
      st_count = mt_count m, st_routed = mt_routed m, st_pending = mt_pending m,
      st_queueDepth = mt_queueDepth m, st_rps = mt_rps m\<rparr>"

section \<open>Consistency\<close>

text \<open>Sum of the values of a finite map.\<close>

definition msum :: "('k \<rightharpoonup> int) \<Rightarrow> int" where
  "msum f = (\<Sum>k \<in> dom f. get0 f k)"

lemma msum_empty [simp]: "msum Map.empty = 0"
  by (simp add: msum_def)

lemma finite_dom_incr [simp]: "finite (dom (incr k f)) \<longleftrightarrow> finite (dom f)"
  by (simp add: incr_def)

lemma dom_incr [simp]: "dom (incr k f) = insert k (dom f)"
  by (auto simp: incr_def)

lemma get0_incr: "get0 (incr k f) x = (if x = k then get0 f k + 1 else get0 f x)"
  by (simp add: incr_def get0_def)

lemma msum_incr:
  assumes "finite (dom f)"
  shows "msum (incr k f) = msum f + 1"
proof -
  have rest: "(\<Sum>x \<in> dom f - {k}. get0 (incr k f) x) = (\<Sum>x \<in> dom f - {k}. get0 f x)"
    by (rule sum.cong) (auto simp: get0_incr)
  have "(\<Sum>x \<in> dom f. get0 f x) = get0 f k + (\<Sum>x \<in> dom f - {k}. get0 f x)"
    using assms by (cases "k \<in> dom f") (auto simp: sum.remove get0_def domIff)
  then show ?thesis
    using assms rest by (simp add: msum_def sum.insert_remove get0_incr)
qed

text \<open>What the collectors hold after a trace of calls.\<close>

fun p_total :: "counter \<Rightarrow> prom_call \<Rightarrow> int" where
  "p_total c (PAdd c' n) = (if c = c' then n else 0)"
| "p_total c _ = 0"

fun p_request :: "string \<Rightarrow> prom_call \<Rightarrow> int" where
  "p_request r (PRequest s r') = (if r = r' then 1 else 0)"
| "p_request r _ = 0"

fun p_fail :: "prom_call \<Rightarrow> int" where
  "p_fail (PFail s r) = 1"
| "p_fail _ = 0"

fun p_duration :: "prom_call \<Rightarrow> duration" where
  "p_duration (PDuration d) = d"
| "p_duration _ = 0"

definition prom_sum :: "(prom_call \<Rightarrow> int) \<Rightarrow> metrics \<Rightarrow> int" where
  "prom_sum f m = sum_list (map f (mt_prom m))"

lemma prom_sum_prom [simp]: "prom_sum f (prom cs m) = prom_sum f m + sum_list (map f cs)"
  by (simp add: prom_sum_def prom_def)

lemma prom_sum_upd [simp]:
  "prom_sum f (m\<lparr>mt_total := a\<rparr>) = prom_sum f m" "prom_sum f (m\<lparr>mt_ok := a\<rparr>) = prom_sum f m"
  "prom_sum f (m\<lparr>mt_fail := a\<rparr>) = prom_sum f m" "prom_sum f (m\<lparr>mt_inFlight := a\<rparr>) = prom_sum f m"
  "prom_sum f (m\<lparr>mt_sum := a\<rparr>) = prom_sum f m" "prom_sum f (m\<lparr>mt_min := a\<rparr>) = prom_sum f m"
  "prom_sum f (m\<lparr>mt_max := a\<rparr>) = prom_sum f m" "prom_sum f (m\<lparr>mt_byStatus := b\<rparr>) = prom_sum f m"
  "prom_sum f (m\<lparr>mt_failByCode := b\<rparr>) = prom_sum f m" "prom_sum f (m\<lparr>mt_failByReason := c\<rparr>) = prom_sum f m"
  "prom_sum f (m\<lparr>mt_count := d\<rparr>) = prom_sum f m" "prom_sum f (m\<lparr>mt_routed := e\<rparr>) = prom_sum f m"
  "prom_sum f (m\<lparr>mt_pending := a\<rparr>) = prom_sum f m" "prom_sum f (m\<lparr>mt_queueDepth := a\<rparr>) = prom_sum f m"
  "prom_sum f (m\<lparr>mt_rps := a\<rparr>) = prom_sum f m"
  by (simp_all add: prom_sum_def)

lemma prom_fields [simp]:
  "mt_total (prom cs m) = mt_total m" "mt_ok (prom cs m) = mt_ok m" "mt_fail (prom cs m) = mt_fail m"
  "mt_inFlight (prom cs m) = mt_inFlight m" "mt_sum (prom cs m) = mt_sum m" "mt_min (prom cs m) = mt_min m"
  "mt_max (prom cs m) = mt_max m" "mt_byStatus (prom cs m) = mt_byStatus m"
  "mt_failByCode (prom cs m) = mt_failByCode m" "mt_failByReason (prom cs m) = mt_failByReason m"
  "mt_count (prom cs m) = mt_count m" "mt_routed (prom cs m) = mt_routed m" "mt_pending (prom cs m) = mt_pending m"
  "mt_queueDepth (prom cs m) = mt_queueDepth m" "mt_rps (prom cs m) = mt_rps m"
  by (simp_all add: prom_def)

text \<open>A call of a method, and its effect.\<close>

datatype metric_op =
    OpInFlight int | OpObserve duration int reason | OpAdd counter int | OpAddNonzero counter int
  | OpFailover int | OpRouted u32 string | OpRegistry "string \<Rightarrow> int" | OpPending int
  | OpManagerWait duration | OpTransactionTotal duration | OpQueueDepth int | OpRPS int

fun apply_op :: "metric_op \<Rightarrow> metrics \<Rightarrow> metrics" where
  "apply_op (OpInFlight n) = AddInFlight n"
| "apply_op (OpObserve d s r) = Observe d s r"
| "apply_op (OpAdd c n) = add_counter c n"
| "apply_op (OpAddNonzero c n) = add_nonzero c n"
| "apply_op (OpFailover n) = AddFailoverRetry n"
| "apply_op (OpRouted i s) = AddLogicRouted i s"
| "apply_op (OpRegistry f) = ObserveLogicRegistry f"
| "apply_op (OpPending n) = SetManagerPending n"
| "apply_op (OpManagerWait d) = ObserveManagerWait d"
| "apply_op (OpTransactionTotal d) = ObserveTransactionTotal d"
| "apply_op (OpQueueDepth n) = SetUDPResponseQueueDepth n"
| "apply_op (OpRPS n) = SetHTTPRPS n"

fun nonneg_op :: "metric_op \<Rightarrow> bool" where
  "nonneg_op (OpAdd c n) \<longleftrightarrow> 0 \<le> n"
| "nonneg_op (OpAddNonzero c n) \<longleftrightarrow> 0 \<le> n"
| "nonneg_op _ \<longleftrightarrow> True"

definition fail_status :: "int \<Rightarrow> bool" where
  "fail_status s \<longleftrightarrow> s < 200 \<or> 400 \<le> s"

text \<open>The JSON side adds up.\<close>

definition json_ok :: "metrics \<Rightarrow> bool" where
  "json_ok m \<longleftrightarrow> finite (dom (mt_byStatus m)) \<and> finite (dom (mt_failByCode m)) \<and> finite (dom (mt_failByReason m)) \<and>
     mt_total m = mt_ok m + mt_fail m \<and> msum (mt_byStatus m) = mt_total m \<and>
     msum (mt_failByCode m) = mt_fail m \<and> msum (mt_failByReason m) = mt_fail m \<and>
     (\<forall>s. get0 (mt_failByCode m) s = (if fail_status s then get0 (mt_byStatus m) s else 0)) \<and>
     mt_failByReason m ReasonOK = None \<and> mt_failByReason m ReasonEmpty = None \<and> 0 \<le> mt_inFlight m"

text \<open>The Prometheus side shows the same numbers.\<close>

definition dual_ok :: "metrics \<Rightarrow> bool" where
  "dual_ok m \<longleftrightarrow> (\<forall>c. prom_sum (p_total c) m = mt_count m c) \<and> prom_sum (p_request ''ok'') m = mt_ok m \<and>
     prom_sum (p_request ''fail'') m = mt_fail m \<and> prom_sum p_fail m = mt_fail m \<and>
     prom_sum p_duration m = mt_sum m"

lemma Observe_fields:
  "mt_total (Observe d s r m) = mt_total m + 1"
  "mt_byStatus (Observe d s r m) = incr s (mt_byStatus m)"
  "mt_inFlight (Observe d s r m) = mt_inFlight m"
  "mt_ok (Observe d s r m) = (if fail_status s then mt_ok m else mt_ok m + 1)"
  "mt_fail (Observe d s r m) = (if fail_status s then mt_fail m + 1 else mt_fail m)"
  "mt_failByCode (Observe d s r m) = (if fail_status s then incr s (mt_failByCode m) else mt_failByCode m)"
  "mt_failByReason (Observe d s r m) =
     (if fail_status s then incr (if r = ReasonEmpty \<or> r = ReasonOK then ReasonUnknown else r) (mt_failByReason m)
      else mt_failByReason m)"
  by (simp_all add: Observe_def observeProm_def Let_def fail_status_def)

lemma json_ok_observe:
  assumes "json_ok m"
  shows "json_ok (Observe d s r m)"
proof (cases "fail_status s")
  case True
  then show ?thesis using assms
    by (simp add: json_ok_def Observe_fields msum_incr get0_incr) (simp add: incr_def)
next
  case False
  then show ?thesis using assms
    by (auto simp: json_ok_def Observe_fields msum_incr get0_incr)
qed

lemma json_ok_step: "json_ok m \<Longrightarrow> json_ok (apply_op op m)"
  by (cases op) (simp_all add: json_ok_observe, simp_all add: json_ok_def AddInFlight_def add_counter_def
    add_nonzero_def AddFailoverRetry_def AddLogicRouted_def ObserveLogicRegistry_def SetManagerPending_def
    ObserveManagerWait_def ObserveTransactionTotal_def SetUDPResponseQueueDepth_def SetHTTPRPS_def Let_def)

lemma dual_ok_observe: "dual_ok m \<Longrightarrow> dual_ok (Observe d s r m)"
  by (simp add: dual_ok_def Observe_def observeProm_def Let_def)

lemma dual_ok_add: "dual_ok m \<Longrightarrow> 0 \<le> n \<Longrightarrow> dual_ok (add_counter c n m)"
  by (simp add: dual_ok_def add_counter_def)

lemma dual_ok_step: "dual_ok m \<Longrightarrow> nonneg_op op \<Longrightarrow> dual_ok (apply_op op m)"
proof (cases op)
  case (OpObserve d s r)
  then show "dual_ok m \<Longrightarrow> ?thesis" by (simp add: dual_ok_observe)
next
  case (OpAdd c n)
  then show "dual_ok m \<Longrightarrow> nonneg_op op \<Longrightarrow> ?thesis" by (simp add: dual_ok_add)
next
  case (OpAddNonzero c n)
  then show "dual_ok m \<Longrightarrow> nonneg_op op \<Longrightarrow> ?thesis" by (simp add: dual_ok_add add_nonzero_def)
qed (simp_all add: dual_ok_def AddInFlight_def AddFailoverRetry_def AddLogicRouted_def ObserveLogicRegistry_def
    SetManagerPending_def ObserveManagerWait_def ObserveTransactionTotal_def SetUDPResponseQueueDepth_def
    SetHTTPRPS_def Let_def)

lemma metrics_reachable:
  assumes "\<forall>op \<in> set ops. nonneg_op op"
  shows "json_ok (fold apply_op ops NewMetrics) \<and> dual_ok (fold apply_op ops NewMetrics)"
  using assms
proof (induction ops rule: rev_induct)
  case Nil
  then show ?case
    by (simp add: json_ok_def dual_ok_def NewMetrics_def prom_sum_def get0_def)
next
  case (snoc op ops)
  then show ?case using json_ok_step dual_ok_step by simp
qed

text \<open>
  The counters never drift apart: after any calls with non-negative amounts the total is the
  sum of successes and failures, the tables by status, by failure code and by failure reason add
  up to them, no failure is filed under a success status or the reason ok, and the Prometheus
  collectors show the same totals as the JSON snapshot.
\<close>

theorem metrics_consistent:
  assumes "\<forall>op \<in> set ops. nonneg_op op"
  shows "json_ok (fold apply_op ops NewMetrics) \<and> dual_ok (fold apply_op ops NewMetrics)"
  using metrics_reachable [OF assms] .

theorem metrics_consistent_witness:
  "dual_ok (fold apply_op [OpInFlight 1, OpObserve 5000000 200 ReasonOK, OpInFlight (- 1), OpAdd UDPRx 2,
     OpObserve 7000000 503 ReasonNoRoutingTarget, OpAddNonzero HTTP504 1] NewMetrics)"
  using metrics_consistent [of "[OpInFlight 1, OpObserve 5000000 200 ReasonOK, OpInFlight (- 1), OpAdd UDPRx 2,
     OpObserve 7000000 503 ReasonNoRoutingTarget, OpAddNonzero HTTP504 1]"] by simp

end
