(* ===== verification/HttpSrv.thy ===== *)
theory HttpSrv imports Errors Metrics begin

text \<open>
  \<open>internal/httpsrv\<close>: \<open>POST /v1/data\<close>, from admission (rate gate, pending limit) over header and
  body checks to the transaction and the HTTP response.  The rate limiter
  (\<open>golang.org/x/time/rate\<close>), the request body and the transaction service are arguments.  The
  response writer is the trace of the calls made on it; \<open>final_status\<close> is what \<open>net/http\<close> sends.
\<close>

section \<open>Rate gate (\<open>rps_gate.go\<close>)\<close>

record 'l gate =
  g_received :: u64
  g_limited :: u64
  g_rps :: u64
  g_prev :: u64 \<comment> \<open>local variable of \<open>loop\<close>\<close>
  g_lim :: "'l option"

text \<open>
  \<open>newRPSGate\<close>: \<open>positive\<close> is \<open>maxRPS > 0\<close>, \<open>tenth\<close> is \<open>int(maxRPS / 10)\<close>, \<open>mk\<close> is \<open>rate.NewLimiter\<close> at
  that rate, applied to the burst.
\<close>

definition gate_burst :: "int \<Rightarrow> int \<Rightarrow> int" where
  "gate_burst tenth burst =
     (if burst \<le> 0 then (let b = (if tenth < 1 then 1 else tenth) in if b > 2000 then 2000 else b) else burst)"

definition newRPSGate :: "bool \<Rightarrow> int \<Rightarrow> (int \<Rightarrow> 'l) \<Rightarrow> int \<Rightarrow> 'l gate" where
  "newRPSGate positive tenth mk burst =
     \<lparr>g_received = 0, g_limited = 0, g_rps = 0, g_prev = 0,
      g_lim = (if positive then Some (mk (gate_burst tenth burst)) else None)\<rparr>"

definition observeArrival :: "'l gate \<times> metrics \<Rightarrow> 'l gate \<times> metrics" where
  "observeArrival = (\<lambda>(g, m). (g\<lparr>g_received := g_received g + 1\<rparr>, AddHTTPReceived 1 m))"

definition gate_allow :: "('l \<Rightarrow> bool \<times> 'l) \<Rightarrow> 'l gate \<times> metrics \<Rightarrow> bool \<times> 'l gate \<times> metrics" where
  "gate_allow Allow = (\<lambda>(g, m).
     case g_lim g of
       None \<Rightarrow> (True, g, m)
     | Some l \<Rightarrow>
         let (ok, l') = Allow l; g1 = g\<lparr>g_lim := Some l'\<rparr> in
         if ok then (True, g1, m)
         else (False, g1\<lparr>g_limited := g_limited g1 + 1\<rparr>, AddHTTPRateLimited 1 m))"

text \<open>One tick of \<open>loop\<close>; the subtraction wraps like \<open>uint64\<close>.\<close>

definition gate_tick :: "'l gate \<times> metrics \<Rightarrow> 'l gate \<times> metrics" where
  "gate_tick = (\<lambda>(g, m).
     let delta = g_received g - g_prev g
     in (g\<lparr>g_prev := g_received g, g_rps := delta\<rparr>, SetHTTPRPS (uint delta) m))"

definition gate_snapshot :: "'l gate \<Rightarrow> u64 \<times> u64 \<times> u64" where
  "gate_snapshot g = (g_received g, g_limited g, g_rps g)"

section \<open>Reading the body (\<open>body_pool.go\<close>)\<close>

definition maxBody :: nat where "maxBody = 2 ^ 20"

datatype read_err = EOF | ReadErr gerr

type_synonym 'r reader = "nat \<Rightarrow> 'r \<Rightarrow> (bytes \<times> read_err option) \<times> 'r"

text \<open>\<open>io.LimitReader\<close>: \<open>left\<close> bytes may still be read.\<close>

definition limited_read :: "'r reader \<Rightarrow> nat \<Rightarrow> nat \<Rightarrow> 'r \<Rightarrow> (bytes \<times> read_err option) \<times> nat \<times> 'r" where
  "limited_read rd k left r =
     (if left = 0 then (([], Some EOF), left, r)
      else let ((bs, e), r') = rd (if k > left then left else k) r in ((bs, e), left - length bs, r'))"

definition grow_cap :: "nat \<Rightarrow> nat \<Rightarrow> nat" where
  "grow_cap limit cap =
     (let c1 = cap * 2; c2 = (if c1 < 4096 then 4096 else c1) in if c2 > limit then limit else c2)"

text \<open>The loop: \<open>cap\<close> is the capacity of the buffer.\<close>

function read_loop :: "'r reader \<Rightarrow> nat \<Rightarrow> nat \<Rightarrow> bytes \<Rightarrow> nat \<Rightarrow> 'r \<Rightarrow> gerr + bytes" where
  "read_loop rd limit cap buf left r =
     (if length buf \<ge> limit then Inr buf
      else if length buf = cap \<and> grow_cap limit cap \<le> cap then Inr buf
      else let cap' = (if length buf = cap then grow_cap limit cap else cap);
               ((bs, e), left', r') = limited_read rd (cap' - length buf) left r;
               buf' = buf @ bs
           in case e of
                Some EOF \<Rightarrow> Inr buf'
              | Some (ReadErr err) \<Rightarrow> Inl err
              | None \<Rightarrow> if bs = [] then Inr buf' else read_loop rd limit cap' buf' left' r')"
  by pat_completeness auto
termination
  by (relation "measure (\<lambda>(rd, limit, cap, buf, left, r). limit - length buf)") (auto simp: neq_Nil_conv)

declare read_loop.simps [simp del]

text \<open>\<open>pooled\<close> is the capacity of the buffer the pool hands out.\<close>

definition readBodyPooled :: "'r reader \<Rightarrow> nat \<Rightarrow> int \<Rightarrow> 'r \<Rightarrow> gerr + bytes" where
  "readBodyPooled rd pooled limit r =
     (let lim = nat (if limit < 0 then 0 else limit) in read_loop rd lim pooled [] lim r)"

definition keeps_buffer :: "nat \<Rightarrow> bool" where
  "keeps_buffer cap \<longleftrightarrow> \<not> (cap = 0 \<or> cap > maxBody)"

section \<open>The response writer\<close>

datatype http_call = HSet string string | HWriteHeader int | HWrite bytes | HError string int

text \<open>
  \<open>net/http\<close>: the first \<open>WriteHeader\<close> that is not informational decides the status;
  \<open>http.Error\<close> calls it; a handler that sends none gets 200.
\<close>

fun final_status :: "http_call list \<Rightarrow> int" where
  "final_status [] = 200"
| "final_status (HSet k v # cs) = final_status cs"
| "final_status (HWriteHeader s # cs) = (if 100 \<le> s \<and> s < 200 \<and> s \<noteq> 101 then final_status cs else s)"
| "final_status (HWrite b # cs) = 200"
| "final_status (HError m s # cs) = s"

definition setTransactionIDHeader :: "u64 \<Rightarrow> http_call list \<Rightarrow> http_call list" where
  "setTransactionIDHeader txID w = (if txID = 0 then w else w @ [HSet ''X-Transaction-Id'' (FormatUint txID)])"

section \<open>Errors to responses (\<open>server.go\<close>)\<close>

definition mapLogicError :: "error_code \<Rightarrow> int \<times> reason" where
  "mapLogicError code =
     (case code of
        ERROR_CODE_TIMEOUT \<Rightarrow> (504, ReasonTimeout)
      | ERROR_CODE_LOGIC_TIMEOUT \<Rightarrow> (504, ReasonTimeout)
      | ERROR_CODE_HEARTBEAT_TIMEOUT \<Rightarrow> (504, ReasonTimeout)
      | ERROR_CODE_INVALID_MESSAGE \<Rightarrow> (400, ReasonInvalidRequest)
      | ERROR_CODE_NODE_NOT_AVAILABLE \<Rightarrow> (503, ReasonNoRoutingTarget)
      | ERROR_CODE_OVERLOAD \<Rightarrow> (503, ReasonNoRoutingTarget)
      | ERROR_CODE_NO_ROUTING_TARGET \<Rightarrow> (503, ReasonNoRoutingTarget)
      | ERROR_CODE_UDP_SEND_FAILED \<Rightarrow> (502, ReasonUDPSendFailed)
      | _ \<Rightarrow> (502, ReasonLogicError))"

definition is_any :: "sentinel list \<Rightarrow> gerr \<Rightarrow> bool" where
  "is_any ss err \<longleftrightarrow> list_ex (\<lambda>s. err_is s err) ss"

text \<open>The counters of the timeout branch.\<close>

definition count_timeout :: "gerr \<Rightarrow> metrics \<Rightarrow> metrics" where
  "count_timeout err m =
     (let m1 = AddTransactionTimeout 1 (AddHTTP504 1 m)
      in if err_is (Tx ErrTransactionTimeout) err then AddTimeout 1 m1 else AddContextDeadline 1 m1)"

definition writeTxError ::
  "gerr \<Rightarrow> u64 \<Rightarrow> http_call list \<times> metrics \<Rightarrow> (int \<times> reason) \<times> http_call list \<times> metrics" where
  "writeTxError err txID wm =
     (let w = setTransactionIDHeader txID (fst wm); m = snd wm;
          reply = \<lambda>status reason m. ((status, reason), w @ [HError (error_text err) status], m)
      in case as_logic err of
           Some (code, message) \<Rightarrow>
             let (status, reason) = mapLogicError code
             in ((status, reason), w @ [HError (logic_error_text code message) status], m)
         | None \<Rightarrow>
             if is_any [Tx ErrTransactionTimeout, Context DeadlineExceeded] err
             then reply 504 ReasonTimeout (count_timeout err m)
             else if is_any [Router ErrNoEligibleNode, Router ErrEmptyCandidates] err
             then reply 503 ReasonNoRoutingTarget (AddRouteFailed 1 m)
             else if is_any [Tx TxErrInvalidNode] err then reply 400 ReasonInvalidNode m
             else if is_any [Tx ErrInvalidRequest, Router ErrUnsupportedMessageType] err
             then reply 400 ReasonInvalidRequest m
             else if is_any [Tx ErrManagerClosed] err then reply 502 ReasonManagerClosed m
             else if is_any [Context Canceled] err then reply 499 ReasonCanceled m
             else if is_any [Udp ErrTransportClosed, Udp ErrPacketTooLarge, Udp ErrInvalidMessage] err
             then reply 502 ReasonUDPSendFailed m
             else reply 502 ReasonUnknown m)"

section \<open>\<open>POST /v1/data\<close>\<close>

record 'r http_request =
  hr_message_id :: string \<comment> \<open>\<open>Header.Get\<close>\<close>
  hr_session_id :: string
  hr_trace_id :: string
  hr_body :: 'r

definition parseUint32Header :: "string \<Rightarrow> u32 option" where
  "parseUint32Header value =
     (let raw = TrimSpace value in
      if raw = [] then None else map_option of_nat (ParseUint 32 raw))"

record http_config =
  hc_NodeID :: u32
  hc_MaxPending :: int

text \<open>
  The server beside the transaction service's state \<open>hs_tx\<close>.  \<open>Request\<close> returns the response
  (possibly nil) or an error, and writes the transaction id into the envelope.
\<close>

record ('s, 'l) http =
  hs_tx :: 's
  hs_gate :: "'l gate"
  hs_met :: metrics
  hs_w :: "http_call list"
  hs_released :: "envelope list" \<comment> \<open>responses given back to the pool\<close>

type_synonym 's requester = "envelope \<Rightarrow> 's \<Rightarrow> ((gerr + envelope option) \<times> u64 \<times> 's) option"

definition http_envelope :: "http_config \<Rightarrow> time \<Rightarrow> u32 \<Rightarrow> 'r http_request \<Rightarrow> bytes \<Rightarrow> envelope" where
  "http_envelope cfg now msgID req body =
     \<lparr>env_version = 1, env_type = MESSAGE_TYPE_DATA_REQUEST, env_source_node_id = hc_NodeID cfg,
      env_destination_node_id = 0, env_transaction_id = 0, env_timestamp_ms = timestamp_ms now,
      env_trace_id = TrimSpace (hr_trace_id req),
      env_body = Some (DataRequest \<lparr>dr_message_id = msgID, dr_session_id = TrimSpace (hr_session_id req),
                                     dr_payload = body\<rparr>)\<rparr>"

definition writeData :: "envelope option \<Rightarrow> http_call list \<Rightarrow> (int \<times> reason) \<times> http_call list" where
  "writeData resp w =
     (let txID = (case resp of None \<Rightarrow> 0 | Some e \<Rightarrow> env_transaction_id e) in
      case Option.bind resp GetDataResponse of
        None \<Rightarrow> ((502, ReasonEmptyResponse), setTransactionIDHeader txID w @ [HError ''empty data response'' 502])
      | Some data \<Rightarrow>
          let s = uint (dp_status data);
              status = (if s < 100 \<or> s > 599 then 200 else s);
              w1 = w @ [HSet ''X-Transaction-Id'' (FormatUint txID),
                        HSet ''X-Message-Id'' (FormatUint (dp_message_id data)), HWriteHeader status] @
                       (if dp_payload data = [] then [] else [HWrite (dp_payload data)])
          in ((status, if status \<ge> 400 then ReasonLogicError else ReasonOK), w1))"

definition serveData ::
  "'s requester \<Rightarrow> 'r reader \<Rightarrow> nat \<Rightarrow> http_config \<Rightarrow> time \<Rightarrow> 'r http_request \<Rightarrow> ('s, 'l) http \<Rightarrow>
   ((int \<times> reason) \<times> ('s, 'l) http) option" where
  "serveData tx rd pooled cfg now req s =
     (case parseUint32Header (hr_message_id req) of
        None \<Rightarrow> Some ((400, ReasonMissingMessageID), s\<lparr>hs_w := hs_w s @ [HError ''X-Message-Id is required'' 400]\<rparr>)
      | Some msgID \<Rightarrow>
          if msgID = 0
          then Some ((400, ReasonMissingMessageID), s\<lparr>hs_w := hs_w s @ [HError ''X-Message-Id is required'' 400]\<rparr>)
          else case readBodyPooled rd pooled (int maxBody + 1) (hr_body req) of
            Inl err \<Rightarrow> Some ((400, ReasonInvalidBody), s\<lparr>hs_w := hs_w s @ [HError ''read body'' 400]\<rparr>)
          | Inr body \<Rightarrow>
              if length body > maxBody
              then Some ((413, ReasonBodyTooLarge), s\<lparr>hs_w := hs_w s @ [HError ''body too large'' 413]\<rparr>)
              else (case tx (http_envelope cfg now msgID req body) (hs_tx s) of
                 None \<Rightarrow> None
               | Some (Inl err, txID, st) \<Rightarrow>
                   let (res, w, m) = writeTxError err txID (hs_w s, hs_met s)
                   in Some (res, s\<lparr>hs_tx := st, hs_w := w, hs_met := m\<rparr>)
               | Some (Inr resp, txID, st) \<Rightarrow>
                   let (res, w) = writeData resp (hs_w s)
                   in Some (res, s\<lparr>hs_tx := st, hs_w := w,
                        hs_released := hs_released s @ (case resp of None \<Rightarrow> [] | Some e \<Rightarrow> [e])\<rparr>)))"

text \<open>
  \<open>handleData\<close>: \<open>pend\<close> reads the gauge of pending transactions that the manager keeps, \<open>d\<close> is the
  time since the start of the request.
\<close>

definition handleData ::
  "('l \<Rightarrow> bool \<times> 'l) \<Rightarrow> ('s \<Rightarrow> int) \<Rightarrow> 's requester \<Rightarrow> 'r reader \<Rightarrow> nat \<Rightarrow> http_config \<Rightarrow> time \<Rightarrow> duration \<Rightarrow>
   'r http_request \<Rightarrow> ('s, 'l) http \<Rightarrow> ('s, 'l) http option" where
  "handleData Allow pend tx rd pooled cfg now d req s0 =
     (let (g0, m0) = observeArrival (hs_gate s0, hs_met s0);
          (ok, g, m) = gate_allow Allow (g0, m0);
          s = s0\<lparr>hs_gate := g, hs_met := m\<rparr>
      in if \<not> ok
         then Some (s\<lparr>hs_w := hs_w s @ [HError ''rate limited'' 429], hs_met := Observe d 429 ReasonRateLimited m\<rparr>)
         else if hc_MaxPending cfg > 0 \<and> pend (hs_tx s) > hc_MaxPending cfg
         then Some (s\<lparr>hs_w := hs_w s @ [HError ''too many pending transactions'' 429],
                      hs_met := Observe d 429 ReasonRateLimited (AddHTTPRateLimited 1 m)\<rparr>)
         else (case serveData tx rd pooled cfg now req (s\<lparr>hs_met := AddInFlight 1 m\<rparr>) of
                 None \<Rightarrow> None
               | Some ((status, reason), s') \<Rightarrow>
                   Some (s'\<lparr>hs_met := Observe d status reason (AddInFlight (- 1) (hs_met s'))\<rparr>)))"

section \<open>The body that is read\<close>

text \<open>
  What \<open>io.Reader\<close> documents, for a reader that keeps the bytes \<open>rem r\<close>: a read returns a prefix of
  them that fits into the buffer, possibly empty, and \<open>EOF\<close> only at the end.  \<open>reads rd r acc r1\<close>:
  successful reads lead from \<open>r\<close> to \<open>r1\<close> and return \<open>acc\<close>.  \<open>steady rd r\<close>: none of them is followed by
  an error or by a read that returns neither a byte nor \<open>EOF\<close>, which \<open>io.Reader\<close> permits.
\<close>

definition io_reader :: "('r \<Rightarrow> bytes) \<Rightarrow> 'r reader \<Rightarrow> bool" where
  "io_reader rem rd \<longleftrightarrow>
     (\<forall>k r bs e r'. 0 < k \<longrightarrow> rd k r = ((bs, e), r') \<longrightarrow>
        rem r = bs @ rem r' \<and> length bs \<le> k \<and> (e = Some EOF \<longrightarrow> rem r' = []))"

inductive reads :: "'r reader \<Rightarrow> 'r \<Rightarrow> bytes \<Rightarrow> 'r \<Rightarrow> bool" for rd r where
  start: "reads rd r [] r"
| more: "reads rd r acc r1 \<Longrightarrow> 0 < k \<Longrightarrow> rd k r1 = ((bs, None), r2) \<Longrightarrow> reads rd r (acc @ bs) r2"

definition steady :: "'r reader \<Rightarrow> 'r \<Rightarrow> bool" where
  "steady rd r \<longleftrightarrow>
     (\<forall>acc r1 k bs e r2. reads rd r acc r1 \<longrightarrow> 0 < k \<longrightarrow> rd k r1 = ((bs, e), r2) \<longrightarrow>
        (case e of None \<Rightarrow> bs \<noteq> [] | Some EOF \<Rightarrow> True | Some (ReadErr err) \<Rightarrow> False))"

text \<open>Where the reading of a body stopped early: at an error, or at an empty read after \<open>body\<close>.\<close>

definition failed_read :: "'r reader \<Rightarrow> 'r \<Rightarrow> gerr \<Rightarrow> bool" where
  "failed_read rd r err \<longleftrightarrow>
     (\<exists>acc r1 k bs r2. reads rd r acc r1 \<and> 0 < k \<and> rd k r1 = ((bs, Some (ReadErr err)), r2))"

definition empty_read :: "'r reader \<Rightarrow> 'r \<Rightarrow> bytes \<Rightarrow> bool" where
  "empty_read rd r body \<longleftrightarrow> (\<exists>r1 k r2. reads rd r body r1 \<and> 0 < k \<and> rd k r1 = (([], None), r2))"

lemma steadyD: "steady rd r \<Longrightarrow> \<not> failed_read rd r err \<and> \<not> empty_read rd r body"
proof -
  assume st: "steady rd r"
  have "case e of None \<Rightarrow> bs \<noteq> [] | Some EOF \<Rightarrow> True | Some (ReadErr err) \<Rightarrow> False"
    if "reads rd r acc r1" "0 < k" "rd k r1 = ((bs, e), r2)" for acc r1 k bs e r2
    using st that unfolding steady_def by blast
  from this [of _ _ _ _ "Some (ReadErr err)"] this [of _ _ _ "[]" None] show ?thesis
    unfolding failed_read_def empty_read_def by auto
qed

lemma grow_cap_bound: "grow_cap limit cap \<le> cap \<Longrightarrow> limit \<le> cap"
  by (auto simp: grow_cap_def Let_def split: if_splits)

lemma read_loop_reads:
  assumes "io_reader rem rd" "length buf \<le> cap" "length buf + left = limit" "reads rd r0 buf r"
  shows "case read_loop rd limit cap buf left r of
      Inl err \<Rightarrow> failed_read rd r0 err
    | Inr body \<Rightarrow> body = buf @ take left (rem r) \<or> empty_read rd r0 body"
  using assms(2-4)
proof (induction rd\<equiv>rd limit cap buf left r rule: read_loop.induct)
  case (1 limit cap buf left r)
  show ?case
  proof (cases "limit \<le> length buf")
    case True
    then show ?thesis using 1(3) by (simp add: read_loop.simps)
  next
    case False
    have grows: "\<not> (length buf = cap \<and> grow_cap limit cap \<le> cap)"
      using False grow_cap_bound by force
    define cap' where "cap' = (if length buf = cap then grow_cap limit cap else cap)"
    have cap': "length buf < cap'" using grows 1(2) by (auto simp: cap'_def)
    define k where "k = (if cap' - length buf > left then left else cap' - length buf)"
    have k: "0 < k" "k \<le> left" "k \<le> cap' - length buf" using cap' False 1(3) by (auto simp: k_def)
    obtain bs e r' where rd: "rd k r = ((bs, e), r')" by (metis surj_pair)
    have lim: "limited_read rd (cap' - length buf) left r = ((bs, e), left - length bs, r')"
      using False 1(3) rd by (auto simp: limited_read_def k_def)
    have law: "rem r = bs @ rem r'" "length bs \<le> k" "e = Some EOF \<longrightarrow> rem r' = []"
      using assms(1) rd k(1) unfolding io_reader_def by blast+
    have step: "read_loop rd limit cap buf left r =
        (case e of Some EOF \<Rightarrow> Inr (buf @ bs) | Some (ReadErr err) \<Rightarrow> Inl err
         | None \<Rightarrow> if bs = [] then Inr (buf @ bs) else read_loop rd limit cap' (buf @ bs) (left - length bs) r')"
      using False grows lim by (subst read_loop.simps) (auto simp: cap'_def [symmetric] Let_def)
    show ?thesis
    proof (cases e)
      case None
      show ?thesis
      proof (cases "bs = []")
        case True
        then have "empty_read rd r0 buf" using 1(4) k(1) rd None by (auto simp: empty_read_def)
        then show ?thesis using step None True by simp
      next
        case bs: False
        have "reads rd r0 (buf @ bs) r'" using reads.more [OF 1(4) k(1)] rd None by simp
        then have "case read_loop rd limit cap' (buf @ bs) (left - length bs) r' of
            Inl err \<Rightarrow> failed_read rd r0 err
          | Inr body \<Rightarrow> body = (buf @ bs) @ take (left - length bs) (rem r') \<or> empty_read rd r0 body"
          using "1.hyps" [OF False grows cap'_def lim [symmetric] refl refl refl None bs] law k cap' 1(3) by auto
        then show ?thesis using step None bs law k by (simp split: sum.splits)
      qed
    next
      case (Some x)
      show ?thesis
      proof (cases x)
        case EOF
        then show ?thesis using step law k Some by simp
      next
        case (ReadErr err)
        then have "failed_read rd r0 err" using 1(4) k(1) rd Some unfolding failed_read_def by blast
        then show ?thesis using step Some ReadErr by simp
      qed
    qed
  qed
qed

text \<open>
  C35: The pooled body reader, over any reader that keeps the contract of \<open>io.Reader\<close> and whatever
  the capacity of the pooled buffer: an error it returns is one of a read; a body it returns is
  exactly the first \<open>limit\<close> bytes, so it is refused as too large exactly when it is longer than
  \<open>maxBody\<close>, or it ends where a read returned neither a byte nor an error.
\<close>

theorem body_read_exactly:
  assumes "io_reader rem rd"
  shows "case readBodyPooled rd pooled (int maxBody + 1) r of
      Inl err \<Rightarrow> failed_read rd r err
    | Inr body \<Rightarrow> body = take (maxBody + 1) (rem r) \<and> (length body > maxBody \<longleftrightarrow> length (rem r) > maxBody) \<and>
                   (length body \<le> maxBody \<longrightarrow> body = rem r) \<or>
                 empty_read rd r body"
proof -
  have "nat (int maxBody + 1) = maxBody + 1" by simp
  then show ?thesis
    using read_loop_reads [OF assms, of "[]" pooled "maxBody + 1" "maxBody + 1" r r] reads.start [of rd r]
    by (auto simp: readBodyPooled_def Let_def split: sum.splits)
qed

text \<open>Without errors and empty reads the body is read in full.\<close>

lemma steady_body:
  assumes "io_reader rem rd" "steady rd r"
  shows "readBodyPooled rd pooled (int maxBody + 1) r = Inr (take (maxBody + 1) (rem r))"
proof -
  have "nat (int maxBody + 1) = maxBody + 1" by simp
  then show ?thesis
    using read_loop_reads [OF assms(1), of "[]" pooled "maxBody + 1" "maxBody + 1" r r] reads.start [of rd r]
      steadyD [OF assms(2)]
    by (auto simp: readBodyPooled_def Let_def split: sum.splits)
qed

text \<open>A connection that delivers at most three bytes at a time; and one with an empty read after them.\<close>

definition w_reader :: "bytes reader" where
  "w_reader k r = ((take (min 3 k) r, if drop (min 3 k) r = [] then Some EOF else None), drop (min 3 k) r)"

lemma w_reader_io: "io_reader id w_reader"
  by (auto simp: io_reader_def w_reader_def)

lemma w_reader_steady: "steady w_reader r"
  by (auto simp: steady_def w_reader_def split: if_splits)

definition w_stall :: "(bool \<times> bytes) reader" where
  "w_stall k r = (if fst r then (([], None), (False, snd r))
     else ((take (min 3 k) (snd r), if drop (min 3 k) (snd r) = [] then Some EOF else None), (True, drop (min 3 k) (snd r))))"

lemma w_stall_io: "io_reader snd w_stall"
  by (auto simp: io_reader_def w_stall_def)

text \<open>\<open>io.Reader\<close> says that an empty read is not the end; the loop takes it for the end.\<close>

lemma empty_read_truncates:
  "io_reader snd w_stall \<and>
   readBodyPooled w_stall 4096 (int maxBody + 1) (False, [1, 2, 3, 4, 5]) = Inr [1, 2, 3]"
proof
  show "readBodyPooled w_stall 4096 (int maxBody + 1) (False, [1, 2, 3, 4, 5]) = Inr [1, 2, 3]"
    by (simp add: readBodyPooled_def Let_def read_loop.simps limited_read_def w_stall_def maxBody_def)
qed (rule w_stall_io)

theorem body_read_exactly_witness:
  "(\<exists>body. readBodyPooled w_reader 2 (int maxBody + 1) [1, 2, 3, 4, 5, 6, 7] = Inr body \<and> body = [1, 2, 3, 4, 5, 6, 7]) \<and>
   empty_read w_stall (False, [1, 2, 3, 4, 5]) [1, 2, 3]"
proof
  show "\<exists>body. readBodyPooled w_reader 2 (int maxBody + 1) [1, 2, 3, 4, 5, 6, 7] = Inr body \<and> body = [1, 2, 3, 4, 5, 6, 7]"
    using steady_body [OF w_reader_io w_reader_steady, where pooled = 2 and r = "[1, 2, 3, 4, 5, 6, 7]"] by (simp add: maxBody_def)
  show "empty_read w_stall (False, [1, 2, 3, 4, 5]) [1, 2, 3]"
    using body_read_exactly [OF w_stall_io, where pooled = 4096 and r = "(False, [1, 2, 3, 4, 5])"] empty_read_truncates
    by (auto simp: maxBody_def)
qed

section \<open>The classification of errors\<close>

lemma mapLogicError_range:
  "fst (mapLogicError c) \<in> set knownFailStatus \<and> snd (mapLogicError c) \<noteq> ReasonOK"
  by (cases c) (simp_all add: mapLogicError_def knownFailStatus_def)

lemma mapLogicError_504:
  "fst (mapLogicError c) = 504 \<longleftrightarrow>
     c \<in> {ERROR_CODE_TIMEOUT, ERROR_CODE_LOGIC_TIMEOUT, ERROR_CODE_HEARTBEAT_TIMEOUT}"
  by (cases c) (simp_all add: mapLogicError_def)

lemma count_timeout_504: "mt_count (count_timeout err m) HTTP504 = mt_count m HTTP504 + 1"
  by (simp add: count_timeout_def Let_def AddHTTP504_def AddTransactionTimeout_def AddTimeout_def AddContextDeadline_def
    add_nonzero_def add_counter_def)

lemma AddRouteFailed_504: "mt_count (AddRouteFailed 1 m) HTTP504 = mt_count m HTTP504"
  by (simp add: AddRouteFailed_def add_counter_def)

definition timeout_error :: "gerr \<Rightarrow> bool" where
  "timeout_error err \<longleftrightarrow> is_any [Tx ErrTransactionTimeout, Context DeadlineExceeded] err"

lemma timeout_not_logic: "as_logic err = Some x \<Longrightarrow> \<not> timeout_error err"
  by (auto simp: timeout_error_def is_any_def dest: err_is_not_logic)

lemma writeTxError_cases:
  assumes "writeTxError err txID (w, m) = ((status, reason), w', m')"
  shows "\<exists>text. w' = setTransactionIDHeader txID w @ [HError text status]"
    "status \<in> set knownFailStatus \<and> reason \<noteq> ReasonOK"
    "status = 504 \<longleftrightarrow> timeout_error err \<or> (\<exists>c t. as_logic err = Some (c, t) \<and> fst (mapLogicError c) = 504)"
    "mt_count m' HTTP504 = mt_count m HTTP504 + (if timeout_error err then 1 else 0)"
  using assms mapLogicError_range timeout_not_logic [of err]
  by (auto simp: writeTxError_def Let_def knownFailStatus_def count_timeout_504 AddRouteFailed_504 timeout_error_def
      split: option.splits prod.splits if_splits) (metis fst_conv snd_conv)+

text \<open>
  C34: Errors become responses without false successes and without false timeouts: every error of a
  transaction is answered by exactly one error reply with a status of the known failure codes and
  never the reason ok; it is 504 exactly for a transaction timeout, an expired deadline or an ERROR
  envelope that reports a timeout; and \<open>http_504_total\<close> counts only the first two, although its
  description promises every 504 written.
\<close>

theorem errors_classified:
  assumes "writeTxError err txID (w, m) = ((status, reason), w', m')"
  shows "(\<exists>text. w' = setTransactionIDHeader txID w @ [HError text status]) \<and>
    status \<in> set knownFailStatus \<and> reason \<noteq> ReasonOK \<and>
    (status = 504 \<longleftrightarrow> err_is (Tx ErrTransactionTimeout) err \<or> err_is (Context DeadlineExceeded) err \<or>
       (\<exists>c t. as_logic err = Some (c, t) \<and>
          c \<in> {ERROR_CODE_TIMEOUT, ERROR_CODE_LOGIC_TIMEOUT, ERROR_CODE_HEARTBEAT_TIMEOUT})) \<and>
    mt_count m' HTTP504 = mt_count m HTTP504 +
      (if err_is (Tx ErrTransactionTimeout) err \<or> err_is (Context DeadlineExceeded) err then 1 else 0)"
  using writeTxError_cases [OF assms] by (simp add: timeout_error_def is_any_def mapLogicError_504)

theorem errors_classified_witness:
  "\<exists>m'. writeTxError (LogicError ERROR_CODE_LOGIC_TIMEOUT ''slow'') 7 ([], NewMetrics) =
     ((504, ReasonTimeout),
      [HSet ''X-Transaction-Id'' (FormatUint (7 :: u64)), HError ''logic error: ERROR_CODE_LOGIC_TIMEOUT (slow)'' 504], m') \<and>
     mt_count m' HTTP504 = 0"
proof -
  have "writeTxError (LogicError ERROR_CODE_LOGIC_TIMEOUT ''slow'') 7 ([], NewMetrics) =
     ((504, ReasonTimeout),
      [HSet ''X-Transaction-Id'' (FormatUint (7 :: u64)), HError ''logic error: ERROR_CODE_LOGIC_TIMEOUT (slow)'' 504], NewMetrics)"
    by (simp add: writeTxError_def mapLogicError_def setTransactionIDHeader_def)
  from errors_classified [OF this] show ?thesis
    using \<open>writeTxError _ 7 _ = _\<close> by (simp add: NewMetrics_def)
qed

section \<open>One request, one response, one observation\<close>

fun sets_status :: "http_call \<Rightarrow> bool" where
  "sets_status (HWriteHeader s) \<longleftrightarrow> True"
| "sets_status (HError m s) \<longleftrightarrow> True"
| "sets_status _ \<longleftrightarrow> False"

definition sent_status :: "int \<Rightarrow> int" where
  "sent_status status = (if 100 \<le> status \<and> status < 200 \<and> status \<noteq> 101 then 200 else status)"

text \<open>The calls of one answer: the status they send and that it is set once.\<close>

definition answered :: "http_call list \<Rightarrow> http_call list \<Rightarrow> int \<Rightarrow> bool" where
  "answered w w' status \<longleftrightarrow> (\<exists>cs. w' = w @ cs \<and> final_status cs = sent_status status \<and>
     length (filter sets_status cs) = 1)"

lemma answered_error: "\<not> (100 \<le> status \<and> status < 200 \<and> status \<noteq> 101) \<Longrightarrow> answered w (w @ [HError m status]) status"
  by (auto simp: answered_def sent_status_def)

lemma answered_tx_error:
  "\<not> (100 \<le> status \<and> status < 200) \<Longrightarrow> answered w (setTransactionIDHeader txID w @ [HError m status]) status"
  by (auto simp: answered_def sent_status_def setTransactionIDHeader_def)

lemma writeData_answered:
  assumes "writeData resp w = ((status, reason), w')"
  shows "answered w w' status"
proof (cases "Option.bind resp GetDataResponse")
  case None
  then show ?thesis using assms
    by (auto simp: writeData_def Let_def simp del: GetDataResponse.simps intro: answered_tx_error)
next
  case (Some data)
  then show ?thesis using assms
    by (auto simp: writeData_def Let_def answered_def sent_status_def simp del: GetDataResponse.simps)
qed

text \<open>The fields of the request metrics that only \<open>AddInFlight\<close> and \<open>Observe\<close> change.\<close>

definition same_requests :: "metrics \<Rightarrow> metrics \<Rightarrow> bool" where
  "same_requests m m' \<longleftrightarrow> mt_total m' = mt_total m \<and> mt_byStatus m' = mt_byStatus m \<and> mt_inFlight m' = mt_inFlight m"

lemma same_requests_counters:
  "same_requests m (add_counter c n m)" "same_requests m (add_nonzero c n m)"
  by (simp_all add: same_requests_def add_nonzero_def add_counter_def)

lemma same_requests_refl: "same_requests m m"
  by (simp add: same_requests_def)

lemma same_requests_trans: "same_requests a b \<Longrightarrow> same_requests b c \<Longrightarrow> same_requests a c"
  by (simp add: same_requests_def)

lemma same_requests_timeout: "same_requests m (count_timeout err m)"
  by (simp add: same_requests_def count_timeout_def Let_def AddHTTP504_def AddTransactionTimeout_def AddTimeout_def
    AddContextDeadline_def add_nonzero_def add_counter_def)

lemma writeTxError_metrics:
  "same_requests m (snd (snd (writeTxError err txID (w, m))))"
  by (simp add: writeTxError_def Let_def AddRouteFailed_def same_requests_refl same_requests_timeout
    same_requests_counters split: option.split prod.split)

lemma writeTxError_requests:
  assumes "writeTxError err txID (w, m) = (r, w', m')"
  shows "same_requests m m'"
  using writeTxError_metrics [of m err txID w] assms by simp

lemma serveData_cases:
  assumes "serveData tx rd pooled cfg now req s = Some ((status, reason), s')"
  obtains (early) m where "s' = s\<lparr>hs_w := hs_w s @ [HError m status]\<rparr>" "status \<ge> 400"
    | (error) err txID st w m where "writeTxError err txID (hs_w s, hs_met s) = ((status, reason), w, m)"
        "s' = s\<lparr>hs_tx := st, hs_w := w, hs_met := m\<rparr>"
    | (data) resp st w where "writeData resp (hs_w s) = ((status, reason), w)"
        "s' = s\<lparr>hs_tx := st, hs_w := w, hs_released := hs_released s @ (case resp of None \<Rightarrow> [] | Some e \<Rightarrow> [e])\<rparr>"
  using assms
  by (auto simp: serveData_def Let_def split: option.splits sum.splits prod.splits if_splits)

lemma serveData_answered:
  assumes "serveData tx rd pooled cfg now req s = Some ((status, reason), s')"
  shows "answered (hs_w s) (hs_w s') status \<and> same_requests (hs_met s) (hs_met s') \<and> hs_gate s' = hs_gate s"
  using assms
proof (cases rule: serveData_cases)
  case (early m)
  then show ?thesis by (simp add: answered_error same_requests_refl)
next
  case (error err txID st w m)
  note e = writeTxError_cases [OF error(1)]
  have "\<not> (100 \<le> status \<and> status < 200)" using e(2) by (auto simp: knownFailStatus_def)
  moreover obtain msg where "w = setTransactionIDHeader txID (hs_w s) @ [HError msg status]" using e(1) by blast
  ultimately have "answered (hs_w s) w status" using answered_tx_error by simp
  then show ?thesis using writeTxError_requests [OF error(1)] error(2) by simp
next
  case (data resp st w)
  then show ?thesis by (simp add: writeData_answered same_requests_refl)
qed

lemma Observe_requests:
  "mt_total (Observe d st r m) = mt_total m + 1" "mt_byStatus (Observe d st r m) = incr st (mt_byStatus m)"
  "mt_inFlight (Observe d st r m) = mt_inFlight m"
  by (rule Observe_fields)+

text \<open>
  C33: Every request is answered exactly once and counted exactly once: whatever path
  \<open>handleData\<close> takes, one status is set, one observation is recorded, and the gauge of requests in
  flight returns to its value.  The client receives the recorded status, except for a status from 100 to
  199 (other than 101) in Logic's response: it is recorded as the outcome but sent as an
  informational header, and the client receives 200.
\<close>

theorem request_answered_once:
  assumes "handleData Allow pend tx rd pooled cfg now d req s = Some s'" "0 \<le> mt_inFlight (hs_met s)"
  shows "\<exists>status. answered (hs_w s) (hs_w s') status \<and>
    mt_total (hs_met s') = mt_total (hs_met s) + 1 \<and>
    mt_byStatus (hs_met s') = incr status (mt_byStatus (hs_met s)) \<and>
    mt_inFlight (hs_met s') = mt_inFlight (hs_met s) \<and> g_received (hs_gate s') = g_received (hs_gate s) + 1"
proof -
  obtain g0 m0 where arr: "observeArrival (hs_gate s, hs_met s) = (g0, m0)" by fastforce
  obtain ok g m where al: "gate_allow Allow (g0, m0) = (ok, g, m)" by (metis prod_cases3)
  have same: "same_requests (hs_met s) m" "g_received g = g_received (hs_gate s) + 1"
    using arr al same_requests_counters(2) same_requests_trans
    by (auto simp: observeArrival_def gate_allow_def AddHTTPReceived_def AddHTTPRateLimited_def Let_def
        split: option.splits prod.splits if_splits) blast+
  define s1 where "s1 = s\<lparr>hs_gate := g, hs_met := m\<rparr>"
  consider (limited) m1 msg where "s' = s1\<lparr>hs_w := hs_w s @ [HError msg 429], hs_met := Observe d 429 ReasonRateLimited m1\<rparr>"
      "same_requests m m1"
    | (served) status reason s2 where
      "serveData tx rd pooled cfg now req (s1\<lparr>hs_met := AddInFlight 1 m\<rparr>) = Some ((status, reason), s2)"
      "s' = s2\<lparr>hs_met := Observe d status reason (AddInFlight (- 1) (hs_met s2))\<rparr>"
    using assms(1) arr al same_requests_refl same_requests_counters(2)
    by (auto simp: handleData_def Let_def s1_def AddHTTPRateLimited_def split: option.splits prod.splits if_splits)
  then show ?thesis
  proof cases
    case limited
    then show ?thesis
      using same answered_error [of 429 "hs_w s" msg]
      by (intro exI [of _ 429]) (auto simp: s1_def Observe_requests same_requests_def)
  next
    case served
    note sd = serveData_answered [OF served(1)]
    show ?thesis
      using sd same served(2) assms(2)
      by (intro exI [of _ status]) (auto simp: s1_def Observe_requests same_requests_def AddInFlight_def Let_def)
  qed
qed

definition w_http :: "(unit, unit) http" where
  "w_http = \<lparr>hs_tx = (), hs_gate = newRPSGate False 0 (\<lambda>_. ()) 0, hs_met = NewMetrics, hs_w = [], hs_released = []\<rparr>"

definition w_http_request :: "bytes http_request" where
  "w_http_request = \<lparr>hr_message_id = '' '', hr_session_id = [], hr_trace_id = [], hr_body = [1, 2]\<rparr>"

theorem request_answered_once_witness:
  "\<exists>s'. handleData (\<lambda>l. (True, l)) (\<lambda>_. 0) (\<lambda>e t. None) w_reader 0 \<lparr>hc_NodeID = 1, hc_MaxPending = 0\<rparr> 0 5 w_http_request w_http
      = Some s' \<and> hs_w s' = [HError ''X-Message-Id is required'' 400] \<and> mt_total (hs_met s') = 1"
proof -
  have none: "parseUint32Header (hr_message_id w_http_request) = None"
    by (simp add: w_http_request_def parseUint32Header_def Let_def) code_simp
  obtain s' where s': "handleData (\<lambda>l. (True, l)) (\<lambda>_. 0) (\<lambda>e t. None) w_reader 0 \<lparr>hc_NodeID = 1, hc_MaxPending = 0\<rparr> 0 5
      w_http_request w_http = Some s'" and w: "hs_w s' = [HError ''X-Message-Id is required'' 400]"
    by (simp add: handleData_def serveData_def none w_http_def observeArrival_def gate_allow_def newRPSGate_def Let_def)
  have "mt_total (hs_met s') = 1"
    using request_answered_once [OF s'] by (auto simp: w_http_def NewMetrics_def)
  then show ?thesis using s' w by blast
qed

end
