(* ===== verification/Gateway.thy ===== *)
theory Gateway imports Config ControlPlane Lifecycle RouterModel Outbound HttpSrv begin

text \<open>
  \<open>internal/gateway/run.go\<close>: how the gateway builds its parts from the configuration, registers
  itself in its own registry and counts its Logic nodes.  Opening the socket, resolving names and
  serving are parameters or not modelled.
\<close>

section \<open>Addresses as text (\<open>net.IP.String\<close>)\<close>

definition hex_digit :: "nat \<Rightarrow> char" where
  "hex_digit d = (if d < 10 then digit d else char_of (87 + d))"

fun fmt_hex :: "nat \<Rightarrow> string" where
  "fmt_hex n = (if n < 16 then [hex_digit n] else fmt_hex (n div 16) @ [hex_digit (n mod 16)])"

declare fmt_hex.simps [simp del]

fun groups :: "nat list \<Rightarrow> nat list" where
  "groups (a # b # s) = (a * 256 + b) # groups s"
| "groups _ = []"

definition zero_run :: "nat list \<Rightarrow> nat" where
  "zero_run gs = length (takeWhile (\<lambda>g. g = 0) gs)"

text \<open>The first longest run of at least two zero groups: start and length.\<close>

fun longest_run :: "nat \<Rightarrow> nat list \<Rightarrow> (nat \<times> nat) option \<Rightarrow> (nat \<times> nat) option" where
  "longest_run i [] best = best"
| "longest_run i (g # gs) best =
     (let l = zero_run (g # gs) in
      longest_run (Suc i) gs (if l \<ge> 2 \<and> (case best of None \<Rightarrow> True | Some (_, b) \<Rightarrow> l > b) then Some (i, l) else best))"

fun join_groups :: "nat list \<Rightarrow> string" where
  "join_groups [] = []"
| "join_groups [g] = fmt_hex g"
| "join_groups (g # gs) = fmt_hex g @ '':'' @ join_groups gs"

definition v6_string :: "nat list \<Rightarrow> string" where
  "v6_string gs =
     (case longest_run 0 gs None of
        None \<Rightarrow> join_groups gs
      | Some (i, l) \<Rightarrow> join_groups (take i gs) @ ''::'' @ join_groups (drop (i + l) gs))"

definition IP_String :: "IP \<Rightarrow> string" where
  "IP_String ip =
     (case To4 ip of
        Some v4 \<Rightarrow> quad (v4 ! 0) (v4 ! 1) (v4 ! 2) (v4 ! 3)
      | None \<Rightarrow> v6_string (groups ip))"

section \<open>Parts\<close>

text \<open>\<open>newStrategy\<close>: round robin or consistent hashing with its number of virtual nodes.\<close>

datatype strategy_kind = RoundRobin | ConsistentHash nat

definition newStrategy :: "string \<Rightarrow> strategy_kind" where
  "newStrategy name = (if name = ''round_robin'' then RoundRobin else ConsistentHash (fst (NewConsistentHash 0)))"

record server_config =
  sc_NodeID :: u32
  sc_Listen :: string
  sc_Port :: int
  sc_ReadTimeout :: duration
  sc_WriteTimeout :: duration
  sc_MaxRPS :: float64
  sc_MaxRPSBurst :: int
  sc_MaxPending :: int

definition NewServer :: "bool \<Rightarrow> server_config \<Rightarrow> server_config res" where
  "NewServer has_tx cfg =
     (if \<not> has_tx then Inl (Opaque ''http requester is required'')
      else if sc_NodeID cfg = 0 then Inl (Opaque ''http node_id must be > 0'')
      else Inr (cfg\<lparr>sc_ReadTimeout := (if sc_ReadTimeout cfg \<le> 0 then 10 * second else sc_ReadTimeout cfg),
                    sc_WriteTimeout := (if sc_WriteTimeout cfg \<le> 0 then 15 * second else sc_WriteTimeout cfg)\<rparr>))"

definition to_capability :: "service_cfg \<Rightarrow> service_capability" where
  "to_capability svc = \<lparr>sc_service_id = svc_ServiceID svc, sc_service_name = svc_ServiceName svc,
     sc_message_types = svc_MessageTypes svc\<rparr>"

text \<open>\<open>local_port\<close> is the port of \<open>conn.LocalAddr()\<close> when it is a UDP address.\<close>

definition advertised_ip :: "(string \<Rightarrow> IP list res) \<Rightarrow> http2gw_cfg \<Rightarrow> string res" where
  "advertised_ip lookup cfg =
     (let node = TrimSpace (cfg_IP (gw_Node cfg));
          host = (if node = [] \<or> IsUnspecified node then TrimSpace (udp_Listen (gw_UDP cfg)) else node)
      in if host \<noteq> [] \<and> \<not> IsUnspecified host
         then (case ResolveIPLookup lookup host of
             Inl err \<Rightarrow> Inl (Wrap [Lit ''http2gw advertise: ''] err [])
           | Inr ip \<Rightarrow> Inr (IP_String ip))
         else Inr ''127.0.0.1'')"

definition self_request :: "http2gw_cfg \<Rightarrow> string \<Rightarrow> int option \<Rightarrow> register_request" where
  "self_request cfg ip local_port =
     \<lparr>rr_node_id = NodeID (gw_Node cfg), rr_node_type = NODE_TYPE_HTTP2GW,
      rr_instance_id = cfg_InstanceID (gw_Node cfg), rr_ip = ip,
      rr_port = (case local_port of
          Some p \<Rightarrow> if p > 0 then word_of_int p else word_of_int (udp_Port (gw_UDP cfg))
        | None \<Rightarrow> word_of_int (udp_Port (gw_UDP cfg))),
      rr_services = map (Some \<circ> to_capability) (gw_Services cfg)\<rparr>"

definition registerSelf ::
  "(string \<Rightarrow> IP list res) \<Rightarrow> time \<Rightarrow> http2gw_cfg \<Rightarrow> int option \<Rightarrow> memory \<Rightarrow> gerr option \<times> memory" where
  "registerSelf lookup now cfg local_port m =
     (case advertised_ip lookup cfg of
        Inl err \<Rightarrow> (Some err, m)
      | Inr ip \<Rightarrow>
         (case Memory_Service_Register now (Some (self_request cfg ip local_port)) m of
            ((resp, Some err), m') \<Rightarrow> (Some err, m')
          | ((resp, None), m') \<Rightarrow>
              (if rp_accepted resp then None else Some (Opaque ''http2gw register rejected''), m')))"

record gateway =
  g_registry :: memory
  g_monitor :: hb_config
  g_sender :: "u32 \<times> duration"
  g_strategy :: strategy_kind
  g_tx_timeout :: duration
  g_outbound :: outbound
  g_dispatch :: disp_config
  g_server :: server_config

text \<open>
  The set-up of \<open>Run\<close>, up to the goroutines: the first error ends it; a failed self-registration
  is only logged.  \<open>open_udp\<close> is the error of \<open>udp.New\<close>.
\<close>

definition gateway_setup ::
  "(string \<Rightarrow> float64 res) \<Rightarrow> (float64 \<Rightarrow> u64 \<Rightarrow> u64) \<Rightarrow> gerr option \<Rightarrow> (string \<Rightarrow> IP list res) \<Rightarrow> int option \<Rightarrow>
   time \<Rightarrow> http2gw_cfg \<Rightarrow> gateway res" where
  "gateway_setup scan scale open_udp lookup local_port now cfg =
     (case HTTP2GW_Validate scan scale cfg of
        Some err \<Rightarrow> Inl err
      | None \<Rightarrow>
         (case open_udp of
            Some err \<Rightarrow> Inl err
          | None \<Rightarrow>
              let mem = snd (registerSelf lookup now cfg local_port NewMemory) in
              bind_res (NewMonitor (Some mem) (monitor_config (gw_Heartbeat cfg))) (\<lambda>mon.
              bind_res (NewSender (NodeID (gw_Node cfg)) True True (h_Interval (gw_Heartbeat cfg))) (\<lambda>snder.
              bind_res (NewTxService True True True (gw_TxTimeout cfg)) (\<lambda>txTimeout.
              bind_res (NewDispatcher (NodeID (gw_Node cfg)) True True True True
                \<lparr>InboundQueueSize = udp_InboundQueueSize (gw_UDP cfg), InboundWorkers = udp_InboundWorkers (gw_UDP cfg)\<rparr>)
                (\<lambda>disp.
              bind_res (NewServer True
                \<lparr>sc_NodeID = NodeID (gw_Node cfg), sc_Listen = http_Listen (gw_HTTP cfg), sc_Port = http_Port (gw_HTTP cfg),
                 sc_ReadTimeout = 0, sc_WriteTimeout = 0, sc_MaxRPS = MaxRPS (gw_HTTP cfg),
                 sc_MaxRPSBurst = MaxRPSBurst (gw_HTTP cfg), sc_MaxPending = MaxPending (gw_HTTP cfg)\<rparr>) (\<lambda>srv.
              Inr \<lparr>g_registry = mem, g_monitor = mon, g_sender = snder, g_strategy = newStrategy (StrategyName cfg),
                 g_tx_timeout = txTimeout, g_outbound = NewOutbound (Remote (gw_HTTP cfg)) (gw_TxTimeout cfg),
                 g_dispatch = disp, g_server = srv\<rparr>)))))))"

text \<open>The body of the agent \<open>Run\<close> starts when a Master is configured.\<close>

definition gateway_agent :: "(resource_cfg \<Rightarrow> u64) \<Rightarrow> http2gw_cfg \<Rightarrow> agent option" where
  "gateway_agent memory_bytes cfg =
     (if blank (gw_MasterURL cfg) then None
      else let body = BodyFromHTTP2GW memory_bytes cfg in
        Some \<lparr>ag_MasterURL = gw_MasterURL cfg,
          ag_Body = (if rb_Address body = [] \<or> IsUnspecified (rb_Address body) then body\<lparr>rb_Address := ''127.0.0.1''\<rparr> else body),
          ag_Interval = h_Interval (gw_Heartbeat cfg)\<rparr>)"

text \<open>The gauge tick: Logic nodes by the name of their state.\<close>

fun count_states :: "node list \<Rightarrow> (string \<Rightarrow> int) \<Rightarrow> (string \<Rightarrow> int)" where
  "count_states [] by = by"
| "count_states (n # ns) by =
     (if Type n \<noteq> TypeLogic then count_states ns by
      else count_states ns (by(NodeState_String (State n) := by (NodeState_String (State n)) + 1)))"

definition gauge_tick :: "u32 list \<Rightarrow> memory \<Rightarrow> metrics \<Rightarrow> metrics" where
  "gauge_tick order m = ObserveLogicRegistry (count_states (Memory_List order m) (\<lambda>_. 0))"

section \<open>Start-up\<close>

lemma to_lower_strategy:
  "strategy_supported s \<Longrightarrow> underscores (to_lower (TrimSpace s)) \<in> {''consistent_hash'', ''round_robin''}"
  by (auto simp: strategy_supported_def underscores_def)

text \<open>
  C7: A validated gateway configuration starts: once the socket is open every part accepts it, so
  set-up cannot fail half way.  The monitor runs with an ordered timeout ladder, the transaction
  timeout and the strategy are the configured ones, and the inbound queue and worker pool are
  within their bounds and never empty.
\<close>

theorem validated_gateway_starts:
  assumes "HTTP2GW_Validate scan scale cfg = None"
  shows "\<exists>g. gateway_setup scan scale None lookup local_port now cfg = Inr g \<and>
    g_monitor g = monitor_config (gw_Heartbeat cfg) \<and> hb_Validate (g_monitor g) = None \<and>
    g_tx_timeout g = gw_TxTimeout cfg \<and> 0 < g_tx_timeout g \<and>
    (StrategyName cfg = ''round_robin'' \<and> g_strategy g = RoundRobin \<or>
     StrategyName cfg = ''consistent_hash'' \<and> g_strategy g = ConsistentHash 64) \<and>
    1 \<le> InboundQueueSize (g_dispatch g) \<and> InboundQueueSize (g_dispatch g) \<le> 100000 \<and>
    1 \<le> InboundWorkers (g_dispatch g) \<and> InboundWorkers (g_dispatch g) \<le> 64"
proof -
  note v = assms [unfolded HTTP2GW_Validate_None]
  have hb: "hb_Validate (monitor_config (gw_Heartbeat cfg)) = None" using v by blast
  then have i: "0 < h_Interval (gw_Heartbeat cfg)" by (auto simp: hb_Validate_None monitor_config_def)
  have s: "StrategyName cfg \<in> {''consistent_hash'', ''round_robin''}"
    using v to_lower_strategy by (auto simp: StrategyName_def)
  show ?thesis
    using v i s
    by (auto simp: gateway_setup_def assms NewMonitor_def hb NewSender_def NewTxService_def timeoutOrDefault_def
        NewDispatcher_def disp_normalized_def defaultInboundQueueSize_def defaultInboundWorkers_def NewServer_def
        newStrategy_def NewConsistentHash_def DefaultVirtualNodes_def Let_def)
qed

theorem validated_gateway_starts_witness:
  "\<exists>g. gateway_setup w_scan w_scale None (\<lambda>_. Inr []) (Some 9000) 0 (HTTP2GW_applyDefaults w_gw_cfg) = Inr g \<and>
     g_strategy g = RoundRobin \<and> InboundWorkers (g_dispatch g) \<le> 64"
proof -
  have "StrategyName (HTTP2GW_applyDefaults w_gw_cfg) = ''round_robin''"
    by (simp add: StrategyName_def HTTP2GW_applyDefaults_def w_gw_cfg_def or_default_def w_texts underscores_def)
  then show ?thesis
    using validated_gateway_starts [OF w_gw_valid, of "\<lambda>_. Inr []" "Some 9000" 0] by auto
qed

text \<open>
  The transaction timeout is not bounded by the server's write timeout: a valid configuration may
  wait for an answer longer than the server can still write it.
\<close>

lemma timeout_beyond_write:
  assumes "HTTP2GW_Validate scan scale cfg = None" "15 * second < gw_TxTimeout cfg"
  shows "\<exists>g. gateway_setup scan scale None lookup local_port now cfg = Inr g \<and>
    sc_WriteTimeout (g_server g) < g_tx_timeout g"
proof -
  note v = assms(1) [unfolded HTTP2GW_Validate_None]
  have hb: "hb_Validate (monitor_config (gw_Heartbeat cfg)) = None" using v by blast
  then have i: "0 < h_Interval (gw_Heartbeat cfg)" by (auto simp: hb_Validate_None monitor_config_def)
  show ?thesis
    using v i assms(2)
    by (auto simp: gateway_setup_def assms(1) NewMonitor_def hb NewSender_def NewTxService_def timeoutOrDefault_def
        NewDispatcher_def NewServer_def Let_def)
qed

section \<open>The gateway's own entry\<close>

lemma trim_plain:
  assumes "\<forall>c \<in> set s. is_digit c \<or> c = CHR ''.''"
  shows "TrimSpace s = s"
proof -
  have plain: "33 \<le> byte c \<and> byte c < 128" if "is_digit c \<or> c = CHR ''.''" for c
    using that by (auto simp: is_digit_def byte_def)
  have none: "\<not> ascii_space a" "\<not> space2 a b" "\<not> space2 b a" "\<not> space3 a b c" "\<not> space3 c b a"
    if "33 \<le> byte a" "byte a < 128" for a b c
    using that by (auto simp: ascii_space_def space2_def space3_def)
  have lead: "lead_space t = 0" if "\<forall>c \<in> set t. 33 \<le> byte c \<and> byte c < 128" for t
    using that by (cases t rule: lead_space.cases) (auto simp: none)
  have trail: "trail_space t = 0" if "\<forall>c \<in> set t. 33 \<le> byte c \<and> byte c < 128" for t
    using that by (cases t rule: trail_space.cases) (auto simp: none)
  have "\<forall>c \<in> set s. 33 \<le> byte c \<and> byte c < 128" using assms plain by blast
  then show ?thesis
    using lead [of s] trail [of "rev s"] by (simp add: TrimSpace_def trim_left_id trim_rev_id)
qed

lemma trim_quad: "TrimSpace (quad a b c d) = quad a b c d"
  by (rule trim_plain) (auto simp: quad_def dest: fmt_nat_digits)


lemma IP_String_v4:
  assumes "To4 ip = Some v4" "list_all (\<lambda>b. b \<le> 255) v4"
  shows "TrimSpace (IP_String ip) = IP_String ip \<and> ParseIP (IP_String ip) = Some (v4_mapped v4)"
proof -
  have l: "length v4 = 4" using To4_length [OF assms(1)] .
  then obtain a b c d where v4: "v4 = [a, b, c, d]"
    by (auto simp: length_Suc_conv numeral_eq_Suc)
  then show ?thesis using assms by (simp add: IP_String_def trim_quad ParseIP_quad)
qed

definition self_ready :: "http2gw_cfg \<Rightarrow> string \<Rightarrow> int option \<Rightarrow> bool" where
  "self_ready cfg ip local_port \<longleftrightarrow> ValidString (cfg_InstanceID (gw_Node cfg)) \<and> ParseIP (TrimSpace ip) \<noteq> None \<and>
     (case local_port of Some p \<Rightarrow> 1 \<le> p \<and> p \<le> 65535 | None \<Rightarrow> 1 \<le> udp_Port (gw_UDP cfg))"

lemma unat_port: "1 \<le> (p :: int) \<Longrightarrow> p \<le> 65535 \<Longrightarrow> 1 \<le> unat (word_of_int p :: u32) \<and> unat (word_of_int p :: u32) \<le> 65535"
  by (simp add: unat_eq_nat_uint unsigned_of_int take_bit_int_eq_self) linarith

lemma self_request_ok:
  assumes "LoadHTTP2GW scan scale c = Inr cfg" "self_ready cfg ip local_port"
  shows "well_formed_request (self_request cfg ip local_port)"
proof -
  have v: "HTTP2GW_Validate scan scale cfg = None" and d: "cfg = HTTP2GW_applyDefaults c"
    using assms(1) by (auto simp: LoadHTTP2GW_def Let_def split: option.splits)
  note v' = v [unfolded HTTP2GW_Validate_None]
  have i: "\<not> blank (cfg_InstanceID (gw_Node cfg))"
    by (simp add: d HTTP2GW_applyDefaults_def default_node_def Let_def)
  have p: "1 \<le> unat (rr_port (self_request cfg ip local_port)) \<and> unat (rr_port (self_request cfg ip local_port)) \<le> 65535"
    using assms(2) v' unat_port by (auto simp: self_request_def self_ready_def split: option.splits)
  have s: "list_all (\<lambda>svc. case svc of None \<Rightarrow> False | Some s \<Rightarrow> sc_service_id s \<noteq> 0)
      (rr_services (self_request cfg ip local_port))"
    using v' by (auto simp: self_request_def list_all_iff to_capability_def)
  show ?thesis
    using v' i p s assms(2)
    by (simp add: well_formed_request_def) (simp add: self_request_def self_ready_def)
qed

lemma registerSelf_ok:
  assumes "LoadHTTP2GW scan scale c = Inr cfg" "advertised_ip lookup cfg = Inr ip" "self_ready cfg ip local_port"
  shows "registerSelf lookup now cfg local_port m =
    (None, m(NodeID (gw_Node cfg) \<mapsto> stored_node now (self_request cfg ip local_port)))"
proof -
  let ?r = "self_request cfg ip local_port"
  have w: "well_formed_request ?r" by (rule self_request_ok [OF assms(1,3)])
  have k: "node_id (toNode ?r) = NodeID (gw_Node cfg)" by (simp add: self_request_def toNode_def)
  then have "NodeID (gw_Node cfg) \<noteq> 0" using w by (simp add: well_formed_request_def self_request_def)
  then show ?thesis
    using assms(2) k
    by (simp add: registerSelf_def Memory_Service_Register_def Registration_Register_def Validate_None [THEN iffD2, OF w]
        Memory_Register_def stored_node_def Let_def)
qed

lemma self_services:
  "map svc_id (Services (stored_node now (self_request cfg ip local_port))) = map svc_ServiceID (gw_Services cfg)"
proof -
  have "List.map_filter (map_option to_service) (map (Some \<circ> to_capability) svcs) = map (to_service \<circ> to_capability) svcs" for svcs
    by (induction svcs) (simp_all add: List.map_filter_simps)
  then show ?thesis
    by (simp add: stored_node_def toNode_def self_request_def) (simp add: to_service_def to_capability_def)
qed

definition up_entry :: "service list \<Rightarrow> node \<Rightarrow> bool" where
  "up_entry svcs n \<longleftrightarrow> Type n = TypeHTTP2GW \<and> State n \<in> {NodeStateRegistered, NodeStateActive} \<and> Services n = svcs"

lemma up_entry_step:
  assumes "life_step mon m ev m'" "reg_wf m" "m k = Some n" "up_entry svcs n" "\<not> registers k ev"
  shows "\<exists>n'. m' k = Some n' \<and> up_entry svcs n'"
  using assms(1)
proof (cases rule: life_step.cases)
  case (register now req)
  then show ?thesis using register_other [OF assms(2)] assms by auto
next
  case (heartbeat at req)
  show ?thesis
  proof (cases "beats k ev")
    case True
    then obtain r where "req = Some r" "hb_node_id r = k" using heartbeat by (cases req) auto
    then show ?thesis
      using handle_self [OF assms(2), of r n at] heartbeat assms by (auto simp: revivable_def up_entry_def)
  next
    case False
    then show ?thesis using handle_other [OF assms(2)] heartbeat assms by auto
  qed
next
  case (check order now)
  then show ?thesis using check_at [of m order k n mon now] assms by (auto simp: check_state_def up_entry_def)
qed

lemma up_entry_run:
  "life_run mon m evs m' \<Longrightarrow> reg_wf m \<Longrightarrow> m k = Some n \<Longrightarrow> up_entry svcs n \<Longrightarrow>
   \<forall>ev \<in> set evs. \<not> registers k ev \<Longrightarrow> \<exists>n'. m' k = Some n' \<and> up_entry svcs n'"
proof (induction arbitrary: n rule: life_run.induct)
  case (cons m ev m1 evs m2)
  then obtain n1 where "m1 k = Some n1" "up_entry svcs n1"
    using up_entry_step [OF cons.hyps(1)] by (metis list.set_intros(1))
  then show ?case using cons life_step_wf by (metis list.set_intros(2))
qed auto

lemma not_candidate:
  assumes "reg_wf m" "is_order m order" "m k = Some n" "Type n \<noteq> TypeLogic"
  shows "k \<notin> node_id ` set (route_candidates (Memory_List order m) msgID excluded)"
proof
  assume "k \<in> node_id ` set (route_candidates (Memory_List order m) msgID excluded)"
  then obtain x where x: "x \<in> set (Memory_List order m)" "node_id x = k" "Type x = TypeLogic"
    by (auto simp: route_candidates_def Let_def eligible_def)
  then obtain j where "m j = Some x" using List_set [OF assms(2)] by (auto simp: ran_def)
  then have "m k = Some x" using reg_wfD [OF assms(1)] x(2) by auto
  then show False using assms(3,4) x(3) by simp
qed

text \<open>
  The gateway stands in its own registry and never routes to itself: a loaded configuration
  whose host resolves registers under the configured id with the configured services.  Whatever
  registrations of other nodes, heartbeats and sweeps follow, the entry keeps its type and is
  neither suspected nor declared dead, and it is never among the candidates of a request.
\<close>

theorem gateway_entry_stable:
  assumes "LoadHTTP2GW scan scale c = Inr cfg" "advertised_ip lookup cfg = Inr ip" "self_ready cfg ip local_port"
    and "life_run mon (snd (registerSelf lookup now cfg local_port NewMemory)) evs m"
    and "\<forall>ev \<in> set evs. \<not> registers (NodeID (gw_Node cfg)) ev" "is_order m order"
  shows "fst (registerSelf lookup now cfg local_port NewMemory) = None \<and>
    (\<exists>n. m (NodeID (gw_Node cfg)) = Some n \<and> Type n = TypeHTTP2GW \<and>
      State n \<noteq> NodeStateSuspect \<and> State n \<noteq> NodeStateDead \<and>
      map svc_id (Services n) = map svc_ServiceID (gw_Services cfg)) \<and>
    NodeID (gw_Node cfg) \<notin> node_id ` set (route_candidates (Memory_List order m) msgID excluded)"
proof -
  let ?r = "self_request cfg ip local_port" and ?k = "NodeID (gw_Node cfg)"
  let ?m0 = "NewMemory(?k \<mapsto> stored_node now ?r)"
  have s: "registerSelf lookup now cfg local_port NewMemory = (None, ?m0)"
    by (rule registerSelf_ok [OF assms(1-3)])
  have w: "well_formed_request ?r" by (rule self_request_ok [OF assms(1,3)])
  then have wf: "reg_wf ?m0"
    by (intro reg_wf_upd reg_wf_NewMemory)
       (auto simp: well_formed_request_def self_request_def stored_node_def toNode_def)
  let ?svcs = "Services (stored_node now ?r)"
  have "up_entry ?svcs (stored_node now ?r)"
    by (simp add: up_entry_def stored_node_def toNode_def self_request_def)
  moreover have run: "life_run mon ?m0 evs m" using assms(4) s by simp
  ultimately obtain n where n: "m ?k = Some n" "up_entry ?svcs n"
    using up_entry_run [OF _ wf _ _ assms(5)] by fastforce
  have "reg_wf m" by (rule life_run_wf [OF run wf])
  then have "?k \<notin> node_id ` set (route_candidates (Memory_List order m) msgID excluded)"
    using not_candidate [OF _ assms(6) n(1)] n(2) by (simp add: up_entry_def)
  moreover have "map svc_id ?svcs = map svc_ServiceID (gw_Services cfg)"
    using self_services by simp
  ultimately show ?thesis using n s by (auto simp: up_entry_def)
qed

theorem gateway_entry_stable_witness:
  "\<exists>m. life_run (monitor_config (gw_Heartbeat w_gw_cfg))
      (snd (registerSelf (\<lambda>_. Inr []) 0 (HTTP2GW_applyDefaults w_gw_cfg) (Some 9000) NewMemory)) [] m \<and>
     m 4 \<noteq> None \<and> 4 \<notin> node_id ` set (route_candidates (Memory_List [4] m) 1001 [])"
proof -
  let ?cfg = "HTTP2GW_applyDefaults w_gw_cfg"
  have id: "NodeID (gw_Node ?cfg) = 4" "cfg_InstanceID (gw_Node ?cfg) = ''node-4''"
    by (simp_all add: HTTP2GW_applyDefaults_def w_gw_cfg_def w_cfg_defs)
  have ip: "advertised_ip (\<lambda>_. Inr []) ?cfg = Inr ''127.0.0.1''"
    by (simp add: advertised_ip_def HTTP2GW_applyDefaults_def w_gw_cfg_def w_cfg_defs)
  have "ParseIP (TrimSpace ''127.0.0.1'') \<noteq> None" "ValidString ''node-4''" by code_simp+
  then have r: "self_ready ?cfg ''127.0.0.1'' (Some 9000)" by (simp add: self_ready_def id)
  let ?m = "snd (registerSelf (\<lambda>_. Inr []) 0 ?cfg (Some 9000) NewMemory)"
  have "?m = NewMemory(4 \<mapsto> stored_node 0 (self_request ?cfg ''127.0.0.1'' (Some 9000)))"
    using registerSelf_ok [OF w_loads(1) ip r] id by simp
  then have o: "is_order ?m [4]" by (simp add: is_order_def NewMemory_def)
  have l: "life_run (monitor_config (gw_Heartbeat w_gw_cfg)) ?m [] ?m" by simp
  show ?thesis
    using gateway_entry_stable [OF w_loads(1) ip r l _ o, of 1001 "[]"] l id by auto
qed

section \<open>The gauge of Logic nodes\<close>

lemma count_states_at:
  "count_states ns cnt t = cnt t + int (length (filter (\<lambda>n. Type n = TypeLogic \<and> NodeState_String (State n) = t) ns))"
  by (induction ns arbitrary: cnt) auto

lemma count_filters:
  assumes "\<forall>n \<in> set ns. stored_state (State n)"
  shows "(\<Sum>t \<leftarrow> [''registered'', ''active'', ''suspect'', ''dead'', ''init''].
      length (filter (\<lambda>n. Type n = TypeLogic \<and> NodeState_String (State n) = t) ns)) =
    length (filter (\<lambda>n. Type n = TypeLogic) ns)"
  using assms
proof (induction ns)
  case (Cons n ns)
  then show ?case by (cases "State n") (simp_all add: stored_state_def)
qed simp

lemma count_total:
  assumes "\<forall>n \<in> set ns. stored_state (State n)"
  shows "sum_list (map (count_states ns (\<lambda>_. 0)) [''registered'', ''active'', ''suspect'', ''dead'', ''init'']) =
    int (length (filter (\<lambda>n. Type n = TypeLogic) ns))"
  unfolding count_filters [OF assms, symmetric] by (simp add: count_states_at)

text \<open>
  The gauge of Logic nodes loses none: after any registrations, heartbeats and sweeps the values
  the tick publishes per state add up to the number of Logic nodes in the registry.
\<close>

lemma logic_gauge_complete:
  assumes "life_run mon NewMemory evs m" "is_order m order"
  shows "sum_list (map (count_states (Memory_List order m) (\<lambda>_. 0)) [''registered'', ''active'', ''suspect'', ''dead'', ''init'']) =
      int (card {k. \<exists>n. m k = Some n \<and> Type n = TypeLogic})"
proof -
  have wf: "reg_wf m" by (rule life_run_wf [OF assms(1) reg_wf_NewMemory])
  have st: "stored_state (State n)" if "m k = Some n" for k n
    using run_stored [OF assms(1) reg_wf_NewMemory, of k] that by (simp add: life_abs_def NewMemory_def)
  let ?ns = "filter (\<lambda>n. Type n = TypeLogic) (Memory_List order m)"
  have "distinct (map node_id ?ns)"
    using List_distinct_ids [OF wf assms(2)] by (rule distinct_map_filter)
  then have "length ?ns = card (node_id ` set ?ns)"
    by (metis distinct_card length_map list.set_map)
  also have "node_id ` set ?ns = {k. \<exists>n. m k = Some n \<and> Type n = TypeLogic}"
    using List_set [OF assms(2)] reg_wfD [OF wf] by (force simp: ran_def)
  finally show ?thesis
    using count_total [of "Memory_List order m"] st List_set [OF assms(2)] by (auto simp: ran_def)
qed

end
