(* ===== verification/LogicRun.thy ===== *)
theory LogicRun imports Supervise LogicNode Gateway begin

text \<open>
  \<open>Run\<close> of \<open>internal/logicnode\<close>: the set-up of a Logic process from its configuration, its goroutines
  from the start to the return, the heartbeat loop and the end of the worker pool.
\<close>

section \<open>Set-up\<close>

definition logic_reg_config :: "logic_cfg \<Rightarrow> logic_config" where
  "logic_reg_config cfg = \<lparr>lc_node_id = NodeID (lo_Node cfg), lc_instance_id = cfg_InstanceID (lo_Node cfg),
     lc_services = map to_capability (lo_Services cfg), lc_interval = h_Interval (lo_Heartbeat cfg)\<rparr>"

text \<open>
  The metrics server listens when a port is configured: the error of \<open>net.Listen\<close>, or the address.
\<close>

definition startMetricsServer :: "(string \<Rightarrow> gerr option) \<Rightarrow> string \<Rightarrow> int \<Rightarrow> string option res" where
  "startMetricsServer open_tcp listen port =
     (if port \<le> 0 then Inr None
      else let addr = JoinHostPort (if listen = [] then ''0.0.0.0'' else listen) (Itoa port) in
        case open_tcp addr of
          Some err \<Rightarrow> Inl (Wrap [Lit ''metrics listen '', Lit addr, Lit '': ''] err [])
        | None \<Rightarrow> Inr (Some addr))"

record logic_proc =
  lr_gw :: "IP \<times> int"
  lr_ip :: string
  lr_port :: u32
  lr_metrics :: "string option"
  lr_workers :: int
  lr_state :: logic

text \<open>
  \<open>open_udp\<close> is the error of \<open>udp.New\<close>, \<open>local_port\<close> the port of \<open>conn.LocalAddr()\<close> when that is a UDP
  address, \<open>cores\<close> reads a \<open>float64\<close>: whether it is positive, and its integer part.
\<close>

definition logic_setup ::
  "(string \<Rightarrow> float64 res) \<Rightarrow> (float64 \<Rightarrow> u64 \<Rightarrow> u64) \<Rightarrow> (float64 \<Rightarrow> bool \<times> int) \<Rightarrow> gerr option \<Rightarrow> (string \<Rightarrow> IP list res) \<Rightarrow>
   int option \<Rightarrow> (string \<Rightarrow> gerr option) \<Rightarrow> logic_cfg \<Rightarrow> logic_proc res" where
  "logic_setup scan scale cores open_udp lookup local_port open_tcp cfg =
     (case Logic_Validate scan scale cfg of
        Some err \<Rightarrow> Inl err
      | None \<Rightarrow>
     (case open_udp of
        Some err \<Rightarrow> Inl err
      | None \<Rightarrow>
     (case ResolveUDPAddrLookup lookup (gwa_Host (lo_Gateway cfg)) (gwa_Port (lo_Gateway cfg)) of
        Inl err \<Rightarrow> Inl (Wrap [Lit ''gateway.host: ''] err [])
      | Inr gw \<Rightarrow>
     (case local_port of
        None \<Rightarrow> Inl (Opaque ''logic local UDP address is invalid'')
      | Some port \<Rightarrow>
     (case ResolveIPLookup lookup (AdvertiseHost cfg) of
        Inl err \<Rightarrow> Inl (Wrap [Lit ''node advertise: ''] err [])
      | Inr ip \<Rightarrow>
     (case startMetricsServer open_tcp (met_Listen (lo_Metrics cfg)) (met_Port (lo_Metrics cfg)) of
        Inl err \<Rightarrow> Inl err
      | Inr srv \<Rightarrow>
         let (positive, n) = cores (CPUCores (lo_Resource cfg)); workers = dataWorkerCount positive n in
         Inr \<lparr>lr_gw = gw, lr_ip = IP_String ip, lr_port = word_of_int port, lr_metrics = srv,
              lr_workers = workers, lr_state = logic_start workers\<rparr>))))))"

text \<open>The agent \<open>Run\<close> starts after the registration when a Master is configured.\<close>

definition logic_agent :: "(resource_cfg \<Rightarrow> u64) \<Rightarrow> logic_cfg \<Rightarrow> u32 \<Rightarrow> agent option" where
  "logic_agent memory_bytes cfg port =
     (if blank (lo_MasterURL cfg) then None
      else Some \<lparr>ag_MasterURL = lo_MasterURL cfg, ag_Body = BodyFromLogic memory_bytes cfg port,
                 ag_Interval = h_Interval (lo_Heartbeat cfg)\<rparr>)"

lemma dataWorkerCount_range: "128 \<le> dataWorkerCount p n \<and> dataWorkerCount p n \<le> 2048"
  by (auto simp: dataWorkerCount_def defaultDataWorkers_def Let_def)

lemma logic_setup_Inr:
  assumes "logic_setup scan scale cores open_udp lookup local_port open_tcp cfg = Inr p"
  shows "Logic_Validate scan scale cfg = None" "open_udp = None"
    "ResolveUDPAddrLookup lookup (gwa_Host (lo_Gateway cfg)) (gwa_Port (lo_Gateway cfg)) = Inr (lr_gw p)"
    "\<exists>ip port. ResolveIPLookup lookup (AdvertiseHost cfg) = Inr ip \<and> local_port = Some port \<and>
       lr_ip p = IP_String ip \<and> lr_port p = word_of_int port"
    "lr_state p = logic_start (lr_workers p)" "128 \<le> lr_workers p \<and> lr_workers p \<le> 2048"
  using assms dataWorkerCount_range
  by (auto simp: logic_setup_def Let_def split: option.splits sum.splits prod.splits)

section \<open>The heartbeat loop\<close>

text \<open>One heartbeat at once, one for each tick until the context ends.\<close>

definition heartbeatLoop :: "logic_env \<Rightarrow> time \<Rightarrow> time list \<Rightarrow> logic \<Rightarrow> logic" where
  "heartbeatLoop le now ticks s = fold (\<lambda>t s. snd (sendHeartbeat le t s)) (now # ticks) s"

abbreviation beat :: "logic_env \<Rightarrow> time list \<Rightarrow> logic \<Rightarrow> logic" where
  "beat le \<equiv> fold (\<lambda>t s. snd (sendHeartbeat le t s))"

lemma beat_numbers:
  "lg_seq (beat le ts s) = lg_seq s + of_nat (length ts) \<and>
   map (env_transaction_id \<circ> fst) (lg_sent (beat le ts s)) =
     map (env_transaction_id \<circ> fst) (lg_sent s) @ map (\<lambda>i. lg_seq s + of_nat (Suc i)) [0 ..< length ts]"
  by (induction ts rule: rev_induct) (simp_all add: sendHeartbeat_def Let_def)

text \<open>Heartbeats are numbered from 1 without a gap.\<close>

lemma heartbeat_numbers:
  assumes "lg_seq s = 0" "lg_sent s = []"
  shows "map (env_transaction_id \<circ> fst) (lg_sent (heartbeatLoop le now ticks s)) =
    map (\<lambda>i. of_nat (Suc i)) [0 ..< Suc (length ticks)]"
  using beat_numbers [of le "now # ticks" s] assms unfolding heartbeatLoop_def by (simp del: upt_Suc)

section \<open>The end of the worker pool\<close>

text \<open>
  \<open>Close\<close> closes the job channel and waits for the workers, which run what is still queued.  Its
  return is the state in which no job is queued or in work.
\<close>

definition pool_close :: "logic \<Rightarrow> logic" where
  "pool_close s = s\<lparr>lg_pool := (lg_pool s)\<lparr>pl_closing := True\<rparr>\<rparr>"

definition pool_closed :: "logic \<Rightarrow> bool" where
  "pool_closed s \<longleftrightarrow> pl_closing (lg_pool s) \<and> pl_jobs (lg_pool s) = [] \<and> pl_busy (lg_pool s) = []"

fun worker_events :: "logic_event list \<Rightarrow> nat" where
  "worker_events [] = 0"
| "worker_events (LTake j # evs) = Suc (worker_events evs)"
| "worker_events (LFinish now d j # evs) = Suc (worker_events evs)"
| "worker_events (ev # evs) = worker_events evs"

fun jobs_done :: "logic_event list \<Rightarrow> data_job list" where
  "jobs_done [] = []"
| "jobs_done (LFinish now d j # evs) = j # jobs_done evs"
| "jobs_done (ev # evs) = jobs_done evs"

lemma worker_events_snoc: "worker_events (evs @ [ev]) = worker_events evs + worker_events [ev]"
  by (induction evs rule: worker_events.induct) auto

lemma jobs_done_snoc: "jobs_done (evs @ [ev]) = jobs_done evs @ jobs_done [ev]"
  by (induction evs rule: jobs_done.induct) auto

text \<open>What a closed pool still holds: its jobs, and the steps its workers still take for them.\<close>

definition pool_left :: "logic \<Rightarrow> data_job multiset" where
  "pool_left s = mset (pl_jobs (lg_pool s)) + mset (pl_busy (lg_pool s))"

definition pool_steps :: "logic \<Rightarrow> nat" where
  "pool_steps s = 2 * length (pl_jobs (lg_pool s)) + length (pl_busy (lg_pool s))"

lemma closed_incoming: "pl_closing (lg_pool s) \<Longrightarrow> lg_pool (handleIncoming le now e src s) = lg_pool s"
  by (auto simp: handleIncoming_def on_data_request_def Enqueue_def Let_def split: option.split message_type.split)

lemma closed_receive: "pl_closing (lg_pool s) \<Longrightarrow> lg_pool (snd (receive_step le now r s)) = lg_pool s"
  by (auto simp: receive_step_def closed_incoming split: sum.split)

lemma closed_step:
  assumes "logic_step le s ev s'" "pl_closing (lg_pool s)"
  shows "pl_closing (lg_pool s') \<and> pool_steps s' + worker_events [ev] = pool_steps s \<and>
    pool_left s = pool_left s' + mset (jobs_done [ev]) \<and> pl_workers (lg_pool s') = pl_workers (lg_pool s)"
  using assms(1)
proof cases
  case (receive now r)
  then show ?thesis
    using closed_receive [OF assms(2), of le now r] assms(2) by (simp add: pool_steps_def pool_left_def)
next
  case (finish j now d)
  have "mset (pl_busy (lg_pool s)) = add_mset j (mset (remove1 j (pl_busy (lg_pool s))))" using finish by simp
  moreover have "length (pl_busy (lg_pool s)) = Suc (length (remove1 j (pl_busy (lg_pool s))))"
    using finish by (simp add: length_remove1) (metis Suc_pred length_pos_if_in_set)
  ultimately show ?thesis
    using finish assms(2) by (simp add: worker_finish_def data_finish_def pool_steps_def pool_left_def Let_def)
qed (use assms(2) in \<open>auto simp: worker_take_def data_start_def sendHeartbeat_def pool_steps_def pool_left_def Let_def\<close>)

lemma closed_run:
  assumes "logic_run le s evs s'" "pl_closing (lg_pool s)"
  shows "pl_closing (lg_pool s') \<and> pool_steps s' + worker_events evs = pool_steps s \<and>
    pool_left s = pool_left s' + mset (jobs_done evs) \<and> pl_workers (lg_pool s') = pl_workers (lg_pool s)"
  using assms
proof (induction rule: logic_run.induct)
  case (snoc s evs s1 ev s2)
  then show ?case using closed_step [OF snoc(2)] by (simp add: worker_events_snoc [of evs] jobs_done_snoc [of evs])
qed simp

text \<open>
  \<open>Close\<close> of the worker pool returns: after it no job is accepted, the workers finish exactly the
  jobs that were queued or in work, in a number of steps bounded by them, and as long as a job is
  left a worker can take a step.
\<close>

theorem pool_close_returns:
  assumes "logic_run le (pool_close s) evs s'" "0 < pl_workers (lg_pool s)"
  shows "worker_events evs \<le> 2 * length (pl_jobs (lg_pool s)) + length (pl_busy (lg_pool s)) \<and>
    (pool_closed s' \<and> mset (jobs_done evs) = mset (pl_jobs (lg_pool s)) + mset (pl_busy (lg_pool s)) \<or>
     (\<exists>ev s''. logic_step le s' ev s'' \<and> worker_events [ev] = 1))"
proof -
  note c = closed_run [OF assms(1)]
  have left: "pool_steps (pool_close s) = 2 * length (pl_jobs (lg_pool s)) + length (pl_busy (lg_pool s))"
    "pool_left (pool_close s) = mset (pl_jobs (lg_pool s)) + mset (pl_busy (lg_pool s))"
    "pl_closing (lg_pool (pool_close s))" "pl_workers (lg_pool (pool_close s)) = pl_workers (lg_pool s)"
    by (simp_all add: pool_close_def pool_steps_def pool_left_def)
  have "pool_closed s' \<or> (\<exists>ev s''. logic_step le s' ev s'' \<and> worker_events [ev] = 1)"
  proof (cases "pl_busy (lg_pool s')")
    case Nil
    show ?thesis
    proof (cases "pl_jobs (lg_pool s')")
      case (Cons j rest)
      then show ?thesis
        using logic_step.take [of s' j rest le] Nil c left(3,4) assms(2) by fastforce
    qed (use Nil c left(3) in \<open>simp add: pool_closed_def\<close>)
  next
    case (Cons j busy)
    then have "logic_step le s' (LFinish 0 0 j) (worker_finish le 0 0 j s')" by (intro logic_step.finish) simp
    then show ?thesis by force
  qed
  then show ?thesis using c left by (auto simp: pool_closed_def pool_left_def)
qed

section \<open>The goroutines of \<open>Run\<close>\<close>

text \<open>
  \<open>Run\<close> registers, then starts the heartbeats and selects between its context and the one error of
  the receive loop.  \<open>lp_ctx\<close> is the error of the run's context once it has ended, \<open>lp_parent\<close> that of
  the caller's.
\<close>

datatype logic_main = LRegister | LStarting | LSelecting | LCtxCase | LReturned "gerr option"

record lproc =
  lp_parent :: "ctx_err option"
  lp_ctx :: "ctx_err option"
  lp_errCh :: "gerr list"
  lp_recv :: routine
  lp_main :: logic_main
  lp_registered :: bool

definition lproc_start :: lproc where
  "lproc_start = \<lparr>lp_parent = None, lp_ctx = None, lp_errCh = [], lp_recv = Serving, lp_main = LRegister, lp_registered = False\<rparr>"

definition recv_report :: "gerr \<Rightarrow> gerr option" where
  "recv_report = unless_is [Context Canceled, Udp ErrTransportClosed] id"

definition end_run :: "ctx_err \<Rightarrow> lproc \<Rightarrow> lproc" where
  "end_run e s = s\<lparr>lp_ctx := (case lp_ctx s of None \<Rightarrow> Some e | Some c \<Rightarrow> Some c),
     lp_main := (if lp_main s = LSelecting then LCtxCase else lp_main s)\<rparr>"

datatype lproc_event =
    RecvEnd gerr | RecvSend | RecvCancel | CallerEnd ctx_err
  | Registered | RegSendFailed gerr | RegCancelled | LTakeCtx | LTakeErr | LWait | LReadCtx

inductive lproc_step :: "lproc \<Rightarrow> lproc_event \<Rightarrow> lproc \<Rightarrow> bool" where
  recv_end: "lp_recv s = Serving \<Longrightarrow>
    lproc_step s (RecvEnd err) (s\<lparr>lp_recv := (case recv_report err of None \<Rightarrow> Gone | Some e \<Rightarrow> Sending e)\<rparr>)"
| recv_send: "lp_recv s = Sending e \<Longrightarrow> lp_main s = LSelecting \<or> lp_errCh s = [] \<Longrightarrow>
    lproc_step s RecvSend (if lp_main s = LSelecting then s\<lparr>lp_recv := Cancelling, lp_main := LReturned (Some e)\<rparr>
      else s\<lparr>lp_recv := Cancelling, lp_errCh := [e]\<rparr>)"
| recv_cancel: "lp_recv s = Cancelling \<Longrightarrow> lproc_step s RecvCancel (end_run Canceled (s\<lparr>lp_recv := Gone\<rparr>))"
| caller: "lp_parent s = None \<Longrightarrow> lproc_step s (CallerEnd e) (end_run e (s\<lparr>lp_parent := Some e\<rparr>))"
| registered: "lp_main s = LRegister \<Longrightarrow> lproc_step s Registered (s\<lparr>lp_main := LStarting, lp_registered := True\<rparr>)"
| reg_failed: "lp_main s = LRegister \<Longrightarrow> lproc_step s (RegSendFailed err) (s\<lparr>lp_main := LReturned (Some err)\<rparr>)"
| reg_cancelled: "lp_main s = LRegister \<Longrightarrow> lp_ctx s = Some c \<Longrightarrow>
    lproc_step s RegCancelled (s\<lparr>lp_main := LReturned (Some (Sentinel (Context c)))\<rparr>)"
| take_ctx: "lp_main s = LStarting \<Longrightarrow> lp_ctx s \<noteq> None \<Longrightarrow> lproc_step s LTakeCtx (s\<lparr>lp_main := LCtxCase\<rparr>)"
| take_err: "lp_main s = LStarting \<Longrightarrow> lp_errCh s = [e] \<Longrightarrow>
    lproc_step s LTakeErr (s\<lparr>lp_main := LReturned (Some e), lp_errCh := []\<rparr>)"
| wait: "lp_main s = LStarting \<Longrightarrow> lp_ctx s = None \<Longrightarrow> lp_errCh s = [] \<Longrightarrow> lproc_step s LWait (s\<lparr>lp_main := LSelecting\<rparr>)"
| read_ctx: "lp_main s = LCtxCase \<Longrightarrow>
    lproc_step s LReadCtx (s\<lparr>lp_main := LReturned (map_option (\<lambda>c. Sentinel (Context c)) (lp_parent s))\<rparr>)"

inductive lproc_run :: "lproc_event list \<Rightarrow> lproc \<Rightarrow> bool" where
  nil: "lproc_run [] lproc_start"
| snoc: "lproc_run evs s \<Longrightarrow> lproc_step s ev s' \<Longrightarrow> lproc_run (evs @ [ev]) s'"

definition recv_failures :: "lproc_event list \<Rightarrow> gerr set" where
  "recv_failures evs = {e. \<exists>err. RecvEnd err \<in> set evs \<and> recv_report err = Some e}"

definition lproc_explained :: "lproc_event list \<Rightarrow> gerr option \<Rightarrow> bool" where
  "lproc_explained evs r \<longleftrightarrow>
     (case r of
        None \<Rightarrow> recv_failures evs \<noteq> {}
      | Some e \<Rightarrow> e \<in> recv_failures evs \<or> RegSendFailed e \<in> set evs \<or> (\<exists>c. CallerEnd c \<in> set evs \<and> e = Sentinel (Context c)) \<or>
          e = Sentinel (Context Canceled) \<and> recv_failures evs \<noteq> {})"

definition lproc_inv :: "lproc_event list \<Rightarrow> lproc \<Rightarrow> bool" where
  "lproc_inv evs s \<longleftrightarrow>
     (case lp_recv s of Sending e \<Rightarrow> e \<in> recv_failures evs | Cancelling \<Rightarrow> recv_failures evs \<noteq> {} | _ \<Rightarrow> True) \<and>
     set (lp_errCh s) \<subseteq> recv_failures evs \<and>
     (\<forall>c. lp_parent s = Some c \<longrightarrow> CallerEnd c \<in> set evs) \<and>
     (\<forall>c. lp_ctx s = Some c \<longrightarrow> lp_parent s \<noteq> None \<and> CallerEnd c \<in> set evs \<or> c = Canceled \<and> recv_failures evs \<noteq> {}) \<and>
     (lp_main s = LCtxCase \<longrightarrow> lp_ctx s \<noteq> None) \<and>
     (lp_main s \<noteq> LRegister \<and> \<not> lp_registered s \<longrightarrow> (\<exists>r. lp_main s = LReturned (Some r))) \<and>
     (\<forall>r. lp_main s = LReturned r \<longrightarrow> lproc_explained evs r)"

lemma recv_failures_snoc:
  "recv_failures (evs @ [ev]) = recv_failures evs \<union> (case ev of RecvEnd err \<Rightarrow> set_option (recv_report err) | _ \<Rightarrow> {})"
  by (auto simp: recv_failures_def split: lproc_event.split)

lemma lproc_explained_snoc: "lproc_explained evs r \<Longrightarrow> lproc_explained (evs @ [ev]) r"
  by (auto simp: lproc_explained_def recv_failures_snoc split: option.splits)

lemma end_run_fields [simp]:
  "lp_recv (end_run e s) = lp_recv s" "lp_errCh (end_run e s) = lp_errCh s" "lp_parent (end_run e s) = lp_parent s"
  "lp_registered (end_run e s) = lp_registered s"
  "lp_ctx (end_run e s) = (case lp_ctx s of None \<Rightarrow> Some e | Some c \<Rightarrow> Some c)"
  "lp_main (end_run e s) = (if lp_main s = LSelecting then LCtxCase else lp_main s)"
  by (simp_all add: end_run_def)

lemma lproc_inv_later: "lproc_inv evs s \<Longrightarrow> lproc_inv (evs @ [ev]) s"
  using lproc_explained_snoc unfolding lproc_inv_def recv_failures_snoc by (auto split: routine.splits)

lemma lproc_step_inv:
  assumes "lproc_step s ev s'" "lproc_inv evs s"
  shows "lproc_inv (evs @ [ev]) s'"
proof -
  note i = lproc_inv_later [OF assms(2), of ev]
  show ?thesis
    using assms(1)
  proof cases
    case (recv_end err)
    then show ?thesis using i by (auto simp: lproc_inv_def recv_failures_snoc split: option.split)
  next
    case (read_ctx)
    have "lproc_explained evs (map_option (\<lambda>c. Sentinel (Context c)) (lp_parent s))"
      using read_ctx assms(2) by (auto simp: lproc_inv_def lproc_explained_def split: option.split)
    then show ?thesis using read_ctx i lproc_explained_snoc [of evs _ ev] by (auto simp: lproc_inv_def)
  qed (use i in \<open>auto simp: lproc_inv_def lproc_explained_def split: option.splits routine.splits\<close>)
qed

lemma lproc_run_inv: "lproc_run evs s \<Longrightarrow> lproc_inv evs s"
proof (induction rule: lproc_run.induct)
  case nil
  then show ?case by (simp add: lproc_inv_def lproc_start_def recv_failures_def)
qed (use lproc_step_inv in blast)

text \<open>
  \<open>Run\<close> of the Logic node returns the receive loop's failure, a failed send of a REGISTER, or the
  error its caller's context ended with; it returns nil, or a cancellation its caller did not ask
  for, only when the receive loop failed.
\<close>

theorem logic_result_explained:
  assumes "lproc_run evs s" "lp_main s = LReturned r"
  shows "(\<exists>err. RecvEnd err \<in> set evs \<and> recv_report err \<noteq> None \<and>
      (r = recv_report err \<or> r = Some (Sentinel (Context Canceled)) \<or> r = None)) \<or>
    (\<exists>err. RegSendFailed err \<in> set evs \<and> r = Some err) \<or>
    (\<exists>c. CallerEnd c \<in> set evs \<and> r = Some (Sentinel (Context c)))"
proof -
  have "lproc_explained evs r" using lproc_run_inv [OF assms(1)] assms(2) by (simp add: lproc_inv_def)
  then show ?thesis
    by (cases r) (fastforce simp: lproc_explained_def recv_failures_def)+
qed

text \<open>
  A broken socket goes unnoticed: when the receive loop fails while the node registers, its
  cancellation ends the registration first, so \<open>Run\<close> returns \<open>context.Canceled\<close> instead of the
  failure, and \<open>main\<close> takes that for a requested stop and exits with status 0.
\<close>

theorem receive_failure_masked:
  "\<exists>evs s err. lproc_run evs s \<and> RecvEnd err \<in> set evs \<and> recv_report err = Some err \<and> lp_parent s = None \<and>
     lp_main s = LReturned (Some (Sentinel (Context Canceled))) \<and>
     exit_code None (Some (Sentinel (Context Canceled))) = 0 \<and> exit_code None (Some err) = 1"
proof -
  let ?e = "Opaque ''read udp: bad file descriptor''"
  let ?s = "\<lambda>r ch c m. lproc_start\<lparr>lp_recv := r, lp_errCh := ch, lp_ctx := c, lp_main := m\<rparr>"
  have rep: "recv_report ?e = Some ?e" by (simp add: recv_report_def unless_is_def)
  have 1: "lproc_step lproc_start (RecvEnd ?e) (?s (Sending ?e) [] None LRegister)"
    using lproc_step.recv_end [of lproc_start ?e] rep by (simp add: lproc_start_def)
  have 2: "lproc_step (?s (Sending ?e) [] None LRegister) RecvSend (?s Cancelling [?e] None LRegister)"
    using lproc_step.recv_send [of "?s (Sending ?e) [] None LRegister" ?e] by (simp add: lproc_start_def)
  have 3: "lproc_step (?s Cancelling [?e] None LRegister) RecvCancel (?s Gone [?e] (Some Canceled) LRegister)"
    using lproc_step.recv_cancel [of "?s Cancelling [?e] None LRegister"] by (simp add: lproc_start_def end_run_def)
  have 4: "lproc_step (?s Gone [?e] (Some Canceled) LRegister) RegCancelled
      (?s Gone [?e] (Some Canceled) (LReturned (Some (Sentinel (Context Canceled)))))"
    using lproc_step.reg_cancelled [of "?s Gone [?e] (Some Canceled) LRegister" Canceled] by (simp add: lproc_start_def)
  have "lproc_run (((([] @ [RecvEnd ?e]) @ [RecvSend]) @ [RecvCancel]) @ [RegCancelled])
      (?s Gone [?e] (Some Canceled) (LReturned (Some (Sentinel (Context Canceled)))))"
    by (intro lproc_run.snoc [OF _ 4] lproc_run.snoc [OF _ 3] lproc_run.snoc [OF _ 2] lproc_run.snoc [OF _ 1] lproc_run.nil)
  then show ?thesis
    by (intro exI [of _ "(((([] @ [RecvEnd ?e]) @ [RecvSend]) @ [RecvCancel]) @ [RegCancelled])"]
        exI [of _ "?s Gone [?e] (Some Canceled) (LReturned (Some (Sentinel (Context Canceled))))"] exI [of _ ?e])
      (simp add: rep exit_code_def lproc_start_def)
qed

section \<open>Concrete runs\<close>

theorem logic_result_explained_witness:
  "\<exists>evs s. lproc_run evs s \<and> lp_main s = LReturned (Some (Sentinel (Context DeadlineExceeded))) \<and>
     CallerEnd DeadlineExceeded \<in> set evs"
proof -
  let ?s1 = "end_run DeadlineExceeded (lproc_start\<lparr>lp_parent := Some DeadlineExceeded\<rparr>)"
  let ?s2 = "?s1\<lparr>lp_main := LReturned (Some (Sentinel (Context DeadlineExceeded)))\<rparr>"
  have 1: "lproc_step lproc_start (CallerEnd DeadlineExceeded) ?s1"
    by (rule lproc_step.caller) (simp add: lproc_start_def)
  have 2: "lproc_step ?s1 RegCancelled ?s2"
    by (rule lproc_step.reg_cancelled) (simp_all add: lproc_start_def)
  have run: "lproc_run (([] @ [CallerEnd DeadlineExceeded]) @ [RegCancelled]) ?s2"
    by (intro lproc_run.snoc [OF _ 2] lproc_run.snoc [OF _ 1] lproc_run.nil)
  have "CallerEnd DeadlineExceeded \<in> set (([] @ [CallerEnd DeadlineExceeded]) @ [RegCancelled])"
    using logic_result_explained [OF run, of "Some (Sentinel (Context DeadlineExceeded))"] by auto
  then show ?thesis using run by (intro exI [of _ "([] @ [CallerEnd DeadlineExceeded]) @ [RegCancelled]"] exI [of _ ?s2]) simp
qed

definition w_closing :: logic where
  "w_closing = (logic_start 1)\<lparr>lg_pool := \<lparr>pl_workers = 1,
     pl_jobs = [(logic_envelope 0 1 2 MESSAGE_TYPE_DATA_REQUEST, None)], pl_busy = [], pl_closing = False\<rparr>\<rparr>"

theorem pool_close_returns_witness:
  "\<exists>s' ev s''. logic_run \<lparr>le_node = 1, le_gw = None, le_send = \<lambda>e a. None\<rparr> (pool_close w_closing) [] s' \<and>
     \<not> pool_closed s' \<and> logic_step \<lparr>le_node = 1, le_gw = None, le_send = \<lambda>e a. None\<rparr> s' ev s'' \<and> worker_events [ev] = 1"
proof -
  have run: "logic_run \<lparr>le_node = 1, le_gw = None, le_send = \<lambda>e a. None\<rparr> (pool_close w_closing) [] (pool_close w_closing)"
    by (rule logic_run.nil)
  have w: "0 < pl_workers (lg_pool w_closing)" by (simp add: w_closing_def)
  have "\<not> pool_closed (pool_close w_closing)" by (simp add: pool_closed_def pool_close_def w_closing_def)
  then show ?thesis using pool_close_returns [OF run w] run by blast
qed

section \<open>Small helpers of the Logic node\<close>

definition queueSize :: "logic option \<Rightarrow> int" where
  "queueSize rt = (case rt of None \<Rightarrow> 0 | Some s \<Rightarrow> lg_inFlight s)"

definition respMessage :: "register_response option \<Rightarrow> string" where
  "respMessage resp = (case resp of None \<Rightarrow> '''' | Some r \<Rightarrow> rp_message r)"

text \<open>The interval between two REGISTER messages while no answer arrives.\<close>

definition register_interval :: "logic_config \<Rightarrow> duration" where
  "register_interval cfg = (if lc_interval cfg \<le> 0 then second else lc_interval cfg)"

text \<open>\<open>Do\<close>: \<open>Enqueue\<close> unless the context has ended; a full queue drops the job, which only \<open>Enqueue\<close>'s metrics show.\<close>

definition pool_Do :: "ctx_err option \<Rightarrow> data_job \<Rightarrow> pool \<Rightarrow> pool \<times> node_call list" where
  "pool_Do ctx j p = (case ctx of Some e \<Rightarrow> (p, []) | None \<Rightarrow> snd (Enqueue j p))"

text \<open>The warning about a full queue: once a second at most, none without metrics.\<close>

definition shouldLogPoolSaturation :: "bool \<Rightarrow> int \<Rightarrow> int \<Rightarrow> bool \<times> int" where
  "shouldLogPoolSaturation has_met now prev = (if \<not> has_met then (False, prev) else rateLimitLog now second prev)"

end
