(* ===== verification/MasterRun.thy ===== *)
theory MasterRun imports ControlPlane begin

text \<open>
  \<open>internal/master/run.go\<close>: the Master's own entry, its HTTP handlers on the registry, and the
  monitor, which refreshes the Master's entry before each sweep.  A handler calls the registry
  several times, each call atomic; \<open>master_op\<close> is one such call, so that a run of operations covers
  every interleaving of handlers and monitor.  Serving HTTP and JSON is not modelled: a request is
  its decoded body (\<open>None\<close>: it does not decode), a reply its status and content.
\<close>

section \<open>Replies\<close>

datatype master_reply =
    MError string int
  | Accepted node_view
  | StatusText string
  | Inventory nat "node_view list"

fun reply_code :: "master_reply \<Rightarrow> int" where
  "reply_code (MError msg code) = code"
| "reply_code _ = 200"

section \<open>Start\<close>

definition master_self :: "(resource_cfg \<Rightarrow> u64) \<Rightarrow> master_cfg \<Rightarrow> node" where
  "master_self memory_bytes cfg =
     \<lparr>node_id = NodeID (ms_Node cfg), InstanceID = cfg_InstanceID (ms_Node cfg), Name = cfg_Name (ms_Node cfg),
      Type = TypeMaster, Group = cfg_Group (ms_Node cfg),
      Address = (if blank (cfg_IP (ms_Node cfg)) then ''127.0.0.1'' else TrimSpace (cfg_IP (ms_Node cfg))),
      UDPPort = 0, HTTPPort = word_of_int (http_Port (ms_HTTP cfg)), Services = [],
      State = NodeStateUnspecified, LastHeartbeatAt = zero_time, Load = 0, ActiveTransaction = 0,
      Resource = zero_resource\<lparr>CPULimitCores := CPUCores (ms_Resource cfg),
        MemoryLimitBytes := memory_bytes (ms_Resource cfg)\<rparr>\<rparr>"

text \<open>\<open>t1\<close> and \<open>t2\<close> are the times the two registry calls read.\<close>

definition register_beat :: "time \<Rightarrow> time \<Rightarrow> node \<Rightarrow> memory \<Rightarrow> gerr option \<times> memory" where
  "register_beat t1 t2 n m =
     (case Memory_Register t1 (Some n) m of
        (Some err, m1) \<Rightarrow> (Some err, m1)
      | (None, m1) \<Rightarrow> (None, snd (Memory_ApplyHeartbeat (node_id n) t2 (Some NextOnHeartbeat) m1)))"

definition master_start ::
  "(string \<Rightarrow> float64 res) \<Rightarrow> (float64 \<Rightarrow> u64 \<Rightarrow> u64) \<Rightarrow> time \<Rightarrow> time \<Rightarrow> master_cfg \<Rightarrow> memory res" where
  "master_start scan scale t1 t2 cfg =
     (case Master_Validate scan scale cfg of
        Some err \<Rightarrow> Inl err
      | None \<Rightarrow>
         (case register_beat t1 t2 (master_self (MemoryBytes scan scale) cfg) NewMemory of
            (Some err, _) \<Rightarrow> Inl err
          | (None, m) \<Rightarrow> Inr m))"

section \<open>The monitor\<close>

definition checkTimeouts :: "hb_config \<Rightarrow> time \<Rightarrow> u32 list \<Rightarrow> memory \<Rightarrow> node list \<times> memory" where
  "checkTimeouts mon now order m =
     Memory_ApplyTimeoutsExcept now (Some (\<lambda>n. Type n = TypeMaster)) (Some (Monitor_transition mon)) order m"

definition monitor_tick :: "u32 \<Rightarrow> hb_config \<Rightarrow> time \<Rightarrow> time \<Rightarrow> u32 list \<Rightarrow> memory \<Rightarrow> memory" where
  "monitor_tick self mon t1 t2 order m =
     snd (checkTimeouts mon t2 order (snd (Memory_ApplyHeartbeat self t1 (Some NextOnHeartbeat) m)))"

section \<open>Handlers\<close>

definition handleListNodes :: "u32 list \<Rightarrow> memory \<Rightarrow> master_reply" where
  "handleListNodes order m =
     (let out = map (\<lambda>n. ToView (Some n)) (Memory_List order m) in Inventory (length out) out)"

definition body_memory :: "(string \<Rightarrow> u64 res) \<Rightarrow> register_body \<Rightarrow> u64" where
  "body_memory parse body =
     (if rb_MemoryBytes body = 0 \<and> rb_Memory body \<noteq> []
      then (case parse (rb_Memory body) of Inl _ \<Rightarrow> 0 | Inr n \<Rightarrow> n)
      else rb_MemoryBytes body)"

definition body_node :: "(string \<Rightarrow> u64 res) \<Rightarrow> register_body \<Rightarrow> ntype \<Rightarrow> node" where
  "body_node parse body typ =
     \<lparr>node_id = rb_NodeID body, InstanceID = TrimSpace (rb_InstanceID body),
      Name = (if blank (rb_Name body) then rb_InstanceID body else TrimSpace (rb_Name body)),
      Type = typ, Group = TrimSpace (rb_Group body),
      Address = (if blank (rb_Address body) then ''127.0.0.1'' else TrimSpace (rb_Address body)),
      UDPPort = rb_UDPPort body, HTTPPort = rb_HTTPPort body, Services = [],
      State = NodeStateUnspecified, LastHeartbeatAt = zero_time, Load = 0, ActiveTransaction = 0,
      Resource = zero_resource\<lparr>CPULimitCores := rb_CPUCores body, MemoryLimitBytes := body_memory parse body\<rparr>\<rparr>"

definition handleRegister ::
  "(string \<Rightarrow> u64 res) \<Rightarrow> time \<Rightarrow> time \<Rightarrow> register_body option \<Rightarrow> memory \<Rightarrow> master_reply \<times> memory" where
  "handleRegister parse t1 t2 req m =
     (case req of
        None \<Rightarrow> (MError ''invalid json'' 400, m)
      | Some body \<Rightarrow>
         (case ParseType (rb_Type body) of
            Inl err \<Rightarrow> (MError (error_text err) 400, m)
          | Inr typ \<Rightarrow>
              if rb_NodeID body = 0 \<or> blank (rb_InstanceID body)
              then (MError ''node_id and instance_id required'' 400, m)
              else let n = body_node parse body typ in
                (case register_beat t1 t2 n m of
                   (Some err, m1) \<Rightarrow> (MError (error_text err) 500, m1)
                 | (None, m1) \<Rightarrow> (Accepted (ToView (Some n)), m1))))"

definition handleHeartbeat :: "time \<Rightarrow> heartbeat_body option \<Rightarrow> memory \<Rightarrow> master_reply \<times> memory" where
  "handleHeartbeat now req m =
     (case req of
        None \<Rightarrow> (MError ''invalid json'' 400, m)
      | Some body \<Rightarrow>
          if hbb_NodeID body = 0 then (MError ''node_id required'' 400, m)
          else (case Memory_ApplyHeartbeat (hbb_NodeID body) now (Some NextOnHeartbeat) m of
              ((_, Some err), m1) \<Rightarrow>
                (if err_is (Registry ErrNotFound) err then MError ''unknown node'' 404
                 else if err_is (Heartbeat ErrDeadNode) err then MError ''dead node; re-register required'' 409
                 else MError (error_text err) 400, m1)
            | ((_, None), m1) \<Rightarrow>
                (StatusText ''ok'',
                 snd (Memory_SetRuntime (hbb_NodeID body) (hbb_Load body) (hbb_ActiveTransaction body) m1))))"

definition handleLeave :: "u32 \<Rightarrow> string \<Rightarrow> memory \<Rightarrow> master_reply \<times> memory" where
  "handleLeave self idStr m =
     (case ParseUint 32 idStr of
        None \<Rightarrow> (MError ''invalid id'' 400, m)
      | Some n \<Rightarrow>
          if n = 0 then (MError ''invalid id'' 400, m)
          else if (of_nat n :: u32) = self then (MError ''cannot leave master via this endpoint'' 400, m)
          else (StatusText ''left'', snd (Memory_Remove (of_nat n) m)))"

section \<open>Handler outcomes\<close>

lemma register_beat_ok:
  assumes "node_id n \<noteq> 0"
  shows "register_beat t1 t2 n m = (None, m(node_id n \<mapsto> n\<lparr>State := NodeStateActive, LastHeartbeatAt := t2\<rparr>))"
  using assms
  by (simp add: register_beat_def Memory_Register_def Memory_ApplyHeartbeat_def Let_def NextOnHeartbeat_def)

lemma handleRegister_rejects:
  "reply_code (fst (handleRegister parse t1 t2 req m)) \<noteq> 200 \<Longrightarrow>
     snd (handleRegister parse t1 t2 req m) = m \<and> reply_code (fst (handleRegister parse t1 t2 req m)) = 400"
  by (auto simp: handleRegister_def register_beat_ok body_node_def Let_def split: option.splits sum.splits if_splits)

lemma handleRegister_accepts:
  assumes "ParseType (rb_Type body) = Inr typ" "rb_NodeID body \<noteq> 0" "\<not> blank (rb_InstanceID body)"
  shows "handleRegister parse t1 t2 (Some body) m =
    (Accepted (ToView (Some (body_node parse body typ))),
     m(rb_NodeID body \<mapsto> (body_node parse body typ)\<lparr>State := NodeStateActive, LastHeartbeatAt := t2\<rparr>))"
proof -
  have "node_id (body_node parse body typ) = rb_NodeID body" by (simp add: body_node_def)
  with assms show ?thesis by (simp add: handleRegister_def register_beat_ok Let_def)
qed

lemma handleLeave_formatted:
  assumes "k \<noteq> 0" "k \<noteq> self"
  shows "handleLeave self (FormatUint k) m = (StatusText ''left'', snd (Memory_Remove k m))"
proof -
  have "ParseUint 32 (FormatUint k) = Some (unat k)"
    using ParseUint_FormatUint [where w=k and bits=32] by simp
  then show ?thesis using assms by (simp add: handleLeave_def unat_eq_zero)
qed

section \<open>Runs of registry operations\<close>

text \<open>The registry calls the handlers and the monitor make, and the handlers as sequences of them.\<close>

datatype master_op =
    MRegister time node
  | MBeat time u32
  | MRuntime u32 u32 u32
  | MRemove u32
  | MSweep time "u32 list"

fun op_effect :: "hb_config \<Rightarrow> master_op \<Rightarrow> memory \<Rightarrow> memory" where
  "op_effect mon (MRegister t n) m = snd (Memory_Register t (Some n) m)"
| "op_effect mon (MBeat t k) m = snd (Memory_ApplyHeartbeat k t (Some NextOnHeartbeat) m)"
| "op_effect mon (MRuntime k l a) m = snd (Memory_SetRuntime k l a m)"
| "op_effect mon (MRemove k) m = snd (Memory_Remove k m)"
| "op_effect mon (MSweep t order) m = snd (checkTimeouts mon t order m)"

fun op_allowed :: "u32 \<Rightarrow> memory \<Rightarrow> master_op \<Rightarrow> bool" where
  "op_allowed self m (MRegister t n) \<longleftrightarrow> node_id n \<noteq> 0"
| "op_allowed self m (MBeat t k) \<longleftrightarrow> k \<noteq> 0"
| "op_allowed self m (MRuntime k l a) \<longleftrightarrow> k \<noteq> 0"
| "op_allowed self m (MRemove k) \<longleftrightarrow> k \<noteq> 0 \<and> k \<noteq> self"
| "op_allowed self m (MSweep t order) \<longleftrightarrow> is_order m order"

inductive master_run :: "u32 \<Rightarrow> hb_config \<Rightarrow> memory \<Rightarrow> master_op list \<Rightarrow> memory \<Rightarrow> bool" for self mon where
  idle: "master_run self mon m [] m"
| op: "op_allowed self m p \<Longrightarrow> master_run self mon (op_effect mon p m) ps m' \<Longrightarrow> master_run self mon m (p # ps) m'"

inductive_simps master_run_simps [simp]: "master_run self mon m [] m'" "master_run self mon m (p # ps) m'"

lemma master_run_append:
  "master_run self mon m ps m1 \<Longrightarrow> master_run self mon m1 qs m2 \<Longrightarrow> master_run self mon m (ps @ qs) m2"
  by (induction rule: master_run.induct) auto

fun registers_op :: "u32 \<Rightarrow> master_op \<Rightarrow> bool" where
  "registers_op k (MRegister t n) \<longleftrightarrow> node_id n = k"
| "registers_op k _ \<longleftrightarrow> False"

lemma handleRegister_ops:
  "\<exists>ps. master_run self mon m ps (snd (handleRegister parse t1 t2 req m)) \<and>
     (\<forall>p \<in> set ps. registers_op k p \<longrightarrow> (\<exists>body. req = Some body \<and> rb_NodeID body = k))"
proof (cases "reply_code (fst (handleRegister parse t1 t2 req m)) = 200")
  case True
  then obtain body ty where b: "req = Some body" "ParseType (rb_Type body) = Inr ty" "rb_NodeID body \<noteq> 0"
      "\<not> blank (rb_InstanceID body)"
    by (auto simp: handleRegister_def split: option.splits sum.splits if_splits)
  let ?n = "body_node parse body ty"
  have n: "node_id ?n = rb_NodeID body" by (simp add: body_node_def)
  then have "master_run self mon m [MRegister t1 ?n, MBeat t2 (node_id ?n)] (snd (register_beat t1 t2 ?n m))"
    using b by (auto simp: register_beat_def Memory_Register_def Let_def)
  then have "master_run self mon m [MRegister t1 ?n, MBeat t2 (node_id ?n)] (snd (handleRegister parse t1 t2 req m))"
    using b n by (simp add: handleRegister_def register_beat_ok Let_def)
  then show ?thesis using b(1) n by (intro exI [of _ "[MRegister t1 ?n, MBeat t2 (node_id ?n)]"] conjI) (assumption, simp)
next
  case False
  then have "master_run self mon m [] (snd (handleRegister parse t1 t2 req m))"
    using handleRegister_rejects by auto
  then show ?thesis by (intro exI [of _ "[]"]) simp
qed

lemma handleHeartbeat_ops:
  "\<exists>ps. master_run self mon m ps (snd (handleHeartbeat now req m)) \<and> (\<forall>p \<in> set ps. \<not> registers_op k p)"
proof (cases "\<exists>body. req = Some body \<and> hbb_NodeID body \<noteq> 0")
  case True
  then obtain body where b: "req = Some body" "hbb_NodeID body \<noteq> 0" by blast
  let ?k = "hbb_NodeID body"
  let ?ps = "[MBeat now ?k, MRuntime ?k (hbb_Load body) (hbb_ActiveTransaction body)]"
  have "master_run self mon m [MBeat now ?k] (snd (handleHeartbeat now req m)) \<or>
      master_run self mon m ?ps (snd (handleHeartbeat now req m))"
    using b by (auto simp: handleHeartbeat_def split: prod.split option.split)
  moreover have "\<forall>p \<in> set [MBeat now ?k]. \<not> registers_op k p" "\<forall>p \<in> set ?ps. \<not> registers_op k p" by simp_all
  ultimately show ?thesis by blast
next
  case False
  then have "master_run self mon m [] (snd (handleHeartbeat now req m))"
    by (auto simp: handleHeartbeat_def split: option.split)
  then show ?thesis by (intro exI [of _ "[]"]) simp
qed

lemma handleLeave_ops:
  "\<exists>ps. master_run self mon m ps (snd (handleLeave self idStr m)) \<and> (\<forall>p \<in> set ps. \<not> registers_op k p)"
proof (cases "ParseUint 32 idStr")
  case (Some n)
  have "n < 2 ^ 32" by (rule ParseUint_bound [OF Some])
  then have "(of_nat n :: u32) = 0 \<longleftrightarrow> n = 0"
    by (auto simp: word_of_nat_eq_0_iff dest: nat_dvd_not_less)
  then have "master_run self mon m [] (snd (handleLeave self idStr m)) \<or>
      master_run self mon m [MRemove (of_nat n)] (snd (handleLeave self idStr m))"
    using Some by (simp add: handleLeave_def)
  moreover have "\<forall>p \<in> set []. \<not> registers_op k p" "\<forall>p \<in> set [MRemove (of_nat n)]. \<not> registers_op k p" by simp_all
  ultimately show ?thesis by blast
next
  case None
  then have "master_run self mon m [] (snd (handleLeave self idStr m))" by (simp add: handleLeave_def)
  then show ?thesis by (intro exI [of _ "[]"]) simp
qed

lemma monitor_tick_ops:
  assumes "self \<noteq> 0" "is_order (snd (Memory_ApplyHeartbeat self t1 (Some NextOnHeartbeat) m)) order"
  shows "master_run self mon m [MBeat t1 self, MSweep t2 order] (monitor_tick self mon t1 t2 order m)"
  using assms by (simp add: monitor_tick_def)

section \<open>Properties\<close>

text \<open>
  C17: Registration at the Master: a request is answered 200 exactly when its type is known, its node
  id is non-zero and its instance id is not blank; the entry is then stored under that id as ACTIVE
  with the heartbeat time of the registration and every other entry is untouched.  Otherwise the
  answer is 400 and nothing changes.  The view in the reply is taken from the handler's own copy of
  the node: it shows the state unspecified and no heartbeat, not the stored ones.
\<close>

theorem master_register_exact:
  "case handleRegister parse t1 t2 req m of (reply, m') \<Rightarrow>
    if \<exists>body ty. req = Some body \<and> ParseType (rb_Type body) = Inr ty \<and> rb_NodeID body \<noteq> 0 \<and> \<not> blank (rb_InstanceID body)
    then \<exists>body n v. req = Some body \<and> reply = Accepted v \<and> m' = m(rb_NodeID body \<mapsto> n) \<and> node_id n = rb_NodeID body \<and>
      State n = NodeStateActive \<and> LastHeartbeatAt n = t2 \<and> InstanceID n = TrimSpace (rb_InstanceID body) \<and>
      Inr (Type n) = ParseType (rb_Type body) \<and> MemoryLimitBytes (Resource n) = body_memory parse body \<and>
      nv_NodeID v = node_id n \<and> nv_Type v = Type_String (Type n) \<and>
      nv_State v = ''unspecified'' \<and> nv_LastHeartbeatUnix v = 0
    else m' = m \<and> reply_code reply = 400"
proof (cases "\<exists>body ty. req = Some body \<and> ParseType (rb_Type body) = Inr ty \<and> rb_NodeID body \<noteq> 0 \<and> \<not> blank (rb_InstanceID body)")
  case True
  then obtain body ty where b: "req = Some body" "ParseType (rb_Type body) = Inr ty" "rb_NodeID body \<noteq> 0"
      "\<not> blank (rb_InstanceID body)" by blast
  let ?n = "(body_node parse body ty)\<lparr>State := NodeStateActive, LastHeartbeatAt := t2\<rparr>"
  have "node_id ?n = rb_NodeID body \<and> State ?n = NodeStateActive \<and> LastHeartbeatAt ?n = t2 \<and>
      InstanceID ?n = TrimSpace (rb_InstanceID body) \<and> Type ?n = ty \<and>
      MemoryLimitBytes (Resource ?n) = body_memory parse body"
    by (simp add: body_node_def)
  moreover have "nv_NodeID (ToView (Some (body_node parse body ty))) = node_id ?n \<and>
      nv_Type (ToView (Some (body_node parse body ty))) = Type_String (Type ?n) \<and>
      nv_State (ToView (Some (body_node parse body ty))) = ''unspecified'' \<and>
      nv_LastHeartbeatUnix (ToView (Some (body_node parse body ty))) = 0"
    by (simp add: body_node_def ToView_def)
  ultimately show ?thesis
    unfolding handleRegister_accepts [OF b(2-4)] b(1) prod.case using True [unfolded b(1)] b(2)
    by (simp only: if_True b option.inject) (intro exI [of _ body] exI [of _ ?n] conjI exI [of _ "ToView (Some (body_node parse body ty))"]; simp add: b)
next
  case False
  then show ?thesis by (auto simp: handleRegister_def split: option.split sum.split)
qed

text \<open>The effect of one registry call on the entry of one node.\<close>

lemma sweep_entry:
  assumes "is_order m order"
  shows "snd (checkTimeouts mon now order m) k =
    map_option (swept now (Some (\<lambda>n. Type n = TypeMaster)) (Monitor_transition mon)) (m k)"
  using ApplyTimeoutsExcept_map [OF assms] by (simp add: checkTimeouts_def)

lemma swept_dead: "State n = NodeStateDead \<Longrightarrow> swept now skip (Monitor_transition mon) n = n"
  by (auto simp: swept_def timeout_node_def Monitor_transition_def NextOnTimeout_def Let_def split: option.split)

definition gone :: "u32 \<Rightarrow> memory \<Rightarrow> bool" where
  "gone k m \<longleftrightarrow> (case m k of None \<Rightarrow> True | Some n \<Rightarrow> State n = NodeStateDead)"

lemma gone_op:
  assumes "gone k m" "op_allowed self m p" "\<not> registers_op k p"
  shows "gone k (op_effect mon p m)"
proof (cases p)
  case (MSweep t order)
  then show ?thesis
    using assms sweep_entry [of m order mon t k] swept_dead by (auto simp: gone_def split: option.splits)
qed (use assms in \<open>auto simp: gone_def op_defs Let_def NextOnHeartbeat_dead split: option.splits sum.splits\<close>)

lemma gone_run:
  "master_run self mon m ps m' \<Longrightarrow> gone k m \<Longrightarrow> \<forall>p \<in> set ps. \<not> registers_op k p \<Longrightarrow> gone k m'"
  by (induction rule: master_run.induct) (auto simp: gone_op)

lemma gone_heartbeat:
  assumes "gone k m" "k \<noteq> 0" "hbb_NodeID hb = k"
  shows "reply_code (fst (handleHeartbeat now (Some hb) m)) \<in> {404, 409} \<and> snd (handleHeartbeat now (Some hb) m) = m"
  using assms
  by (auto simp: gone_def handleHeartbeat_def Memory_ApplyHeartbeat_def NextOnHeartbeat_dead split: option.splits)

text \<open>
  The agent of node \<open>k\<close> together with the Master: its heartbeats and its leave go through the
  handlers, or are lost before or after the Master handled them, while every other caller makes any
  registry calls.
\<close>

definition agent_beat :: "agent \<Rightarrow> heartbeat_body" where
  "agent_beat a = \<lparr>hbb_NodeID = rb_NodeID (ag_Body a), hbb_Load = 0, hbb_ActiveTransaction = 0\<rparr>"

inductive joint_step :: "agent \<Rightarrow> u32 \<Rightarrow> hb_config \<Rightarrow> agent_phase \<times> memory \<Rightarrow> agent_phase \<times> memory \<Rightarrow> bool"
  for a self mon where
  others: "op_allowed self m p \<Longrightarrow> \<not> registers_op (rb_NodeID (ag_Body a)) p \<Longrightarrow>
    joint_step a self mon (ph, m) (ph, op_effect mon p m)"
| answered: "agent_step a ph (ATick (Status (reply_code reply))) = Some (ph', [AgHeartbeat hb]) \<Longrightarrow>
    handleHeartbeat now (Some hb) m = (reply, m') \<Longrightarrow> joint_step a self mon (ph, m) (ph', m')"
| failed: "agent_step a ph (ATick (DoErr err)) = Some (ph', [AgHeartbeat hb]) \<Longrightarrow>
    m' = m \<or> m' = snd (handleHeartbeat now (Some hb) m) \<Longrightarrow> joint_step a self mon (ph, m) (ph', m')"
| registering: "agent_step a ph (ATry None (Status (reply_code reply))) = Some (ph', [AgRegister body]) \<Longrightarrow>
    handleRegister parse t1 t2 (Some body) m = (reply, m') \<Longrightarrow> joint_step a self mon (ph, m) (ph', m')"
| leaving: "agent_step a ph (ADone e) = Some (ph', [AgLeave k]) \<Longrightarrow>
    m' = m \<or> m' = snd (handleLeave self (FormatUint k) m) \<Longrightarrow> joint_step a self mon (ph, m) (ph', m')"

inductive joint_run :: "agent \<Rightarrow> u32 \<Rightarrow> hb_config \<Rightarrow> agent_phase \<times> memory \<Rightarrow> agent_phase \<times> memory \<Rightarrow> bool"
  for a self mon where
  refl: "joint_run a self mon s s"
| step: "joint_run a self mon s t \<Longrightarrow> joint_step a self mon t u \<Longrightarrow> joint_run a self mon s u"

definition past_registration :: "agent_phase \<Rightarrow> bool" where
  "past_registration ph \<longleftrightarrow> ph = Beating \<or> (\<exists>e. ph = Returned e)"

lemma past_registration_step:
  "past_registration ph \<Longrightarrow> agent_step a ph ev = Some (ph', rs) \<Longrightarrow>
     past_registration ph' \<and> (rs = [AgHeartbeat (agent_beat a)] \<or> rs = [AgLeave (rb_NodeID (ag_Body a))])"
  using agent_step_beating [of a ev ph' rs] agent_step_returned
  by (auto simp: past_registration_def agent_beat_def)

lemma gone_leave: "gone k m \<Longrightarrow> gone k (snd (handleLeave self i m))"
  by (auto simp: handleLeave_def Memory_Remove_def gone_def split: option.splits)

lemma gone_joint_step:
  assumes "joint_step a self mon s t" "past_registration (fst s)" "gone (rb_NodeID (ag_Body a)) (snd s)"
    "rb_NodeID (ag_Body a) \<noteq> 0"
  shows "past_registration (fst t) \<and> gone (rb_NodeID (ag_Body a)) (snd t)"
  using assms
proof (cases rule: joint_step.cases)
  case (answered ph reply ph' hb now m m')
  then show ?thesis
    using assms gone_heartbeat [of _ m hb now] past_registration_step [OF _ answered(3)]
    by (auto simp: agent_beat_def)
next
  case (failed ph err ph' hb m' m now)
  then show ?thesis
    using assms gone_heartbeat [of _ m hb now] past_registration_step [OF _ failed(3)]
    by (auto simp: agent_beat_def)
next
  case (registering ph reply ph' body parse t1 t2 m m')
  then show ?thesis using assms past_registration_step [OF _ registering(3)] by auto
next
  case (leaving ph e ph' k m' m)
  then show ?thesis using assms past_registration_step [OF _ leaving(3)] gone_leave by auto
qed (auto simp: gone_op)

text \<open>
  C6: A process the Master has given up never comes back: the agent registers once, so when its
  entry is DEAD or missing (the Master declared it dead, or was restarted) after the agent reached
  its heartbeat loop, then whatever happens, short of another process registering that node id, the
  entry stays DEAD or missing and every further heartbeat is answered 404 or 409 and ignored.
\<close>

theorem dead_agent_stays_out:
  assumes "joint_run a self mon (Beating, m) (ph, m')" "gone (rb_NodeID (ag_Body a)) m" "rb_NodeID (ag_Body a) \<noteq> 0"
  shows "gone (rb_NodeID (ag_Body a)) m' \<and> past_registration ph \<and>
    reply_code (fst (handleHeartbeat now (Some (agent_beat a)) m')) \<in> {404, 409} \<and>
    snd (handleHeartbeat now (Some (agent_beat a)) m') = m'"
proof -
  have "past_registration (fst t) \<and> gone (rb_NodeID (ag_Body a)) (snd t)" if "joint_run a self mon (Beating, m) t" for t
    using that
    by (induction "(Beating, m)" t rule: joint_run.induct)
       (use assms(2) in \<open>simp add: past_registration_def\<close>, use gone_joint_step assms(3) in blast)
  from this [OF assms(1)] show ?thesis
    using gone_heartbeat [of _ m' "agent_beat a" now] assms(3) by (auto simp: agent_beat_def)
qed

lemma master_run_wf: "master_run self mon m ps m' \<Longrightarrow> reg_wf m \<Longrightarrow> reg_wf m'"
proof (induction rule: master_run.induct)
  case (op m p ps m')
  have "reg_wf (op_effect mon p m)"
    using op.hyps(1) op.prems by (cases p) (auto simp: checkTimeouts_def intro: inv_intros)
  then show ?case by (rule op.IH)
qed

definition master_entry :: "u32 \<Rightarrow> memory \<Rightarrow> bool" where
  "master_entry self m \<longleftrightarrow> (\<exists>n. m self = Some n \<and> Type n = TypeMaster \<and> State n = NodeStateActive)"

lemma master_entry_op:
  assumes "master_entry self m" "op_allowed self m p" "\<not> registers_op self p"
  shows "master_entry self (op_effect mon p m)"
proof (cases p)
  case (MSweep t order)
  then show ?thesis
    using assms sweep_entry [of m order mon t self]
    by (auto simp: master_entry_def swept_def timeout_node_def)
qed (use assms in \<open>auto simp: master_entry_def op_defs Let_def NextOnHeartbeat_def split: option.splits sum.splits\<close>)

lemma master_entry_run:
  "master_run self mon m ps m' \<Longrightarrow> master_entry self m \<Longrightarrow> \<forall>p \<in> set ps. \<not> registers_op self p \<Longrightarrow>
     master_entry self m'"
  by (induction rule: master_run.induct) (auto simp: master_entry_op)

lemma master_start_entry:
  assumes "master_start scan scale t1 t2 cfg = Inr m"
  shows "master_entry (NodeID (ms_Node cfg)) m \<and> reg_wf m"
proof -
  let ?n = "master_self (MemoryBytes scan scale) cfg"
  have v: "Master_Validate scan scale cfg = None"
    using assms by (auto simp: master_start_def split: option.splits)
  then have id: "node_id ?n \<noteq> 0" by (auto simp: Master_Validate_def master_self_def)
  then have "m = NewMemory(node_id ?n \<mapsto> ?n\<lparr>State := NodeStateActive, LastHeartbeatAt := t2\<rparr>)"
    using assms v by (simp add: master_start_def register_beat_ok)
  then show ?thesis
    using id reg_wf_upd [OF reg_wf_NewMemory, of "?n\<lparr>State := NodeStateActive, LastHeartbeatAt := t2\<rparr>"]
    by (simp add: master_entry_def) (simp add: master_self_def)
qed

text \<open>
  The Master lists itself: from its start, and as long as no other process registers under the
  Master's own node id, every state of the registry is well formed and holds the Master's entry,
  ACTIVE and of type master; neither a sweep, a leave nor a heartbeat removes it or lets it time out.
\<close>

theorem master_always_listed:
  assumes "master_start scan scale t1 t2 cfg = Inr m0" "master_run (NodeID (ms_Node cfg)) mon m0 ps m"
    and "\<forall>p \<in> set ps. \<not> registers_op (NodeID (ms_Node cfg)) p"
  shows "reg_wf m \<and> (\<exists>n. m (NodeID (ms_Node cfg)) = Some n \<and> Type n = TypeMaster \<and> State n = NodeStateActive)"
  using master_entry_run [OF assms(2) _ assms(3)] master_run_wf [OF assms(2)] master_start_entry [OF assms(1)]
  by (simp add: master_entry_def)

text \<open>
  A registration under the Master's own node id is accepted and replaces the Master's entry; the
  default node id of the gateway and of a Logic node is the Master's default.
\<close>

lemma master_entry_replaced:
  assumes "rb_NodeID body = self" "self \<noteq> 0" "ParseType (rb_Type body) = Inr ty" "ty \<noteq> TypeMaster"
    "\<not> blank (rb_InstanceID body)"
  shows "reply_code (fst (handleRegister parse t1 t2 (Some body) m)) = 200 \<and>
    \<not> master_entry self (snd (handleRegister parse t1 t2 (Some body) m))"
  using assms by (simp add: handleRegister_accepts master_entry_def) (simp add: body_node_def)

lemma default_ids_collide:
  "NodeID (gw_Node g) = 0 \<Longrightarrow> NodeID (lo_Node l) = 0 \<Longrightarrow> NodeID (ms_Node c) = 0 \<Longrightarrow>
     NodeID (gw_Node (HTTP2GW_applyDefaults g)) = NodeID (ms_Node (Master_applyDefaults c)) \<and>
     NodeID (lo_Node (Logic_applyDefaults l)) = NodeID (ms_Node (Master_applyDefaults c))"
  by (simp add: HTTP2GW_applyDefaults_def Logic_applyDefaults_def Master_applyDefaults_def default_node_def Let_def)

text \<open>
  Failure detection at the Master: under a valid configuration a monitor tick changes nothing
  but the state of an entry, leaves a process of type master alone however long it is silent, makes
  any other process DEAD whose last heartbeat is a dead timeout old and SUSPECT when it is a suspect
  timeout old, and leaves the state of the rest.
\<close>

theorem master_tick_detects:
  assumes "is_order m order" "k \<noteq> self" "m k = Some n" "hb_Validate mon = None" "revivable (State n)"
    and "0 \<le> t2 - LastHeartbeatAt n" "t2 - LastHeartbeatAt n \<le> max_duration"
  shows "monitor_tick self mon t1 t2 order m k = Some (n\<lparr>State :=
    (if Type n = TypeMaster then State n
     else if t2 - LastHeartbeatAt n \<ge> DeadTimeout mon then NodeStateDead
     else if t2 - LastHeartbeatAt n \<ge> SuspectTimeout mon then NodeStateSuspect
     else State n)\<rparr>)"
proof -
  let ?m = "snd (Memory_ApplyHeartbeat self t1 (Some NextOnHeartbeat) m)"
  have m: "?m k = Some n" "dom ?m = dom m"
    using assms(2,3) by (auto simp: Memory_ApplyHeartbeat_def Let_def split: option.splits sum.splits)
  then have o: "is_order ?m order" using assms(1) by (simp add: is_order_def)
  have e: "time_sub t2 (LastHeartbeatAt n) = t2 - LastHeartbeatAt n"
    using assms(6,7) by (intro time_sub_exact) (auto simp: min_duration_def)
  show ?thesis
    using assms(4-6) m(1)
    by (auto simp: monitor_tick_def sweep_entry [OF o] swept_def timeout_node_def Monitor_transition_def e
        NextOnTimeout_def revivable_def hb_Validate_None)
qed

section \<open>Concrete runs\<close>

definition w_body :: "u32 \<Rightarrow> string \<Rightarrow> register_body" where
  "w_body k ty = \<lparr>rb_NodeID = k, rb_InstanceID = ''logic-1'', rb_Name = [], rb_Type = ty, rb_Group = [],
     rb_Address = [], rb_UDPPort = 9001, rb_HTTPPort = 0, rb_CPUCores = 0, rb_Memory = [], rb_MemoryBytes = 0\<rparr>"

definition w_agent :: agent where
  "w_agent = \<lparr>ag_MasterURL = ''http://master:9200'', ag_Body = w_body 7 ''logic'', ag_Interval = second\<rparr>"

definition w_mon :: hb_config where
  "w_mon = \<lparr>Interval = second, SuspectTimeout = 3 * second, DeadTimeout = 6 * second\<rparr>"

definition w_entry :: "node_state \<Rightarrow> node" where
  "w_entry s = (body_node (\<lambda>_. Inr 0) (w_body 7 ''logic'') TypeLogic)\<lparr>State := s, LastHeartbeatAt := 0\<rparr>"

definition w_master_cfg :: master_cfg where
  "w_master_cfg = Master_applyDefaults
     \<lparr>ms_Node = \<lparr>NodeID = 0, cfg_InstanceID = [], cfg_Name = [], cfg_Type = [], cfg_Group = [], cfg_IP = []\<rparr>,
      ms_HTTP = \<lparr>http_Listen = [], http_Port = 0, TLSCert = [], TLSKey = [], Remote = [], MaxRPS = 0,
        MaxRPSBurst = 0, MaxPending = 0, PprofListen = []\<rparr>,
      ms_Heartbeat = \<lparr>h_Interval = 0, h_Timeout = 0, h_DeadTimeout = 0\<rparr>,
      ms_Resource = \<lparr>CPUCores = 0, res_Memory = []\<rparr>\<rparr>"

lemma w_entry_id: "node_id (w_entry s) = 7" "Type (w_entry s) = TypeLogic" "State (w_entry s) = s"
  "LastHeartbeatAt (w_entry s) = 0"
  by (simp_all add: w_entry_def body_node_def w_body_def)

lemma w_agent_id: "rb_NodeID (ag_Body w_agent) = 7"
  by (simp add: w_agent_def w_body_def)

theorem dead_agent_stays_out_witness:
  "joint_run w_agent 1 w_mon (Beating, [7 \<mapsto> w_entry NodeStateDead]) (Beating, [7 \<mapsto> w_entry NodeStateDead]) \<and>
   reply_code (fst (handleHeartbeat 0 (Some (agent_beat w_agent)) [7 \<mapsto> w_entry NodeStateDead])) = 409"
proof -
  let ?m = "[7 \<mapsto> w_entry NodeStateDead]"
  have h: "handleHeartbeat 0 (Some (agent_beat w_agent)) ?m = (MError ''dead node; re-register required'' 409, ?m)"
    by (simp add: handleHeartbeat_def agent_beat_def w_agent_id Memory_ApplyHeartbeat_def w_entry_id
        NextOnHeartbeat_def)
  have "agent_step w_agent Beating (ATick (Status (reply_code (MError ''dead node; re-register required'' 409)))) =
      Some (Beating, [AgHeartbeat (agent_beat w_agent)])"
    by (simp add: agent_beat_def)
  then have r: "joint_run w_agent 1 w_mon (Beating, ?m) (Beating, ?m)"
    by (rule joint_run.step [OF joint_run.refl joint_step.answered [OF _ h]])
  then show ?thesis
    using dead_agent_stays_out [OF r, of 0] h by (simp add: gone_def w_agent_id w_entry_id)
qed

theorem master_tick_detects_witness:
  "monitor_tick 1 w_mon 0 (7 * second) [7] [7 \<mapsto> w_entry NodeStateActive] 7 = Some (w_entry NodeStateDead)"
proof -
  have "monitor_tick 1 w_mon 0 (7 * second) [7] [7 \<mapsto> w_entry NodeStateActive] 7 = Some ((w_entry NodeStateActive)
      \<lparr>State := (if Type (w_entry NodeStateActive) = TypeMaster then State (w_entry NodeStateActive)
        else if 7 * second - LastHeartbeatAt (w_entry NodeStateActive) \<ge> DeadTimeout w_mon then NodeStateDead
        else if 7 * second - LastHeartbeatAt (w_entry NodeStateActive) \<ge> SuspectTimeout w_mon then NodeStateSuspect
        else State (w_entry NodeStateActive))\<rparr>)"
    by (rule master_tick_detects)
       (simp_all add: is_order_def hb_Validate_None w_mon_def w_entry_id revivable_def second_def max_duration_def)
  then show ?thesis by (simp add: w_entry_id w_mon_def second_def) (simp add: w_entry_def)
qed

lemma w_master_valid: "Master_Validate scan scale w_master_cfg = None" "NodeID (ms_Node w_master_cfg) = 1"
proof -
  have "normalizeNodeType ''master'' = ''master''" by code_simp
  moreover have "to_upper [] = []" by simp
  ultimately show "Master_Validate scan scale w_master_cfg = None" "NodeID (ms_Node w_master_cfg) = 1"
    by (simp_all add: w_master_cfg_def Master_applyDefaults_def Let_def or_default_def Master_Validate_def
        heartbeat_checks_def default_heartbeat_def second_def twice_def Resource_Validate_def ParseMemoryBytes_def
        float_neg_def)
qed

theorem master_always_listed_witness:
  "\<exists>m0 m. master_start (\<lambda>_. Inr 0) (\<lambda>_ _. 0) 0 0 w_master_cfg = Inr m0 \<and>
     master_run 1 w_mon m0 [MSweep (9 * second) [1]] m \<and> m 1 \<noteq> None"
proof -
  obtain m0 where s: "master_start (\<lambda>_. Inr 0) (\<lambda>_ _. 0) 0 0 w_master_cfg = Inr m0"
    by (simp add: master_start_def w_master_valid register_beat_ok master_self_def)
  then have "dom m0 = {1}"
    by (auto simp: master_start_def w_master_valid register_beat_ok master_self_def NewMemory_def split: if_splits)
  then have r: "master_run (NodeID (ms_Node w_master_cfg)) w_mon m0 [MSweep (9 * second) [1]]
      (op_effect w_mon (MSweep (9 * second) [1]) m0)"
    by (simp add: is_order_def)
  show ?thesis
    using master_always_listed [OF s r] s r w_master_valid by auto
qed

section \<open>Every configured process can register\<close>

lemma registers_ok:
  assumes "ParseType (rb_Type body) = Inr ty" "rb_NodeID body \<noteq> 0" "\<not> blank (rb_InstanceID body)"
  shows "reply_code (fst (handleRegister parse t1 t2 (Some body) m)) = 200 \<and>
    (\<exists>n. snd (handleRegister parse t1 t2 (Some body) m) (rb_NodeID body) = Some n \<and>
      State n = NodeStateActive \<and> Type n = ty)"
  using assms by (simp add: handleRegister_accepts) (simp add: body_node_def)

lemma process_types: "ParseType ''http2_server'' = Inr TypeHTTP2GW" "ParseType ''logic'' = Inr TypeLogic"
  by code_simp+

text \<open>
  Every process whose configuration loads is accepted by the Master: the registration body made
  from a loaded gateway, Logic or load client configuration is answered 200, and the Master holds
  the node ACTIVE with the type of that process.
\<close>

theorem configured_process_accepted:
  assumes "LoadHTTP2GW scan scale g = Inr g'" "LoadLogic scan scale l = Inr l'" "LoadLoadClient scan scale c = Inr c'"
    and "(body, types) \<in> {(BodyFromHTTP2GW mb g', {TypeHTTP2GW}), (BodyFromLogic mb l' port, {TypeLogic}),
      (BodyFromLoadClient mb c', {TypeHTTP2Client, TypePerformance})}"
  shows "reply_code (fst (handleRegister parse t1 t2 (Some body) m)) = 200 \<and>
    (\<exists>n. snd (handleRegister parse t1 t2 (Some body) m) (rb_NodeID body) = Some n \<and>
      State n = NodeStateActive \<and> Type n \<in> types)"
proof -
  have g: "NodeID (gw_Node g') \<noteq> 0 \<and> \<not> blank (cfg_InstanceID (gw_Node g'))"
    using assms(1) by (auto simp: LoadHTTP2GW_def Let_def HTTP2GW_Validate_None HTTP2GW_applyDefaults_def default_node_def
        split: option.splits)
  have l: "NodeID (lo_Node l') \<noteq> 0 \<and> \<not> blank (cfg_InstanceID (lo_Node l'))"
    using assms(2) by (auto simp: LoadLogic_def Logic_Validate_None Let_def split: option.splits)
  have v: "LoadClient_Validate scan scale c' = None"
    using assms(3) by (auto simp: LoadLoadClient_def Let_def split: option.splits)
  then have c: "NodeID (cl_Node c') \<noteq> 0 \<and> \<not> blank (cfg_InstanceID (cl_Node c'))"
    by (simp add: LoadClient_Validate_def Let_def)
  obtain ty where ty: "ParseType (cfg_Type (cl_Node c')) = Inr ty" "ty \<in> {TypeHTTP2Client, TypePerformance}"
    using LoadClient_type [OF v] by auto
  have "rb_NodeID body \<noteq> 0 \<and> \<not> blank (rb_InstanceID body) \<and> (\<exists>t \<in> types. ParseType (rb_Type body) = Inr t)"
    using assms(4) g l c ty process_types
    by (auto simp: BodyFromHTTP2GW_def BodyFromLogic_def BodyFromLoadClient_def)
  then show ?thesis using registers_ok [of body] by blast
qed

theorem configured_process_accepted_witness:
  "reply_code (fst (handleRegister (\<lambda>_. Inr 0) 0 0
     (Some (BodyFromLogic (\<lambda>_. 0) (Logic_applyDefaults w_logic_cfg) 9000)) Map.empty)) = 200"
  using configured_process_accepted [OF w_loads, of "BodyFromLogic (\<lambda>_. 0) (Logic_applyDefaults w_logic_cfg) 9000"
      "{TypeLogic}" "\<lambda>_. 0" 9000] by simp

end
