(* ===== verification/Mains.thy ===== *)
theory Mains imports LogicRun Gateway MasterRun begin

text \<open>
  \<open>cmd/http2gw\<close>, \<open>cmd/logic\<close>, \<open>cmd/master\<close>: the \<open>main\<close> functions, from the loaded configuration over
  \<open>Run\<close> to the exit status, and what an exit status of 0 says.  A log line is its kind and content.
\<close>

datatype main_line =
    MainLoadFailed gerr
  | GatewayStarted u32 string string int int string \<comment> \<open>ids, listen address, ports, strategy\<close>
  | LogicStarted u32 string string int string int
  | MasterStarted u32 string int
  | MainRunFailed gerr
  | MainStopped

text \<open>What follows the call of \<open>Run\<close>.\<close>

definition after_run :: "gerr option \<Rightarrow> main_line list \<times> int" where
  "after_run r =
     (case r of
        None \<Rightarrow> ([MainStopped], 0)
      | Some err \<Rightarrow> if err_is (Context Canceled) err then ([MainStopped], 0) else ([MainRunFailed err], 1))"

definition http2gw_main ::
  "(string \<Rightarrow> float64 res) \<Rightarrow> (float64 \<Rightarrow> u64 \<Rightarrow> u64) \<Rightarrow> (http2gw_cfg \<Rightarrow> gerr option) \<Rightarrow> gerr + http2gw_cfg \<Rightarrow> main_line list \<times> int" where
  "http2gw_main scan scale run file =
     (case bind_res file (LoadHTTP2GW scan scale) of
        Inl err \<Rightarrow> ([MainLoadFailed err], 1)
      | Inr cfg \<Rightarrow>
          let (lines, status) = after_run (run cfg) in
          (GatewayStarted (NodeID (gw_Node cfg)) (cfg_InstanceID (gw_Node cfg)) (udp_Listen (gw_UDP cfg)) (udp_Port (gw_UDP cfg))
             (http_Port (gw_HTTP cfg)) (StrategyName cfg) # lines, status))"

definition logic_main ::
  "(string \<Rightarrow> float64 res) \<Rightarrow> (float64 \<Rightarrow> u64 \<Rightarrow> u64) \<Rightarrow> (logic_cfg \<Rightarrow> gerr option) \<Rightarrow> gerr + logic_cfg \<Rightarrow> main_line list \<times> int" where
  "logic_main scan scale run file =
     (case bind_res file (LoadLogic scan scale) of
        Inl err \<Rightarrow> ([MainLoadFailed err], 1)
      | Inr cfg \<Rightarrow>
          let (lines, status) = after_run (run cfg) in
          (LogicStarted (NodeID (lo_Node cfg)) (cfg_InstanceID (lo_Node cfg)) (udp_Listen (lo_UDP cfg)) (udp_Port (lo_UDP cfg))
             (gwa_Host (lo_Gateway cfg)) (gwa_Port (lo_Gateway cfg)) # lines, status))"

definition master_main ::
  "(string \<Rightarrow> float64 res) \<Rightarrow> (float64 \<Rightarrow> u64 \<Rightarrow> u64) \<Rightarrow> (master_cfg \<Rightarrow> gerr option) \<Rightarrow> gerr + master_cfg \<Rightarrow> main_line list \<times> int" where
  "master_main scan scale run file =
     (case bind_res file (LoadMaster scan scale) of
        Inl err \<Rightarrow> ([MainLoadFailed err], 1)
      | Inr cfg \<Rightarrow>
          let (lines, status) = after_run (run cfg) in
          (MasterStarted (NodeID (ms_Node cfg)) (cfg_Name (ms_Node cfg)) (http_Port (ms_HTTP cfg)) # lines, status))"

text \<open>The three exit statuses are the one the theories of \<open>Run\<close> speak about.\<close>

definition load_error :: "'c res \<Rightarrow> gerr option" where
  "load_error r = (case r of Inl err \<Rightarrow> Some err | Inr _ \<Rightarrow> None)"

definition run_error :: "('c \<Rightarrow> gerr option) \<Rightarrow> 'c res \<Rightarrow> gerr option" where
  "run_error run r = (case r of Inl err \<Rightarrow> None | Inr c \<Rightarrow> run c)"

lemma main_status:
  "snd (http2gw_main scan scale grun gfile) =
     exit_code (load_error (bind_res gfile (LoadHTTP2GW scan scale))) (run_error grun (bind_res gfile (LoadHTTP2GW scan scale)))"
  "snd (logic_main scan scale lrun lfile) =
     exit_code (load_error (bind_res lfile (LoadLogic scan scale))) (run_error lrun (bind_res lfile (LoadLogic scan scale)))"
  "snd (master_main scan scale mrun mfile) =
     exit_code (load_error (bind_res mfile (LoadMaster scan scale))) (run_error mrun (bind_res mfile (LoadMaster scan scale)))"
  by (simp_all add: http2gw_main_def logic_main_def master_main_def after_run_def exit_code_def load_error_def run_error_def
      split: sum.split option.split)

text \<open>
  A Logic process that was not asked to stop and lost its socket while it registered reports success:
  its \<open>main\<close> logs that it stopped and exits with 0, where the failure itself would have given 1.
\<close>

lemma masked_failure_exits_zero:
  assumes "bind_res file (LoadLogic scan scale) = Inr cfg"
  shows "\<exists>evs s err. lproc_run evs s \<and> RecvEnd err \<in> set evs \<and> lp_parent s = None \<and>
    (\<forall>r. lp_main s = LReturned r \<longrightarrow> snd (logic_main scan scale (\<lambda>_. r) file) = 0) \<and>
    snd (logic_main scan scale (\<lambda>_. Some err) file) = 1"
proof -
  obtain evs s err where r: "lproc_run evs s" "RecvEnd err \<in> set evs" "lp_parent s = None"
      "lp_main s = LReturned (Some (Sentinel (Context Canceled)))"
      "exit_code None (Some (Sentinel (Context Canceled))) = 0" "exit_code None (Some err) = 1"
    using receive_failure_masked by blast
  have "snd (logic_main scan scale run file) = exit_code None (run cfg)" for run
    by (simp add: main_status assms load_error_def run_error_def)
  then show ?thesis using r by (intro exI [of _ evs] exI [of _ s] exI [of _ err]) auto
qed

end
