(* ===== verification/PromCollectors.thy ===== *)
theory PromCollectors imports Metrics LogicNode begin

text \<open>
  The Prometheus collectors of gateway (\<open>metrics/prometheus.go\<close>) and Logic node
  (\<open>logicnode/metrics.go\<close>): their tables, and what a call of the trace does to which collector.  The
  client library panics when two registered collectors share a name, when a histogram's buckets do
  not increase, when a labelled collector is asked for with the wrong number of label values, and
  when a counter is given a negative amount; that none of this happens is what is proved here.
\<close>

section \<open>Collectors and updates\<close>

datatype collector_kind = CounterKind | GaugeKind | HistogramKind "nat list" \<comment> \<open>bucket bounds in units of 100 microseconds\<close>

record collector =
  co_kind :: collector_kind
  co_namespace :: string
  co_name :: string
  co_labels :: "string list"

text \<open>\<open>Seconds()\<close> of a duration is kept as the duration.\<close>

datatype update = Add int | SetTo int | SetDuration duration | Sample duration

definition fq_name :: "collector \<Rightarrow> string" where
  "fq_name c = co_namespace c @ ''_'' @ co_name c"

definition kind_ok :: "collector_kind \<Rightarrow> bool" where
  "kind_ok k = (case k of HistogramKind bs \<Rightarrow> bs \<noteq> [] \<and> sorted_wrt (<) bs | _ \<Rightarrow> True)"

text \<open>The library accepts the registration of these collectors.\<close>

definition registrable :: "collector list \<Rightarrow> bool" where
  "registrable cs \<longleftrightarrow> distinct (map fq_name cs) \<and> list_all (\<lambda>c. kind_ok (co_kind c)) cs"

text \<open>The library accepts an update with these label values.\<close>

definition update_ok :: "collector \<Rightarrow> string list \<Rightarrow> update \<Rightarrow> bool" where
  "update_ok c vals u \<longleftrightarrow> length vals = length (co_labels c) \<and>
     (case u of
        Add n \<Rightarrow> co_kind c = CounterKind \<and> 0 \<le> n
      | SetTo n \<Rightarrow> co_kind c = GaugeKind
      | SetDuration d \<Rightarrow> co_kind c = GaugeKind
      | Sample d \<Rightarrow> (\<exists>bs. co_kind c = HistogramKind bs))"

section \<open>The gateway\<close>

datatype gw_metric =
    GCounter counter | GRequests | GRequestsFail | GInFlight | GRequestDuration | GLogicNodes | GFailover | GRouted
  | GManagerPending | GManagerWait | GTransactionTotal | GQueueDepth | GRPS

definition diagBuckets :: "nat list" where
  "diagBuckets = [10, 20, 50, 100, 250, 500, 1000, 2500, 5000, 10000, 25000, 50000]"

fun counter_name :: "counter \<Rightarrow> string" where
  "counter_name LogicRegistered = ''logic_registered_total''"
| "counter_name HeartbeatSuccess = ''heartbeat_success_total''"
| "counter_name HeartbeatTimeout = ''heartbeat_timeout_total''"
| "counter_name UDPRx = ''udp_rx_total''"
| "counter_name UDPTx = ''udp_tx_total''"
| "counter_name RouteFailed = ''route_failed_total''"
| "counter_name TransactionTimeout = ''transaction_timeout_total''"
| "counter_name ManagerCreated = ''manager_created_total''"
| "counter_name ManagerCompleted = ''manager_completed_total''"
| "counter_name ManagerTimeout = ''manager_timeout_total''"
| "counter_name ManagerCompleteNotFound = ''manager_complete_not_found_total''"
| "counter_name GWUDPDataRequestTX = ''gw_udp_data_request_tx_total''"
| "counter_name GWUDPDataResponseRX = ''gw_udp_data_response_rx_total''"
| "counter_name GWUDPSendError = ''gw_udp_send_error_total''"
| "counter_name GWUDPReceiveError = ''gw_udp_receive_error_total''"
| "counter_name UDPResponseQueueFull = ''udp_response_queue_full_total''"
| "counter_name UDPResponseDropped = ''udp_response_dropped_total''"
| "counter_name HTTP504 = ''http_504_total''"
| "counter_name Timeout = ''timeout_total''"
| "counter_name ContextDeadline = ''context_deadline_total''"
| "counter_name HTTPReceived = ''http_received_total''"
| "counter_name HTTPRateLimited = ''http_rate_limited_total''"

definition gwc :: "collector_kind \<Rightarrow> string \<Rightarrow> string list \<Rightarrow> collector" where
  "gwc k n ls = \<lparr>co_kind = k, co_namespace = ''http2gw'', co_name = n, co_labels = ls\<rparr>"

fun gw_collector :: "gw_metric \<Rightarrow> collector" where
  "gw_collector (GCounter c) = gwc CounterKind (counter_name c) []"
| "gw_collector GRequests = gwc CounterKind ''http_requests_total'' [''status'', ''result'']"
| "gw_collector GRequestsFail = gwc CounterKind ''http_requests_fail_total'' [''status'', ''reason'']"
| "gw_collector GInFlight = gwc GaugeKind ''http_requests_in_flight'' []"
| "gw_collector GRequestDuration = gwc (HistogramKind diagBuckets) ''http_request_duration_seconds'' []"
| "gw_collector GLogicNodes = gwc GaugeKind ''logic_nodes'' [''state'']"
| "gw_collector GFailover = gwc CounterKind ''failover_retry_total'' []"
| "gw_collector GRouted = gwc CounterKind ''logic_routed_total'' [''node_id'', ''node'']"
| "gw_collector GManagerPending = gwc GaugeKind ''manager_pending'' []"
| "gw_collector GManagerWait = gwc (HistogramKind diagBuckets) ''manager_wait_duration_seconds'' []"
| "gw_collector GTransactionTotal = gwc (HistogramKind diagBuckets) ''transaction_total_duration_seconds'' []"
| "gw_collector GQueueDepth = gwc GaugeKind ''udp_response_queue_depth'' []"
| "gw_collector GRPS = gwc GaugeKind ''http_rps'' []"

text \<open>The arguments of \<open>MustRegister\<close>, without the library's two process collectors.\<close>

definition gw_registered :: "gw_metric list" where
  "gw_registered =
     [GRequests, GRequestsFail, GInFlight, GRequestDuration, GCounter LogicRegistered, GCounter HeartbeatSuccess,
      GCounter HeartbeatTimeout, GCounter UDPRx, GCounter UDPTx, GCounter RouteFailed, GCounter TransactionTimeout,
      GLogicNodes, GFailover, GRouted, GCounter ManagerCreated, GCounter ManagerCompleted, GCounter ManagerTimeout,
      GCounter ManagerCompleteNotFound, GManagerPending, GManagerWait, GTransactionTotal, GCounter GWUDPDataRequestTX,
      GCounter GWUDPDataResponseRX, GCounter GWUDPSendError, GCounter GWUDPReceiveError, GQueueDepth,
      GCounter UDPResponseQueueFull, GCounter UDPResponseDropped, GCounter HTTP504, GCounter Timeout,
      GCounter ContextDeadline, GCounter HTTPReceived, GCounter HTTPRateLimited, GRPS]"

fun reason_text :: "reason \<Rightarrow> string" where
  "reason_text ReasonOK = ''ok''"
| "reason_text ReasonMissingMessageID = ''missing_message_id''"
| "reason_text ReasonInvalidBody = ''invalid_body''"
| "reason_text ReasonBodyTooLarge = ''body_too_large''"
| "reason_text ReasonInvalidRequest = ''invalid_request''"
| "reason_text ReasonInvalidNode = ''invalid_node''"
| "reason_text ReasonCanceled = ''canceled''"
| "reason_text ReasonEmptyResponse = ''empty_response''"
| "reason_text ReasonUDPSendFailed = ''udp_send_failed''"
| "reason_text ReasonManagerClosed = ''manager_closed''"
| "reason_text ReasonNoRoutingTarget = ''no_routing_target''"
| "reason_text ReasonTimeout = ''timeout''"
| "reason_text ReasonRateLimited = ''rate_limited''"
| "reason_text ReasonLogicError = ''logic_error''"
| "reason_text ReasonUnknown = ''unknown''"
| "reason_text ReasonEmpty = []"

text \<open>The collector, label values and update of a call.\<close>

fun gw_call :: "prom_call \<Rightarrow> gw_metric \<times> string list \<times> update" where
  "gw_call (PAdd c n) = (GCounter c, [], Add n)"
| "gw_call (PRequest code result) = (GRequests, [code, result], Add 1)"
| "gw_call (PFail code r) = (GRequestsFail, [code, reason_text r], Add 1)"
| "gw_call (PDuration d) = (GRequestDuration, [], Sample d)"
| "gw_call (PManagerWait d) = (GManagerWait, [], Sample d)"
| "gw_call (PTransactionTotal d) = (GTransactionTotal, [], Sample d)"
| "gw_call (PInFlight n) = (GInFlight, [], SetTo n)"
| "gw_call (PManagerPending n) = (GManagerPending, [], SetTo n)"
| "gw_call (PQueueDepth n) = (GQueueDepth, [], SetTo n)"
| "gw_call (PRPS n) = (GRPS, [], SetTo n)"
| "gw_call (PLogicNodes st n) = (GLogicNodes, [st], SetTo n)"
| "gw_call (PFailover n) = (GFailover, [], Add n)"
| "gw_call (PRouted nodeid name) = (GRouted, [nodeid, name], Add 1)"

text \<open>Amounts the trace of the methods can hold.\<close>

definition amount_ok :: "prom_call \<Rightarrow> bool" where
  "amount_ok c = (case c of PAdd k n \<Rightarrow> 0 < n | PFailover n \<Rightarrow> 0 < n | _ \<Rightarrow> True)"

lemma gw_call_ok: "amount_ok c \<Longrightarrow> case gw_call c of (m, vals, u) \<Rightarrow> update_ok (gw_collector m) vals u"
  by (cases c) (simp_all add: amount_ok_def update_ok_def gwc_def)

lemma prom_trace: "mt_prom (prom cs m) = mt_prom m @ cs"
  by (simp add: prom_def)

lemma apply_op_amounts:
  "list_all amount_ok (mt_prom m) \<Longrightarrow> list_all amount_ok (mt_prom (apply_op op m))"
  by (cases op)
    (auto simp: AddInFlight_def Observe_def observeProm_def add_counter_def add_nonzero_def AddFailoverRetry_def
      AddLogicRouted_def ObserveLogicRegistry_def SetManagerPending_def ObserveManagerWait_def
      ObserveTransactionTotal_def SetUDPResponseQueueDepth_def SetHTTPRPS_def prom_trace amount_ok_def Let_def)

lemma gw_registered_all: "m \<in> set gw_registered"
proof (cases m)
  case (GCounter c)
  then show ?thesis by (cases c) (simp_all add: gw_registered_def)
qed (simp_all add: gw_registered_def)

section \<open>The Logic node\<close>

datatype node_metric =
    MRequests | MDataRequestRX | MDataResponseTX | MReceiveError | MSendError | MPoolCapacity | MPoolInUse | MPoolWaitTotal
  | MPoolWaitDuration | MPoolBlocked | MQueueCapacity | MQueueDepth | MQueueDropped | MProcessing | MRegisterStatus
  | MHeartbeatRTT | MQueueSize

definition logicDiagBuckets :: "nat list" where
  "logicDiagBuckets = [1, 5, 10, 20, 50, 100, 250, 500, 1000, 2500, 5000, 10000, 25000, 50000]"

definition lgc :: "collector_kind \<Rightarrow> string \<Rightarrow> collector" where
  "lgc k n = \<lparr>co_kind = k, co_namespace = ''logic'', co_name = n, co_labels = []\<rparr>"

fun node_collector :: "node_metric \<Rightarrow> collector" where
  "node_collector MRequests = lgc CounterKind ''requests_total''"
| "node_collector MDataRequestRX = lgc CounterKind ''udp_data_request_rx_total''"
| "node_collector MDataResponseTX = lgc CounterKind ''udp_data_response_tx_total''"
| "node_collector MReceiveError = lgc CounterKind ''udp_receive_error_total''"
| "node_collector MSendError = lgc CounterKind ''udp_send_error_total''"
| "node_collector MPoolCapacity = lgc GaugeKind ''pool_capacity''"
| "node_collector MPoolInUse = lgc GaugeKind ''pool_in_use''"
| "node_collector MPoolWaitTotal = lgc CounterKind ''pool_wait_total''"
| "node_collector MPoolWaitDuration = lgc (HistogramKind logicDiagBuckets) ''pool_wait_duration_seconds''"
| "node_collector MPoolBlocked = lgc CounterKind ''pool_receive_blocked_total''"
| "node_collector MQueueCapacity = lgc GaugeKind ''job_queue_capacity''"
| "node_collector MQueueDepth = lgc GaugeKind ''job_queue_depth''"
| "node_collector MQueueDropped = lgc CounterKind ''job_queue_dropped_total''"
| "node_collector MProcessing = lgc (HistogramKind logicDiagBuckets) ''processing_duration_seconds''"
| "node_collector MRegisterStatus = lgc GaugeKind ''register_status''"
| "node_collector MHeartbeatRTT = lgc GaugeKind ''heartbeat_rtt_seconds''"
| "node_collector MQueueSize = lgc GaugeKind ''queue_size''"

definition node_registered :: "node_metric list" where
  "node_registered = [MRequests, MDataRequestRX, MDataResponseTX, MReceiveError, MSendError, MPoolCapacity, MPoolInUse,
     MPoolWaitTotal, MPoolWaitDuration, MPoolBlocked, MQueueCapacity, MQueueDepth, MQueueDropped, MProcessing,
     MRegisterStatus, MHeartbeatRTT, MQueueSize]"

text \<open>The constant labels of every collector: the node id, and its name or else its id.\<close>

definition node_const_labels :: "u32 \<Rightarrow> string \<Rightarrow> (string \<times> string) list" where
  "node_const_labels nodeID nodeName =
     [(''node_id'', FormatUint nodeID), (''node'', if nodeName = [] then FormatUint nodeID else nodeName)]"

text \<open>The methods: the updates of a call, with the method's guard or clamp.\<close>

fun node_updates :: "node_call \<Rightarrow> (node_metric \<times> update) list" where
  "node_updates NRequest = [(MRequests, Add 1)]"
| "node_updates NDataRequestRX = [(MDataRequestRX, Add 1)]"
| "node_updates NDataResponseTX = [(MDataResponseTX, Add 1)]"
| "node_updates NReceiveError = [(MReceiveError, Add 1)]"
| "node_updates NSendError = [(MSendError, Add 1)]"
| "node_updates (NPoolCapacity n) = [(MPoolCapacity, SetTo n)]"
| "node_updates (NPoolInUse n) = [(MPoolInUse, SetTo n)]"
| "node_updates (NPoolWait d blocked) =
     (MPoolWaitDuration, Sample (if d < 0 then 0 else d)) # (if blocked then [(MPoolWaitTotal, Add 1), (MPoolBlocked, Add 1)] else [])"
| "node_updates (NQueueCapacity n) = [(MQueueCapacity, SetTo n)]"
| "node_updates (NQueueDepth n) = [(MQueueDepth, SetTo (if n < 0 then 0 else n))]"
| "node_updates (NQueueDropped n) = (if n \<le> 0 then [] else [(MQueueDropped, Add n)])"
| "node_updates (NProcessing d) = [(MProcessing, Sample (if d < 0 then 0 else d))]"
| "node_updates (NRegisterStatus accepted) = [(MRegisterStatus, SetTo (if accepted then 1 else 0))]"
| "node_updates (NHeartbeatRTT d) = [(MHeartbeatRTT, SetDuration (if d < 0 then 0 else d))]"
| "node_updates (NQueueSize n) = [(MQueueSize, SetTo (if n < 0 then 0 else n))]"

lemma node_registered_all: "m \<in> set node_registered"
  by (cases m) (simp_all add: node_registered_def)

lemma node_updates_ok: "(m, u) \<in> set (node_updates c) \<Longrightarrow> update_ok (node_collector m) [] u"
  by (cases c) (auto simp: update_ok_def lgc_def split: if_splits)

text \<open>Within one namespace the names decide.\<close>

lemma registrableI:
  assumes "list_all (\<lambda>c. co_namespace c = ns \<and> kind_ok (co_kind c)) cs" "distinct (map co_name cs)"
  shows "registrable cs"
proof -
  have "map fq_name cs = map (\<lambda>n. ns @ ''_'' @ n) (map co_name cs)"
    using assms(1) by (induction cs) (simp_all add: fq_name_def)
  moreover have "inj_on (\<lambda>n. ns @ ''_'' @ n) A" for A by (simp add: inj_on_def)
  ultimately have "distinct (map fq_name cs)" using assms(2) by (simp only: distinct_map)
  then show ?thesis using assms(1) by (simp add: registrable_def list_all_iff)
qed

lemma gw_registrable: "registrable (map gw_collector gw_registered)"
  by (rule registrableI [where ns = "''http2gw''"])
    (simp_all add: gw_registered_def gwc_def kind_ok_def diagBuckets_def)

lemma node_registrable: "registrable (map node_collector node_registered)"
  by (rule registrableI [where ns = "''logic''"])
    (simp_all add: node_registered_def lgc_def kind_ok_def logicDiagBuckets_def)

text \<open>
  Metrics never stop a process: both tables register distinct collectors with increasing buckets,
  and after any calls of the gateway's metric methods, and for any call of the Logic node's, every
  update goes to a registered collector of the right kind, with as many label values as it has
  labels and no negative amount for a counter.
\<close>

theorem metrics_never_panic:
  "registrable (map gw_collector gw_registered) \<and> registrable (map node_collector node_registered) \<and>
   list_all (\<lambda>c. case gw_call c of (m, vals, u) \<Rightarrow> m \<in> set gw_registered \<and> update_ok (gw_collector m) vals u)
     (mt_prom (fold apply_op ops NewMetrics)) \<and>
   list_all (\<lambda>c. list_all (\<lambda>(m, u). m \<in> set node_registered \<and> update_ok (node_collector m) [] u) (node_updates c))
     calls"
proof -
  have "list_all amount_ok (mt_prom (fold apply_op ops NewMetrics))"
    by (induction ops rule: rev_induct) (simp_all add: NewMetrics_def apply_op_amounts)
  then show ?thesis
    using gw_registrable node_registrable gw_call_ok gw_registered_all node_registered_all node_updates_ok
    by (fastforce simp: list_all_iff)
qed

section \<open>What the collectors show\<close>

text \<open>The value of a counter or gauge of the Logic node after a trace of calls.\<close>

fun apply_update :: "update \<Rightarrow> int \<Rightarrow> int" where
  "apply_update (Add n) v = v + n"
| "apply_update (SetTo n) v = n"
| "apply_update (SetDuration d) v = v"
| "apply_update (Sample d) v = v"

definition shown :: "node_metric \<Rightarrow> node_call list \<Rightarrow> int" where
  "shown m cs = fold (\<lambda>(k, u) v. if k = m then apply_update u v else v) (concat (map node_updates cs)) 0"

definition shown_after :: "node_metric \<Rightarrow> node_call list \<Rightarrow> int \<Rightarrow> int" where
  "shown_after m cs = fold (\<lambda>(k, u) v. if k = m then apply_update u v else v) (concat (map node_updates cs))"

lemma shown_append: "shown m (cs @ ds) = shown_after m ds (shown m cs)"
  by (simp add: shown_def shown_after_def)

lemma shown_after_simps [simp]:
  "shown_after m [] v = v"
  "shown_after m (c # cs) v = shown_after m cs (fold (\<lambda>(k, u) v. if k = m then apply_update u v else v) (node_updates c) v)"
  by (simp_all add: shown_after_def)

lemma met_call: "lg_met (lg_call cs s) = lg_met s @ cs"
  by (simp add: lg_call_def)

definition gauges_exact :: "int \<Rightarrow> logic \<Rightarrow> bool" where
  "gauges_exact rx s \<longleftrightarrow>
     shown MQueueDepth (lg_met s) = int (length (pl_jobs (lg_pool s))) \<and>
     shown MPoolInUse (lg_met s) = int (length (pl_busy (lg_pool s))) \<and>
     shown MQueueSize (lg_met s) = lg_inFlight s \<and> lg_inFlight s = int (length (pl_busy (lg_pool s))) \<and>
     shown MPoolCapacity (lg_met s) = int (pl_workers (lg_pool s)) \<and>
     shown MQueueCapacity (lg_met s) = int defaultDataJobQueue \<and>
     shown MDataRequestRX (lg_met s) = rx"

text \<open>Calls that touch none of these.\<close>

lemma transmit_shown:
  assumes "\<And>v. shown_after m cs v = v" "m \<noteq> MSendError"
  shows "shown m (lg_met (lg_transmit le out dest cs s)) = shown m (lg_met s)"
  using assms by (simp add: lg_transmit_def met_call shown_append Let_def split: option.split)

lemma start_gauges: "1 \<le> n \<Longrightarrow> gauges_exact 0 (logic_start n)"
  by (simp add: gauges_exact_def logic_start_def newDataWorkerPool_def shown_def Let_def)

lemma incoming_gauges:
  assumes "gauges_exact rx s"
  shows "gauges_exact (if env_type e = MESSAGE_TYPE_DATA_REQUEST then rx + 1 else rx) (handleIncoming le now (Some e) src s)"
proof (cases "env_type e = MESSAGE_TYPE_DATA_REQUEST")
  case True
  then show ?thesis
    using assms
    by (auto simp: gauges_exact_def handleIncoming_def on_data_request_def Enqueue_def Let_def transmit_shown met_call
      shown_append)
next
  case False
  then show ?thesis
    using assms
    by (cases "env_type e") (auto simp: gauges_exact_def handleIncoming_def Let_def transmit_shown met_call shown_append
      split: option.split)
qed

lemma step_gauges:
  assumes "logic_step le s ev s'" "gauges_exact (int (length (requests le evs))) s"
  shows "gauges_exact (int (length (requests le (evs @ [ev])))) s'"
  using assms(1)
proof (cases rule: logic_step.cases)
  case (receive now r)
  show ?thesis
  proof (cases r)
    case (Inl err)
    then show ?thesis
      using receive assms(2)
      by (auto simp: receive_step_def requests_snoc gauges_exact_def met_call shown_append split: if_splits)
  next
    case (Inr ea)
    obtain e a where ea: "ea = (e, a)" by fastforce
    then show ?thesis
      using receive Inr incoming_gauges [OF assms(2), of e le now a]
      by (auto simp: receive_step_def requests_snoc add.commute)
  qed
next
  case (take j rest)
  then show ?thesis
    using assms(2)
    by (simp add: gauges_exact_def requests_snoc worker_take_def data_start_def met_call shown_append Let_def)
next
  case (finish j now d)
  then have "length (pl_busy (lg_pool s)) = Suc (length (remove1 j (pl_busy (lg_pool s))))"
    by (simp add: length_remove1) (metis Suc_pred length_pos_if_in_set)
  then show ?thesis
    using finish assms(2)
    by (simp add: gauges_exact_def requests_snoc worker_finish_def data_finish_def met_call shown_append transmit_shown Let_def)
qed (use assms(2) in \<open>auto simp: gauges_exact_def requests_snoc sendHeartbeat_def Let_def\<close>)

lemma run_gauges:
  "logic_run le s0 evs s \<Longrightarrow> gauges_exact 0 s0 \<Longrightarrow> gauges_exact (int (length (requests le evs))) s"
  by (induction rule: logic_run.induct) (auto intro: step_gauges)

text \<open>
  The gauges of a Logic node are exact: after any run the queue depth, the slots in use and the
  requests in processing that Prometheus shows are those of the pool, its capacities are shown as
  they are, the received counter is the number of DATA requests received, and the load the next
  heartbeat reports to the gateway is that number in processing.
\<close>

theorem node_gauges_exact:
  assumes "logic_run le (logic_start n) evs s" "1 \<le> n"
  shows "shown MQueueDepth (lg_met s) = int (length (pl_jobs (lg_pool s))) \<and>
    shown MPoolInUse (lg_met s) = int (length (pl_busy (lg_pool s))) \<and>
    shown MQueueSize (lg_met s) = int (length (pl_busy (lg_pool s))) \<and>
    shown MPoolCapacity (lg_met s) = int (pl_workers (lg_pool s)) \<and>
    shown MQueueCapacity (lg_met s) = int defaultDataJobQueue \<and>
    shown MDataRequestRX (lg_met s) = int (length (requests le evs)) \<and>
    (\<exists>r. env_body (fst (last (lg_sent (snd (sendHeartbeat le now s))))) = Some (HeartbeatRequest r) \<and>
       hb_load r = word_of_int (shown MQueueSize (lg_met s)))"
  using run_gauges [OF assms(1) start_gauges [OF assms(2)]]
  by (simp add: gauges_exact_def sendHeartbeat_def Let_def)

theorem node_gauges_exact_witness:
  "\<exists>s. logic_run \<lparr>le_node = 1, le_gw = None, le_send = \<lambda>e a. None\<rparr> (logic_start 128)
       [LReceive 0 (Inr (logic_envelope 0 1 2 MESSAGE_TYPE_DATA_REQUEST, None))] s \<and>
     shown MDataRequestRX (lg_met s) = 1 \<and> shown MPoolInUse (lg_met s) = 0"
proof -
  let ?le = "\<lparr>le_node = 1, le_gw = None, le_send = \<lambda>e a. None\<rparr>"
  let ?e = "logic_envelope 0 1 2 MESSAGE_TYPE_DATA_REQUEST"
  let ?s = "handleIncoming ?le 0 (Some ?e) None (logic_start 128)"
  have t: "env_type ?e = MESSAGE_TYPE_DATA_REQUEST" by (simp add: logic_envelope_def)
  have "logic_step ?le (logic_start 128) (LReceive 0 (Inr (?e, None))) ?s"
    by (rule logic_step.receive) (simp add: receive_step_def)
  from logic_run.snoc [OF logic_run.nil this] have run: "logic_run ?le (logic_start 128) [LReceive 0 (Inr (?e, None))] ?s"
    by simp
  have "pl_busy (lg_pool ?s) = []"
    using t by (simp add: handleIncoming_def on_data_request_def Enqueue_def Let_def logic_start_def newDataWorkerPool_def)
  then show ?thesis using node_gauges_exact [OF run] run t by auto
qed

end
