(* ===== verification/LogGate.thy ===== *)
theory LogGate imports Dispatch begin

text \<open>
  The rate limit of warnings (\<open>dispatch/dispatch.go\<close>, \<open>logicnode/metrics.go\<close>): goroutines that share an
  atomic time stamp each read the clock, load the stamp, and log when their compare-and-swap
  succeeds.  The three steps interleave freely, and the clock of each goroutine may show any time.
\<close>

datatype log_phase = LGIdle | LGClock int | LGLoaded int int

record log_gate =
  gt_last :: int \<comment> \<open>the atomic stamp, in nanoseconds\<close>
  gt_phase :: "nat \<Rightarrow> log_phase"
  gt_logged :: "int list" \<comment> \<open>the stamps of the lines written, newest first\<close>

definition gate_start_state :: log_gate where
  "gate_start_state = \<lparr>gt_last = 0, gt_phase = (\<lambda>_. LGIdle), gt_logged = []\<rparr>"

text \<open>\<open>now - prev\<close> wraps like an \<open>int64\<close>.\<close>

definition elapsed64 :: "int \<Rightarrow> int \<Rightarrow> int" where
  "elapsed64 now prev = (now - prev + 2 ^ 63) mod 2 ^ 64 - 2 ^ 63"

text \<open>\<open>every\<close> is the interval; the clock shows nanoseconds since 1970 up to the year 2262.\<close>

inductive log_gate_step :: "duration \<Rightarrow> log_gate \<Rightarrow> log_gate \<Rightarrow> bool" for every where
  clock: "gt_phase s i = LGIdle \<Longrightarrow> 0 \<le> now \<Longrightarrow> now < 2 ^ 63 \<Longrightarrow>
    log_gate_step every s (s\<lparr>gt_phase := (gt_phase s)(i := LGClock now)\<rparr>)"
| load_stamp: "gt_phase s i = LGClock now \<Longrightarrow>
    log_gate_step every s (s\<lparr>gt_phase := (gt_phase s)(i := if elapsed64 now (gt_last s) < every then LGIdle else LGLoaded now (gt_last s))\<rparr>)"
| swap: "gt_phase s i = LGLoaded now prev \<Longrightarrow> gt_last s = prev \<Longrightarrow>
    log_gate_step every s (s\<lparr>gt_phase := (gt_phase s)(i := LGIdle), gt_last := now, gt_logged := now # gt_logged s\<rparr>)"
| lost: "gt_phase s i = LGLoaded now prev \<Longrightarrow> gt_last s \<noteq> prev \<Longrightarrow>
    log_gate_step every s (s\<lparr>gt_phase := (gt_phase s)(i := LGIdle)\<rparr>)"

inductive log_gate_run :: "duration \<Rightarrow> log_gate \<Rightarrow> bool" for every where
  init: "log_gate_run every gate_start_state"
| step: "log_gate_run every s \<Longrightarrow> log_gate_step every s t \<Longrightarrow> log_gate_run every t"

definition in_range :: "int \<Rightarrow> bool" where "in_range t \<longleftrightarrow> 0 \<le> t \<and> t < 2 ^ 63"

lemma elapsed64_range: "in_range a \<Longrightarrow> in_range b \<Longrightarrow> elapsed64 a b = a - b"
  by (simp add: elapsed64_def in_range_def)

definition log_gate_inv :: "duration \<Rightarrow> log_gate \<Rightarrow> bool" where
  "log_gate_inv every s \<longleftrightarrow>
     (\<forall>i. case gt_phase s i of LGIdle \<Rightarrow> True | LGClock now \<Rightarrow> in_range now
        | LGLoaded now prev \<Rightarrow> in_range now \<and> every \<le> now - prev) \<and>
     in_range (gt_last s) \<and> gt_last s = (case gt_logged s of [] \<Rightarrow> 0 | t # ts \<Rightarrow> t) \<and>
     sorted_wrt (\<lambda>newer older. every \<le> newer - older) (gt_logged s)"

lemma log_gate_step_inv:
  assumes "log_gate_step every s t" "log_gate_inv every s" "0 < every"
  shows "log_gate_inv every t"
  using assms(1)
proof cases
  case (clock i now)
  then show ?thesis using assms(2) by (auto simp: log_gate_inv_def in_range_def)
next
  case (load_stamp i now)
  then have "in_range now" "in_range (gt_last s)"
    using assms(2) by (auto simp: log_gate_inv_def split: log_phase.splits)
  then show ?thesis using load_stamp assms(2) by (auto simp: log_gate_inv_def elapsed64_range)
next
  case (swap i now prev)
  then have n: "in_range now" "every \<le> now - gt_last s"
    using assms(2) by (auto simp: log_gate_inv_def split: log_phase.splits)
  then have "\<forall>old \<in> set (gt_logged s). every \<le> now - old"
    using assms(2,3) by (cases "gt_logged s") (auto simp: log_gate_inv_def)
  then show ?thesis using swap n assms(2) by (auto simp: log_gate_inv_def)
next
  case (lost i now prev)
  then show ?thesis using assms(2) by (auto simp: log_gate_inv_def)
qed

text \<open>
  A warning floods no log: however many goroutines race for it and whatever their clocks show, any
  two lines written under one stamp have times at least the interval apart.
\<close>

theorem log_lines_apart:
  assumes "log_gate_run every s" "0 < every" "i < j" "j < length (gt_logged s)"
  shows "every \<le> gt_logged s ! i - gt_logged s ! j"
proof -
  have "log_gate_inv every s"
    using assms(1)
  proof induction
    case init
    show ?case by (simp add: log_gate_inv_def gate_start_state_def in_range_def)
  qed (rule log_gate_step_inv [OF _ _ assms(2)])
  then have "sorted_wrt (\<lambda>newer older. every \<le> newer - older) (gt_logged s)" by (simp add: log_gate_inv_def)
  then show ?thesis using assms(3,4) by (simp add: sorted_wrt_iff_nth_less)
qed

definition w_gate :: "int list \<Rightarrow> int \<Rightarrow> log_phase \<Rightarrow> log_gate" where
  "w_gate logged stamp p = \<lparr>gt_last = stamp, gt_phase = (\<lambda>_. LGIdle)(0 := p), gt_logged = logged\<rparr>"

lemma w_gate_line:
  assumes "log_gate_run second (w_gate ts stamp LGIdle)" "in_range now" "in_range stamp" "second \<le> now - stamp"
  shows "log_gate_run second (w_gate (now # ts) now LGIdle)"
proof -
  have 1: "log_gate_step second (w_gate ts stamp LGIdle) (w_gate ts stamp (LGClock now))"
    using log_gate_step.clock [of "w_gate ts stamp LGIdle" 0 now second] assms(2) by (simp add: w_gate_def in_range_def)
  have 2: "log_gate_step second (w_gate ts stamp (LGClock now)) (w_gate ts stamp (LGLoaded now stamp))"
    using log_gate_step.load_stamp [of "w_gate ts stamp (LGClock now)" 0 now second] assms(2-4)
    by (simp add: w_gate_def elapsed64_range)
  have 3: "log_gate_step second (w_gate ts stamp (LGLoaded now stamp)) (w_gate (now # ts) now LGIdle)"
    using log_gate_step.swap [of "w_gate ts stamp (LGLoaded now stamp)" 0 now stamp second] by (simp add: w_gate_def)
  show ?thesis by (intro log_gate_run.step [OF _ 3] log_gate_run.step [OF _ 2] log_gate_run.step [OF _ 1] assms(1))
qed

theorem log_lines_apart_witness:
  "\<exists>s. log_gate_run second s \<and> gt_logged s = [3 * second, second] \<and> second \<le> gt_logged s ! 0 - gt_logged s ! 1"
proof -
  have "w_gate [] 0 LGIdle = gate_start_state" by (auto simp: w_gate_def gate_start_state_def)
  then have "log_gate_run second (w_gate [second] second LGIdle)"
    using w_gate_line [of "[]" 0 second] log_gate_run.init by (simp add: in_range_def second_def)
  then have run: "log_gate_run second (w_gate [3 * second, second] (3 * second) LGIdle)"
    using w_gate_line [of "[second]" second "3 * second"] by (simp add: in_range_def second_def)
  have "gt_logged (w_gate [3 * second, second] (3 * second) LGIdle) = [3 * second, second]" by (simp add: w_gate_def)
  then show ?thesis using log_lines_apart [OF run, of 0 1] run by (auto simp: second_def)
qed

end
