(* ===== verification/Endpoints.thy ===== *)
theory Endpoints imports MasterRun HttpSrv begin

text \<open>
  The HTTP surfaces: which handler \<open>http.ServeMux\<close> gives a request of the gateway
  (\<open>httpsrv/server.go\<close>) and of the Master (\<open>master/run.go\<close>), the handlers that only read, and the
  requests of the control-plane agent on their way to the Master's handlers.  Paths are taken
  without escapes; a \<open>CONNECT\<close> request is not considered.
\<close>

section \<open>\<open>http.ServeMux\<close>\<close>

datatype segment = Exactly string | Wildcard string

record 'h route =
  rt_method :: string
  rt_path :: "segment list"
  rt_handler :: 'h

definition segments :: "string \<Rightarrow> string list" where
  "segments path = tl (Split (CHR ''/'') path)"

definition clean_segments :: "string list \<Rightarrow> string list" where
  "clean_segments segs =
     rev (fold (\<lambda>s acc. if s = [] \<or> s = ''.'' then acc else if s = ''..'' then tl acc else s # acc) segs [])"

text \<open>\<open>cleanPath\<close>: \<open>path.Clean\<close> of a rooted path, with its trailing slash kept.\<close>

definition cleanPath :: "string \<Rightarrow> string" where
  "cleanPath p =
     (let p1 = (if p = [] \<or> hd p \<noteq> CHR ''/'' then CHR ''/'' # p else p);
          segs = clean_segments (segments p1);
          np = (if segs = [] then ''/'' else concat (map ((#) (CHR ''/'')) segs))
      in if last p1 = CHR ''/'' \<and> np \<noteq> ''/'' then np @ ''/'' else np)"

fun match_path :: "segment list \<Rightarrow> string list \<Rightarrow> (string \<times> string) list option" where
  "match_path [] [] = Some []"
| "match_path (Exactly x # ps) (s # ss) = (if x = s then match_path ps ss else None)"
| "match_path (Wildcard x # ps) (s # ss) = (if s = [] then None else map_option ((#) (x, s)) (match_path ps ss))"
| "match_path _ _ = None"

definition method_ok :: "string \<Rightarrow> 'h route \<Rightarrow> bool" where
  "method_ok m r \<longleftrightarrow> m = rt_method r \<or> rt_method r = ''GET'' \<and> m = ''HEAD''"

datatype 'r routed = Routed 'r | Moved string | NotAllowed "string list" | NotFound

definition mux :: "'h route list \<Rightarrow> string \<Rightarrow> string \<Rightarrow> ('h \<times> (string \<times> string) list) routed" where
  "mux routes m path =
     (if cleanPath path \<noteq> path then Moved (cleanPath path)
      else let hits = List.map_filter (\<lambda>r. map_option (\<lambda>vars. (r, vars)) (match_path (rt_path r) (segments path))) routes in
        case find (\<lambda>(r, vars). method_ok m r) hits of
          Some (r, vars) \<Rightarrow> Routed (rt_handler r, vars)
        | None \<Rightarrow> if hits = [] then NotFound else NotAllowed (map (\<lambda>(r, vars). rt_method r) hits))"

section \<open>The gateway (\<open>httpsrv.New\<close>)\<close>

datatype gateway_endpoint = EHealth | EReady | EMetrics | EMetricsJSON | EData

definition gateway_routes :: "gateway_endpoint route list" where
  "gateway_routes =
     [\<lparr>rt_method = ''GET'', rt_path = [Exactly ''healthz''], rt_handler = EHealth\<rparr>,
      \<lparr>rt_method = ''GET'', rt_path = [Exactly ''health''], rt_handler = EHealth\<rparr>,
      \<lparr>rt_method = ''GET'', rt_path = [Exactly ''ready''], rt_handler = EReady\<rparr>,
      \<lparr>rt_method = ''GET'', rt_path = [Exactly ''metrics''], rt_handler = EMetrics\<rparr>,
      \<lparr>rt_method = ''GET'', rt_path = [Exactly ''metrics.json''], rt_handler = EMetricsJSON\<rparr>,
      \<lparr>rt_method = ''POST'', rt_path = [Exactly ''v1'', Exactly ''data''], rt_handler = EData\<rparr>]"

text \<open>\<open>enc\<close> and \<open>enc_stats\<close> are the JSON encoders of the two kinds of value written.\<close>

definition handleHealth :: "((string \<times> string) list \<Rightarrow> bytes) \<Rightarrow> http_call list \<Rightarrow> http_call list" where
  "handleHealth enc w = w @ [HSet ''Content-Type'' ''application/json'', HWrite (enc [(''status'', ''ok'')])]"

definition handleReady :: "((string \<times> string) list \<Rightarrow> bytes) \<Rightarrow> http_call list \<Rightarrow> http_call list" where
  "handleReady enc w = w @ [HSet ''Content-Type'' ''application/json'', HWrite (enc [(''status'', ''ready'')])]"

definition handleMetricsJSON :: "(string \<Rightarrow> string \<Rightarrow> request_stats \<Rightarrow> bytes) \<Rightarrow> request_stats \<Rightarrow> http_call list \<Rightarrow> http_call list" where
  "handleMetricsJSON enc_stats snap w =
     w @ [HSet ''Content-Type'' ''application/json; charset=utf-8'', HWrite (enc_stats ''info'' ''metrics_snapshot'' snap)]"

text \<open>
  A redirect of the mux: Go 1.26, which \<open>go.mod\<close> and the Dockerfile pin, answers 307; older releases
  answered 301.
\<close>

definition redirect_status :: int where "redirect_status = 307"

text \<open>
  A request of the gateway: \<open>snap\<close> takes the snapshot, \<open>scrape\<close> is the Prometheus handler, \<open>data\<close> is
  \<open>handleData\<close> on the request.
\<close>

definition gateway_http ::
  "((string \<times> string) list \<Rightarrow> bytes) \<Rightarrow> (string \<Rightarrow> string \<Rightarrow> request_stats \<Rightarrow> bytes) \<Rightarrow> (metrics \<Rightarrow> request_stats) \<Rightarrow>
   (metrics \<Rightarrow> http_call list) \<Rightarrow> (('s, 'l) http \<Rightarrow> ('s, 'l) http option) \<Rightarrow> string \<Rightarrow> string \<Rightarrow> ('s, 'l) http \<Rightarrow> ('s, 'l) http option" where
  "gateway_http enc enc_stats snap scrape data m path s =
     (case mux gateway_routes m path of
        Routed (EHealth, _) \<Rightarrow> Some (s\<lparr>hs_w := handleHealth enc (hs_w s)\<rparr>)
      | Routed (EReady, _) \<Rightarrow> Some (s\<lparr>hs_w := handleReady enc (hs_w s)\<rparr>)
      | Routed (EMetrics, _) \<Rightarrow> Some (s\<lparr>hs_w := hs_w s @ scrape (hs_met s)\<rparr>)
      | Routed (EMetricsJSON, _) \<Rightarrow> Some (s\<lparr>hs_w := handleMetricsJSON enc_stats (snap (hs_met s)) (hs_w s)\<rparr>)
      | Routed (EData, _) \<Rightarrow> data s
      | Moved to \<Rightarrow> Some (s\<lparr>hs_w := hs_w s @ [HSet ''Location'' to, HWriteHeader redirect_status]\<rparr>)
      | NotAllowed ms \<Rightarrow> Some (s\<lparr>hs_w := hs_w s @ [HError ''Method Not Allowed'' 405]\<rparr>)
      | NotFound \<Rightarrow> Some (s\<lparr>hs_w := hs_w s @ [HError ''404 page not found'' 404]\<rparr>))"

section \<open>The Master (\<open>serve\<close>)\<close>

datatype master_endpoint = MHealth | MReady | MListNodes | MRegisterNode | MHeartbeatNode | MLeaveNode

definition master_routes :: "master_endpoint route list" where
  "master_routes =
     [\<lparr>rt_method = ''GET'', rt_path = [Exactly ''health''], rt_handler = MHealth\<rparr>,
      \<lparr>rt_method = ''GET'', rt_path = [Exactly ''healthz''], rt_handler = MHealth\<rparr>,
      \<lparr>rt_method = ''GET'', rt_path = [Exactly ''ready''], rt_handler = MReady\<rparr>,
      \<lparr>rt_method = ''GET'', rt_path = [Exactly ''v1'', Exactly ''nodes''], rt_handler = MListNodes\<rparr>,
      \<lparr>rt_method = ''POST'', rt_path = [Exactly ''v1'', Exactly ''register''], rt_handler = MRegisterNode\<rparr>,
      \<lparr>rt_method = ''POST'', rt_path = [Exactly ''v1'', Exactly ''heartbeat''], rt_handler = MHeartbeatNode\<rparr>,
      \<lparr>rt_method = ''POST'', rt_path = [Exactly ''v1'', Exactly ''nodes'', Wildcard ''id'', Exactly ''leave''],
        rt_handler = MLeaveNode\<rparr>]"

datatype master_answer = Fields "(string \<times> string) list" | Answer master_reply

definition master_health :: master_answer where
  "master_health = Fields [(''status'', ''ok''), (''role'', ''master'')]"

definition master_ready :: master_answer where
  "master_ready = Fields [(''status'', ''ready'')]"

text \<open>
  A request of the Master: \<open>decR\<close> and \<open>decH\<close> decode a body; \<open>t1\<close> and \<open>t2\<close> are the times the handler
  reads, \<open>order\<close> an iteration order of the registry.
\<close>

definition master_http ::
  "(string \<Rightarrow> u64 res) \<Rightarrow> (bytes \<Rightarrow> register_body option) \<Rightarrow> (bytes \<Rightarrow> heartbeat_body option) \<Rightarrow> u32 \<Rightarrow> time \<Rightarrow> time \<Rightarrow> u32 list \<Rightarrow>
   string \<Rightarrow> string \<Rightarrow> bytes \<Rightarrow> memory \<Rightarrow> master_answer routed \<times> memory" where
  "master_http parse decR decH self t1 t2 order m path body mem =
     (case mux master_routes m path of
        Routed (MHealth, _) \<Rightarrow> (Routed master_health, mem)
      | Routed (MReady, _) \<Rightarrow> (Routed master_ready, mem)
      | Routed (MListNodes, _) \<Rightarrow> (Routed (Answer (handleListNodes order mem)), mem)
      | Routed (MRegisterNode, _) \<Rightarrow>
          (let (r, mem') = handleRegister parse t1 t2 (decR body) mem in (Routed (Answer r), mem'))
      | Routed (MHeartbeatNode, _) \<Rightarrow> (let (r, mem') = handleHeartbeat t1 (decH body) mem in (Routed (Answer r), mem'))
      | Routed (MLeaveNode, vars) \<Rightarrow>
          (let (r, mem') = handleLeave self (case map_of vars ''id'' of None \<Rightarrow> [] | Some v \<Rightarrow> v) mem in (Routed (Answer r), mem'))
      | Moved to \<Rightarrow> (Moved to, mem)
      | NotAllowed ms \<Rightarrow> (NotAllowed ms, mem)
      | NotFound \<Rightarrow> (NotFound, mem))"

section \<open>The agent's requests (\<open>controlplane/agent.go\<close>)\<close>

fun agent_path :: "agent_request \<Rightarrow> string" where
  "agent_path (AgRegister b) = ''/v1/register''"
| "agent_path (AgHeartbeat h) = ''/v1/heartbeat''"
| "agent_path (AgLeave k) = ''/v1/nodes/'' @ FormatUint k @ ''/leave''"

definition agent_url :: "agent \<Rightarrow> agent_request \<Rightarrow> string" where
  "agent_url a rq = TrimRightSlash (ag_MasterURL a) @ agent_path rq"

text \<open>\<open>encR\<close> and \<open>encH\<close> are \<open>json.Marshal\<close>; a leave has no body.\<close>

fun agent_body :: "(register_body \<Rightarrow> bytes) \<Rightarrow> (heartbeat_body \<Rightarrow> bytes) \<Rightarrow> agent_request \<Rightarrow> bytes" where
  "agent_body encR encH (AgRegister b) = encR b"
| "agent_body encR encH (AgHeartbeat h) = encH h"
| "agent_body encR encH (AgLeave k) = []"

section \<open>Routing\<close>

lemma Split_append: "c \<notin> set a \<Longrightarrow> Split c (a @ c # s) = a # Split c s"
  by (induction a) auto

lemma Split_plain: "c \<notin> set a \<Longrightarrow> Split c a = [a]"
  by (induction a) auto

lemma decimal_no_slash: "CHR ''/'' \<notin> set (FormatUint w)"
proof
  assume "CHR ''/'' \<in> set (FormatUint w)"
  then have "is_digit (CHR ''/'')" unfolding FormatUint_def by (rule fmt_nat_digits)
  then show False by (simp add: is_digit_def)
qed

lemma decimal_not_dots: "FormatUint w \<noteq> ''.''" "FormatUint w \<noteq> ''..''"
proof -
  have "\<not> is_digit (CHR ''.'')" by (simp add: is_digit_def)
  then have "CHR ''.'' \<notin> set (FormatUint w)" unfolding FormatUint_def using fmt_nat_digits by blast
  then show "FormatUint w \<noteq> ''.''" "FormatUint w \<noteq> ''..''" by auto
qed

lemma leave_segments: "segments (agent_path (AgLeave k)) = [''v1'', ''nodes'', FormatUint k, ''leave'']"
  using Split_append [OF decimal_no_slash [of k], of "''leave''"] by (simp add: segments_def)

lemma agent_path_clean: "cleanPath (agent_path rq) = agent_path rq"
proof (cases rq)
  case (AgLeave k)
  have "segments (''/v1/nodes/'' @ FormatUint k @ ''/leave'') = [''v1'', ''nodes'', FormatUint k, ''leave'']"
    using leave_segments [of k] by simp
  then show ?thesis
    unfolding AgLeave using decimal_not_dots [of k]
    by (simp add: cleanPath_def clean_segments_def Let_def)
qed (simp_all, code_simp+)

lemma agent_mux:
  "mux master_routes ''POST'' (agent_path rq) =
     Routed (case rq of AgRegister b \<Rightarrow> (MRegisterNode, []) | AgHeartbeat h \<Rightarrow> (MHeartbeatNode, [])
       | AgLeave k \<Rightarrow> (MLeaveNode, [(''id'', FormatUint k)]))"
proof (cases rq)
  case (AgLeave k)
  have "mux master_routes ''POST'' (agent_path (AgLeave k)) = Routed (MLeaveNode, [(''id'', FormatUint k)])"
    unfolding mux_def agent_path_clean leave_segments
    by (simp add: master_routes_def method_ok_def List.map_filter_simps)
  then show ?thesis by (simp add: AgLeave)
qed (unfold mux_def agent_path_clean, simp_all add: segments_def master_routes_def method_ok_def List.map_filter_simps)

text \<open>
  The agent's requests arrive: over HTTP, with any encoding of the bodies that decodes again, the
  Master's mux gives each request of the agent to the handler meant for it, with the agent's body or
  the node id in the path, so that the exchange is the direct call of the handler.
\<close>

theorem agent_requests_routed:
  assumes "case rq of AgRegister b \<Rightarrow> decR (encR b) = Some b | AgHeartbeat h \<Rightarrow> decH (encH h) = Some h | AgLeave k \<Rightarrow> True"
  shows "master_http parse decR decH self t1 t2 order ''POST'' (agent_path rq) (agent_body encR encH rq) m =
    (let (r, m') = (case rq of
         AgRegister b \<Rightarrow> handleRegister parse t1 t2 (Some b) m
       | AgHeartbeat h \<Rightarrow> handleHeartbeat t1 (Some h) m
       | AgLeave k \<Rightarrow> handleLeave self (FormatUint k) m) in (Routed (Answer r), m'))"
  unfolding master_http_def agent_mux using assms by (cases rq) simp_all

section \<open>The Master under any traffic\<close>

text \<open>The handlers a request can reach decide what it can change.\<close>

lemma find_SomeD: "find P xs = Some x \<Longrightarrow> x \<in> set xs \<and> P x"
  by (induction xs) (auto split: if_splits)

lemma mux_method:
  assumes "mux routes m path = Routed (h, vars)"
  shows "\<exists>r \<in> set routes. rt_handler r = h \<and> method_ok m r \<and> match_path (rt_path r) (segments path) = Some vars"
proof -
  let ?hits = "List.map_filter (\<lambda>r. map_option (\<lambda>vars. (r, vars)) (match_path (rt_path r) (segments path))) routes"
  have "cleanPath path = path" using assms by (simp add: mux_def split: if_splits)
  then obtain r where r: "find (\<lambda>(r, vars). method_ok m r) ?hits = Some (r, vars)" "rt_handler r = h"
    using assms by (cases "find (\<lambda>(r, vars). method_ok m r) ?hits") (auto simp: mux_def Let_def split: if_splits)
  then show ?thesis using find_SomeD [OF r(1)] by (auto simp: map_filter_set)
qed

lemma reading_routes:
  assumes "mux master_routes m path = Routed (h, vars)" "m \<noteq> ''POST''"
  shows "h \<in> {MHealth, MReady, MListNodes}"
  using mux_method [OF assms(1)] assms(2) by (auto simp: master_routes_def method_ok_def)

text \<open>A request as a run of registry calls; only a decoded registration can register an id.\<close>

lemma master_http_ops:
  "\<exists>ps. master_run self mon m ps (snd (master_http parse decR decH self t1 t2 order meth path body m)) \<and>
     (\<forall>p \<in> set ps. registers_op k p \<longrightarrow> (\<exists>b. decR body = Some b \<and> rb_NodeID b = k))"
proof -
  have none: "\<exists>ps. master_run self mon m ps m \<and> (\<forall>p \<in> set ps. registers_op k p \<longrightarrow> P)" for P
    by (rule exI [of _ "[]"]) simp
  show ?thesis
  proof (cases "mux master_routes meth path")
    case (Routed x)
    then show ?thesis
      using none handleRegister_ops [of self mon m parse t1 t2 "decR body" k] handleHeartbeat_ops [of self mon m t1 "decH body" k]
        handleLeave_ops [of self mon m "case map_of (snd x) ''id'' of None \<Rightarrow> [] | Some v \<Rightarrow> v" k]
      by (cases x; cases "fst x") (auto simp: master_http_def case_prod_beta)
  qed (auto simp: master_http_def intro!: exI [of _ "[]"])
qed

text \<open>Requests of anybody and ticks of the monitor, in the order the registry sees them.\<close>

datatype master_input = Request string string bytes time time "u32 list" | Tick time time "u32 list"

inductive master_traffic ::
  "(string \<Rightarrow> u64 res) \<Rightarrow> (bytes \<Rightarrow> register_body option) \<Rightarrow> (bytes \<Rightarrow> heartbeat_body option) \<Rightarrow> u32 \<Rightarrow> hb_config \<Rightarrow>
   memory \<Rightarrow> master_input list \<Rightarrow> memory \<Rightarrow> bool" for parse decR decH self mon m0 where
  start: "master_traffic parse decR decH self mon m0 [] m0"
| request: "master_traffic parse decR decH self mon m0 ins m \<Longrightarrow>
    master_traffic parse decR decH self mon m0 (ins @ [Request meth path body t1 t2 order])
      (snd (master_http parse decR decH self t1 t2 order meth path body m))"
| tick: "master_traffic parse decR decH self mon m0 ins m \<Longrightarrow>
    is_order (snd (Memory_ApplyHeartbeat self t1 (Some NextOnHeartbeat) m)) order \<Longrightarrow>
    master_traffic parse decR decH self mon m0 (ins @ [Tick t1 t2 order]) (monitor_tick self mon t1 t2 order m)"

fun registers_as :: "(bytes \<Rightarrow> register_body option) \<Rightarrow> u32 \<Rightarrow> master_input \<Rightarrow> bool" where
  "registers_as decR k (Request meth path body t1 t2 order) \<longleftrightarrow> (\<exists>b. decR body = Some b \<and> rb_NodeID b = k)"
| "registers_as decR k (Tick t1 t2 order) \<longleftrightarrow> False"

lemma traffic_ops:
  assumes "master_traffic parse decR decH self mon m0 ins m" "self \<noteq> 0" "\<forall>i \<in> set ins. \<not> registers_as decR k i"
  shows "\<exists>ps. master_run self mon m0 ps m \<and> (\<forall>p \<in> set ps. \<not> registers_op k p)"
  using assms(1,3)
proof (induction rule: master_traffic.induct)
  case start
  show ?case by (rule exI [of _ "[]"]) simp
next
  case (request ins m meth path body t1 t2 order)
  then obtain ps where ps: "master_run self mon m0 ps m" "\<forall>p \<in> set ps. \<not> registers_op k p" by auto
  obtain qs where qs: "master_run self mon m qs (snd (master_http parse decR decH self t1 t2 order meth path body m))"
      "\<forall>p \<in> set qs. registers_op k p \<longrightarrow> (\<exists>b. decR body = Some b \<and> rb_NodeID b = k)"
    using master_http_ops by blast
  have "\<forall>p \<in> set qs. \<not> registers_op k p" using qs(2) request.prems by auto
  then show ?case using master_run_append [OF ps(1) qs(1)] ps(2) by (intro exI [of _ "ps @ qs"]) auto
next
  case (tick ins m t1 order t2)
  then obtain ps where ps: "master_run self mon m0 ps m" "\<forall>p \<in> set ps. \<not> registers_op k p" by auto
  have "master_run self mon m [MBeat t1 self, MSweep t2 order] (monitor_tick self mon t1 t2 order m)"
    by (rule monitor_tick_ops [OF assms(2) tick.hyps(2)])
  then show ?case
    using master_run_append [OF ps(1)] ps(2) by (intro exI [of _ "ps @ [MBeat t1 self, MSweep t2 order]"]) auto
qed

text \<open>
  C30: The Master survives any HTTP traffic: whatever requests arrive, with whatever methods, paths and
  bodies, interleaved with its monitor, the registry stays well formed, only \<open>POST\<close> requests change
  it, and as long as no body registers the Master's own node id the Master's entry stays listed,
  ACTIVE and of type master.
\<close>

theorem master_survives_traffic:
  assumes "master_start scan scale s1 s2 cfg = Inr m0"
    and "master_traffic parse decR decH (NodeID (ms_Node cfg)) mon m0 ins m"
    and "\<forall>i \<in> set ins. \<not> registers_as decR (NodeID (ms_Node cfg)) i" "meth \<noteq> ''POST''"
  shows "reg_wf m \<and> (\<exists>n. m (NodeID (ms_Node cfg)) = Some n \<and> Type n = TypeMaster \<and> State n = NodeStateActive) \<and>
    snd (master_http parse decR decH (NodeID (ms_Node cfg)) t1 t2 order meth path body m) = m"
proof -
  have "NodeID (ms_Node cfg) \<noteq> 0"
    using assms(1) by (auto simp: master_start_def Master_Validate_def split: option.splits)
  from traffic_ops [OF assms(2) this assms(3)] obtain ps
    where "master_run (NodeID (ms_Node cfg)) mon m0 ps m" "\<forall>p \<in> set ps. \<not> registers_op (NodeID (ms_Node cfg)) p" by blast
  moreover have "snd (master_http parse decR decH (NodeID (ms_Node cfg)) t1 t2 order meth path body m) = m"
  proof (cases "mux master_routes meth path")
    case (Routed x)
    then show ?thesis using reading_routes [of meth path "fst x" "snd x"] assms(4)
      by (cases x; cases "fst x") (auto simp: master_http_def)
  qed (simp_all add: master_http_def)
  ultimately show ?thesis using master_always_listed [OF assms(1)] by blast
qed

section \<open>The gateway's endpoints\<close>

lemma match_path_exact:
  "match_path (Exactly x # ps) ss = Some vars \<Longrightarrow> \<exists>ss'. ss = x # ss' \<and> match_path ps ss' = Some vars"
  "match_path [] ss = Some vars \<Longrightarrow> ss = [] \<and> vars = []"
  by (cases ss; simp split: if_splits)+

lemma cleanPath_rooted: "\<exists>t. cleanPath p = CHR ''/'' # t"
proof -
  have "\<exists>t. concat (map ((#) (CHR ''/'')) segs) = CHR ''/'' # t" if "segs \<noteq> []" for segs
    using that by (cases segs) auto
  then show ?thesis by (fastforce simp: cleanPath_def Let_def)
qed

lemma data_path_only:
  assumes "mux gateway_routes m path = Routed (EData, vars)"
  shows "m = ''POST'' \<and> path = ''/v1/data''"
proof -
  have m: "m = ''POST''" and seg: "segments path = [''v1'', ''data'']"
    using mux_method [OF assms] by (auto simp: gateway_routes_def method_ok_def dest!: match_path_exact)
  have clean: "cleanPath path = path" using assms by (simp add: mux_def split: if_splits)
  then obtain t where "path = CHR ''/'' # t" using cleanPath_rooted [of path] by auto
  then have "cleanPath path = (if last path = CHR ''/'' then ''/v1/data/'' else ''/v1/data'')"
    using seg by (simp add: cleanPath_def clean_segments_def Let_def)
  moreover have "segments ''/v1/data/'' \<noteq> [''v1'', ''data'']" by (simp add: segments_def)
  ultimately show ?thesis using m clean seg by (metis (full_types))
qed

lemma metrics_path_only:
  assumes "mux gateway_routes m path = Routed (EMetrics, vars)"
  shows "(m = ''GET'' \<or> m = ''HEAD'') \<and> path = ''/metrics''"
proof -
  have m: "m = ''GET'' \<or> m = ''HEAD''" and seg: "segments path = [''metrics'']"
    using mux_method [OF assms] by (auto simp: gateway_routes_def method_ok_def dest!: match_path_exact)
  have clean: "cleanPath path = path" using assms by (simp add: mux_def split: if_splits)
  then obtain t where "path = CHR ''/'' # t" using cleanPath_rooted [of path] by auto
  then have "cleanPath path = (if last path = CHR ''/'' then ''/metrics/'' else ''/metrics'')"
    using seg by (simp add: cleanPath_def clean_segments_def Let_def)
  moreover have "segments ''/metrics/'' \<noteq> [''metrics'']" by (simp add: segments_def)
  ultimately show ?thesis using m clean seg by (metis (full_types))
qed

lemma probe_routes:
  "mux gateway_routes ''POST'' ''/v1/data'' = Routed (EData, [])"
  "mux gateway_routes ''GET'' ''/healthz'' = Routed (EHealth, [])"
  "mux gateway_routes ''GET'' ''/health'' = Routed (EHealth, [])"
  "mux gateway_routes ''GET'' ''/ready'' = Routed (EReady, [])"
  by code_simp+

text \<open>
  Every other endpoint only writes an answer: that of the Prometheus handler, or a status of its own,
  200 when it is routed.
\<close>

lemma gateway_reads:
  assumes "gateway_http enc enc_stats snap scrape data m path s = Some s'" "hs_w s = []"
    and "\<And>vars. mux gateway_routes m path \<noteq> Routed (EData, vars)"
  shows "\<exists>w. s' = s\<lparr>hs_w := w\<rparr> \<and>
    (if \<exists>vars. mux gateway_routes m path = Routed (EMetrics, vars) then w = scrape (hs_met s)
     else final_status w \<in> {200, 307, 404, 405} \<and>
       (\<forall>x. mux gateway_routes m path = Routed x \<longrightarrow> final_status w = 200))"
proof (cases "mux gateway_routes m path")
  case (Routed x)
  obtain ep vars where x: "x = (ep, vars)" by fastforce
  then have "ep \<noteq> EData" using assms(3) Routed by blast
  then have "\<exists>w. s' = s\<lparr>hs_w := w\<rparr> \<and> (if ep = EMetrics then w = scrape (hs_met s) else final_status w = 200)"
    using assms(1,2)
    by (cases ep) (simp_all add: gateway_http_def Routed x handleHealth_def handleReady_def handleMetricsJSON_def, auto)
  then show ?thesis using Routed x by auto
next
  case (Moved path')
  then show ?thesis using assms(1,2) by (auto simp: gateway_http_def redirect_status_def)
next
  case (NotAllowed ms)
  then show ?thesis using assms(1,2) by (auto simp: gateway_http_def)
next
  case NotFound
  then show ?thesis using assms(1,2) by (auto simp: gateway_http_def)
qed

text \<open>
  C31: Monitoring does not disturb traffic: only \<open>POST /v1/data\<close> reaches the handler that forwards;
  every other request of the gateway's port leaves the transaction layer, the rate gate and the
  metrics as they are.  A \<open>GET\<close> or \<open>HEAD\<close> of \<open>/metrics\<close> gets whatever the Prometheus handler answers;
  every other one is answered 200, 307, 404 or 405, whatever state they are in.  The health and
  readiness endpoints answer 200 always, also when no node is registered and after the transaction
  manager was closed.
\<close>

theorem only_data_forwards:
  assumes "gateway_http enc enc_stats snap scrape data m path s = Some s'" "hs_w s = []"
  shows "if m = ''POST'' \<and> path = ''/v1/data'' then data s = Some s'
    else hs_tx s' = hs_tx s \<and> hs_gate s' = hs_gate s \<and> hs_met s' = hs_met s \<and> hs_released s' = hs_released s \<and>
      (final_status (hs_w s') \<in> {200, 307, 404, 405} \<or>
       (m = ''GET'' \<or> m = ''HEAD'') \<and> path = ''/metrics'' \<and> hs_w s' = scrape (hs_met s)) \<and>
      (m = ''GET'' \<and> path \<in> {''/healthz'', ''/health'', ''/ready''} \<longrightarrow> final_status (hs_w s') = 200)"
proof (cases "m = ''POST'' \<and> path = ''/v1/data''")
  case True
  then show ?thesis using assms(1) probe_routes(1) by (simp add: gateway_http_def)
next
  case False
  have "mux gateway_routes m path \<noteq> Routed (EData, vars)" for vars using False data_path_only by blast
  from gateway_reads [OF assms this] obtain w where w: "s' = s\<lparr>hs_w := w\<rparr>"
    "if \<exists>vars. mux gateway_routes m path = Routed (EMetrics, vars) then w = scrape (hs_met s)
     else final_status w \<in> {200, 307, 404, 405} \<and>
       (\<forall>x. mux gateway_routes m path = Routed x \<longrightarrow> final_status w = 200)" by blast
  have "final_status w \<in> {200, 307, 404, 405} \<or> (m = ''GET'' \<or> m = ''HEAD'') \<and> path = ''/metrics'' \<and> w = scrape (hs_met s)"
    using w(2) metrics_path_only [of m path] by (auto split: if_splits)
  moreover have "final_status w = 200" if "m = ''GET'' \<and> path \<in> {''/healthz'', ''/health'', ''/ready''}"
    using that probe_routes w(2) by fastforce
  ultimately show ?thesis unfolding if_not_P [OF False] using w(1) by simp
qed

section \<open>Concrete inputs\<close>

theorem agent_requests_routed_witness:
  "fst (master_http (\<lambda>_. Inr 0) (\<lambda>_. None) (\<lambda>_. Some \<lparr>hbb_NodeID = 7, hbb_Load = 0, hbb_ActiveTransaction = 0\<rparr>) 1 0 0 []
     ''POST'' ''/v1/heartbeat'' [1] NewMemory) = Routed (Answer (MError ''unknown node'' 404))"
proof -
  let ?h = "\<lparr>hbb_NodeID = 7, hbb_Load = 0, hbb_ActiveTransaction = 0\<rparr> :: heartbeat_body"
  have "fst (handleHeartbeat 0 (Some ?h) NewMemory) = MError ''unknown node'' 404"
    by (simp add: handleHeartbeat_def Memory_ApplyHeartbeat_def NewMemory_def)
  then show ?thesis
    using agent_requests_routed [of "\<lambda>_. None" "\<lambda>_. []" "\<lambda>_. Some ?h" "\<lambda>_. [1]" "AgHeartbeat ?h" "\<lambda>_. Inr 0" 1 0 0 "[]" NewMemory]
    by (simp add: case_prod_beta)
qed

theorem master_survives_traffic_witness:
  "\<exists>m0 m. master_start (\<lambda>_. Inr 0) (\<lambda>_ _. 0) 0 0 w_master_cfg = Inr m0 \<and>
     m = snd (master_http (\<lambda>_. Inr 0) (\<lambda>_. None) (\<lambda>_. None) 1 0 0 [] ''POST'' ''/v1/nodes/1/leave'' [] m0) \<and> m 1 \<noteq> None"
proof -
  obtain m0 where s: "master_start (\<lambda>_. Inr 0) (\<lambda>_ _. 0) 0 0 w_master_cfg = Inr m0"
    by (simp add: master_start_def w_master_valid register_beat_ok master_self_def)
  have t: "master_traffic (\<lambda>_. Inr 0) (\<lambda>_. None) (\<lambda>_. None) (NodeID (ms_Node w_master_cfg)) w_mon m0
      ([] @ [Request ''POST'' ''/v1/nodes/1/leave'' [] 0 0 []])
      (snd (master_http (\<lambda>_. Inr 0) (\<lambda>_. None) (\<lambda>_. None) (NodeID (ms_Node w_master_cfg)) 0 0 [] ''POST'' ''/v1/nodes/1/leave'' [] m0))"
    by (intro master_traffic.request master_traffic.start)
  show ?thesis
    using master_survives_traffic [OF s t, of "''GET''" 0 0 "[]" "''/''" "[]"] s w_master_valid by auto
qed

theorem only_data_forwards_witness:
  "\<exists>s' s''. gateway_http (\<lambda>_. []) (\<lambda>_ _ _. []) (Snapshot [] [] []) (\<lambda>_. [HError [] 500]) (\<lambda>s. None) ''HEAD'' ''/metrics'' w_http = Some s' \<and>
     hs_met s' = hs_met w_http \<and> final_status (hs_w s') = 500 \<and>
     gateway_http (\<lambda>_. []) (\<lambda>_ _ _. []) (Snapshot [] [] []) (\<lambda>_. [HError [] 500]) (\<lambda>s. None) ''POST'' ''/v1//data'' w_http = Some s'' \<and>
     hs_tx s'' = hs_tx w_http \<and> final_status (hs_w s'') = 307"
proof -
  have "mux gateway_routes ''HEAD'' ''/metrics'' = Routed (EMetrics, [])"
    "mux gateway_routes ''POST'' ''/v1//data'' = Moved ''/v1/data''" by code_simp+
  then have g: "gateway_http (\<lambda>_. []) (\<lambda>_ _ _. []) (Snapshot [] [] []) (\<lambda>_. [HError [] 500]) (\<lambda>s. None) ''HEAD'' ''/metrics'' w_http =
      Some (w_http\<lparr>hs_w := [HError [] 500]\<rparr>)"
    "gateway_http (\<lambda>_. []) (\<lambda>_ _ _. []) (Snapshot [] [] []) (\<lambda>_. [HError [] 500]) (\<lambda>s. None) ''POST'' ''/v1//data'' w_http =
      Some (w_http\<lparr>hs_w := [HSet ''Location'' ''/v1/data'', HWriteHeader 307]\<rparr>)"
    by (simp_all add: gateway_http_def w_http_def redirect_status_def)
  have "hs_w w_http = []" by (simp add: w_http_def)
  then show ?thesis using only_data_forwards [OF g(1)] only_data_forwards [OF g(2)] g by simp
qed

end
