(* ===== verification/LoadGen.thy ===== *)
theory LoadGen imports Config "HOL-Library.Multiset" begin

text \<open>
  \<open>cmd/client\<close>: the load generator.  Its statistics and percentiles, the bounded log of failed
  requests, and the workers of \<open>runLoad\<close>, which draw sequence numbers from a shared counter.  The
  HTTP request is its result; printing and the files are not modelled.
\<close>

section \<open>Results and statistics (\<open>client.go\<close>, \<open>stats.go\<close>)\<close>

record call_result =
  r_status :: int
  r_protoMajor :: int
  r_latency :: duration
  r_txID :: string
  r_traceID :: string
  r_sessionID :: string
  r_body :: bytes
  r_err :: "gerr option"

record stats =
  st_ok :: int
  st_fail :: int
  st_http2 :: int
  st_byStatus :: "int \<rightharpoonup> int"
  st_lat :: "duration list"

definition zero_stats :: stats where
  "zero_stats = \<lparr>st_ok = 0, st_fail = 0, st_http2 = 0, st_byStatus = Map.empty, st_lat = []\<rparr>"

definition failed :: "call_result \<Rightarrow> bool" where
  "failed r \<longleftrightarrow> r_err r \<noteq> None \<or> r_status r \<ge> 400 \<or> r_status r = 0"

definition bump :: "int \<Rightarrow> (int \<rightharpoonup> int) \<Rightarrow> (int \<rightharpoonup> int)" where
  "bump k m = m(k \<mapsto> (case m k of None \<Rightarrow> 0 | Some n \<Rightarrow> n) + 1)"

definition stats_add :: "call_result \<Rightarrow> stats \<Rightarrow> stats" where
  "stats_add r s =
     (let s1 = s\<lparr>st_lat := st_lat s @ [r_latency r],
                 st_http2 := (if r_protoMajor r = 2 then st_http2 s + 1 else st_http2 s)\<rparr> in
      if failed r
      then s1\<lparr>st_fail := st_fail s1 + 1,
              st_byStatus := bump (if r_status r \<noteq> 0 then r_status r else -1) (st_byStatus s1)\<rparr>
      else s1\<lparr>st_ok := st_ok s1 + 1, st_byStatus := bump (r_status r) (st_byStatus s1)\<rparr>)"

text \<open>Go's integer division truncates; both operands are non-negative where it is reached.\<close>

definition percentile :: "duration list \<Rightarrow> int \<Rightarrow> duration" where
  "percentile xs p =
     (if xs = [] then 0
      else if p \<le> 0 then xs ! 0
      else if p \<ge> 100 then xs ! (length xs - 1)
      else let idx = nat (p * int (length xs) div 100);
               idx = (if idx \<ge> length xs then length xs - 1 else idx)
           in xs ! idx)"

text \<open>The sum of the latencies wraps like an \<open>int64\<close>; the mean truncates towards zero.\<close>

definition wrap64 :: "int \<Rightarrow> int" where
  "wrap64 i = (i + 2 ^ 63) mod 2 ^ 64 - 2 ^ 63"

definition quot :: "int \<Rightarrow> int \<Rightarrow> int" where
  "quot a b = (if a < 0 then - (- a div b) else a div b)"

record latency_summary =
  l_Min :: duration
  l_Avg :: duration
  l_P50 :: duration
  l_P95 :: duration
  l_P99 :: duration
  l_Max :: duration

definition latencySummary :: "stats \<Rightarrow> latency_summary option" where
  "latencySummary s =
     (if st_lat s = [] then None
      else let cp = sort (st_lat s); total = fold (\<lambda>d acc. wrap64 (acc + d)) cp 0 in
        Some \<lparr>l_Min = cp ! 0, l_Avg = quot total (int (length cp)), l_P50 = percentile cp 50, l_P95 = percentile cp 95,
              l_P99 = percentile cp 99, l_Max = cp ! (length cp - 1)\<rparr>)"

text \<open>The counts of \<open>buildSummary\<close>; \<open>codes\<close> is an iteration order of the status map.\<close>

definition summary_key :: "int \<Rightarrow> string" where
  "summary_key code = (if code < 0 then ''err'' else Itoa code)"

definition summary_counts :: "int list \<Rightarrow> stats \<Rightarrow> int \<times> int \<times> int \<times> int \<times> (string \<rightharpoonup> int)" where
  "summary_counts codes s =
     (st_ok s + st_fail s, st_ok s, st_fail s, st_http2 s,
      fold (\<lambda>code by. case st_byStatus s code of None \<Rightarrow> by | Some n \<Rightarrow> by(summary_key code \<mapsto> n)) codes Map.empty)"

section \<open>The log of failed requests (\<open>fail_log.go\<close>)\<close>

record fail_entry =
  fe_Seq :: int
  fe_Status :: int
  fe_Err :: string
  fe_TransactionID :: string
  fe_TraceID :: string
  fe_SessionID :: string
  fe_Latency :: duration

definition failEntryFromResult :: "int \<Rightarrow> call_result \<Rightarrow> fail_entry" where
  "failEntryFromResult seq r =
     \<lparr>fe_Seq = seq, fe_Status = r_status r, fe_Err = (case r_err r of None \<Rightarrow> [] | Some e \<Rightarrow> error_text e),
      fe_TransactionID = r_txID r, fe_TraceID = r_traceID r, fe_SessionID = r_sessionID r, fe_Latency = r_latency r\<rparr>"

definition fail_queue :: nat where "fail_queue = 4096"

record fail_logger =
  fl_ch :: "fail_entry list"
  fl_written :: int
  fl_dropped :: int
  fl_max :: int
  fl_file :: "fail_entry list"
  fl_unwritten :: "fail_entry list" \<comment> \<open>entries whose encoding failed\<close>

text \<open>\<open>open_err\<close> is the error of opening the file.\<close>

definition newFailLogger :: "gerr option \<Rightarrow> string \<Rightarrow> int \<Rightarrow> fail_logger option res" where
  "newFailLogger open_err path maxLines =
     (if blank path then Inr None
      else case open_err of
        Some err \<Rightarrow> Inl (Wrap [Lit ''open fail log '', Lit (TrimSpace path), Lit '': ''] err [])
      | None \<Rightarrow> Inr (Some \<lparr>fl_ch = [], fl_written = 0, fl_dropped = 0,
          fl_max = (if maxLines \<le> 0 then 100000 else maxLines), fl_file = [], fl_unwritten = []\<rparr>))"

definition fl_log :: "fail_entry \<Rightarrow> fail_logger \<Rightarrow> fail_logger" where
  "fl_log e f =
     (if length (fl_ch f) < fail_queue then f\<lparr>fl_ch := fl_ch f @ [e]\<rparr> else f\<lparr>fl_dropped := fl_dropped f + 1\<rparr>)"

text \<open>One round of \<open>loop\<close>; \<open>ok\<close> says whether \<open>Encode\<close> succeeds.\<close>

definition fl_loop :: "bool \<Rightarrow> fail_logger \<Rightarrow> fail_logger" where
  "fl_loop ok f =
     (case fl_ch f of
        [] \<Rightarrow> f
      | e # ch \<Rightarrow>
          let f1 = f\<lparr>fl_ch := ch\<rparr> in
          if fl_max f > 0 \<and> fl_written f \<ge> fl_max f then f1\<lparr>fl_dropped := fl_dropped f + 1\<rparr>
          else if \<not> ok then f1\<lparr>fl_unwritten := fl_unwritten f @ [e]\<rparr>
          else f1\<lparr>fl_written := fl_written f + 1, fl_file := fl_file f @ [e]\<rparr>)"

datatype log_event = LogEntry fail_entry | LogRound bool

fun log_step :: "log_event \<Rightarrow> fail_logger \<Rightarrow> fail_logger" where
  "log_step (LogEntry e) f = fl_log e f"
| "log_step (LogRound ok) f = fl_loop ok f"

fun logged :: "log_event list \<Rightarrow> nat" where
  "logged [] = 0"
| "logged (LogEntry e # evs) = Suc (logged evs)"
| "logged (LogRound ok # evs) = logged evs"

section \<open>The workers (\<open>runLoad\<close>)\<close>

text \<open>
  Where a worker is: at the head of its loop, past the checks, holding a number while it waits for
  the rate limiter, in its request, or returned.
\<close>

datatype phase = AtHead | Passed | Waiting int | Requesting int | Finished

record load_opts =
  lo_n :: int
  lo_limited :: bool
  lo_deadline :: bool

record load =
  ld_seq :: int
  ld_stopped :: bool
  ld_workers :: "phase list"
  ld_stats :: stats
  ld_made :: "int list" \<comment> \<open>sequence numbers of the requests made\<close>

definition load_start :: "nat \<Rightarrow> load" where
  "load_start c = \<lparr>ld_seq = 0, ld_stopped = False, ld_workers = replicate c AtHead, ld_stats = zero_stats, ld_made = []\<rparr>"

definition at_phase :: "nat \<Rightarrow> phase \<Rightarrow> load \<Rightarrow> bool" where
  "at_phase i p s \<longleftrightarrow> i < length (ld_workers s) \<and> ld_workers s ! i = p"

definition goto :: "nat \<Rightarrow> phase \<Rightarrow> load \<Rightarrow> load" where
  "goto i p s = s\<lparr>ld_workers := (ld_workers s)[i := p]\<rparr>"

definition draw :: "load_opts \<Rightarrow> nat \<Rightarrow> load \<Rightarrow> load" where
  "draw opt i s =
     (let n = ld_seq s + 1; s1 = s\<lparr>ld_seq := n\<rparr> in
      if lo_n opt > 0 \<and> n > lo_n opt then goto i Finished (s1\<lparr>ld_stopped := True\<rparr>)
      else goto i (if lo_limited opt then Waiting n else Requesting n) s1)"

datatype load_event = Quit nat | Deadline nat | Pass nat | Draw nat | LimitErr nat | LimitOk nat | Result nat call_result

text \<open>\<open>ctx\<close> says whether the context may have ended.\<close>

inductive load_step :: "load_opts \<Rightarrow> bool \<Rightarrow> load \<Rightarrow> load_event \<Rightarrow> load \<Rightarrow> bool" for opt ctx where
  quit: "at_phase i AtHead s \<Longrightarrow> ctx \<or> ld_stopped s \<Longrightarrow> load_step opt ctx s (Quit i) (goto i Finished s)"
| deadline: "at_phase i AtHead s \<Longrightarrow> lo_deadline opt \<Longrightarrow>
    load_step opt ctx s (Deadline i) (goto i Finished (s\<lparr>ld_stopped := True\<rparr>))"
| pass: "at_phase i AtHead s \<Longrightarrow> \<not> ld_stopped s \<Longrightarrow> load_step opt ctx s (Pass i) (goto i Passed s)"
| draw: "at_phase i Passed s \<Longrightarrow> load_step opt ctx s (Draw i) (draw opt i s)"
| limit_err: "at_phase i (Waiting n) s \<Longrightarrow> ctx \<Longrightarrow> load_step opt ctx s (LimitErr i) (goto i Finished s)"
| limit_stopped: "at_phase i (Waiting n) s \<Longrightarrow> ctx \<or> ld_stopped s \<Longrightarrow>
    load_step opt ctx s (LimitOk i) (goto i Finished s)"
| limit_deadline: "at_phase i (Waiting n) s \<Longrightarrow> lo_deadline opt \<Longrightarrow>
    load_step opt ctx s (LimitOk i) (goto i Finished (s\<lparr>ld_stopped := True\<rparr>))"
| limit_pass: "at_phase i (Waiting n) s \<Longrightarrow> \<not> ld_stopped s \<Longrightarrow>
    load_step opt ctx s (LimitOk i) (goto i (Requesting n) s)"
| result: "at_phase i (Requesting n) s \<Longrightarrow>
    load_step opt ctx s (Result i r)
      (goto i AtHead (s\<lparr>ld_stats := stats_add r (ld_stats s), ld_made := ld_made s @ [n]\<rparr>))"

inductive load_run :: "load_opts \<Rightarrow> bool \<Rightarrow> load \<Rightarrow> load_event list \<Rightarrow> load \<Rightarrow> bool" for opt ctx where
  nil: "load_run opt ctx s [] s"
| snoc: "load_run opt ctx s evs s1 \<Longrightarrow> load_step opt ctx s1 ev s2 \<Longrightarrow> load_run opt ctx s (evs @ [ev]) s2"

section \<open>Accounting\<close>

definition status_total :: "stats \<Rightarrow> int" where
  "status_total s = (\<Sum>k \<in> dom (st_byStatus s). the (st_byStatus s k))"

lemma bump_total:
  assumes "finite (dom m)"
  shows "finite (dom (bump k m)) \<and> (\<Sum>x \<in> dom (bump k m). the (bump k m x)) = (\<Sum>x \<in> dom m. the (m x)) + 1"
proof (cases "m k")
  case None
  then have "(\<Sum>x \<in> dom m. the (bump k m x)) = (\<Sum>x \<in> dom m. the (m x))"
    by (intro sum.cong) (auto simp: bump_def)
  moreover have "dom (bump k m) = insert k (dom m)" "k \<notin> dom m" using None by (auto simp: bump_def)
  ultimately show ?thesis using assms None by (simp add: bump_def)
next
  case (Some v)
  then have d: "dom (bump k m) = insert k (dom m - {k})" by (auto simp: bump_def)
  have "(\<Sum>x \<in> dom m - {k}. the (bump k m x)) = (\<Sum>x \<in> dom m - {k}. the (m x))"
    by (intro sum.cong) (auto simp: bump_def)
  moreover have "(\<Sum>x \<in> dom m. the (m x)) = v + (\<Sum>x \<in> dom m - {k}. the (m x))"
    using assms Some by (subst sum.remove [of _ k]) auto
  ultimately show ?thesis using assms Some unfolding d by (simp add: bump_def del: insert_Diff_single)
qed

definition stats_ok :: "stats \<Rightarrow> call_result list \<Rightarrow> bool" where
  "stats_ok s rs \<longleftrightarrow> finite (dom (st_byStatus s)) \<and> status_total s = int (length rs) \<and>
     st_ok s = int (length (filter (\<lambda>r. \<not> failed r) rs)) \<and> st_fail s = int (length (filter failed rs)) \<and>
     st_lat s = map r_latency rs \<and> st_http2 s = int (length (filter (\<lambda>r. r_protoMajor r = 2) rs))"

lemma stats_ok_zero: "stats_ok zero_stats []"
  by (simp add: stats_ok_def zero_stats_def status_total_def)

lemma stats_ok_add: "stats_ok s rs \<Longrightarrow> stats_ok (stats_add r s) (rs @ [r])"
  using bump_total [of "st_byStatus s"] by (simp add: stats_ok_def stats_add_def Let_def status_total_def)

lemma stats_ok_fold: "stats_ok (fold stats_add rs zero_stats) rs"
  by (induction rs rule: rev_induct) (simp_all add: stats_ok_zero stats_ok_add)

section \<open>Percentiles\<close>

lemma percentile_index:
  assumes "xs \<noteq> []"
  shows "\<exists>i < length xs. percentile xs p = xs ! i \<and> i = (if p \<le> 0 then 0 else if p \<ge> 100 then length xs - 1
    else nat (p * int (length xs) div 100))"
proof -
  have "p * int (length xs) div 100 < int (length xs)" if "0 < p" "p < 100"
  proof -
    have "p * int (length xs) < 100 * int (length xs)" using that assms by (intro mult_strict_right_mono) auto
    then show ?thesis by linarith
  qed
  then have "nat (p * int (length xs) div 100) < length xs" if "0 < p" "p < 100"
    using that assms by (subst nat_less_iff) (auto simp: pos_imp_zdiv_nonneg_iff)
  then show ?thesis using assms by (auto simp: percentile_def Let_def)
qed

lemma percentile_mono:
  assumes "sorted xs" "p \<le> q"
  shows "percentile xs p \<le> percentile xs q"
proof (cases "xs = []")
  case False
  obtain i where i: "i < length xs" "percentile xs p = xs ! i"
      "i = (if p \<le> 0 then 0 else if p \<ge> 100 then length xs - 1 else nat (p * int (length xs) div 100))"
    using percentile_index [OF False] by blast
  obtain j where j: "j < length xs" "percentile xs q = xs ! j"
      "j = (if q \<le> 0 then 0 else if q \<ge> 100 then length xs - 1 else nat (q * int (length xs) div 100))"
    using percentile_index [OF False] by blast
  have "nat (p * int (length xs) div 100) \<le> nat (q * int (length xs) div 100)"
    using assms(2) by (intro nat_mono zdiv_mono1 mult_right_mono) auto
  then have "i \<le> j" using i(1,3) j(1,3) assms(2) by (simp split: if_splits; linarith)
  then show ?thesis using sorted_nth_mono [OF assms(1)] i j by simp
qed (simp add: percentile_def)

lemma percentile_share:
  assumes "sorted xs" "xs \<noteq> []" "0 < p" "p < 100"
  shows "p * int (length xs) < 100 * int (length (filter (\<lambda>d. d \<le> percentile xs p) xs))"
proof -
  obtain i where i: "i < length xs" "percentile xs p = xs ! i" "i = nat (p * int (length xs) div 100)"
    using percentile_index [OF assms(2), of p] assms(3,4) by auto
  have "\<forall>d \<in> set (take (Suc i) xs). d \<le> xs ! i"
    using sorted_nth_mono [OF assms(1) _ i(1)] by (auto simp: in_set_conv_nth less_Suc_eq_le)
  then have "filter (\<lambda>d. d \<le> xs ! i) (take (Suc i) xs) = take (Suc i) xs" by (simp add: filter_id_conv)
  then have "Suc i \<le> length (filter (\<lambda>d. d \<le> xs ! i) (take (Suc i) xs))" using i(1) by simp
  also have "\<dots> \<le> length (filter (\<lambda>d. d \<le> xs ! i) (take (Suc i) xs @ drop (Suc i) xs))"
    by (simp only: filter_append length_append)
  finally have n: "Suc i \<le> length (filter (\<lambda>d. d \<le> percentile xs p) xs)" using i(2) by simp
  have "p * int (length xs) < 100 * (int i + 1)"
  proof -
    have "0 \<le> p * int (length xs) div 100" using assms(3) by (simp add: pos_imp_zdiv_nonneg_iff)
    then have "int i = p * int (length xs) div 100" using i(3) by simp
    moreover have "x < 100 * (x div 100 + 1)" for x :: int by presburger
    ultimately show ?thesis by simp
  qed
  also have "100 * (int i + 1) \<le> 100 * int (length (filter (\<lambda>d. d \<le> percentile xs p) xs))"
    using n by simp
  finally show ?thesis .
qed

text \<open>
  The latency summary is ordered and drawn from the samples: minimum, the percentiles 50, 95 and
  99 and maximum are each one of the measured latencies, in ascending order, the minimum and
  maximum bound every sample, and more than p percent of the samples are at or below the
  percentile p.
\<close>

theorem latency_summary_ordered:
  assumes "latencySummary s = Some l"
  shows "l_Min l \<le> l_P50 l \<and> l_P50 l \<le> l_P95 l \<and> l_P95 l \<le> l_P99 l \<and> l_P99 l \<le> l_Max l \<and>
    {l_Min l, l_P50 l, l_P95 l, l_P99 l, l_Max l} \<subseteq> set (st_lat s) \<and>
    (\<forall>d \<in> set (st_lat s). l_Min l \<le> d \<and> d \<le> l_Max l) \<and>
    (\<forall>(p, v) \<in> {(50, l_P50 l), (95, l_P95 l), (99, l_P99 l)}.
       p * int (length (st_lat s)) < 100 * int (length (filter (\<lambda>d. d \<le> v) (st_lat s))))"
proof -
  let ?cp = "sort (st_lat s)"
  have "st_lat s \<noteq> []" using assms by (auto simp: latencySummary_def)
  then have ne: "?cp \<noteq> []" by (metis length_0_conv length_sort)
  have so: "sorted ?cp" by simp
  have l: "l_Min l = percentile ?cp 0" "l_P50 l = percentile ?cp 50" "l_P95 l = percentile ?cp 95"
      "l_P99 l = percentile ?cp 99" "l_Max l = percentile ?cp 100"
    using \<open>st_lat s \<noteq> []\<close> assms [symmetric] ne
    by (simp_all add: latencySummary_def Let_def percentile_def [of _ 0] percentile_def [of _ 100] split: if_splits)
  have mem: "percentile ?cp p \<in> set (st_lat s)" for p
    using percentile_index [OF ne, of p] by (metis nth_mem set_sort)
  have bound: "percentile ?cp 0 \<le> d \<and> d \<le> percentile ?cp 100" if "d \<in> set (st_lat s)" for d
  proof -
    obtain i where "i < length ?cp" "d = ?cp ! i" using \<open>d \<in> set (st_lat s)\<close> by (metis in_set_conv_nth set_sort)
    then show ?thesis
      using sorted_nth_mono [OF so, of 0 i] sorted_nth_mono [OF so, of i "length ?cp - 1"] ne
      by (auto simp: percentile_def)
  qed
  have share: "p * int (length (st_lat s)) < 100 * int (length (filter (\<lambda>d. d \<le> percentile ?cp p) (st_lat s)))"
    if "0 < p" "p < 100" for p
    using percentile_share [OF so ne that] by (metis filter_sort length_sort)
  show ?thesis
    unfolding l
    using percentile_mono [OF so, of 0 50] percentile_mono [OF so, of 50 95] percentile_mono [OF so, of 95 99]
      percentile_mono [OF so, of 99 100] mem bound share [of 50] share [of 95] share [of 99]
    by simp
qed

theorem latency_summary_ordered_witness:
  "\<exists>l. latencySummary (zero_stats\<lparr>st_lat := [5, 1, 4]\<rparr>) = Some l \<and> l_Min l = 1 \<and> l_P50 l = 4 \<and> l_Max l = 5 \<and> l_P50 l \<le> l_P99 l"
proof -
  obtain l where l: "latencySummary (zero_stats\<lparr>st_lat := [5, 1, 4]\<rparr>) = Some l"
      "l_Min l = 1" "l_P50 l = 4" "l_Max l = 5"
    by (simp add: latencySummary_def percentile_def)
  then show ?thesis using latency_summary_ordered [OF l(1)] by auto
qed

section \<open>The log loses no entry silently\<close>

definition log_start :: "int \<Rightarrow> fail_logger" where
  "log_start m = \<lparr>fl_ch = [], fl_written = 0, fl_dropped = 0, fl_max = (if m \<le> 0 then 100000 else m),
     fl_file = [], fl_unwritten = []\<rparr>"

definition log_inv :: "nat \<Rightarrow> fail_logger \<Rightarrow> bool" where
  "log_inv n f \<longleftrightarrow> int n = int (length (fl_ch f)) + fl_written f + fl_dropped f + int (length (fl_unwritten f)) \<and>
     fl_written f = int (length (fl_file f)) \<and> 0 < fl_max f \<and> fl_written f \<le> fl_max f \<and> length (fl_ch f) \<le> fail_queue"

lemma log_inv_step: "log_inv n f \<Longrightarrow> log_inv (n + logged [ev]) (log_step ev f)"
proof (cases ev)
  case (LogRound ok)
  assume "log_inv n f"
  then show ?thesis unfolding LogRound
    by (cases "fl_ch f") (auto simp: log_inv_def fl_loop_def Let_def)
qed (auto simp: log_inv_def fl_log_def)

lemma logged_append: "logged (xs @ ys) = logged xs + logged ys"
  by (induction xs rule: logged.induct) auto

text \<open>
  The log of failed requests accounts for every entry: at any point an entry handed to it was
  written, was counted as dropped, failed to encode or is still queued; the file never exceeds the
  limit, and the limit is always positive, so that a maximum of 0 means 100000 lines and not, as
  the help of the flag says, no limit.
\<close>

theorem fail_log_accounts:
  "log_inv (logged evs) (fold log_step evs (log_start m))"
proof (induction evs rule: rev_induct)
  case (snoc ev evs)
  then show ?case using log_inv_step [OF snoc] by (simp add: logged_append)
qed (simp add: log_inv_def log_start_def)

section \<open>How many requests a run makes\<close>

fun holds :: "phase \<Rightarrow> int list" where
  "holds (Requesting n) = [n]"
| "holds _ = []"

definition held :: "load \<Rightarrow> int list" where
  "held s = concat (map holds (ld_workers s))"

text \<open>Without rate limiter, deadline and cancellation.\<close>

definition load_inv :: "load_opts \<Rightarrow> load \<Rightarrow> bool" where
  "load_inv opt s \<longleftrightarrow> 0 \<le> ld_seq s \<and> mset (ld_made s) + mset (held s) = mset [1..min (ld_seq s) (lo_n opt)] \<and>
     (ld_stopped s \<longrightarrow> lo_n opt < ld_seq s) \<and> (Finished \<in> set (ld_workers s) \<longrightarrow> ld_stopped s) \<and>
     (\<forall>n. Waiting n \<notin> set (ld_workers s))"

lemma held_goto:
  assumes "at_phase i p s"
  shows "mset (held (goto i q s)) + mset (holds p) = mset (held s) + mset (holds q)"
proof -
  have i: "i < length (ld_workers s)" "ld_workers s ! i = p" using assms by (auto simp: at_phase_def)
  have "mset (concat (map holds xs)) = (\<Sum>x \<in># mset xs. mset (holds x))" for xs
    by (induction xs) auto
  moreover have "mset ((ld_workers s)[i := q]) = mset (ld_workers s) - {#p#} + {#q#}"
    using i by (simp add: mset_update)
  moreover have "p \<in># mset (ld_workers s)" using i by (metis nth_mem set_mset_mset)
  then obtain M where "mset (ld_workers s) = add_mset p M" by (metis multi_member_split)
  ultimately show ?thesis by (simp add: held_def goto_def)
qed

lemma upto_next: "1 \<le> n \<Longrightarrow> mset [1..n :: int] = add_mset n (mset [1..n - 1])"
  by (simp add: upto_rec2)

lemma load_start_inv: "0 < lo_n opt \<Longrightarrow> load_inv opt (load_start c)"
proof -
  have "held (load_start c) = []" by (simp add: held_def load_start_def)
  then show "0 < lo_n opt \<Longrightarrow> load_inv opt (load_start c)"
    by (simp add: load_inv_def) (simp add: load_start_def)
qed

lemma goto_fields [simp]:
  "ld_seq (goto i p s) = ld_seq s" "ld_stopped (goto i p s) = ld_stopped s" "ld_made (goto i p s) = ld_made s"
  "ld_stats (goto i p s) = ld_stats s" "held (s\<lparr>ld_stats := st\<rparr>) = held s" "held (s\<lparr>ld_made := xs\<rparr>) = held s"
  "held (s\<lparr>ld_seq := n\<rparr>) = held s" "held (s\<lparr>ld_stopped := b\<rparr>) = held s"
  by (simp_all add: goto_def held_def)

lemma at_phase_upd [simp]:
  "at_phase i p (s\<lparr>ld_seq := n\<rparr>) = at_phase i p s" "at_phase i p (s\<lparr>ld_stopped := b\<rparr>) = at_phase i p s"
  "at_phase i p (s\<lparr>ld_stats := st\<rparr>) = at_phase i p s" "at_phase i p (s\<lparr>ld_made := xs\<rparr>) = at_phase i p s"
  by (simp_all add: at_phase_def)

lemma goto_workers: "q \<in> set (ld_workers (goto i p s)) \<Longrightarrow> q = p \<or> q \<in> set (ld_workers s)"
  using set_update_subset_insert by (fastforce simp: goto_def)

lemma no_wait: "load_inv opt s \<Longrightarrow> \<not> at_phase i (Waiting n) s"
  unfolding load_inv_def at_phase_def by (metis nth_mem)

lemma load_step_inv:
  assumes "load_step opt False s ev s'" "load_inv opt s" "0 < lo_n opt" "\<not> lo_limited opt" "\<not> lo_deadline opt"
  shows "load_inv opt s'"
  using assms(1)
proof (cases rule: load_step.cases)
  case (quit i)
  then show ?thesis
    using assms(2) held_goto [of i AtHead s Finished] by (auto simp: load_inv_def dest: goto_workers)
next
  case (pass i)
  then show ?thesis
    using assms(2) held_goto [of i AtHead s Passed] by (auto simp: load_inv_def dest: goto_workers)
next
  case (draw i)
  let ?n = "ld_seq s + 1"
  show ?thesis
  proof (cases "?n > lo_n opt")
    case True
    then have "min (ld_seq s) (lo_n opt) = min ?n (lo_n opt) \<or> lo_n opt = ld_seq s" by auto
    then have "min (ld_seq s) (lo_n opt) = min ?n (lo_n opt)" using True by auto
    then show ?thesis
      using draw True assms(2,3) held_goto [of i Passed "s\<lparr>ld_seq := ?n, ld_stopped := True\<rparr>" Finished]
      by (auto simp: load_inv_def draw_def Let_def goto_def dest!: set_update_subset_insert [THEN subsetD])
  next
    case False
    have "mset [1..?n] = add_mset ?n (mset [1..ld_seq s])"
      using upto_next [of ?n] assms(2) by (simp add: load_inv_def)
    moreover have "min ?n (lo_n opt) = ?n" "min (ld_seq s) (lo_n opt) = ld_seq s" using False by auto
    ultimately show ?thesis
      using draw False assms(2,4) held_goto [of i Passed "s\<lparr>ld_seq := ?n\<rparr>" "Requesting ?n"]
      by (auto simp: load_inv_def draw_def Let_def dest: goto_workers)
  qed
next
  case (result i n r)
  then have "mset (held s) = add_mset n (mset (held s'))"
    using held_goto [of i "Requesting n" "s\<lparr>ld_stats := stats_add r (ld_stats s), ld_made := ld_made s @ [n]\<rparr>" AtHead]
    by simp
  then show ?thesis
    using assms(2) result by (auto simp: load_inv_def dest: goto_workers)
qed (use assms no_wait in auto)

fun results :: "load_event list \<Rightarrow> call_result list" where
  "results [] = []"
| "results (Result i r # evs) = r # results evs"
| "results (_ # evs) = results evs"

lemma results_append: "results (xs @ ys) = results xs @ results ys"
  by (induction xs rule: results.induct) auto

lemma draw_fields [simp]: "ld_stats (draw opt i s) = ld_stats s" "ld_made (draw opt i s) = ld_made s"
    "length (ld_workers (draw opt i s)) = length (ld_workers s)"
  by (simp_all add: draw_def Let_def) (simp add: goto_def)

lemma load_run_results:
  "load_run opt ctx s evs s' \<Longrightarrow>
     ld_stats s' = fold stats_add (results evs) (ld_stats s) \<and> length (ld_made s') = length (ld_made s) + length (results evs) \<and>
     length (ld_workers s') = length (ld_workers s)"
proof (induction rule: load_run.induct)
  case (snoc s evs s1 ev s2)
  from snoc.hyps(2) have "ld_stats s2 = fold stats_add (results [ev]) (ld_stats s1) \<and>
      length (ld_made s2) = length (ld_made s1) + length (results [ev]) \<and> length (ld_workers s2) = length (ld_workers s1)"
    by (cases rule: load_step.cases) (auto simp: goto_def)
  then show ?case using snoc.IH by (simp add: results_append)
qed simp

lemma load_run_inv:
  "load_run opt False s evs s' \<Longrightarrow> load_inv opt s \<Longrightarrow> 0 < lo_n opt \<Longrightarrow> \<not> lo_limited opt \<Longrightarrow> \<not> lo_deadline opt \<Longrightarrow>
     load_inv opt s'"
  by (induction rule: load_run.induct) (auto dest: load_step_inv)

text \<open>A finished run without rate limit has made each of its requests once.\<close>

lemma load_makes_n:
  assumes "load_run opt False (load_start c) evs s" "0 < c" "\<forall>p \<in> set (ld_workers s). p = Finished"
    and "0 < lo_n opt" "\<not> lo_limited opt" "\<not> lo_deadline opt"
  shows "mset (ld_made s) = mset [1..lo_n opt]"
proof -
  have inv: "load_inv opt s" by (rule load_run_inv [OF assms(1) load_start_inv assms(4-6)]) (rule assms(4))
  have "length (ld_workers s) = c" using load_run_results [OF assms(1)] by (simp add: load_start_def)
  then have "Finished \<in> set (ld_workers s)" using assms(2,3) by (metis length_greater_0_conv hd_in_set length_0_conv not_gr0)
  then have "lo_n opt < ld_seq s" using inv by (simp add: load_inv_def)
  moreover have "\<forall>p \<in> set (ld_workers s). holds p = []" using assms(3) by auto
  then have "held s = []" by (simp add: held_def)
  ultimately show ?thesis using inv by (simp add: load_inv_def min_absorb2)
qed

text \<open>
  A load run of n requests without rate limit makes exactly n: when all workers have returned,
  each sequence number from 1 to n was requested once, whatever the interleaving, and the
  statistics add up to n over successes and failures, over the status table and over the latencies.
\<close>

theorem load_makes_n_requests:
  assumes "load_run opt False (load_start c) evs s" "0 < c" "\<forall>p \<in> set (ld_workers s). p = Finished"
    and "0 < lo_n opt" "\<not> lo_limited opt" "\<not> lo_deadline opt"
  shows "mset (ld_made s) = mset [1..lo_n opt] \<and> st_ok (ld_stats s) + st_fail (ld_stats s) = lo_n opt \<and>
    status_total (ld_stats s) = lo_n opt \<and> int (length (st_lat (ld_stats s))) = lo_n opt \<and>
    st_fail (ld_stats s) = int (length (filter failed (results evs)))"
proof -
  note r = load_run_results [OF assms(1)]
  have m: "mset (ld_made s) = mset [1..lo_n opt]" by (rule load_makes_n [OF assms])
  then have "length (ld_made s) = nat (lo_n opt)" by (metis size_mset length_upto diff_add_cancel)
  then have n: "int (length (results evs)) = lo_n opt" using r assms(4) by (simp add: load_start_def)
  have st: "stats_ok (ld_stats s) (results evs)"
    using r stats_ok_fold by (simp add: load_start_def)
  have "length (filter (\<lambda>r. \<not> failed r) (results evs)) + length (filter failed (results evs)) = length (results evs)"
    using sum_length_filter_compl [of failed "results evs"] by simp
  then show ?thesis using m n st by (simp add: stats_ok_def)
qed

text \<open>
  With a rate limit the run can make fewer: a worker that has drawn a number of the n waits for
  the limiter, and if another worker draws the number beyond n meanwhile, the first one returns
  without making its request.  Two workers with n = 1 can make no request at all.
\<close>

theorem limited_run_loses_requests:
  "\<exists>evs s. load_run \<lparr>lo_n = 1, lo_limited = True, lo_deadline = False\<rparr> False (load_start 2) evs s \<and>
     ld_workers s = [Finished, Finished] \<and> ld_seq s = 2 \<and> ld_made s = [] \<and> st_ok (ld_stats s) + st_fail (ld_stats s) = 0"
proof -
  let ?opt = "\<lparr>lo_n = 1, lo_limited = True, lo_deadline = False\<rparr>"
  let ?s = "\<lambda>q b ws. \<lparr>ld_seq = q, ld_stopped = b, ld_workers = ws, ld_stats = zero_stats, ld_made = []\<rparr>"
  have 0: "load_start 2 = ?s 0 False [AtHead, AtHead]" by (simp add: load_start_def numeral_2_eq_2)
  have 1: "load_step ?opt False (?s 0 False [AtHead, AtHead]) (Pass 0) (?s 0 False [Passed, AtHead])"
    using load_step.pass [of 0 "?s 0 False [AtHead, AtHead]" ?opt False] by (simp add: at_phase_def goto_def)
  have 2: "load_step ?opt False (?s 0 False [Passed, AtHead]) (Draw 0) (?s 1 False [Waiting 1, AtHead])"
    using load_step.draw [of 0 "?s 0 False [Passed, AtHead]" ?opt False] by (simp add: at_phase_def goto_def draw_def)
  have 3: "load_step ?opt False (?s 1 False [Waiting 1, AtHead]) (Pass 1) (?s 1 False [Waiting 1, Passed])"
    using load_step.pass [of 1 "?s 1 False [Waiting 1, AtHead]" ?opt False] by (simp add: at_phase_def goto_def)
  have 4: "load_step ?opt False (?s 1 False [Waiting 1, Passed]) (Draw 1) (?s 2 True [Waiting 1, Finished])"
    using load_step.draw [of 1 "?s 1 False [Waiting 1, Passed]" ?opt False] by (simp add: at_phase_def goto_def draw_def)
  have 5: "load_step ?opt False (?s 2 True [Waiting 1, Finished]) (LimitOk 0) (?s 2 True [Finished, Finished])"
    using load_step.limit_stopped [of 0 1 "?s 2 True [Waiting 1, Finished]" False ?opt] by (simp add: at_phase_def goto_def)
  have "load_run ?opt False (load_start 2) ((((([] @ [Pass 0]) @ [Draw 0]) @ [Pass 1]) @ [Draw 1]) @ [LimitOk 0])
      (?s 2 True [Finished, Finished])"
    unfolding 0 by (intro load_run.snoc [OF _ 5] load_run.snoc [OF _ 4] load_run.snoc [OF _ 3] load_run.snoc [OF _ 2]
        load_run.snoc [OF _ 1] load_run.nil)
  then show ?thesis
    by (intro exI [of _ "((((([] @ [Pass 0]) @ [Draw 0]) @ [Pass 1]) @ [Draw 1]) @ [LimitOk 0])"]
        exI [of _ "?s 2 True [Finished, Finished]"]) (simp add: zero_stats_def)
qed

definition w_result :: call_result where
  "w_result = \<lparr>r_status = 503, r_protoMajor = 2, r_latency = second, r_txID = [], r_traceID = [], r_sessionID = [], r_body = [], r_err = None\<rparr>"

definition w_opts :: load_opts where "w_opts = \<lparr>lo_n = 1, lo_limited = False, lo_deadline = False\<rparr>"
definition w_events :: "load_event list" where "w_events = [Pass 0, Draw 0, Result 0 w_result, Pass 0, Draw 0]"
definition w_loaded :: load where
  "w_loaded = \<lparr>ld_seq = 2, ld_stopped = True, ld_workers = [Finished], ld_stats = stats_add w_result zero_stats, ld_made = [1]\<rparr>"

lemma w_load_run: "load_run w_opts False (load_start 1) w_events w_loaded"
proof -
  let ?opt = w_opts
  let ?s = "\<lambda>q b p st xs. \<lparr>ld_seq = q, ld_stopped = b, ld_workers = [p], ld_stats = st, ld_made = xs\<rparr>"
  let ?st = "stats_add w_result zero_stats"
  have 0: "load_start 1 = ?s 0 False AtHead zero_stats []" by (simp add: load_start_def)
  have 1: "load_step ?opt False (?s 0 False AtHead zero_stats []) (Pass 0) (?s 0 False Passed zero_stats [])"
    using load_step.pass [of 0 "?s 0 False AtHead zero_stats []" ?opt False] by (simp add: at_phase_def goto_def w_opts_def)
  have 2: "load_step ?opt False (?s 0 False Passed zero_stats []) (Draw 0) (?s 1 False (Requesting 1) zero_stats [])"
    using load_step.draw [of 0 "?s 0 False Passed zero_stats []" ?opt False] by (simp add: at_phase_def goto_def draw_def w_opts_def)
  have 3: "load_step ?opt False (?s 1 False (Requesting 1) zero_stats []) (Result 0 w_result) (?s 1 False AtHead ?st [1])"
    using load_step.result [of 0 1 "?s 1 False (Requesting 1) zero_stats []" ?opt False w_result]
    by (simp add: at_phase_def goto_def w_opts_def)
  have 4: "load_step ?opt False (?s 1 False AtHead ?st [1]) (Pass 0) (?s 1 False Passed ?st [1])"
    using load_step.pass [of 0 "?s 1 False AtHead ?st [1]" ?opt False] by (simp add: at_phase_def goto_def w_opts_def)
  have 5: "load_step ?opt False (?s 1 False Passed ?st [1]) (Draw 0) (?s 2 True Finished ?st [1])"
    using load_step.draw [of 0 "?s 1 False Passed ?st [1]" ?opt False] by (simp add: at_phase_def goto_def draw_def w_opts_def)
  have "load_run ?opt False (load_start 1) ((((([] @ [Pass 0]) @ [Draw 0]) @ [Result 0 w_result]) @ [Pass 0]) @ [Draw 0])
      (?s 2 True Finished ?st [1])"
    unfolding 0 by (intro load_run.snoc [OF _ 5] load_run.snoc [OF _ 4] load_run.snoc [OF _ 3] load_run.snoc [OF _ 2]
        load_run.snoc [OF _ 1] load_run.nil)
  then show ?thesis by (simp add: w_loaded_def w_events_def)
qed

lemma w_result_failed: "failed w_result" "results w_events = [w_result]"
  by (simp_all add: failed_def w_result_def w_events_def)

theorem load_makes_n_requests_witness: "mset (ld_made w_loaded) = mset [1] \<and> st_fail (ld_stats w_loaded) = 1"
  using load_makes_n_requests [OF w_load_run] w_result_failed by (simp add: w_opts_def w_loaded_def)

end
