(* ===== verification/ClientReport.thy ===== *)
theory ClientReport imports LoadGen begin

text \<open>
  \<open>cmd/client\<close>, what the load generator reports: the printed lines (\<open>stats.go\<close>), the JSON summary
  (\<open>summary.go\<close>), the end of the log of failed requests (\<open>fail_log.go\<close>) and the exit status of a
  load run.  A duration is printed from the value given here; a rate or percentage is the pair it
  is computed from, \<open>None\<close> for the constant 0.
\<close>

section \<open>Rounding (\<open>time.Duration.Round\<close>)\<close>

definition Duration_Round :: "duration \<Rightarrow> duration \<Rightarrow> duration" where
  "Duration_Round d m =
     (if m \<le> 0 then d
      else if d < 0 then
        (let r = (- d) mod m in
         if 2 * r < m then d + r
         else let d1 = wrap64 (d - m + r) in if d1 < d then d1 else min_duration)
      else
        (let r = d mod m in
         if 2 * r < m then d - r
         else let d1 = wrap64 (d + m - r) in if d1 > d then d1 else max_duration))"

definition microsecond :: duration where "microsecond = 1000"

lemma Duration_Round_near:
  assumes "0 < m" "m \<le> 1000000000" "0 \<le> d" "d \<le> 2 ^ 62"
  shows "m dvd Duration_Round d m \<and> 2 * \<bar>Duration_Round d m - d\<bar> \<le> m"
proof -
  have r: "0 \<le> d mod m" "d mod m < m" using assms by simp_all
  have down: "m dvd d - d mod m" by (simp add: minus_mod_eq_mult_div)
  then have up: "m dvd d + m - d mod m" by (metis add_diff_eq dvd_add_right_iff dvd_refl add.commute)
  have "wrap64 (d + m - d mod m) = d + m - d mod m"
    using assms r by (simp add: wrap64_def)
  then show ?thesis using assms r down up by (auto simp: Duration_Round_def Let_def)
qed

section \<open>Printed lines (\<open>stats.print\<close>)\<close>

datatype line = IntLine string int | DurationLine string duration | RateLine string int duration | StatusLine string

definition status_item :: "stats \<Rightarrow> int \<Rightarrow> string" where
  "status_item s code =
     (let n = (case st_byStatus s code of None \<Rightarrow> 0 | Some n \<Rightarrow> n) in
      if code < 0 then ''err='' @ Itoa n else Itoa code @ ''='' @ Itoa n)"

fun spaced :: "string list \<Rightarrow> string" where
  "spaced [] = []"
| "spaced [x] = x"
| "spaced (x # xs) = x @ '' '' @ spaced xs"

text \<open>\<open>codes\<close> is an iteration order of the status map.\<close>

definition stats_print :: "int list \<Rightarrow> duration \<Rightarrow> int \<Rightarrow> stats \<Rightarrow> line list" where
  "stats_print codes elapsed c s =
     (let total = st_ok s + st_fail s in
      [IntLine ''requests:     '' total, IntLine ''concurrency:  '' c, IntLine ''ok:           '' (st_ok s),
       IntLine ''fail:         '' (st_fail s), IntLine ''http2:        '' (st_http2 s),
       DurationLine ''elapsed:      '' (Duration_Round elapsed millisecond)] @
      (if elapsed > 0 \<and> total > 0 then [RateLine ''rps:          '' total elapsed] else []) @
      (if codes = [] then [] else [StatusLine (''status:       '' @ spaced (map (status_item s) (sort codes)))]) @
      (case latencySummary s of
         None \<Rightarrow> []
       | Some l \<Rightarrow> map (\<lambda>(k, d). DurationLine k (Duration_Round d microsecond))
           [(''latency min:  '', l_Min l), (''latency avg:  '', l_Avg l), (''latency p50:  '', l_P50 l),
            (''latency p95:  '', l_P95 l), (''latency p99:  '', l_P99 l), (''latency max:  '', l_Max l)]))"

section \<open>The JSON summary (\<open>buildSummary\<close>, \<open>writeSummaryJSON\<close>)\<close>

record summary_opts =
  so_clientName :: string
  so_addr :: string
  so_c :: int
  so_qps :: float64
  so_n :: int
  so_clientCPUs :: float64
  so_duration :: duration

record load_summary =
  sm_Client :: string
  sm_StartedAt :: time
  sm_FinishedAt :: time
  sm_Elapsed :: duration
  sm_ElapsedSec :: duration
  sm_Addr :: string
  sm_Concurrency :: int
  sm_QPS :: float64
  sm_Duration :: "duration option"
  sm_N :: int
  sm_CPUs :: float64
  sm_Requests :: int
  sm_OK :: int
  sm_Fail :: int
  sm_HTTP2 :: int
  sm_RPS :: "(int \<times> duration) option"
  sm_SuccessRate :: "(int \<times> int) option"
  sm_ByStatus :: "string \<rightharpoonup> int"
  sm_Latency :: "latency_summary option"

definition buildSummary :: "int list \<Rightarrow> summary_opts \<Rightarrow> time \<Rightarrow> duration \<Rightarrow> time \<Rightarrow> stats \<Rightarrow> load_summary" where
  "buildSummary codes opt started elapsed now s =
     (let (total, ok, fail, http2, by) = summary_counts codes s in
      \<lparr>sm_Client = (if so_clientName opt = [] then ''client'' else so_clientName opt),
       sm_StartedAt = started, sm_FinishedAt = now,
       sm_Elapsed = Duration_Round elapsed millisecond, sm_ElapsedSec = elapsed,
       sm_Addr = so_addr opt, sm_Concurrency = so_c opt, sm_QPS = so_qps opt,
       sm_Duration = (if so_duration opt > 0 then Some (so_duration opt) else None),
       sm_N = so_n opt, sm_CPUs = so_clientCPUs opt,
       sm_Requests = total, sm_OK = ok, sm_Fail = fail, sm_HTTP2 = http2,
       sm_RPS = (if elapsed > 0 \<and> total > 0 then Some (total, elapsed) else None),
       sm_SuccessRate = (if total > 0 then Some (ok, total) else None),
       sm_ByStatus = by, sm_Latency = latencySummary s\<rparr>)"

text \<open>\<open>marshal\<close> is \<open>json.MarshalIndent\<close>, \<open>write_file\<close> is \<open>os.WriteFile\<close>.\<close>

definition writeSummaryJSON ::
  "(load_summary \<Rightarrow> string res) \<Rightarrow> (string \<Rightarrow> string \<Rightarrow> gerr option) \<Rightarrow> string \<Rightarrow> load_summary \<Rightarrow> gerr option" where
  "writeSummaryJSON marshal write_file path sm =
     (let p = TrimSpace path in
      if p = [] then None
      else case marshal sm of
        Inl err \<Rightarrow> Some err
      | Inr raw \<Rightarrow>
          map_option (\<lambda>err. Wrap [Lit ''write summary '', Lit p, Lit '': ''] err []) (write_file p (raw @ [CHR 0x0A])))"

section \<open>The end of the log (\<open>fail_log.go\<close>)\<close>

text \<open>
  \<open>close\<close> closes the channel and waits until the loop has taken what is left; \<open>ok e\<close> says whether
  \<open>Encode\<close> succeeds for the entry.
\<close>

definition fl_close :: "(fail_entry \<Rightarrow> bool) \<Rightarrow> fail_logger option \<Rightarrow> fail_logger option" where
  "fl_close ok = map_option (\<lambda>f. fold (\<lambda>e f. fl_loop (ok e) f) (fl_ch f) f)"

definition fl_summary :: "string \<Rightarrow> fail_logger option \<Rightarrow> string" where
  "fl_summary path fl =
     (case fl of
        None \<Rightarrow> []
      | Some f \<Rightarrow> ''fail_log: '' @ path @ '' written='' @ Itoa (fl_written f) @ '' dropped='' @ Itoa (fl_dropped f))"

section \<open>The exit status of a load run (\<open>main.go\<close>)\<close>

definition load_exit :: "stats \<Rightarrow> int" where
  "load_exit s = (if st_fail s > 0 then 1 else 0)"

section \<open>The log when it is closed\<close>

lemma fl_loop_head: "fl_ch f = e # es \<Longrightarrow> fl_ch (fl_loop ok f) = es"
  by (auto simp: fl_loop_def Let_def)

lemma drain_log: "fl_ch f = es \<Longrightarrow> log_inv n f \<Longrightarrow>
    log_inv n (fold (\<lambda>e f. fl_loop (ok e) f) es f) \<and> fl_ch (fold (\<lambda>e f. fl_loop (ok e) f) es f) = []"
proof (induction es arbitrary: f)
  case (Cons e es)
  have "log_inv n (fl_loop (ok e) f)" using log_inv_step [OF Cons.prems(2), of "LogRound (ok e)"] by simp
  then show ?case using Cons.IH [OF fl_loop_head [OF Cons.prems(1)]] by simp
qed simp

text \<open>A closed log: every entry is in the file, counted as dropped, or failed to encode.\<close>

lemma closed_log_accounts:
  assumes "fl_close ok (Some (fold log_step evs (log_start m))) = Some f"
  shows "int (logged evs) = int (length (fl_file f)) + fl_dropped f + int (length (fl_unwritten f)) \<and>
    fl_written f = int (length (fl_file f)) \<and> int (length (fl_file f)) \<le> fl_max f"
proof -
  let ?f = "fold log_step evs (log_start m)"
  have "log_inv (logged evs) f \<and> fl_ch f = []"
    using drain_log [OF refl fail_log_accounts [of evs m], of ok] assms by (auto simp: fl_close_def)
  then show ?thesis by (auto simp: log_inv_def)
qed

section \<open>The reports agree with the results\<close>

definition status_of :: "call_result \<Rightarrow> int" where
  "status_of r = (if r_status r = 0 then -1 else r_status r)"

definition counted :: "int \<Rightarrow> call_result list \<Rightarrow> int option" where
  "counted code rs =
     (let n = length (filter (\<lambda>r. status_of r = code) rs) in if n = 0 then None else Some (int n))"

lemma stats_add_status: "st_byStatus (stats_add r s) = bump (status_of r) (st_byStatus s)"
  by (auto simp: stats_add_def Let_def failed_def status_of_def)

lemma by_status_counted: "st_byStatus (fold stats_add rs zero_stats) code = counted code rs"
proof (induction rs rule: rev_induct)
  case (snoc r rs)
  then show ?case by (auto simp: stats_add_status bump_def counted_def Let_def split: if_splits)
qed (simp add: zero_stats_def counted_def)

lemma fold_table:
  assumes "inj_on key (set ks)" "distinct ks" "set ks \<subseteq> dom m"
  shows "fold (\<lambda>k by. case m k of None \<Rightarrow> by | Some n \<Rightarrow> by(key k \<mapsto> n)) ks Map.empty x =
    (if x \<in> key ` set ks then m (the_inv_into (set ks) key x) else None)"
  using assms
proof (induction ks rule: rev_induct)
  case (snoc k ks)
  then have "m k \<noteq> None" "inj_on key (set ks)" "distinct ks" "set ks \<subseteq> dom m" by (auto intro: inj_on_subset)
  moreover have "the_inv_into (set (ks @ [k])) key x = the_inv_into (set ks) key x" if "x \<in> key ` set ks"
  proof -
    obtain k' where "k' \<in> set ks" "x = key k'" using \<open>x \<in> key ` set ks\<close> by blast
    then show ?thesis
      using the_inv_into_f_f [OF snoc.prems(1)] the_inv_into_f_f [OF \<open>inj_on key (set ks)\<close>] by simp
  qed
  moreover have "the_inv_into (set (ks @ [k])) key (key k) = k"
    by (rule the_inv_into_f_f [OF snoc.prems(1)]) simp
  moreover have "key k \<notin> key ` set ks" using snoc.prems by (auto simp: inj_on_def)
  ultimately show ?case using snoc.IH by (auto split: option.split)
qed simp

lemma summary_key_inj: "inj_on summary_key {-1..}"
proof -
  have digits: "''err'' \<noteq> fmt_nat n" for n
  proof
    assume "''err'' = fmt_nat n"
    then have "CHR ''e'' \<in> set (fmt_nat n)" by (metis list.set_intros(1))
    from fmt_nat_digits [OF this] show False by (simp add: is_digit_def)
  qed
  have "''err'' \<noteq> Itoa c \<and> Itoa c \<noteq> ''err''" if "0 \<le> c" for c
    using that digits digits [symmetric] by (auto simp: Itoa_def)
  then show ?thesis by (auto simp: inj_on_def summary_key_def dest: sym)
qed

lemma summary_table:
  assumes "is_order (st_byStatus s) codes" "dom (st_byStatus s) \<subseteq> {-1..}" "-1 \<le> code"
  shows "snd (snd (snd (snd (summary_counts codes s)))) (summary_key code) = st_byStatus s code"
proof -
  have c: "distinct codes" "set codes = dom (st_byStatus s)" using assms(1) by (auto simp: is_order_def)
  then have inj: "inj_on summary_key (set codes)" using summary_key_inj assms(2) inj_on_subset by metis
  have "snd (snd (snd (snd (summary_counts codes s)))) (summary_key code) =
      (if summary_key code \<in> summary_key ` set codes
       then st_byStatus s (the_inv_into (set codes) summary_key (summary_key code)) else None)"
    by (simp only: summary_counts_def snd_conv fold_table [OF inj c(1) eq_refl [OF c(2)]])
  moreover have "summary_key code \<in> summary_key ` set codes \<longleftrightarrow> code \<in> set codes"
    using inj_on_image_mem_iff [OF summary_key_inj] assms c(2) by simp
  ultimately show ?thesis using the_inv_into_f_f [OF inj] c(2) by (auto simp: domIff)
qed

text \<open>
  C29: The reports of a load run tell what happened: the JSON summary and the printed lines hold the
  number of requests made, of the successful and of the failed ones; under each status code stands
  the number of responses with it, under \<open>err\<close> the number of requests without response; and the exit
  status is 0 exactly when no request failed.
\<close>

theorem reports_truthful:
  assumes "load_run opt ctx (load_start c) evs s" "is_order (st_byStatus (ld_stats s)) codes"
    and "\<forall>r \<in> set (results evs). 0 \<le> r_status r" "0 \<le> code"
  shows "sm_Requests (buildSummary codes so t0 elapsed t1 (ld_stats s)) = int (length (results evs)) \<and>
    sm_OK (buildSummary codes so t0 elapsed t1 (ld_stats s)) = int (length (filter (\<lambda>r. \<not> failed r) (results evs))) \<and>
    sm_Fail (buildSummary codes so t0 elapsed t1 (ld_stats s)) = int (length (filter failed (results evs))) \<and>
    sm_ByStatus (buildSummary codes so t0 elapsed t1 (ld_stats s)) (Itoa code) = counted code (results evs) \<and>
    sm_ByStatus (buildSummary codes so t0 elapsed t1 (ld_stats s)) ''err'' = counted (-1) (results evs) \<and>
    take 4 (stats_print codes elapsed n (ld_stats s)) =
      [IntLine ''requests:     '' (int (length (results evs))), IntLine ''concurrency:  '' n,
       IntLine ''ok:           '' (int (length (filter (\<lambda>r. \<not> failed r) (results evs)))),
       IntLine ''fail:         '' (int (length (filter failed (results evs))))] \<and>
    length (ld_made s) = length (results evs) \<and>
    (load_exit (ld_stats s) = 0 \<longleftrightarrow> filter failed (results evs) = [])"
proof -
  have r: "ld_stats s = fold stats_add (results evs) zero_stats" "length (ld_made s) = length (results evs)"
    using load_run_results [OF assms(1)] by (simp_all add: load_start_def)
  have st: "stats_ok (ld_stats s) (results evs)" using stats_ok_fold r(1) by simp
  have tab: "st_byStatus (ld_stats s) = (\<lambda>code. counted code (results evs))"
    using by_status_counted r(1) by auto
  have "code' \<in> {-1..}" if c: "counted code' (results evs) \<noteq> None" for code'
  proof -
    obtain x where "x \<in> set (results evs)" "status_of x = code'"
      using c by (auto simp: counted_def Let_def filter_empty_conv split: if_splits)
    then show ?thesis using assms(3) by (auto simp: status_of_def)
  qed
  then have dom: "dom (st_byStatus (ld_stats s)) \<subseteq> {-1..}" unfolding tab by (auto simp: domIff)
  have table: "sm_ByStatus (buildSummary codes so t0 elapsed t1 (ld_stats s)) (summary_key k) = counted k (results evs)"
    if "-1 \<le> k" for k
    using summary_table [OF assms(2) dom that] tab by (simp add: buildSummary_def case_prod_beta)
  have total: "int (length (filter (\<lambda>r. \<not> failed r) (results evs))) + int (length (filter failed (results evs))) =
      int (length (results evs))"
    using sum_length_filter_compl [of failed "results evs"] by (simp add: add.commute)
  have "sm_ByStatus (buildSummary codes so t0 elapsed t1 (ld_stats s)) (Itoa code) = counted code (results evs)"
    using table [of code] assms(4) by (simp add: summary_key_def)
  moreover have "sm_ByStatus (buildSummary codes so t0 elapsed t1 (ld_stats s)) ''err'' = counted (-1) (results evs)"
    using table [of "-1"] by (simp add: summary_key_def)
  moreover have "load_exit (ld_stats s) = 0 \<longleftrightarrow> filter failed (results evs) = []"
    using st by (simp add: load_exit_def stats_ok_def)
  ultimately show ?thesis
    using st total r(2) by (simp add: stats_ok_def buildSummary_def summary_counts_def stats_print_def Let_def)
qed


definition w_sum :: summary_opts where
  "w_sum = \<lparr>so_clientName = [], so_addr = ''http://127.0.0.1:8080/v1/data'', so_c = 1, so_qps = 0, so_n = 1, so_clientCPUs = 0,
     so_duration = 0\<rparr>"

theorem reports_truthful_witness:
  "sm_ByStatus (buildSummary [503] w_sum 0 second second (ld_stats w_loaded)) (Itoa 503) = Some 1 \<and> load_exit (ld_stats w_loaded) \<noteq> 0"
proof -
  have "is_order (st_byStatus (ld_stats w_loaded)) [503]"
    by (auto simp: is_order_def w_loaded_def stats_add_def Let_def failed_def w_result_def zero_stats_def bump_def)
  moreover have "\<forall>r \<in> set (results w_events). 0 \<le> r_status r" by (simp add: w_result_failed) (simp add: w_result_def)
  ultimately show ?thesis
    using reports_truthful [OF w_load_run, of "[503]" 503 w_sum 0 second second 1]
    by (auto simp: w_result_failed counted_def status_of_def) (simp_all add: w_result_def)
qed

end
