(* ===== verification/ClientMain.thy ===== *)
theory ClientMain imports ClientReport ControlPlane HttpSrv begin

text \<open>
  \<open>cmd/client/main.go\<close> and the requests of \<open>client.go\<close>: the options from flags and configuration,
  the control-plane agent, the HTTP request of each sequence number, the four transports it goes
  over in turn, and the exit status.  The exchange of a request is its outcome.  \<open>net/http\<close> carries
  method, header values and body to the gateway unchanged (\<open>received\<close>).
\<close>

section \<open>Options (\<open>main\<close>)\<close>

record options =
  op_addr :: string
  op_messageID :: u64
  op_sessionID :: string
  op_uniqueSession :: bool
  op_traceID :: string
  op_body :: string
  op_timeout :: duration
  op_n :: int
  op_c :: int
  op_duration :: duration
  op_qps :: float64
  op_verbose :: bool
  op_failLogPath :: string
  op_failLogMax :: int
  op_summaryLogPath :: string
  op_clientName :: string
  op_clientCPUs :: float64

text \<open>The values of the flags that are not given.\<close>

definition flag_defaults :: options where
  "flag_defaults =
     \<lparr>op_addr = ''http://127.0.0.1:8080'', op_messageID = 1001, op_sessionID = ''sess-1'', op_uniqueSession = False,
      op_traceID = [], op_body = ''hello'', op_timeout = 10 * second, op_n = 1, op_c = 1, op_duration = 0, op_qps = 0,
      op_verbose = False, op_failLogPath = [], op_failLogMax = 100000, op_summaryLogPath = [], op_clientName = [],
      op_clientCPUs = 0\<rparr>"

text \<open>\<open>given\<close>: the names of the flags on the command line.  The configuration fills in the others.\<close>

definition config_options :: "string set \<Rightarrow> load_client_cfg \<Rightarrow> options \<Rightarrow> options" where
  "config_options given cfg opt =
     opt\<lparr>op_addr := (if ''addr'' \<in> given then op_addr opt else cl_Target cfg),
         op_messageID := (if ''message-id'' \<in> given then op_messageID opt else ucast (cl_MessageID cfg)),
         op_sessionID := (if ''session-id'' \<in> given then op_sessionID opt else cl_SessionID cfg),
         op_uniqueSession := (if ''unique-session'' \<in> given then op_uniqueSession opt else cl_UniqueSession cfg),
         op_body := (if ''body'' \<in> given then op_body opt else cl_Body cfg),
         op_timeout := (if ''timeout'' \<in> given then op_timeout opt else cl_Timeout cfg),
         op_c := (if ''c'' \<in> given then op_c opt else cl_Concurrency cfg),
         op_qps := (if ''qps'' \<in> given then op_qps opt else cl_QPS cfg),
         op_duration := (if ''d'' \<in> given then op_duration opt else cl_Duration cfg),
         op_n := (if ''n'' \<in> given then op_n opt else cl_N cfg)\<rparr>"

definition option_error :: "options \<Rightarrow> string option" where
  "option_error opt =
     map_option snd (find fst
       [(op_messageID opt = 0, ''message-id must be > 0''),
        (op_c opt < 1, ''-c must be >= 1''),
        (op_n opt < 0, ''-n must be >= 0''),
        (op_n opt = 0 \<and> op_duration opt \<le> 0,
           [CHR ''c'', CHR 0xE1, CHR 0xBA, CHR 0xA7] @ ''n -n > 0 ho'' @ [CHR 0xE1, CHR 0xBA, CHR 0xB7] @ ''c -d > 0''),
        (float_neg (op_qps opt), ''-qps must be >= 0'')])"

text \<open>The options of the run and the Master's URL, or the message printed before \<open>os.Exit(2)\<close>.\<close>

definition client_setup :: "string set \<Rightarrow> string \<Rightarrow> load_client_cfg option \<Rightarrow> options \<Rightarrow> string + options \<times> string" where
  "client_setup given masterURL cfg opt0 =
     (let (opt, master) = (case cfg of
            None \<Rightarrow> (opt0, masterURL)
          | Some c \<Rightarrow> (config_options given c opt0, if masterURL = [] then cl_MasterURL c else masterURL)) in
      case option_error opt of
        Some msg \<Rightarrow> Inl msg
      | None \<Rightarrow> Inr (opt\<lparr>op_addr := TrimRightSlash (op_addr opt) @ ''/v1/data''\<rparr>, master))"

definition client_agent :: "(resource_cfg \<Rightarrow> u64) \<Rightarrow> load_client_cfg option \<Rightarrow> string \<Rightarrow> agent option" where
  "client_agent memory_bytes cfg masterURL =
     (case cfg of
        None \<Rightarrow> None
      | Some c \<Rightarrow>
          if blank masterURL then None
          else Some \<lparr>ag_MasterURL = masterURL, ag_Body = BodyFromLoadClient memory_bytes c, ag_Interval = second\<rparr>)"

section \<open>Requests (\<open>doRequest\<close>)\<close>

record client_request =
  cq_url :: string
  cq_headers :: "(string \<times> string) list"
  cq_body :: bytes

definition request_session :: "options \<Rightarrow> int \<Rightarrow> string" where
  "request_session opt seq =
     (let session = TrimSpace (op_sessionID opt) in
      if op_uniqueSession opt then session @ ''-'' @ Itoa seq else session)"

definition request_trace :: "options \<Rightarrow> time \<Rightarrow> int \<Rightarrow> string" where
  "request_trace opt now seq =
     (let trace = TrimSpace (op_traceID opt) in
      if trace = [] then ''cli-'' @ Itoa (unix_milli now) @ ''-'' @ Itoa seq
      else if op_n opt > 1 \<or> op_c opt > 1 then trace @ ''-'' @ Itoa seq
      else trace)"

definition client_request :: "options \<Rightarrow> time \<Rightarrow> int \<Rightarrow> client_request" where
  "client_request opt now seq =
     (let session = request_session opt seq in
      \<lparr>cq_url = op_addr opt,
       cq_headers = [(''X-Message-Id'', FormatUint (op_messageID opt))] @
         (if session \<noteq> [] then [(''X-Session-Id'', session)] else []) @ [(''X-Trace-Id'', request_trace opt now seq)],
       cq_body = string_bytes (op_body opt)\<rparr>)"

text \<open>How the exchange ends: at \<open>NewRequest\<close>, at \<open>Do\<close>, while the body is read, or with a response.\<close>

datatype exchange =
    NoRequest gerr
  | NoResponse gerr
  | Broken int int string gerr \<comment> \<open>status, major version, transaction id\<close>
  | Answered int int string bytes

definition doRequest :: "exchange \<Rightarrow> options \<Rightarrow> time \<Rightarrow> duration \<Rightarrow> int \<Rightarrow> call_result" where
  "doRequest ex opt now d seq =
     (let session = request_session opt seq; trace = request_trace opt now seq;
          base = \<lparr>r_status = 0, r_protoMajor = 0, r_latency = d, r_txID = [], r_traceID = trace, r_sessionID = session,
                  r_body = [], r_err = None\<rparr> in
      case ex of
        NoRequest err \<Rightarrow> base\<lparr>r_traceID := [], r_sessionID := [], r_err := Some err\<rparr>
      | NoResponse err \<Rightarrow> base\<lparr>r_err := Some err\<rparr>
      | Broken status major txID err \<Rightarrow> base\<lparr>r_status := status, r_protoMajor := major, r_txID := txID, r_err := Some err\<rparr>
      | Answered status major txID out \<Rightarrow> base\<lparr>r_status := status, r_protoMajor := major, r_txID := txID, r_body := out\<rparr>)"

text \<open>\<open>roundRobinH2Transport\<close>: the transport a request goes over, and the new counter.\<close>

definition h2_conns :: nat where "h2_conns = 4"

definition RoundTrip_pick :: "nat \<Rightarrow> u64 \<Rightarrow> nat res \<times> u64" where
  "RoundTrip_pick k n =
     (if k = 0 then (Inl (Opaque ''http2 transport not configured''), n)
      else let i = n + 1 in (Inr (unat i mod k), i))"

definition float_le0 :: "float64 \<Rightarrow> bool" where
  "float_le0 q \<longleftrightarrow> float_neg q \<or> take_bit 63 q = 0"

text \<open>\<open>mk\<close> is \<open>rate.NewLimiter\<close>.\<close>

definition newQPSLimiter :: "(float64 \<Rightarrow> int \<Rightarrow> 'l) \<Rightarrow> float64 \<Rightarrow> 'l option" where
  "newQPSLimiter mk qps = (if float_le0 qps then None else Some (mk qps 1))"

definition load_options :: "options \<Rightarrow> load_opts" where
  "load_options opt = \<lparr>lo_n = op_n opt, lo_limited = \<not> float_le0 (op_qps opt), lo_deadline = op_duration opt > 0\<rparr>"

section \<open>\<open>main\<close>\<close>

definition single_request :: "options \<Rightarrow> bool" where
  "single_request opt \<longleftrightarrow> op_n opt = 1 \<and> op_c opt = 1 \<and> op_duration opt = 0"

definition single_exit :: "call_result \<Rightarrow> int" where
  "single_exit r = (if r_err r \<noteq> None then 1 else if r_status r \<ge> 400 then 1 else 0)"

text \<open>
  The exit status: \<open>cfg\<close> is the result of loading the configuration when one is named, \<open>single\<close> the
  result of the one request, \<open>loaded\<close> the statistics of \<open>runLoad\<close>.
\<close>

definition client_main ::
  "string set \<Rightarrow> string \<Rightarrow> load_client_cfg res option \<Rightarrow> options \<Rightarrow> (options \<Rightarrow> call_result) \<Rightarrow> (options \<Rightarrow> stats) \<Rightarrow> int" where
  "client_main given masterURL cfg opt0 single loaded =
     (case cfg of
        Some (Inl err) \<Rightarrow> 2
      | _ \<Rightarrow>
         (case client_setup given masterURL (Option.bind cfg (\<lambda>r. case r of Inl _ \<Rightarrow> None | Inr c \<Rightarrow> Some c)) opt0 of
            Inl msg \<Rightarrow> 2
          | Inr (opt, master) \<Rightarrow> if single_request opt then single_exit (single opt) else load_exit (loaded opt)))"

section \<open>The options of a run\<close>

lemma option_error_None:
  "option_error opt = None \<longleftrightarrow> op_messageID opt \<noteq> 0 \<and> op_c opt \<ge> 1 \<and> op_n opt \<ge> 0 \<and>
     (op_n opt > 0 \<or> op_duration opt > 0) \<and> \<not> float_neg (op_qps opt)"
  by (auto simp: option_error_def)

lemma client_setup_Inr:
  assumes "client_setup given masterURL cfg opt0 = Inr (opt, master)"
  shows "option_error opt = None" "\<exists>base. op_addr opt = TrimRightSlash base @ ''/v1/data''"
  using assms by (auto simp: client_setup_def Let_def option_error_None split: prod.splits option.splits)

lemma widened: "unat (ucast (w :: u32) :: u64) = unat w"
proof -
  have "unat w < 2 ^ 32" using unsigned_less [of w] by simp
  then show ?thesis by (simp add: unsigned_ucast_eq take_bit_nat_eq_self_iff)
qed

text \<open>
  A loaded configuration needs no flag: without flags the run takes its target, message id, session,
  body, timeout, concurrency, rate, duration and number from the configuration, and no check fails.
\<close>

lemma configured_options_valid:
  assumes "LoadLoadClient scan scale raw = Inr cfg"
  shows "client_setup {} master (Some cfg) opt0 =
    Inr ((config_options {} cfg opt0)\<lparr>op_addr := TrimRightSlash (cl_Target cfg) @ ''/v1/data''\<rparr>,
      if master = [] then cl_MasterURL cfg else master)"
proof -
  have "LoadClient_Validate scan scale cfg = None"
    using assms by (auto simp: LoadLoadClient_def Let_def split: option.splits)
  then have "cl_MessageID cfg \<noteq> 0" "\<not> cl_Concurrency cfg < 1" "\<not> float_neg (cl_QPS cfg)" "\<not> cl_N cfg < 0"
      "\<not> (cl_N cfg = 0 \<and> cl_Duration cfg \<le> 0)"
    by (auto simp: LoadClient_Validate_def Let_def)
  moreover have "(ucast (cl_MessageID cfg) :: u64) = 0 \<longleftrightarrow> cl_MessageID cfg = 0"
    using widened [of "cl_MessageID cfg"] by (metis unat_eq_zero)
  ultimately have "option_error (config_options {} cfg opt0) = None"
    by (auto simp: option_error_None config_options_def)
  then show ?thesis by (simp add: client_setup_def config_options_def)
qed

section \<open>What the gateway makes of a request\<close>

text \<open>\<open>Header.Get\<close>, and the request as the gateway's handler sees it.\<close>

definition Header_Get :: "string \<Rightarrow> (string \<times> string) list \<Rightarrow> string" where
  "Header_Get name hs = (case map_of hs name of None \<Rightarrow> [] | Some v \<Rightarrow> v)"

definition received :: "client_request \<Rightarrow> 'r \<Rightarrow> 'r http_request" where
  "received q body =
     \<lparr>hr_message_id = Header_Get ''X-Message-Id'' (cq_headers q), hr_session_id = Header_Get ''X-Session-Id'' (cq_headers q),
      hr_trace_id = Header_Get ''X-Trace-Id'' (cq_headers q), hr_body = body\<rparr>"

lemma digits_plain: "c \<in> set (Itoa n) \<Longrightarrow> 33 \<le> byte c \<and> byte c < 128"
  by (auto simp: Itoa_def byte_def is_digit_def dest!: fmt_nat_digits split: if_splits)

lemma lead_space_start:
  assumes "33 \<le> byte c" "byte c < 128"
  shows "lead_space (c # t) = 0"
  using assms
  by (cases "c # t" rule: lead_space.cases) (auto simp: ascii_space_def space2_def space3_def split: if_splits)

lemma lead_space_plain:
  assumes "33 \<le> byte c" "byte c < 128" "lead_space x = 0"
  shows "lead_space (x @ c # t) = 0"
  using assms
  by (cases x rule: lead_space.cases; cases t)
    (auto simp: lead_space_start ascii_space_def space2_def space3_def split: if_splits)

lemma trail_space_plain:
  assumes "33 \<le> byte c" "byte c < 128"
  shows "trail_space (c # t) = 0"
  using assms
  by (cases "c # t" rule: trail_space.cases) (auto simp: ascii_space_def space2_def space3_def split: if_splits)

lemma TrimSpace_fixed: "lead_space s = 0 \<Longrightarrow> trail_space (rev s) = 0 \<Longrightarrow> TrimSpace s = s"
  by (simp add: TrimSpace_def trim_left_id trim_rev_id)

text \<open>A trimmed prefix and a number stay as they are.\<close>

lemma TrimSpace_numbered:
  assumes "lead_space x = 0"
  shows "TrimSpace (x @ CHR ''-'' # Itoa n) = x @ CHR ''-'' # Itoa n"
proof (rule TrimSpace_fixed)
  show "lead_space (x @ CHR ''-'' # Itoa n) = 0"
    using assms by (intro lead_space_plain) (simp_all add: byte_def)
  have "Itoa n \<noteq> []" by (simp add: Itoa_def)
  then obtain c t where c: "rev (Itoa n) = c # t" by (cases "rev (Itoa n)") auto
  then have "c \<in> set (Itoa n)" by (metis list.set_intros(1) set_rev)
  then show "trail_space (rev (x @ CHR ''-'' # Itoa n)) = 0"
    using digits_plain [of c n] c by (simp add: trail_space_plain)
qed

lemma session_trimmed: "TrimSpace (request_session opt seq) = request_session opt seq"
  using TrimSpace_numbered TrimSpace_trimmed by (simp add: request_session_def Let_def)

lemma trace_trimmed: "TrimSpace (request_trace opt now seq) = request_trace opt now seq"
proof -
  have "lead_space (''cli-'' @ Itoa m) = 0" for m
    by (simp only: append_Cons) (rule lead_space_start; simp add: byte_def)
  then have "TrimSpace ((''cli-'' @ Itoa m) @ CHR ''-'' # Itoa seq) = (''cli-'' @ Itoa m) @ CHR ''-'' # Itoa seq" for m
    by (rule TrimSpace_numbered)
  then show ?thesis using TrimSpace_numbered TrimSpace_trimmed by (simp add: request_trace_def Let_def)
qed

lemma FormatUint_trim: "TrimSpace (FormatUint (w :: 'a::len word)) = FormatUint w"
proof (rule TrimSpace_fixed)
  have plain: "33 \<le> byte c \<and> byte c < 128" if "c \<in> set (FormatUint w)" for c
    using digits_plain [of c "int (unat w)"] that by (simp add: FormatUint_def Itoa_def)
  obtain c t where "FormatUint w = c # t" by (cases "FormatUint w") auto
  then show "lead_space (FormatUint w) = 0" using plain lead_space_plain [of c "[]" t] by simp
  obtain c' t' where "rev (FormatUint w) = c' # t'" by (cases "rev (FormatUint w)") auto
  then show "trail_space (rev (FormatUint w)) = 0"
    using plain trail_space_plain [of c' t'] by (metis list.set_intros(1) set_rev)
qed

lemma message_id_header:
  "parseUint32Header (FormatUint (w :: u64)) = (if unat w < 2 ^ 32 then Some (ucast w) else None)"
proof -
  have "of_nat (unat w) = (ucast w :: u32)" by (simp add: unsigned_ucast_eq)
  then show ?thesis
    unfolding parseUint32Header_def FormatUint_trim Let_def
    by (simp add: FormatUint_def ParseUint_fmt_nat)
qed

lemma client_headers:
  "Header_Get ''X-Message-Id'' (cq_headers (client_request opt now seq)) = FormatUint (op_messageID opt)"
  "Header_Get ''X-Session-Id'' (cq_headers (client_request opt now seq)) = request_session opt seq"
  "Header_Get ''X-Trace-Id'' (cq_headers (client_request opt now seq)) = request_trace opt now seq"
  by (simp_all add: Header_Get_def client_request_def Let_def)

text \<open>\<open>rt_run k n m\<close>: the transports of \<open>m\<close> requests in turn over \<open>k\<close> transports.\<close>

fun rt_run :: "nat \<Rightarrow> u64 \<Rightarrow> nat \<Rightarrow> nat list" where
  "rt_run k n 0 = []"
| "rt_run k n (Suc m) = (case RoundTrip_pick k n of (Inr i, n') \<Rightarrow> i # rt_run k n' m | (Inl _, _) \<Rightarrow> [])"

lemma pick_next: "unat (n + 1 :: u64) mod 4 = Suc (unat n) mod 4"
proof -
  have "unat (n + 1) = Suc (unat n) mod 2 ^ 64" by (simp add: unat_word_ariths)
  then show ?thesis by (simp add: mod_mod_cancel)
qed

lemma rt_run_map: "rt_run h2_conns n m = map (\<lambda>k. (unat n + Suc k) mod 4) [0..<m]"
proof (induction m arbitrary: n)
  case (Suc m)
  have "(unat (n + 1) + Suc k) mod 4 = (unat n + Suc (Suc k)) mod 4" for k
    using pick_next [of n] mod_add_left_eq [of "unat (n + 1)" 4 "Suc k"] mod_add_left_eq [of "Suc (unat n)" 4 "Suc k"] by simp
  then show ?case
    using Suc [of "n + 1"] pick_next [of n] by (simp add: RoundTrip_pick_def h2_conns_def Let_def map_upt_Suc del: upt_Suc)
qed simp

lemma count_block:
  assumes "i < 4"
  shows "count_list (map (\<lambda>k. (a + k) mod 4) [b, b + 1, b + 2, b + 3 :: nat]) i = 1"
proof -
  define c where "c = (a + b) mod 4"
  have c: "(a + (b + k)) mod 4 = (c + k) mod 4" for k by (simp add: c_def mod_add_left_eq add.assoc)
  have "map (\<lambda>k. (a + k) mod 4) [b, b + 1, b + 2, b + 3] = [c, (c + 1) mod 4, (c + 2) mod 4, (c + 3) mod 4]"
    by (simp only: list.map c c_def [symmetric])
  moreover have "c = 0 \<or> c = 1 \<or> c = 2 \<or> c = 3" unfolding c_def by linarith
  moreover have "i = 0 \<or> i = 1 \<or> i = 2 \<or> i = 3" using assms by linarith
  ultimately show ?thesis by (elim disjE) simp_all
qed

text \<open>
  The four connections are used evenly: of any 4 r requests in a row each of them carries r, from
  whatever count, even when the 64-bit counter wraps.
\<close>

lemma transports_balanced:
  assumes "i < 4"
  shows "count_list (rt_run h2_conns n (4 * r)) i = r"
proof (induction r)
  case (Suc r)
  have "[4 * r..<4 * r + 4] = [4 * r, 4 * r + 1, 4 * r + 2, 4 * r + 3]" by (simp add: upt_conv_Cons)
  then have split: "[0..<4 * Suc r] = [0..<4 * r] @ [4 * r, 4 * r + 1, 4 * r + 2, 4 * r + 3]"
    using upt_add_eq_append [of 0 "4 * r" 4] by (simp add: add.commute)
  show ?case
    using Suc count_block [OF assms, of "Suc (unat n)" "4 * r"]
    unfolding rt_run_map split map_append count_list_append by simp
qed simp

text \<open>With \<open>-unique-session\<close> no two requests of a run share a session.\<close>

lemma unique_sessions:
  assumes "load_run (load_options opt) False (load_start c) evs s" "0 < c" "\<forall>p \<in> set (ld_workers s). p = Finished"
    and "0 < op_n opt" "float_le0 (op_qps opt)" "op_duration opt \<le> 0" "op_uniqueSession opt"
  shows "distinct (map (request_session opt) (ld_made s))"
proof -
  have "mset (ld_made s) = mset [1..op_n opt]"
    using load_makes_n [OF assms(1-3)] assms(4-6) by (simp add: load_options_def)
  then have "distinct (ld_made s)" by (metis distinct_upto mset_eq_imp_distinct_iff)
  moreover have "inj (request_session opt)"
    using assms(7) by (auto simp: inj_def request_session_def Let_def)
  ultimately show ?thesis by (auto simp: distinct_map intro: inj_on_subset)
qed

section \<open>Client and gateway\<close>

text \<open>
  C28: What the load generator asks is what the gateway handles: a request made with options that
  passed its checks, once past the gateway's rate limits and read over a connection without errors
  and empty reads, is answered 400 when the message id has more than 32 bits (the client's check
  admits such ids), 413 when the body is longer than \<open>maxBody\<close>, both without reaching the transaction
  layer, and otherwise the handler hands exactly one DATA request to it, with the message id,
  session, trace and body of the client.
\<close>

theorem client_request_admitted:
  assumes "client_setup given master cfg opt0 = Inr (opt, master')" "io_reader rem rd" "steady rd body"
    and "rem body = string_bytes (op_body opt)"
    and "run = serveData (\<lambda>e sent. Some (answer, txID, sent @ [e])) rd pooled hcfg now
        (received (client_request opt t seq) body) s"
  shows "if unat (op_messageID opt) \<ge> 2 ^ 32
    then run = Some ((400, ReasonMissingMessageID), s\<lparr>hs_w := hs_w s @ [HError ''X-Message-Id is required'' 400]\<rparr>)
    else if length (op_body opt) > maxBody
    then run = Some ((413, ReasonBodyTooLarge), s\<lparr>hs_w := hs_w s @ [HError ''body too large'' 413]\<rparr>)
    else \<exists>res s' env q. run = Some (res, s') \<and> hs_tx s' = hs_tx s @ [env] \<and>
      env_trace_id env = request_trace opt t seq \<and> GetDataRequest env = Some q \<and>
      unat (dr_message_id q) = unat (op_messageID opt) \<and> dr_message_id q \<noteq> 0 \<and>
      dr_session_id q = request_session opt seq \<and> dr_payload q = string_bytes (op_body opt)"
proof (cases "unat (op_messageID opt) < 2 ^ 32")
  case True
  let ?req = "received (client_request opt t seq) body"
  let ?id = "ucast (op_messageID opt) :: u32"
  let ?env = "http_envelope hcfg now ?id ?req (string_bytes (op_body opt))"
  have id: "unat ?id = unat (op_messageID opt)" using True by (simp add: unsigned_ucast_eq take_bit_nat_eq_self_iff)
  moreover have "op_messageID opt \<noteq> 0" using client_setup_Inr [OF assms(1)] by (simp add: option_error_None)
  ultimately have nz: "?id \<noteq> 0" by (metis unat_eq_zero)
  have parsed: "parseUint32Header (hr_message_id ?req) = Some ?id"
    using True by (simp add: received_def client_headers message_id_header)
  have read: "readBodyPooled rd pooled (int maxBody + 1) (hr_body ?req) =
      Inr (take (maxBody + 1) (string_bytes (op_body opt)))"
    using steady_body [OF assms(2,3), of pooled] assms(4) by (simp add: received_def)
  have len: "length (string_bytes (op_body opt)) = length (op_body opt)" by (simp add: string_bytes_def)
  show ?thesis
  proof (cases "length (op_body opt) > maxBody")
    case large: True
    then have "length (take (maxBody + 1) (string_bytes (op_body opt))) > maxBody" by (simp add: len)
    then show ?thesis using True large parsed nz read by (simp add: assms(5) serveData_def)
  next
    case False
    then have "take (maxBody + 1) (string_bytes (op_body opt)) = string_bytes (op_body opt)" by (simp add: len)
    then have "\<exists>res s'. run = Some (res, s') \<and> hs_tx s' = hs_tx s @ [?env]"
      using parsed nz read False len
      by (cases answer) (auto simp: assms(5) serveData_def split: prod.split)
    moreover have "env_trace_id ?env = request_trace opt t seq" "GetDataRequest ?env =
        Some \<lparr>dr_message_id = ?id, dr_session_id = request_session opt seq, dr_payload = string_bytes (op_body opt)\<rparr>"
      by (simp_all add: http_envelope_def received_def client_headers session_trimmed trace_trimmed)
    ultimately show ?thesis using True False id nz by fastforce
  qed
next
  case False
  then show ?thesis by (simp add: assms(5) serveData_def received_def client_headers message_id_header)
qed

definition w_recorder :: "(envelope list, unit) http" where
  "w_recorder = \<lparr>hs_tx = [], hs_gate = newRPSGate False 0 (\<lambda>_. ()) 0, hs_met = NewMetrics, hs_w = [], hs_released = []\<rparr>"

theorem client_request_admitted_witness:
  "\<exists>opt res s' env q. client_setup {} [] None flag_defaults = Inr (opt, []) \<and>
     serveData (\<lambda>e sent. Some (Inr None, 9, sent @ [e])) w_reader 0 \<lparr>hc_NodeID = 1, hc_MaxPending = 0\<rparr> 0
       (received (client_request opt 0 1) (string_bytes ''hello'')) w_recorder = Some (res, s') \<and>
     hs_tx s' = [env] \<and> GetDataRequest env = Some q \<and> unat (dr_message_id q) = 1001 \<and>
     dr_payload q = string_bytes ''hello''"
proof -
  let ?opt = "flag_defaults\<lparr>op_addr := TrimRightSlash (op_addr flag_defaults) @ ''/v1/data''\<rparr>"
  have "option_error flag_defaults = None"
    by (simp add: option_error_None flag_defaults_def float_neg_def)
  then have set_up: "client_setup {} [] None flag_defaults = Inr (?opt, [])" by (simp add: client_setup_def)
  have opt: "op_body ?opt = ''hello''" "op_messageID ?opt = 1001" by (simp_all add: flag_defaults_def)
  have "hs_tx w_recorder = []" by (simp add: w_recorder_def)
  then show ?thesis
    using client_request_admitted [OF set_up w_reader_io w_reader_steady _ refl, of "string_bytes ''hello''" "Inr None" 9 0
        "\<lparr>hc_NodeID = 1, hc_MaxPending = 0\<rparr>" 0 0 1 w_recorder] set_up
    unfolding opt by (simp add: maxBody_def) blast
qed

end
