(* ===== verification/RegistryHeap.thy ===== *)
theory RegistryHeap imports Registry begin

text \<open>
  \<open>internal/registry\<close> at the level of pointers: \<open>Memory\<close> holds pointers to nodes, a node holds a
  slice of services, a service a slice of message types, and all of them live in one heap that the
  registry shares with its callers.  \<open>cloneNode\<close> and \<open>cloneServices\<close> copy; \<open>Register\<close> stores a copy
  of the caller's node, \<open>Get\<close>, \<open>List\<close>, \<open>ApplyHeartbeat\<close> and the sweep hand out copies.

  Shown: whatever callers write through the pointers they hold or got, the registry refines the map
  of values of theory \<open>Registry\<close>: every operation returns and stores what it does there, and a
  caller's write is no operation at all.
\<close>

section \<open>The heap\<close>

text \<open>A slice header: its array, and the window of the array it shows.\<close>

record slice =
  sl_arr :: nat
  sl_off :: nat
  sl_len :: nat

record hservice =
  hs_id :: u32
  hs_name :: string
  hs_types :: "slice option"

text \<open>A node in the heap: its plain fields (\<open>Services\<close> of \<open>hn_plain\<close> is not used) and its slice.\<close>

record hnode =
  hn_plain :: node
  hn_services :: "slice option"

text \<open>Arrays and nodes by address; addresses from \<open>hp_next\<close> on are free.\<close>

record heap =
  hp_nodes :: "nat \<Rightarrow> hnode"
  hp_services :: "nat \<Rightarrow> hservice list"
  hp_types :: "nat \<Rightarrow> u32 list"
  hp_next :: nat

definition slice_of :: "(nat \<Rightarrow> 'a list) \<Rightarrow> slice option \<Rightarrow> 'a list" where
  "slice_of arrays sl = (case sl of None \<Rightarrow> [] | Some s \<Rightarrow> take (sl_len s) (drop (sl_off s) (arrays (sl_arr s))))"

definition whole :: "nat \<Rightarrow> 'a list \<Rightarrow> slice" where
  "whole a xs = \<lparr>sl_arr = a, sl_off = 0, sl_len = length xs\<rparr>"

definition read_service :: "heap \<Rightarrow> hservice \<Rightarrow> service" where
  "read_service h s = \<lparr>svc_id = hs_id s, svc_name = hs_name s, svc_message_types = slice_of (hp_types h) (hs_types s)\<rparr>"

definition read_services :: "heap \<Rightarrow> slice option \<Rightarrow> service list" where
  "read_services h sl = map (read_service h) (slice_of (hp_services h) sl)"

definition read_node :: "heap \<Rightarrow> nat \<Rightarrow> node" where
  "read_node h p = (hn_plain (hp_nodes h p))\<lparr>Services := read_services h (hn_services (hp_nodes h p))\<rparr>"

section \<open>Cloning (\<open>node.go\<close>)\<close>

text \<open>\<open>append([]uint32(nil), xs...)\<close> of an empty \<open>xs\<close> is nil.\<close>

definition clone_service :: "hservice \<Rightarrow> heap \<Rightarrow> hservice \<times> heap" where
  "clone_service s h =
     (let ts = slice_of (hp_types h) (hs_types s)
      in if ts = [] then (s\<lparr>hs_types := None\<rparr>, h)
         else (s\<lparr>hs_types := Some (whole (hp_next h) ts)\<rparr>,
               h\<lparr>hp_types := (hp_types h)(hp_next h := ts), hp_next := hp_next h + 1\<rparr>))"

fun clone_each :: "hservice list \<Rightarrow> heap \<Rightarrow> hservice list \<times> heap" where
  "clone_each [] h = ([], h)"
| "clone_each (s # ss) h =
     (let (s', h1) = clone_service s h; (ss', h2) = clone_each ss h1 in (s' # ss', h2))"

definition cloneServices :: "slice option \<Rightarrow> heap \<Rightarrow> slice option \<times> heap" where
  "cloneServices sl h =
     (case sl of
        None \<Rightarrow> (None, h)
      | Some _ \<Rightarrow>
          let (out, h1) = clone_each (slice_of (hp_services h) sl) h
          in (Some (whole (hp_next h1) out),
              h1\<lparr>hp_services := (hp_services h1)(hp_next h1 := out), hp_next := hp_next h1 + 1\<rparr>))"

definition cloneNode :: "nat \<Rightarrow> heap \<Rightarrow> nat \<times> heap" where
  "cloneNode p h =
     (let n = hp_nodes h p; (sv, h1) = cloneServices (hn_services n) h
      in (hp_next h1, h1\<lparr>hp_nodes := (hp_nodes h1)(hp_next h1 := n\<lparr>hn_services := sv\<rparr>), hp_next := hp_next h1 + 1\<rparr>))"

section \<open>\<open>Memory\<close> on pointers (\<open>registry.go\<close>)\<close>

type_synonym hmemory = "u32 \<rightharpoonup> nat"

definition set_plain :: "nat \<Rightarrow> (node \<Rightarrow> node) \<Rightarrow> heap \<Rightarrow> heap" where
  "set_plain p f h = h\<lparr>hp_nodes := (hp_nodes h)(p := (hp_nodes h p)\<lparr>hn_plain := f (hn_plain (hp_nodes h p))\<rparr>)\<rparr>"

definition heap_Register :: "time \<Rightarrow> nat option \<Rightarrow> heap \<times> hmemory \<Rightarrow> gerr option \<times> heap \<times> hmemory" where
  "heap_Register now ptr s =
     (case s of (h, m) \<Rightarrow> case ptr of
        None \<Rightarrow> (Some (errorf (Registry ErrInvalidNode) [Lit ''node_id is required'']), h, m)
      | Some p \<Rightarrow>
          if node_id (hn_plain (hp_nodes h p)) = 0
          then (Some (errorf (Registry ErrInvalidNode) [Lit ''node_id is required'']), h, m)
          else let (stored, h1) = cloneNode p h;
                   h2 = set_plain stored (\<lambda>n. n\<lparr>State := NodeStateRegistered, LastHeartbeatAt := now\<rparr>) h1
               in (None, h2, m(node_id (hn_plain (hp_nodes h2 stored)) \<mapsto> stored)))"

definition heap_Get :: "u32 \<Rightarrow> heap \<times> hmemory \<Rightarrow> nat option \<times> heap \<times> hmemory" where
  "heap_Get nodeID s =
     (case s of (h, m) \<Rightarrow> case m nodeID of
        None \<Rightarrow> (None, h, m)
      | Some p \<Rightarrow> let (q, h1) = cloneNode p h in (Some q, h1, m))"

definition heap_Remove :: "u32 \<Rightarrow> heap \<times> hmemory \<Rightarrow> gerr option \<times> heap \<times> hmemory" where
  "heap_Remove nodeID s =
     (case s of (h, m) \<Rightarrow>
        if m nodeID = None then (Some (Sentinel (Registry ErrNotFound)), h, m) else (None, h, m(nodeID := None)))"

fun clone_list :: "u32 list \<Rightarrow> hmemory \<Rightarrow> heap \<Rightarrow> nat list \<times> heap" where
  "clone_list [] m h = ([], h)"
| "clone_list (k # ks) m h =
     (case m k of
        None \<Rightarrow> clone_list ks m h
      | Some p \<Rightarrow> let (q, h1) = cloneNode p h; (qs, h2) = clone_list ks m h1 in (q # qs, h2))"

definition heap_List :: "u32 list \<Rightarrow> heap \<times> hmemory \<Rightarrow> nat list \<times> heap \<times> hmemory" where
  "heap_List order s = (case s of (h, m) \<Rightarrow> let (qs, h1) = clone_list order m h in (qs, h1, m))"

definition heap_ApplyHeartbeat ::
  "u32 \<Rightarrow> time \<Rightarrow> hb_transition option \<Rightarrow> heap \<times> hmemory \<Rightarrow> (nat option \<times> gerr option) \<times> heap \<times> hmemory" where
  "heap_ApplyHeartbeat nodeID at transition s =
     (case s of (h, m) \<Rightarrow>
        if nodeID = 0
        then ((None, Some (errorf (Registry ErrInvalidNode) [Lit ''node_id is required''])), h, m)
        else case transition of
          None \<Rightarrow> ((None, Some (errorf (Registry ErrInvalidNode) [Lit ''missing heartbeat transition''])), h, m)
        | Some tr \<Rightarrow>
           (case m nodeID of
              None \<Rightarrow> ((None, Some (Sentinel (Registry ErrNotFound))), h, m)
            | Some p \<Rightarrow>
               (case tr (State (hn_plain (hp_nodes h p))) of
                  Inl e \<Rightarrow> let (q, h1) = cloneNode p h in ((Some q, Some e), h1, m)
                | Inr next \<Rightarrow>
                    let h1 = set_plain p (\<lambda>n. n\<lparr>State := next, LastHeartbeatAt := at\<rparr>) h; (q, h2) = cloneNode p h1
                    in ((Some q, None), h2, m))))"

fun heap_timeouts ::
  "time \<Rightarrow> (node \<Rightarrow> bool) option \<Rightarrow> to_transition \<Rightarrow> u32 list \<Rightarrow> hmemory \<Rightarrow> heap \<Rightarrow> nat list \<times> heap" where
  "heap_timeouts now skip tr [] m h = ([], h)"
| "heap_timeouts now skip tr (k # ks) m h =
     (case m k of
        None \<Rightarrow> heap_timeouts now skip tr ks m h
      | Some p \<Rightarrow>
          if (case skip of None \<Rightarrow> False | Some f \<Rightarrow> f (read_node h p)) then heap_timeouts now skip tr ks m h
          else case tr (State (hn_plain (hp_nodes h p))) (LastHeartbeatAt (hn_plain (hp_nodes h p))) now of (next, ok) \<Rightarrow>
            if \<not> ok \<or> next = State (hn_plain (hp_nodes h p)) then heap_timeouts now skip tr ks m h
            else let h1 = set_plain p (\<lambda>n. n\<lparr>State := next\<rparr>) h; (q, h2) = cloneNode p h1;
                     (qs, h3) = heap_timeouts now skip tr ks m h2
                 in (q # qs, h3))"

definition heap_ApplyTimeoutsExcept ::
  "time \<Rightarrow> (node \<Rightarrow> bool) option \<Rightarrow> to_transition option \<Rightarrow> u32 list \<Rightarrow> heap \<times> hmemory \<Rightarrow> nat list \<times> heap \<times> hmemory" where
  "heap_ApplyTimeoutsExcept now skip transition order s =
     (case s of (h, m) \<Rightarrow> case transition of
        None \<Rightarrow> ([], h, m)
      | Some tr \<Rightarrow> let (qs, h1) = heap_timeouts now skip tr order m h in (qs, h1, m))"

definition heap_SetRuntime :: "u32 \<Rightarrow> u32 \<Rightarrow> u32 \<Rightarrow> heap \<times> hmemory \<Rightarrow> gerr option \<times> heap \<times> hmemory" where
  "heap_SetRuntime nodeID load activeTransaction s =
     (case s of (h, m) \<Rightarrow>
        if nodeID = 0 then (Some (errorf (Registry ErrInvalidNode) [Lit ''node_id is required'']), h, m)
        else case m nodeID of
          None \<Rightarrow> (Some (Sentinel (Registry ErrNotFound)), h, m)
        | Some p \<Rightarrow> (None, set_plain p (\<lambda>n. n\<lparr>Load := load, ActiveTransaction := activeTransaction\<rparr>) h, m))"

section \<open>Cells and sharing\<close>

datatype cell = NodeCell nat | ServicesCell nat | TypesCell nat

fun cell_addr :: "cell \<Rightarrow> nat" where
  "cell_addr (NodeCell a) = a"
| "cell_addr (ServicesCell a) = a"
| "cell_addr (TypesCell a) = a"

definition types_cells :: "slice option \<Rightarrow> cell set" where
  "types_cells sl = (case sl of None \<Rightarrow> {} | Some s \<Rightarrow> {TypesCell (sl_arr s)})"

definition services_cells :: "heap \<Rightarrow> slice option \<Rightarrow> cell set" where
  "services_cells h sl =
     (case sl of
        None \<Rightarrow> {}
      | Some s \<Rightarrow> insert (ServicesCell (sl_arr s)) (\<Union>x\<in>set (hp_services h (sl_arr s)). types_cells (hs_types x)))"

text \<open>Everything reachable from a node pointer.\<close>

definition node_cells :: "heap \<Rightarrow> nat \<Rightarrow> cell set" where
  "node_cells h p = insert (NodeCell p) (services_cells h (hn_services (hp_nodes h p)))"

definition agree :: "cell set \<Rightarrow> heap \<Rightarrow> heap \<Rightarrow> bool" where
  "agree C h h' \<longleftrightarrow>
     (\<forall>a. (NodeCell a \<in> C \<longrightarrow> hp_nodes h' a = hp_nodes h a) \<and>
          (ServicesCell a \<in> C \<longrightarrow> hp_services h' a = hp_services h a) \<and>
          (TypesCell a \<in> C \<longrightarrow> hp_types h' a = hp_types h a))"

definition allocated :: "heap \<Rightarrow> cell set" where
  "allocated h = {c. cell_addr c < hp_next h}"

definition extends :: "heap \<Rightarrow> heap \<Rightarrow> bool" where
  "extends h h' \<longleftrightarrow> hp_next h \<le> hp_next h' \<and> agree (allocated h) h h'"

lemma agree_mono: "agree D h h' \<Longrightarrow> C \<subseteq> D \<Longrightarrow> agree C h h'"
  by (auto simp: agree_def)

lemma agree_trans: "agree C h h1 \<Longrightarrow> agree C h1 h2 \<Longrightarrow> agree C h h2"
  by (auto simp: agree_def)

lemma extends_refl [simp]: "extends h h"
  by (simp add: extends_def agree_def)

lemma extends_trans: "extends h h1 \<Longrightarrow> extends h1 h2 \<Longrightarrow> extends h h2"
  unfolding extends_def by (metis agree_mono agree_trans allocated_def le_trans mem_Collect_eq order_less_le_trans subsetI)

lemma allocated_mono: "extends h h' \<Longrightarrow> allocated h \<subseteq> allocated h'"
  by (auto simp: extends_def allocated_def)

lemma slice_of_agree:
  "agree C h h' \<Longrightarrow> types_cells sl \<subseteq> C \<Longrightarrow> slice_of (hp_types h') sl = slice_of (hp_types h) sl"
  by (auto simp: slice_of_def types_cells_def agree_def split: option.split)

lemma services_of_agree:
  "agree C h h' \<Longrightarrow> services_cells h sl \<subseteq> C \<Longrightarrow> slice_of (hp_services h') sl = slice_of (hp_services h) sl"
  by (auto simp: slice_of_def services_cells_def agree_def split: option.split)

lemma services_cells_agree:
  "agree C h h' \<Longrightarrow> services_cells h sl \<subseteq> C \<Longrightarrow> services_cells h' sl = services_cells h sl"
  by (auto simp: services_cells_def agree_def split: option.split)

lemma slice_types_cells:
  "x \<in> set (slice_of (hp_services h) sl) \<Longrightarrow> types_cells (hs_types x) \<subseteq> services_cells h sl"
  by (auto simp: slice_of_def services_cells_def split: option.splits dest: in_set_takeD in_set_dropD)

lemma read_service_agree:
  "agree C h h' \<Longrightarrow> types_cells (hs_types x) \<subseteq> C \<Longrightarrow> read_service h' x = read_service h x"
  by (simp add: read_service_def slice_of_agree)

lemma read_services_agree:
  assumes "agree C h h'" "services_cells h sl \<subseteq> C"
  shows "read_services h' sl = read_services h sl"
  using assms slice_types_cells [of _ h sl]
  by (auto simp: read_services_def services_of_agree intro!: read_service_agree)

lemma read_node_agree:
  assumes "agree C h h'" "node_cells h p \<subseteq> C"
  shows "hp_nodes h' p = hp_nodes h p" "read_node h' p = read_node h p" "node_cells h' p = node_cells h p"
proof -
  show n: "hp_nodes h' p = hp_nodes h p" using assms by (auto simp: agree_def node_cells_def)
  show "read_node h' p = read_node h p" "node_cells h' p = node_cells h p"
    using assms read_services_agree [OF assms(1)] services_cells_agree [OF assms(1)]
    by (auto simp: read_node_def node_cells_def n)
qed

section \<open>A clone is a fresh copy\<close>

definition fresh_between :: "heap \<Rightarrow> heap \<Rightarrow> cell set" where
  "fresh_between h h' = {c. hp_next h \<le> cell_addr c \<and> cell_addr c < hp_next h'}"

lemma fresh_between_trans:
  "extends h h1 \<Longrightarrow> extends h1 h2 \<Longrightarrow> fresh_between h h1 \<subseteq> fresh_between h h2 \<and> fresh_between h1 h2 \<subseteq> fresh_between h h2"
  by (auto simp: fresh_between_def extends_def)

lemma slice_of_whole [simp]: "a x = ts \<Longrightarrow> slice_of a (Some (whole x ts)) = ts"
  by (simp add: slice_of_def whole_def)

lemma types_cells_whole [simp]: "types_cells (Some (whole x ts)) = {TypesCell x}" "types_cells None = {}"
  by (simp_all add: types_cells_def whole_def)

lemma clone_service_copy:
  assumes "types_cells (hs_types s) \<subseteq> allocated h" "clone_service s h = (s', h')"
  shows "extends h h'" "read_service h' s' = read_service h s" "types_cells (hs_types s') \<subseteq> fresh_between h h'"
  using assms
  by (auto simp: clone_service_def Let_def extends_def agree_def allocated_def read_service_def
      fresh_between_def slice_of_def [of _ None] split: if_splits)

lemma clone_each_copy:
  assumes "\<And>s. s \<in> set ss \<Longrightarrow> types_cells (hs_types s) \<subseteq> allocated h" "clone_each ss h = (ss', h')"
  shows "extends h h' \<and> map (read_service h') ss' = map (read_service h) ss \<and>
    (\<forall>s \<in> set ss'. types_cells (hs_types s) \<subseteq> fresh_between h h')"
  using assms
proof (induction ss arbitrary: h ss')
  case (Cons s ss)
  obtain s1 h1 ss1 where e: "clone_service s h = (s1, h1)" "clone_each ss h1 = (ss1, h')" "ss' = s1 # ss1"
    using Cons.prems(2) by (auto split: prod.splits)
  have s: "extends h h1" "read_service h1 s1 = read_service h s" "types_cells (hs_types s1) \<subseteq> fresh_between h h1"
    using clone_service_copy [OF _ e(1)] Cons.prems(1) by auto
  have al: "types_cells (hs_types x) \<subseteq> allocated h1" if "x \<in> set ss" for x
    using Cons.prems(1) [of x] that allocated_mono [OF s(1)] by auto
  have ih: "extends h1 h'" "map (read_service h') ss1 = map (read_service h1) ss"
    "\<forall>x \<in> set ss1. types_cells (hs_types x) \<subseteq> fresh_between h1 h'"
    using Cons.IH [OF al e(2)] by auto
  have "read_service h1 x = read_service h x" if "x \<in> set ss" for x
    using read_service_agree [of "allocated h" h h1 x] s(1) Cons.prems(1) [of x] that by (simp add: extends_def)
  moreover have "read_service h' s1 = read_service h1 s1"
    using read_service_agree [of "allocated h1" h1 h' s1] ih(1) s(3)
    by (auto simp: extends_def fresh_between_def allocated_def)
  moreover have "\<forall>x \<in> set ss'. types_cells (hs_types x) \<subseteq> fresh_between h h'"
    using s(3) ih(3) fresh_between_trans [OF s(1) ih(1)] unfolding e(3) by fastforce
  ultimately show ?case
    using s(2) ih(2) extends_trans [OF s(1) ih(1)] by (simp add: e(3))
qed simp

lemma cloneServices_copy:
  assumes "services_cells h sl \<subseteq> allocated h" "cloneServices sl h = (sl', h')"
  shows "extends h h' \<and> read_services h' sl' = read_services h sl \<and> services_cells h' sl' \<subseteq> fresh_between h h'"
proof (cases sl)
  case None
  then show ?thesis using assms by (simp add: cloneServices_def services_cells_def)
next
  case (Some s)
  obtain out h1 where o: "clone_each (slice_of (hp_services h) sl) h = (out, h1)" by fastforce
  let ?h2 = "h1\<lparr>hp_services := (hp_services h1)(hp_next h1 := out), hp_next := hp_next h1 + 1\<rparr>"
  have r: "sl' = Some (whole (hp_next h1) out)" "h' = ?h2"
    using assms(2) o by (auto simp: cloneServices_def Some)
  have al: "types_cells (hs_types x) \<subseteq> allocated h" if "x \<in> set (slice_of (hp_services h) sl)" for x
    using assms(1) slice_types_cells [OF that] by auto
  have c: "extends h h1" "map (read_service h1) out = map (read_service h) (slice_of (hp_services h) sl)"
    "\<forall>x \<in> set out. types_cells (hs_types x) \<subseteq> fresh_between h h1"
    using clone_each_copy [OF al o] by auto
  have ext: "extends h1 ?h2" by (auto simp: extends_def agree_def allocated_def)
  have "read_services ?h2 sl' = map (read_service h1) out"
    by (simp add: read_services_def r(1) read_service_def)
  moreover have "services_cells ?h2 sl' = insert (ServicesCell (hp_next h1)) (\<Union>x\<in>set out. types_cells (hs_types x))"
    by (simp add: services_cells_def r(1) whole_def)
  moreover have "\<dots> \<subseteq> fresh_between h ?h2"
    using c(1,3) by (fastforce simp: fresh_between_def extends_def)
  ultimately show ?thesis
    using c(2) extends_trans [OF c(1) ext] by (simp add: read_services_def r(2))
qed

lemma cloneNode_copy:
  assumes "node_cells h p \<subseteq> allocated h" "cloneNode p h = (q, h')"
  shows "extends h h'" "read_node h' q = read_node h p" "node_cells h' q \<subseteq> fresh_between h h'"
proof -
  obtain sv h1 where o: "cloneServices (hn_services (hp_nodes h p)) h = (sv, h1)" by fastforce
  let ?n = "(hp_nodes h p)\<lparr>hn_services := sv\<rparr>"
  let ?h2 = "h1\<lparr>hp_nodes := (hp_nodes h1)(hp_next h1 := ?n), hp_next := hp_next h1 + 1\<rparr>"
  have r: "q = hp_next h1" "h' = ?h2" using assms(2) o by (auto simp: cloneNode_def Let_def)
  have c: "extends h h1" "read_services h1 sv = read_services h (hn_services (hp_nodes h p))"
    "services_cells h1 sv \<subseteq> fresh_between h h1"
    using cloneServices_copy [OF _ o] assms(1) by (auto simp: node_cells_def)
  have ext: "extends h1 ?h2" by (auto simp: extends_def agree_def allocated_def)
  show "extends h h'" using extends_trans [OF c(1) ext] by (simp add: r(2))
  have sv: "read_services ?h2 sv = read_services h1 sv" "services_cells ?h2 sv = services_cells h1 sv"
    by (simp_all add: read_services_def read_service_def services_cells_def split: option.split)
  show "read_node h' q = read_node h p" using c(2) sv(1) by (simp add: read_node_def r)
  show "node_cells h' q \<subseteq> fresh_between h h'"
    using c(1,3) sv(2) by (fastforce simp: node_cells_def r fresh_between_def extends_def)
qed

section \<open>The registry and its callers\<close>

text \<open>\<open>closed\<close>: a caller that knows the cells \<open>K\<close> reaches nothing else through them.\<close>

definition closed_cells :: "heap \<Rightarrow> cell set \<Rightarrow> bool" where
  "closed_cells h K \<longleftrightarrow>
     (\<forall>a. (NodeCell a \<in> K \<longrightarrow> services_cells h (hn_services (hp_nodes h a)) \<subseteq> K) \<and>
          (ServicesCell a \<in> K \<longrightarrow> (\<forall>x \<in> set (hp_services h a). types_cells (hs_types x) \<subseteq> K)))"

text \<open>
  The callers know the cells \<open>K\<close>; no cell of a stored node is among them, and no two ids share a
  stored node.
\<close>

definition isolated :: "cell set \<Rightarrow> heap \<times> hmemory \<Rightarrow> bool" where
  "isolated K s \<longleftrightarrow>
     (case s of (h, m) \<Rightarrow>
        K \<subseteq> allocated h \<and> closed_cells h K \<and> (\<forall>k p. m k = Some p \<longrightarrow> node_cells h p \<subseteq> allocated h - K) \<and>
        (\<forall>j k p. m j = Some p \<longrightarrow> m k = Some p \<longrightarrow> j = k))"

definition reg_abs :: "heap \<times> hmemory \<Rightarrow> memory" where
  "reg_abs s = (case s of (h, m) \<Rightarrow> \<lambda>k. map_option (read_node h) (m k))"

lemma reg_abs_apply: "reg_abs (h, m) k = map_option (read_node h) (m k)"
  by (simp add: reg_abs_def)

lemma closed_node: "closed_cells h K \<Longrightarrow> NodeCell p \<in> K \<Longrightarrow> node_cells h p \<subseteq> K"
  by (auto simp: closed_cells_def node_cells_def)

lemma closed_node_cells: "closed_cells h (node_cells h p)"
  by (auto simp: closed_cells_def node_cells_def services_cells_def split: option.splits)
     (auto simp: types_cells_def split: option.splits)

lemma closed_Un: "closed_cells h K \<Longrightarrow> closed_cells h L \<Longrightarrow> closed_cells h (K \<union> L)"
  by (fastforce simp: closed_cells_def)

lemma closed_agree: "closed_cells h K \<Longrightarrow> agree K h h' \<Longrightarrow> closed_cells h' K"
  using services_cells_agree [of K h h'] by (fastforce simp: closed_cells_def agree_def)

lemma read_node_fields [simp]:
  "node_id (read_node h p) = node_id (hn_plain (hp_nodes h p))"
  "State (read_node h p) = State (hn_plain (hp_nodes h p))"
  "LastHeartbeatAt (read_node h p) = LastHeartbeatAt (hn_plain (hp_nodes h p))"
  by (simp_all add: read_node_def)

lemma isolated_known: "isolated K (h, m) \<Longrightarrow> NodeCell p \<in> K \<Longrightarrow> node_cells h p \<subseteq> allocated h"
  using closed_node by (fastforce simp: isolated_def)

lemma isolated_stored: "isolated K (h, m) \<Longrightarrow> m k = Some p \<Longrightarrow> node_cells h p \<subseteq> allocated h - K"
  by (auto simp: isolated_def)

lemma stored_allocated: "isolated K (h, m) \<Longrightarrow> m k = Some p \<Longrightarrow> node_cells h p \<subseteq> allocated h"
  using isolated_stored by blast

text \<open>A change of the heap outside the stored nodes does not change what is stored.\<close>

lemma abs_agree:
  assumes "\<And>k p. m k = Some p \<Longrightarrow> node_cells h p \<subseteq> C" "agree C h h'"
  shows "reg_abs (h', m) = reg_abs (h, m)"
proof
  show "reg_abs (h', m) k = reg_abs (h, m) k" for k
    using read_node_agree(2) [OF assms(2)] assms(1) by (cases "m k") (auto simp: reg_abs_apply)
qed

text \<open>Handing out a clone.\<close>

lemma clone_out:
  assumes "isolated K (h, m)" "node_cells h p \<subseteq> allocated h" "cloneNode p h = (q, h')"
  shows "isolated (K \<union> node_cells h' q) (h', m)" "reg_abs (h', m) = reg_abs (h, m)"
    "read_node h' q = read_node h p" "agree K h h'"
proof -
  note c = cloneNode_copy [OF assms(2,3)]
  have K: "K \<subseteq> allocated h" "closed_cells h K" using assms(1) by (auto simp: isolated_def)
  have ag: "agree (allocated h) h h'" using c(1) by (simp add: extends_def)
  show agK: "agree K h h'" using agree_mono [OF ag K(1)] .
  have st: "node_cells h p' \<subseteq> allocated h" if "m k = Some p'" for k p'
    using isolated_stored [OF assms(1) that] by auto
  show "reg_abs (h', m) = reg_abs (h, m)" by (rule abs_agree [OF st ag])
  show "read_node h' q = read_node h p" by (rule c(2))
  have al: "allocated h \<subseteq> allocated h'" "fresh_between h h' \<subseteq> allocated h' - allocated h"
    using allocated_mono [OF c(1)] by (auto simp: fresh_between_def allocated_def)
  have "node_cells h' p' \<subseteq> allocated h' - (K \<union> node_cells h' q)" if m: "m k = Some p'" for k p'
    using isolated_stored [OF assms(1) m] read_node_agree(3) [OF ag st [OF m]] al c(3) by auto
  then show "isolated (K \<union> node_cells h' q) (h', m)"
    using assms(1) K al c(3) closed_Un [OF closed_agree [OF K(2) agK] closed_node_cells]
    by (auto simp: isolated_def)
qed

text \<open>Storing a clone under \<open>k\<close>, unknown to the callers.\<close>

lemma clone_store:
  assumes "isolated K (h, m)" "node_cells h p \<subseteq> allocated h" "cloneNode p h = (q, h')"
  shows "isolated K (h', m(k \<mapsto> q))"
proof -
  note c = clone_out [OF assms] and f = cloneNode_copy(3) [OF assms(2,3)]
  have K: "K \<subseteq> allocated h" "closed_cells h K" using assms(1) by (auto simp: isolated_def)
  have i: "K \<union> node_cells h' q \<subseteq> allocated h'"
    "node_cells h' p' \<subseteq> allocated h' - (K \<union> node_cells h' q)" "m i = Some p' \<Longrightarrow> i = j"
    if "m j = Some p'" for j i p'
    using c(1) that by (auto simp: isolated_def)
  have "node_cells h' q \<inter> K = {}" using f K(1) by (fastforce simp: fresh_between_def allocated_def)
  moreover have "node_cells h' q \<subseteq> allocated h'" and K': "K \<subseteq> allocated h'" using c(1) by (auto simp: isolated_def)
  ultimately have q: "node_cells h' q \<subseteq> allocated h' - K" by blast
  have ne: "m j \<noteq> Some q" for j using i(2) [of j q] by (auto simp: node_cells_def)
  have "node_cells h' p' \<subseteq> allocated h' - K" if "(m(k \<mapsto> q)) j = Some p'" for j p'
  proof (cases "j = k")
    case False
    then show ?thesis using i(2) [of j p'] that by auto
  qed (use q that in simp)
  moreover have "i = j" if "(m(k \<mapsto> q)) i = Some p'" "(m(k \<mapsto> q)) j = Some p'" for i j p'
    using i(3) [of j p' i] ne that by (auto split: if_splits)
  ultimately show ?thesis
    using K' closed_agree [OF K(2) c(4)] by (simp add: isolated_def del: fun_upd_apply)
qed

lemma set_plain_simps [simp]:
  "hp_services (set_plain p f h) = hp_services h" "hp_types (set_plain p f h) = hp_types h"
  "hp_next (set_plain p f h) = hp_next h" "allocated (set_plain p f h) = allocated h"
  "hp_nodes (set_plain p f h) = (hp_nodes h)(p := (hp_nodes h p)\<lparr>hn_plain := f (hn_plain (hp_nodes h p))\<rparr>)"
  by (simp_all add: set_plain_def allocated_def)

lemma set_plain_cells [simp]:
  "services_cells (set_plain p f h) sl = services_cells h sl" "node_cells (set_plain p f h) q = node_cells h q"
  "closed_cells (set_plain p f h) K = closed_cells h K" "isolated K (set_plain p f h, m) = isolated K (h, m)"
  "agree C (set_plain p f h) h' \<Longrightarrow> NodeCell p \<notin> C \<Longrightarrow> agree C h h'"
proof -
  show s: "services_cells (set_plain p f h) sl = services_cells h sl" for sl
    by (simp add: services_cells_def split: option.split)
  show n: "node_cells (set_plain p f h) q = node_cells h q" for q by (simp add: node_cells_def s)
  show c: "closed_cells (set_plain p f h) K = closed_cells h K" for K by (auto simp: closed_cells_def s)
  show "isolated K (set_plain p f h, m) = isolated K (h, m)" by (simp add: isolated_def n c)
  show "agree C (set_plain p f h) h' \<Longrightarrow> NodeCell p \<notin> C \<Longrightarrow> agree C h h'" by (auto simp: agree_def split: if_splits)
qed

lemma read_set_plain:
  assumes "\<And>n x. f (n\<lparr>Services := x\<rparr>) = (f n)\<lparr>Services := x\<rparr>"
  shows "read_node (set_plain p f h) q = (if q = p then f (read_node h p) else read_node h q)"
  by (simp add: read_node_def read_services_def read_service_def assms)

lemma abs_set_plain:
  assumes "isolated K (h, m)" "m k = Some p" "\<And>n x. f (n\<lparr>Services := x\<rparr>) = (f n)\<lparr>Services := x\<rparr>"
  shows "reg_abs (set_plain p f h, m) = (reg_abs (h, m))(k \<mapsto> f (read_node h p))"
proof
  have m: "m j = Some p \<longleftrightarrow> j = k" for j using assms(1,2) by (auto simp: isolated_def)
  show "reg_abs (set_plain p f h, m) j = ((reg_abs (h, m))(k \<mapsto> f (read_node h p))) j" for j
    using m [of j] by (cases "m j") (auto simp: reg_abs_apply read_set_plain [of f, OF assms(3)] assms(2))
qed

lemma reg_abs_upd [simp]:
  "reg_abs (h, m(k \<mapsto> q)) = (reg_abs (h, m))(k \<mapsto> read_node h q)"
  "reg_abs (h, m(k := None)) = (reg_abs (h, m))(k := None)"
  by (auto simp: fun_eq_iff reg_abs_apply)

section \<open>Each operation does what it does on values\<close>

lemma register_refines:
  assumes "isolated K (h, m)" "\<And>p. ptr = Some p \<Longrightarrow> NodeCell p \<in> K" "heap_Register now ptr (h, m) = (err, s')"
  shows "isolated K s' \<and> Memory_Register now (map_option (read_node h) ptr) (reg_abs (h, m)) = (err, reg_abs s')"
proof (cases "\<exists>p. ptr = Some p \<and> node_id (hn_plain (hp_nodes h p)) \<noteq> 0")
  case True
  then obtain p where p: "ptr = Some p" "node_id (hn_plain (hp_nodes h p)) \<noteq> 0" by blast
  obtain q h1 where c: "cloneNode p h = (q, h1)" by fastforce
  note al = isolated_known [OF assms(1) assms(2) [OF p(1)]]
  let ?f = "\<lambda>n. n\<lparr>State := NodeStateRegistered, LastHeartbeatAt := now\<rparr>"
  have r: "read_node h1 q = read_node h p" "reg_abs (h1, m) = reg_abs (h, m)"
    using clone_out [OF assms(1) al c] by auto
  have id: "node_id (hn_plain (hp_nodes h1 q)) = node_id (hn_plain (hp_nodes h p))"
    using r(1) by (metis read_node_fields(1))
  let ?k = "node_id (hn_plain (hp_nodes h p))"
  have s': "err = None" "s' = (set_plain q ?f h1, m(?k \<mapsto> q))"
    using assms(3) by (auto simp: heap_Register_def p c id Let_def)
  note st = clone_store [OF assms(1) al c, of ?k]
  have "reg_abs s' = (reg_abs (h1, m(?k \<mapsto> q)))(?k \<mapsto> ?f (read_node h1 q))"
    unfolding s'(2) by (rule abs_set_plain [OF st]) simp_all
  then show ?thesis
    using st p by (simp add: s' Memory_Register_def r Let_def)
qed (use assms in \<open>auto simp: heap_Register_def Memory_Register_def split: option.splits\<close>)

lemma get_refines:
  assumes "isolated K (h, m)" "heap_Get k (h, m) = (r, s')"
  shows "isolated (K \<union> (case r of None \<Rightarrow> {} | Some q \<Rightarrow> node_cells (fst s') q)) s' \<and> reg_abs s' = reg_abs (h, m) \<and>
    map_option (read_node (fst s')) r = Memory_Get k (reg_abs (h, m))"
proof (cases "m k")
  case (Some p)
  obtain q h1 where c: "cloneNode p h = (q, h1)" by fastforce
  show ?thesis
    using clone_out [OF assms(1) stored_allocated [OF assms(1) Some] c] assms(2)
    by (auto simp: heap_Get_def Some c Memory_Get_def reg_abs_apply)
qed (use assms in \<open>auto simp: heap_Get_def Memory_Get_def reg_abs_apply\<close>)

lemma remove_refines:
  assumes "isolated K (h, m)" "heap_Remove k (h, m) = (err, s')"
  shows "isolated K s' \<and> Memory_Remove k (reg_abs (h, m)) = (err, reg_abs s')"
  using assms
  by (force simp: heap_Remove_def Memory_Remove_def isolated_def reg_abs_apply split: if_splits option.splits)

lemma clone_list_refines:
  assumes "isolated K (h, m)" "clone_list ks m h = (qs, h')"
  shows "isolated (K \<union> (\<Union>q\<in>set qs. node_cells h' q)) (h', m) \<and> reg_abs (h', m) = reg_abs (h, m) \<and>
    map (read_node h') qs = Memory_List ks (reg_abs (h, m)) \<and> agree K h h'"
  using assms
proof (induction ks arbitrary: K h qs)
  case (Cons k ks)
  show ?case
  proof (cases "m k")
    case None
    then show ?thesis
      using Cons.IH [OF Cons.prems(1)] Cons.prems(2) by (simp add: Memory_List_def List.map_filter_simps reg_abs_apply)
  next
    case (Some p)
    obtain q h1 qs1 where c: "cloneNode p h = (q, h1)" "clone_list ks m h1 = (qs1, h')" "qs = q # qs1"
      using Cons.prems(2) Some by (auto split: prod.splits)
    have o: "isolated (K \<union> node_cells h1 q) (h1, m)" "reg_abs (h1, m) = reg_abs (h, m)"
      "read_node h1 q = read_node h p" "agree K h h1"
      using clone_out [OF Cons.prems(1) stored_allocated [OF Cons.prems(1) Some] c(1)] by auto
    have ih: "isolated (K \<union> node_cells h1 q \<union> (\<Union>q\<in>set qs1. node_cells h' q)) (h', m)"
      "reg_abs (h', m) = reg_abs (h1, m)" "map (read_node h') qs1 = Memory_List ks (reg_abs (h1, m))"
      "agree (K \<union> node_cells h1 q) h1 h'"
      using Cons.IH [OF o(1) c(2)] by auto
    have "node_cells h' q = node_cells h1 q" "read_node h' q = read_node h1 q" "agree K h1 h'"
      using read_node_agree [OF ih(4)] agree_mono [OF ih(4)] by auto
    moreover have "reg_abs (h, m) k = Some (read_node h p)" by (simp add: reg_abs_apply Some)
    ultimately show ?thesis
      using ih(1-3) o(2-4) agree_trans [of K h h1 h']
      by (simp add: c(3) Memory_List_def List.map_filter_simps Un_assoc)
  qed
qed (simp add: Memory_List_def List.map_filter_simps agree_def)

lemma list_refines:
  assumes "isolated K (h, m)" "heap_List ks (h, m) = (qs, s')"
  shows "isolated (K \<union> (\<Union>q\<in>set qs. node_cells (fst s') q)) s' \<and> reg_abs s' = reg_abs (h, m) \<and>
    map (read_node (fst s')) qs = Memory_List ks (reg_abs (h, m))"
  using clone_list_refines [OF assms(1)] assms(2) by (auto simp: heap_List_def split: prod.splits)

text \<open>A stored node is changed in place and a clone of it handed out.\<close>

lemma change_and_clone:
  assumes "isolated K (h, m)" "m k = Some p" "\<And>n x. f (n\<lparr>Services := x\<rparr>) = (f n)\<lparr>Services := x\<rparr>"
    and "cloneNode p (set_plain p f h) = (q, h')"
  shows "isolated (K \<union> node_cells h' q) (h', m)" "reg_abs (h', m) = (reg_abs (h, m))(k \<mapsto> f (read_node h p))"
    "read_node h' q = f (read_node h p)" "agree K h h'"
proof -
  have i: "isolated K (set_plain p f h, m)" using assms(1) by simp
  have st: "node_cells h p \<subseteq> allocated h - K" by (rule isolated_stored [OF assms(1,2)])
  have "node_cells (set_plain p f h) p \<subseteq> allocated (set_plain p f h)" using st by auto
  note c = clone_out [OF i this assms(4)]
  show "isolated (K \<union> node_cells h' q) (h', m)" by (rule c(1))
  show "reg_abs (h', m) = (reg_abs (h, m))(k \<mapsto> f (read_node h p))"
    using c(2) abs_set_plain [where f = f, OF assms(1,2,3)] by simp
  show "read_node h' q = f (read_node h p)" using c(3) read_set_plain [of f p h p, OF assms(3)] by simp
  show "agree K h h'"
    by (rule set_plain_cells(5) [OF c(4)]) (use st in \<open>auto simp: node_cells_def\<close>)
qed

lemma heartbeat_refines:
  assumes "isolated K (h, m)" "heap_ApplyHeartbeat k at tr (h, m) = ((r, err), s')"
  shows "isolated (K \<union> (case r of None \<Rightarrow> {} | Some q \<Rightarrow> node_cells (fst s') q)) s' \<and>
    Memory_ApplyHeartbeat k at tr (reg_abs (h, m)) = ((map_option (read_node (fst s')) r, err), reg_abs s')"
proof (cases "k \<noteq> 0 \<and> tr \<noteq> None \<and> m k \<noteq> None")
  case True
  then obtain f p where fp: "k \<noteq> 0" "tr = Some f" "m k = Some p" by blast
  show ?thesis
  proof (cases "f (State (hn_plain (hp_nodes h p)))")
    case (Inl e)
    obtain q h1 where c: "cloneNode p h = (q, h1)" by fastforce
    show ?thesis
      using clone_out [OF assms(1) stored_allocated [OF assms(1) fp(3)] c] assms(2)
      by (auto simp: heap_ApplyHeartbeat_def Memory_ApplyHeartbeat_def reg_abs_apply fp Inl c)
  next
    case (Inr nxt)
    let ?f = "\<lambda>n. n\<lparr>State := nxt, LastHeartbeatAt := at\<rparr>"
    obtain q h1 where c: "cloneNode p (set_plain p ?f h) = (q, h1)" by fastforce
    show ?thesis
      using change_and_clone [OF assms(1) fp(3) _ c] assms(2)
      by (auto simp: heap_ApplyHeartbeat_def Memory_ApplyHeartbeat_def reg_abs_apply fp Inr c Let_def)
  qed
qed (use assms in \<open>auto simp: heap_ApplyHeartbeat_def Memory_ApplyHeartbeat_def reg_abs_apply split: option.splits if_splits\<close>)

lemma runtime_refines:
  assumes "isolated K (h, m)" "heap_SetRuntime k l a (h, m) = (err, s')"
  shows "isolated K s' \<and> Memory_SetRuntime k l a (reg_abs (h, m)) = (err, reg_abs s')"
proof (cases "k \<noteq> 0 \<and> m k \<noteq> None")
  case True
  then obtain p where p: "k \<noteq> 0" "m k = Some p" by blast
  show ?thesis
    using abs_set_plain [where f = "\<lambda>n. n\<lparr>Load := l, ActiveTransaction := a\<rparr>", OF assms(1) p(2)] assms
    by (auto simp: heap_SetRuntime_def Memory_SetRuntime_def reg_abs_apply p)
qed (use assms in \<open>auto simp: heap_SetRuntime_def Memory_SetRuntime_def reg_abs_apply split: option.splits if_splits\<close>)

lemma timeouts_refine:
  assumes "isolated K (h, m)" "heap_timeouts now skip tr ks m h = (qs, h')"
  shows "isolated (K \<union> (\<Union>q\<in>set qs. node_cells h' q)) (h', m) \<and> agree K h h' \<and>
    timeouts_loop now skip tr ks (reg_abs (h, m)) = (map (read_node h') qs, reg_abs (h', m))"
  using assms
proof (induction ks arbitrary: K h qs)
  case (Cons k ks)
  show ?case
  proof (cases "m k")
    case None
    then show ?thesis using Cons.IH [OF Cons.prems(1)] Cons.prems(2) by (simp add: reg_abs_apply)
  next
    case (Some p)
    obtain nxt ok where t: "tr (State (hn_plain (hp_nodes h p))) (LastHeartbeatAt (hn_plain (hp_nodes h p))) now = (nxt, ok)"
      by fastforce
    have k: "reg_abs (h, m) k = Some (read_node h p)" by (simp add: reg_abs_apply Some)
    let ?skip = "case skip of None \<Rightarrow> False | Some f \<Rightarrow> f (read_node h p)"
    show ?thesis
    proof (cases "?skip \<or> \<not> ok \<or> nxt = State (hn_plain (hp_nodes h p))")
      case True
      then have "heap_timeouts now skip tr ks m h = (qs, h')"
        "timeout_node now skip tr (read_node h p) = None"
        using Cons.prems(2) Some t by (auto simp: timeout_node_def split: if_splits)
      then show ?thesis using Cons.IH [OF Cons.prems(1)] k by simp
    next
      case False
      let ?f = "\<lambda>n. n\<lparr>State := nxt\<rparr>"
      obtain q h2 qs1 where c: "cloneNode p (set_plain p ?f h) = (q, h2)"
        "heap_timeouts now skip tr ks m h2 = (qs1, h')" "qs = q # qs1"
        using Cons.prems(2) Some t False by (auto simp: Let_def split: prod.splits)
      have tn: "timeout_node now skip tr (read_node h p) = Some (?f (read_node h p))"
        using False t by (auto simp: timeout_node_def)
      have o: "isolated (K \<union> node_cells h2 q) (h2, m)" "reg_abs (h2, m) = (reg_abs (h, m))(k \<mapsto> ?f (read_node h p))"
        "read_node h2 q = ?f (read_node h p)" "agree K h h2"
        using change_and_clone [OF Cons.prems(1) Some _ c(1)] by auto
      have ih: "isolated (K \<union> node_cells h2 q \<union> (\<Union>q\<in>set qs1. node_cells h' q)) (h', m)"
        "agree (K \<union> node_cells h2 q) h2 h'"
        "timeouts_loop now skip tr ks (reg_abs (h2, m)) = (map (read_node h') qs1, reg_abs (h', m))"
        using Cons.IH [OF o(1) c(2)] by auto
      have "node_cells h' q = node_cells h2 q" "read_node h' q = read_node h2 q" "agree K h2 h'"
        using read_node_agree [OF ih(2)] agree_mono [OF ih(2)] by auto
      then show ?thesis
        using ih(1,3) o(2-4) agree_trans [of K h h2 h'] by (simp add: c(3) k tn Un_assoc)
    qed
  qed
qed (simp add: agree_def)

lemma sweep_refines:
  assumes "isolated K (h, m)" "heap_ApplyTimeoutsExcept now skip tr ks (h, m) = (qs, s')"
  shows "isolated (K \<union> (\<Union>q\<in>set qs. node_cells (fst s') q)) s' \<and>
    Memory_ApplyTimeoutsExcept now skip tr ks (reg_abs (h, m)) = (map (read_node (fst s')) qs, reg_abs s')"
  using timeouts_refine [OF assms(1)] assms
  by (auto simp: heap_ApplyTimeoutsExcept_def Memory_ApplyTimeoutsExcept_def split: option.splits prod.splits)

section \<open>Runs of the registry among its callers\<close>

text \<open>
  What a caller can do with the heap: it changes cells it knows, allocates new ones, and what it
  knows afterwards is closed and consists of what it knew and what it allocated.
\<close>

definition caller_moves :: "heap \<Rightarrow> cell set \<Rightarrow> heap \<Rightarrow> cell set \<Rightarrow> bool" where
  "caller_moves h K h' K' \<longleftrightarrow>
     hp_next h \<le> hp_next h' \<and> K \<subseteq> K' \<and> K' - K \<subseteq> fresh_between h h' \<and> agree (allocated h - K) h h' \<and>
     closed_cells h' K'"

text \<open>An operation with the values that go in and come out.\<close>

datatype reg_op =
    OpRegister time "node option" "gerr option"
  | OpGet u32 "node option"
  | OpRemove u32 "gerr option"
  | OpList "u32 list" "node list"
  | OpHeartbeat u32 time "hb_transition option" "node option" "gerr option"
  | OpSweep time "(node \<Rightarrow> bool) option" "to_transition option" "u32 list" "node list"
  | OpRuntime u32 u32 u32 "gerr option"
  | OpCaller

inductive pointer_step :: "(heap \<times> hmemory) \<times> cell set \<Rightarrow> reg_op \<Rightarrow> (heap \<times> hmemory) \<times> cell set \<Rightarrow> bool" where
  register: "heap_Register now ptr (h, m) = (err, s') \<Longrightarrow> (\<And>p. ptr = Some p \<Longrightarrow> NodeCell p \<in> K) \<Longrightarrow>
    pointer_step ((h, m), K) (OpRegister now (map_option (read_node h) ptr) err) (s', K)"
| get: "heap_Get k s = (r, s') \<Longrightarrow>
    pointer_step (s, K) (OpGet k (map_option (read_node (fst s')) r))
      (s', K \<union> (case r of None \<Rightarrow> {} | Some q \<Rightarrow> node_cells (fst s') q))"
| remove: "heap_Remove k s = (err, s') \<Longrightarrow> pointer_step (s, K) (OpRemove k err) (s', K)"
| list: "heap_List ks s = (qs, s') \<Longrightarrow>
    pointer_step (s, K) (OpList ks (map (read_node (fst s')) qs)) (s', K \<union> (\<Union>q\<in>set qs. node_cells (fst s') q))"
| heartbeat: "heap_ApplyHeartbeat k at tr s = ((r, err), s') \<Longrightarrow>
    pointer_step (s, K) (OpHeartbeat k at tr (map_option (read_node (fst s')) r) err)
      (s', K \<union> (case r of None \<Rightarrow> {} | Some q \<Rightarrow> node_cells (fst s') q))"
| sweep: "heap_ApplyTimeoutsExcept now skip tr ks s = (qs, s') \<Longrightarrow>
    pointer_step (s, K) (OpSweep now skip tr ks (map (read_node (fst s')) qs))
      (s', K \<union> (\<Union>q\<in>set qs. node_cells (fst s') q))"
| runtime: "heap_SetRuntime k l a s = (err, s') \<Longrightarrow> pointer_step (s, K) (OpRuntime k l a err) (s', K)"
| caller: "caller_moves h K h' K' \<Longrightarrow> pointer_step ((h, m), K) OpCaller ((h', m), K')"

text \<open>The same operation on the map of values.\<close>

fun value_step :: "memory \<Rightarrow> reg_op \<Rightarrow> memory \<Rightarrow> bool" where
  "value_step m (OpRegister now n err) m' = (Memory_Register now n m = (err, m'))"
| "value_step m (OpGet k r) m' = (Memory_Get k m = r \<and> m' = m)"
| "value_step m (OpRemove k err) m' = (Memory_Remove k m = (err, m'))"
| "value_step m (OpList ks r) m' = (Memory_List ks m = r \<and> m' = m)"
| "value_step m (OpHeartbeat k at tr r err) m' = (Memory_ApplyHeartbeat k at tr m = ((r, err), m'))"
| "value_step m (OpSweep now skip tr ks r) m' = (Memory_ApplyTimeoutsExcept now skip tr ks m = (r, m'))"
| "value_step m (OpRuntime k l a err) m' = (Memory_SetRuntime k l a m = (err, m'))"
| "value_step m OpCaller m' = (m' = m)"

inductive pointer_run :: "(heap \<times> hmemory) \<times> cell set \<Rightarrow> reg_op list \<Rightarrow> (heap \<times> hmemory) \<times> cell set \<Rightarrow> bool" for w where
  nil: "pointer_run w [] w"
| snoc: "pointer_run w ops w1 \<Longrightarrow> pointer_step w1 op w2 \<Longrightarrow> pointer_run w (ops @ [op]) w2"

inductive value_run :: "memory \<Rightarrow> reg_op list \<Rightarrow> memory \<Rightarrow> bool" for m where
  nil: "value_run m [] m"
| snoc: "value_run m ops m1 \<Longrightarrow> value_step m1 op m2 \<Longrightarrow> value_run m (ops @ [op]) m2"

lemma caller_isolated:
  assumes "isolated K (h, m)" "caller_moves h K h' K'"
  shows "isolated K' (h', m) \<and> reg_abs (h', m) = reg_abs (h, m)"
proof -
  have ag: "agree (allocated h - K) h h'" and K': "K' - K \<subseteq> fresh_between h h'" "K \<subseteq> K'"
    and n: "hp_next h \<le> hp_next h'" and cl: "closed_cells h' K'"
    using assms(2) by (auto simp: caller_moves_def)
  have al: "allocated h \<subseteq> allocated h'" "fresh_between h h' \<subseteq> allocated h'" "fresh_between h h' \<inter> allocated h = {}"
    using n by (auto simp: allocated_def fresh_between_def)
  have "node_cells h' p \<subseteq> allocated h' - K'" if "m k = Some p" for k p
    using isolated_stored [OF assms(1) that] read_node_agree(3) [OF ag] K' al by blast
  moreover have "K \<subseteq> allocated h" using assms(1) by (auto simp: isolated_def)
  then have "K' \<subseteq> allocated h'" using K' al by blast
  ultimately have "isolated K' (h', m)" using assms(1) cl by (auto simp: isolated_def)
  then show ?thesis using abs_agree [OF _ ag] isolated_stored [OF assms(1)] by blast
qed

lemma pointer_step_refines:
  assumes "pointer_step w op w'" "isolated (snd w) (fst w)"
  shows "isolated (snd w') (fst w') \<and> value_step (reg_abs (fst w)) op (reg_abs (fst w'))"
  using assms
proof cases
  case (register now ptr h m err s' K)
  then show ?thesis using register_refines [of K h m ptr now err s'] assms(2) by simp
next
  case (get k s r s' K)
  then show ?thesis using get_refines [of K "fst s" "snd s" k r s'] assms(2) by simp
next
  case (remove k s err s' K)
  then show ?thesis using remove_refines [of K "fst s" "snd s" k err s'] assms(2) by simp
next
  case (list ks s qs s' K)
  then show ?thesis using list_refines [of K "fst s" "snd s" ks qs s'] assms(2) by simp
next
  case (heartbeat k at tr s r err s' K)
  then show ?thesis using heartbeat_refines [of K "fst s" "snd s" k at tr r err s'] assms(2) by simp
next
  case (sweep now skip tr ks s qs s' K)
  then show ?thesis using sweep_refines [of K "fst s" "snd s" now skip tr ks qs s'] assms(2) by simp
next
  case (runtime k l a s err s' K)
  then show ?thesis using runtime_refines [of K "fst s" "snd s" k l a err s'] assms(2) by simp
next
  case (caller h K h' K' m)
  then show ?thesis using caller_isolated [of K h m h' K'] assms(2) by simp
qed

text \<open>
  C11: Callers of the registry cannot corrupt it: from the empty registry, whatever callers write
  through the nodes they passed in and the clones they got, every operation returns the values and
  leaves the entries that the same operations give on a map of values, and no caller can reach a
  stored node.
\<close>

theorem registry_copies_isolate:
  assumes "pointer_run ((h0, Map.empty), {}) ops ((h, m), K)"
  shows "value_run NewMemory ops (reg_abs (h, m)) \<and> (\<forall>k p. m k = Some p \<longrightarrow> node_cells h p \<inter> K = {})"
proof -
  have "isolated (snd w) (fst w) \<and> value_run NewMemory ops (reg_abs (fst w))"
    if "pointer_run ((h0, Map.empty), {}) ops w" for w
    using that
  proof induction
    case nil
    have "reg_abs (h0, Map.empty) = NewMemory" by (simp add: reg_abs_def NewMemory_def)
    then show ?case by (simp add: isolated_def closed_cells_def value_run.nil)
  next
    case (snoc ops w1 op w2)
    then show ?case using pointer_step_refines [OF snoc.hyps(2)] value_run.snoc by blast
  qed
  from this [OF assms] show ?thesis using isolated_stored by fastforce
qed

definition w_plain :: node where
  "w_plain = \<lparr>node_id = 1, InstanceID = ''l-1'', Name = '''', Type = TypeLogic, Group = '''', Address = ''10.0.0.1'',
     UDPPort = 9000, HTTPPort = 0, Services = [], State = NodeStateActive, LastHeartbeatAt = 0, Load = 0,
     ActiveTransaction = 0, Resource = zero_resource\<rparr>"

definition w_heap :: "u32 \<Rightarrow> heap" where
  "w_heap x = \<lparr>hp_nodes = (\<lambda>_. \<lparr>hn_plain = w_plain, hn_services = Some (whole 1 [()])\<rparr>),
     hp_services = (\<lambda>_. [\<lparr>hs_id = 5, hs_name = ''echo'', hs_types = Some (whole 0 [()])\<rparr>]),
     hp_types = (\<lambda>a. if a = 0 then [x] else [9]), hp_next = 3\<rparr>"

definition w_cells :: "cell set" where
  "w_cells = {TypesCell 0, ServicesCell 1, NodeCell 2}"

definition w_registered :: "(heap \<times> hmemory) \<Rightarrow> (heap \<times> hmemory)" where
  "w_registered s = snd (heap_Register 8 (Some 2) s)"

lemma w_closed: "hp_nodes h 2 = hp_nodes (w_heap 7) 2 \<Longrightarrow> hp_services h 1 = hp_services (w_heap 7) 1 \<Longrightarrow> closed_cells h w_cells"
  by (auto simp: closed_cells_def w_cells_def w_heap_def services_cells_def types_cells_def whole_def)

lemma w_run:
  assumes "w_registered (w_heap 7, Map.empty) = (h, m)" "h' = h\<lparr>hp_types := (hp_types h)(0 := [42])\<rparr>"
  shows "pointer_run (((w_heap 7)\<lparr>hp_next := 0\<rparr>, Map.empty), {})
    [OpCaller, OpRegister 8 (Some (read_node (w_heap 7) 2)) None, OpCaller] ((h', m), w_cells)"
proof -
  have h: "heap_Register 8 (Some 2) (w_heap 7, Map.empty) = (None, h, m)"
    "hp_nodes h 2 = hp_nodes (w_heap 7) 2" "hp_services h 1 = hp_services (w_heap 7) 1" "hp_next (w_heap 7) \<le> hp_next h"
    using assms(1)
    by (auto simp: w_registered_def heap_Register_def w_heap_def w_plain_def cloneNode_def cloneServices_def slice_of_def
        whole_def clone_service_def Let_def)
  have s1: "pointer_step (((w_heap 7)\<lparr>hp_next := 0\<rparr>, Map.empty), {}) OpCaller ((w_heap 7, Map.empty), w_cells)"
    by (rule pointer_step.caller)
       (use w_closed [of "w_heap 7"] in \<open>auto simp: caller_moves_def fresh_between_def agree_def allocated_def w_cells_def w_heap_def\<close>)
  have s2: "pointer_step ((w_heap 7, Map.empty), w_cells)
      (OpRegister 8 (map_option (read_node (w_heap 7)) (Some 2)) None) ((h, m), w_cells)"
    by (rule pointer_step.register [OF h(1)]) (simp add: w_cells_def)
  have s3: "pointer_step ((h, m), w_cells) OpCaller ((h', m), w_cells)"
    by (rule pointer_step.caller)
       (use w_closed [of h'] h in \<open>auto simp: caller_moves_def agree_def assms(2) w_cells_def\<close>)
  show ?thesis
    using pointer_run.snoc [OF pointer_run.snoc [OF pointer_run.snoc [OF pointer_run.nil s1] s2] s3] by simp
qed

theorem registry_copies_isolate_witness:
  "\<exists>h m K ops. pointer_run (((w_heap 7)\<lparr>hp_next := 0\<rparr>, Map.empty), {}) ops ((h, m), K) \<and>
    value_run NewMemory ops (reg_abs (h, m)) \<and> hp_types h 0 = [42] \<and> TypesCell 0 \<in> K \<and>
    map_option (\<lambda>n. map svc_message_types (Services n)) (reg_abs (h, m) 1) = Some [[7]]"
proof -
  obtain h m where s: "w_registered (w_heap 7, Map.empty) = (h, m)" by fastforce
  note r = w_run [OF s refl]
  have "map_option (\<lambda>n. map svc_message_types (Services n))
      (reg_abs (h\<lparr>hp_types := (hp_types h)(0 := [42])\<rparr>, m) 1) = Some [[7]]"
    using s
    by (auto simp: w_registered_def heap_Register_def w_heap_def w_plain_def cloneNode_def cloneServices_def slice_of_def
        whole_def clone_service_def Let_def reg_abs_apply read_node_def read_services_def read_service_def)
  moreover have "TypesCell 0 \<in> w_cells" by (simp add: w_cells_def)
  ultimately show ?thesis
    using r registry_copies_isolate [OF r] by (intro exI conjI) (assumption | simp)+
qed

end
