(* ===== verification/HeartbeatLoops.thy ===== *)
theory HeartbeatLoops imports Lifecycle begin

text \<open>
  The two loops of \<open>internal/heartbeat\<close> in time: \<open>Monitor.Run\<close> (\<open>monitor.go\<close>) among the registrations
  and heartbeats that change the registry meanwhile, and \<open>Sender.Run\<close> (\<open>sender.go\<close>).  Each acts
  once at its start and then at every tick of its ticker until its context ends.

  Shown: with ticks at most an interval apart a silent node is DEAD less than the dead timeout plus
  one interval after its last heartbeat; the sender numbers its heartbeats consecutively.
\<close>

section \<open>\<open>Monitor.Run\<close>\<close>

datatype loop_point = LoopFirst | LoopWaiting | LoopReturned gerr

datatype mon_event = MonCheck time | MonDone ctx_err | MonOther life_event

inductive monitor_loop :: "hb_config \<Rightarrow> memory \<times> loop_point \<Rightarrow> mon_event \<Rightarrow> memory \<times> loop_point \<Rightarrow> bool" for cfg where
  first: "is_order m order \<Longrightarrow>
    monitor_loop cfg (m, LoopFirst) (MonCheck now) (snd (Monitor_Check cfg now order m), LoopWaiting)"
| tick: "is_order m order \<Longrightarrow>
    monitor_loop cfg (m, LoopWaiting) (MonCheck now) (snd (Monitor_Check cfg now order m), LoopWaiting)"
| ended: "monitor_loop cfg (m, LoopWaiting) (MonDone e) (m, LoopReturned (Sentinel (Context e)))"
| other: "life_step cfg m ev m' \<Longrightarrow> \<forall>t. ev \<noteq> EvCheck t \<Longrightarrow> monitor_loop cfg (m, p) (MonOther ev) (m', p)"

inductive_cases monitor_loopE: "monitor_loop cfg s ev s'"

inductive monitor_run :: "hb_config \<Rightarrow> memory \<times> loop_point \<Rightarrow> mon_event list \<Rightarrow> memory \<times> loop_point \<Rightarrow> bool" for cfg where
  nil: "monitor_run cfg s [] s"
| cons: "monitor_loop cfg s ev s1 \<Longrightarrow> monitor_run cfg s1 evs s2 \<Longrightarrow> monitor_run cfg s (ev # evs) s2"

inductive_simps monitor_run_simps [simp]: "monitor_run cfg s [] s'" "monitor_run cfg s (ev # evs) s'"

text \<open>What the registry sees of a run, and the times of the checks.\<close>

fun life_events :: "mon_event list \<Rightarrow> life_event list" where
  "life_events [] = []"
| "life_events (MonCheck now # evs) = EvCheck now # life_events evs"
| "life_events (MonDone e # evs) = life_events evs"
| "life_events (MonOther ev # evs) = ev # life_events evs"

fun check_times :: "mon_event list \<Rightarrow> time list" where
  "check_times [] = []"
| "check_times (MonCheck now # evs) = now # check_times evs"
| "check_times (_ # evs) = check_times evs"

text \<open>\<open>paced I t ts\<close>: each time is at most \<open>I\<close> after the one before it, the first after \<open>t\<close>.\<close>

fun paced :: "duration \<Rightarrow> time \<Rightarrow> time list \<Rightarrow> bool" where
  "paced I t [] \<longleftrightarrow> True"
| "paced I t (t' # ts) \<longleftrightarrow> t' \<le> t + I \<and> paced I t' ts"

lemma life_events_append: "life_events (xs @ ys) = life_events xs @ life_events ys"
  by (induction xs rule: life_events.induct) auto

lemma check_times_append: "check_times (xs @ ys) = check_times xs @ check_times ys"
  by (induction xs rule: check_times.induct) auto

lemma check_times_set: "t \<in> set (check_times evs) \<longleftrightarrow> MonCheck t \<in> set evs"
  by (induction evs rule: check_times.induct) auto

lemma paced_next: "paced I t (xs @ t' # ys) \<Longrightarrow> t' \<le> last (t # xs) + I"
  by (induction xs arbitrary: t) auto

lemma monitor_run_append:
  "monitor_run cfg s (xs @ ys) s' \<longleftrightarrow> (\<exists>s1. monitor_run cfg s xs s1 \<and> monitor_run cfg s1 ys s')"
  by (induction xs arbitrary: s) auto

lemma monitor_run_life: "monitor_run cfg s evs s' \<Longrightarrow> life_run cfg (fst s) (life_events evs) (fst s')"
proof (induction rule: monitor_run.induct)
  case (cons s ev s1 evs s2)
  then show ?case by (cases rule: monitor_loop.cases) (auto intro: life_step.check)
qed simp

text \<open>
  C13: Failure detection is fast: while the monitor's checks are at most its interval apart, a live node
  other than a gateway that sends neither a registration nor a heartbeat is DEAD at a check less than
  the dead timeout plus one interval after its last heartbeat.
\<close>

theorem detection_latency:
  assumes "monitor_run cfg (m, p) evs (m', p')" "reg_wf m" "m k = Some n"
    and "Type n \<noteq> TypeHTTP2GW" "revivable (State n)" "DeadTimeout cfg \<le> max_duration"
    and "\<forall>ev \<in> set (life_events evs). \<not> registers k ev \<and> \<not> beats k ev"
    and "paced (Interval cfg) t0 (check_times evs)" "t0 < LastHeartbeatAt n + DeadTimeout cfg"
    and "\<exists>t \<in> set (check_times evs). LastHeartbeatAt n + DeadTimeout cfg \<le> t"
  shows "\<exists>before t rest m1 p1. evs = before @ MonCheck t # rest \<and>
    t < LastHeartbeatAt n + DeadTimeout cfg + Interval cfg \<and>
    monitor_run cfg (m, p) (before @ [MonCheck t]) (m1, p1) \<and> m1 k = Some (n\<lparr>State := NodeStateDead\<rparr>)"
proof -
  let ?B = "LastHeartbeatAt n + DeadTimeout cfg"
  have ex: "\<exists>x\<in>set evs. \<exists>t. x = MonCheck t \<and> ?B \<le> t" using assms(10) check_times_set by blast
  obtain us x vs where s: "evs = us @ x # vs" "\<exists>t. x = MonCheck t \<and> ?B \<le> t" "\<forall>y\<in>set us. \<not> (\<exists>t. y = MonCheck t \<and> ?B \<le> t)"
    using split_list_first_propE [OF ex] by metis
  then obtain t where t: "x = MonCheck t" "?B \<le> t" by blast
  have "last (t0 # check_times us) < ?B"
  proof (cases "check_times us = []")
    case False
    then have "MonCheck (last (check_times us)) \<in> set us" using last_in_set check_times_set by blast
    then show ?thesis using s(3) False by force
  qed (use assms(9) in simp)
  moreover have "t \<le> last (t0 # check_times us) + Interval cfg"
    using assms(8) paced_next [of "Interval cfg" t0 "check_times us" t] by (simp add: s(1) t(1) check_times_append)
  ultimately have late: "t < ?B + Interval cfg" by simp
  have "\<exists>s1. monitor_run cfg (m, p) (us @ [MonCheck t]) s1"
    using assms(1) monitor_run_append [of cfg "(m, p)" "us @ [MonCheck t]" vs] by (auto simp: s(1) t(1))
  then obtain m1 p1 where r: "monitor_run cfg (m, p) (us @ [MonCheck t]) (m1, p1)" by (metis surj_pair)
  have "life_run cfg m (life_events us @ [EvCheck t]) m1"
    using monitor_run_life [OF r] by (simp add: life_events_append)
  then have "m1 k = Some (n\<lparr>State := NodeStateDead\<rparr>)"
    by (rule silent_dead) (use assms t(2) in \<open>auto simp: s(1) t(1) life_events_append\<close>)
  then show ?thesis using s(1) t(1) late r by blast
qed

text \<open>A check is possible in every well-formed registry.\<close>

lemma checks_run:
  assumes "reg_wf m" "p \<in> {LoopFirst, LoopWaiting}"
  shows "\<exists>m' p'. monitor_run cfg (m, p) (map MonCheck ts) (m', p')"
  using assms
proof (induction ts arbitrary: m p)
  case (Cons t ts)
  obtain order where o: "is_order m order" using is_order_exists [OF reg_wf_finite [OF Cons.prems(1)]] by blast
  let ?m = "snd (Monitor_Check cfg t order m)"
  have "monitor_loop cfg (m, p) (MonCheck t) (?m, LoopWaiting)"
    using o Cons.prems(2) monitor_loop.first monitor_loop.tick by blast
  then show ?case using Cons.IH [OF Monitor_Check_wf [OF Cons.prems(1) o], of LoopWaiting] by fastforce
qed simp

theorem detection_latency_witness:
  "\<exists>before t rest m1 p1. map MonCheck [10, 15, 21] = before @ MonCheck t # rest \<and> t < 20 + 6 \<and>
    monitor_run \<lparr>Interval = 6, SuspectTimeout = 10, DeadTimeout = 20\<rparr> (w_memory NodeStateActive, LoopFirst)
      (before @ [MonCheck t]) (m1, p1) \<and> m1 7 = Some ((w_node NodeStateActive)\<lparr>State := NodeStateDead\<rparr>)"
proof -
  let ?cfg = "\<lparr>Interval = 6, SuspectTimeout = 10, DeadTimeout = 20\<rparr>"
  obtain m' p' where r: "monitor_run ?cfg (w_memory NodeStateActive, LoopFirst) (map MonCheck [10, 15, 21]) (m', p')"
    using checks_run [OF w_memory_wf, where p = LoopFirst and cfg = ?cfg and ts = "[10, 15, 21]"] by blast
  have "\<exists>before t rest m1 p1. map MonCheck [10, 15, 21] = before @ MonCheck t # rest \<and>
      t < LastHeartbeatAt (w_node NodeStateActive) + DeadTimeout ?cfg + Interval ?cfg \<and>
      monitor_run ?cfg (w_memory NodeStateActive, LoopFirst) (before @ [MonCheck t]) (m1, p1) \<and>
      m1 7 = Some ((w_node NodeStateActive)\<lparr>State := NodeStateDead\<rparr>)"
    by (rule detection_latency [OF r w_memory_wf w_memory_7, where ?t0.0 = 9])
       (simp_all add: revivable_def max_duration_def)
  then show ?thesis by (simp only: w_node_fields hb_config.simps) simp
qed

section \<open>\<open>Sender.Run\<close>\<close>

text \<open>
  The envelopes sent in a run of the loop: \<open>nodes\<close> is the registry's list at each tick, the first at
  the start; when the context ends with \<open>e\<close>, \<open>Run\<close> returns it.
\<close>

fun sender_ticks :: "(u64 \<Rightarrow> time) \<Rightarrow> (u64 \<Rightarrow> time) \<Rightarrow> u32 \<Rightarrow> node list list \<Rightarrow> u64 \<Rightarrow> (envelope \<times> udp_addr) list \<times> u64" where
  "sender_ticks wall clock nodeID [] n = ([], n)"
| "sender_ticks wall clock nodeID (ns # rest) n =
     (let (out, n1) = Sender_tick wall clock nodeID ns n; (out', n2) = sender_ticks wall clock nodeID rest n1
      in (out @ out', n2))"

definition Sender_Run ::
  "(u64 \<Rightarrow> time) \<Rightarrow> (u64 \<Rightarrow> time) \<Rightarrow> u32 \<Rightarrow> node list \<Rightarrow> node list list \<Rightarrow> ctx_err \<Rightarrow> (envelope \<times> udp_addr) list \<times> gerr" where
  "Sender_Run wall clock nodeID start ticks e =
     (let (out, n) = sender_ticks wall clock nodeID (start # ticks) 0 in (out, Sentinel (Context e)))"

lemma tick_numbers:
  "Sender_tick wall clock nodeID ns n = (out, n') \<Longrightarrow>
   map (\<lambda>(e, a). env_transaction_id e) out = map (\<lambda>i. n + 1 + word_of_nat i) [0..<length out] \<and> n' = n + word_of_nat (length out)"
proof (induction ns arbitrary: n out n')
  case (Cons x ns)
  show ?case
  proof (cases "Type x \<noteq> TypeLogic \<or> State x = NodeStateDead \<or> State x = NodeStateUnspecified \<or> (\<exists>err. logicUDPAddr x = Inl err)")
    case True
    then show ?thesis using Cons by (auto split: if_splits)
  next
    case False
    then obtain addr out1 where o: "logicUDPAddr x = Inr addr" "Sender_tick wall clock nodeID ns (n + 1) = (out1, n')"
      "out = (Sender_envelope wall clock nodeID (node_id x) (n + 1), addr) # out1"
      using Cons.prems by (auto simp: Let_def split: if_splits sum.splits prod.splits)
    show ?thesis
      using Cons.IH [OF o(2)]
      by (auto simp: o(3) Sender_envelope_def upt_conv_Cons map_Suc_upt [symmetric] algebra_simps simp del: upt_Suc)
  qed
qed simp

lemma ticks_numbers:
  "sender_ticks wall clock nodeID nss n = (out, n') \<Longrightarrow>
   map (\<lambda>(e, a). env_transaction_id e) out = map (\<lambda>i. n + 1 + word_of_nat i) [0..<length out] \<and> n' = n + word_of_nat (length out)"
proof (induction nss arbitrary: n out n')
  case (Cons ns nss)
  obtain o1 n1 o2 where o: "Sender_tick wall clock nodeID ns n = (o1, n1)" "sender_ticks wall clock nodeID nss n1 = (o2, n')"
    "out = o1 @ o2"
    using Cons.prems by (auto split: prod.splits)
  have "map (\<lambda>i. n1 + 1 + word_of_nat i) [0..<length o2] = map (\<lambda>i. n + 1 + word_of_nat i) [length o1..<length o1 + length o2]"
    using tick_numbers [OF o(1)] by (intro nth_equalityI) (auto simp: algebra_simps)
  then show ?case
    using tick_numbers [OF o(1)] Cons.IH [OF o(2)]
    by (simp add: o(3) upt_add_eq_append [of 0, simplified] algebra_simps)
qed simp

text \<open>The sender numbers its heartbeats 1, 2, 3, ... (modulo \<open>2 ^ 64\<close>) through its whole run.\<close>

lemma sender_numbers:
  "map (\<lambda>(e, a). env_transaction_id e) (fst (Sender_Run wall clock nodeID start ticks e)) =
   map (\<lambda>i. word_of_nat (Suc i)) [0..<length (fst (Sender_Run wall clock nodeID start ticks e))]"
proof -
  obtain out n where o: "sender_ticks wall clock nodeID (start # ticks) 0 = (out, n)" by fastforce
  show ?thesis using ticks_numbers [OF o] unfolding Sender_Run_def o by simp
qed

end
