(* ===== verification/Admission.thy ===== *)
theory Admission imports HttpSrv begin

text \<open>
  The admission limit \<open>http.max_pending\<close>: \<open>handleData\<close> (\<open>httpsrv/server.go\<close>) refuses a request with 429
  while the gauge \<open>manager_pending\<close> is above the limit, and \<open>Create\<close> and \<open>remove\<close> of the transaction
  manager (\<open>transaction/manager.go\<close>) set the gauge.  They compute its value under the manager's lock
  and store it (\<open>SetManagerPending\<close>, \<open>metrics/metrics.go\<close>) after releasing the lock, so the stores of
  concurrent requests can land in any order.  Handlers are counted, not named.

  Shown: when every store lands before the next change the gauge is the number of pending
  transactions; without that order a late store can leave the gauge above the limit with no
  transaction pending, and then the gateway refuses every request for ever.
\<close>

section \<open>Handlers\<close>

record admission =
  ad_admitted :: nat \<comment> \<open>handlers past the check, before \<open>Create\<close>\<close>
  ad_creating :: "nat list" \<comment> \<open>values about to be stored by handlers in \<open>Create\<close>\<close>
  ad_waiting :: nat \<comment> \<open>handlers between \<open>Create\<close> and \<open>remove\<close>\<close>
  ad_removing :: "nat list" \<comment> \<open>values about to be stored by handlers in \<open>remove\<close>\<close>
  ad_gauge :: nat
  ad_answered :: nat
  ad_rejected :: nat

definition admission_start :: admission where
  "admission_start = \<lparr>ad_admitted = 0, ad_creating = [], ad_waiting = 0, ad_removing = [], ad_gauge = 0, ad_answered = 0,
     ad_rejected = 0\<rparr>"

text \<open>The size of the manager's map.\<close>

definition ad_pending :: "admission \<Rightarrow> nat" where
  "ad_pending s = length (ad_creating s) + ad_waiting s"

text \<open>The check of \<open>handleData\<close>; a limit of 0 is none.\<close>

definition adm_check :: "nat \<Rightarrow> admission \<Rightarrow> admission" where
  "adm_check limit s =
     (if 0 < limit \<and> limit < ad_gauge s then s\<lparr>ad_rejected := ad_rejected s + 1\<rparr> else s\<lparr>ad_admitted := ad_admitted s + 1\<rparr>)"

text \<open>\<open>Create\<close> and \<open>remove\<close> up to the release of the lock, and \<open>SetManagerPending\<close>.\<close>

definition adm_create :: "admission \<Rightarrow> admission" where
  "adm_create s = s\<lparr>ad_admitted := ad_admitted s - 1, ad_creating := ad_creating s @ [ad_pending s + 1]\<rparr>"

definition adm_remove :: "admission \<Rightarrow> admission" where
  "adm_remove s = s\<lparr>ad_waiting := ad_waiting s - 1, ad_removing := ad_removing s @ [ad_pending s - 1]\<rparr>"

definition adm_store :: "nat \<Rightarrow> admission \<Rightarrow> admission" where
  "adm_store n s = s\<lparr>ad_gauge := n\<rparr>"

text \<open>
  Steps: \<open>refuse\<close> is a handler that fails before \<open>Create\<close>, \<open>retry\<close> one that fails over after
  \<open>remove\<close> and creates again.
\<close>

inductive adm_step :: "nat \<Rightarrow> admission \<Rightarrow> admission \<Rightarrow> bool" for limit where
  arrive: "adm_step limit s (adm_check limit s)"
| refuse: "0 < ad_admitted s \<Longrightarrow> adm_step limit s (s\<lparr>ad_admitted := ad_admitted s - 1, ad_answered := ad_answered s + 1\<rparr>)"
| create: "0 < ad_admitted s \<Longrightarrow> adm_step limit s (adm_create s)"
| created: "ad_creating s = xs @ n # ys \<Longrightarrow>
    adm_step limit s (adm_store n (s\<lparr>ad_creating := xs @ ys, ad_waiting := ad_waiting s + 1\<rparr>))"
| remove: "0 < ad_waiting s \<Longrightarrow> adm_step limit s (adm_remove s)"
| removed: "ad_removing s = xs @ n # ys \<Longrightarrow>
    adm_step limit s (adm_store n (s\<lparr>ad_removing := xs @ ys, ad_answered := ad_answered s + 1\<rparr>))"
| retry: "ad_removing s = xs @ n # ys \<Longrightarrow>
    adm_step limit s (adm_store n (s\<lparr>ad_removing := xs @ ys, ad_admitted := ad_admitted s + 1\<rparr>))"

inductive_cases adm_stepE: "adm_step limit s s'"

definition adm_steps :: "nat \<Rightarrow> admission \<Rightarrow> admission \<Rightarrow> bool" where
  "adm_steps limit = (adm_step limit)\<^sup>*\<^sup>*"

lemma adm_steps_refl [simp]: "adm_steps limit s s"
  by (simp add: adm_steps_def)

lemma adm_steps_snoc: "adm_steps limit s s1 \<Longrightarrow> adm_step limit s1 s2 \<Longrightarrow> adm_steps limit s s2"
  unfolding adm_steps_def by (rule rtranclp.rtrancl_into_rtrancl)

lemma adm_steps_trans: "adm_steps limit s s1 \<Longrightarrow> adm_steps limit s1 s2 \<Longrightarrow> adm_steps limit s s2"
  unfolding adm_steps_def by (rule rtranclp_trans)

lemmas adm_defs = adm_check_def adm_create_def adm_remove_def adm_store_def ad_pending_def

section \<open>In order\<close>

text \<open>A step that leaves at most one value to be stored, none when a change was pending before it.\<close>

definition in_order :: "admission \<Rightarrow> bool" where
  "in_order s \<longleftrightarrow>
     (ad_creating s = [] \<and> ad_removing s = [] \<and> ad_gauge s = ad_waiting s) \<or>
     (\<exists>n. ad_creating s = [n] \<and> ad_removing s = [] \<and> n = ad_waiting s + 1) \<or>
     (\<exists>n. ad_creating s = [] \<and> ad_removing s = [n] \<and> n = ad_waiting s)"

lemma in_order_step:
  assumes "adm_step limit s s'" "in_order s" "length (ad_creating s') + length (ad_removing s') \<le> 1"
  shows "in_order s'"
  using assms by (elim adm_stepE) (auto simp: in_order_def adm_defs append_eq_Cons_conv)

text \<open>While the stores land in order, a gauge that nobody is about to set is the number of pending transactions.\<close>

lemma gauge_exact_in_order:
  assumes "in_order s" "ad_creating s = []" "ad_removing s = []"
  shows "ad_gauge s = ad_pending s"
  using assms by (auto simp: in_order_def ad_pending_def)

section \<open>A late store\<close>

text \<open>Nobody works on a request, nothing is pending, and the gauge is above the limit.\<close>

definition adm_stuck :: "nat \<Rightarrow> admission \<Rightarrow> bool" where
  "adm_stuck limit s \<longleftrightarrow>
     ad_admitted s = 0 \<and> ad_creating s = [] \<and> ad_waiting s = 0 \<and> ad_removing s = [] \<and> 0 < limit \<and> limit < ad_gauge s"

lemma stuck_step: "adm_step limit s s' \<Longrightarrow> adm_stuck limit s \<Longrightarrow> s' = s\<lparr>ad_rejected := ad_rejected s + 1\<rparr>"
  by (elim adm_stepE) (auto simp: adm_stuck_def adm_check_def)

lemma stuck_for_ever:
  "adm_steps limit s s' \<Longrightarrow> adm_stuck limit s \<Longrightarrow> adm_stuck limit s' \<and> ad_admitted s' = 0 \<and> ad_answered s' = ad_answered s"
  unfolding adm_steps_def
proof (induction rule: rtranclp_induct)
  case (step s1 s2)
  then show ?case using stuck_step by (fastforce simp: adm_stuck_def)
qed (simp add: adm_stuck_def)

text \<open>\<open>k\<close> handlers pass the check together, create, and all but one remove, each storing at once.\<close>

lemma admit_many:
  "ad_gauge s \<le> limit \<Longrightarrow> adm_steps limit s (s\<lparr>ad_admitted := ad_admitted s + k\<rparr>)"
proof (induction k)
  case (Suc k)
  let ?s = "s\<lparr>ad_admitted := ad_admitted s + k\<rparr>"
  have "adm_check limit ?s = s\<lparr>ad_admitted := ad_admitted s + Suc k\<rparr>" using Suc.prems by (simp add: adm_check_def)
  then show ?case using adm_steps_snoc [OF Suc.IH [OF Suc.prems]] adm_step.arrive [of limit ?s] by simp
qed simp

lemma create_many:
  "ad_admitted s = k \<Longrightarrow> ad_creating s = [] \<Longrightarrow> ad_gauge s = ad_waiting s \<Longrightarrow>
   adm_steps limit s (s\<lparr>ad_admitted := 0, ad_waiting := ad_waiting s + k, ad_gauge := ad_waiting s + k\<rparr>)"
proof (induction k arbitrary: s)
  case (Suc k)
  let ?s1 = "adm_create s"
  let ?s2 = "s\<lparr>ad_admitted := k, ad_waiting := ad_waiting s + 1, ad_gauge := ad_waiting s + 1\<rparr>"
  have "adm_step limit s ?s1" by (rule adm_step.create) (use Suc.prems in simp)
  moreover have "adm_step limit ?s1 ?s2"
    using adm_step.created [of ?s1 "[]" "ad_waiting s + 1" "[]" limit] Suc.prems by (cases s) (simp add: adm_defs)
  ultimately have "adm_steps limit s ?s2" by (meson adm_steps_refl adm_steps_snoc)
  moreover have "adm_steps limit ?s2 (?s2\<lparr>ad_admitted := 0, ad_waiting := ad_waiting ?s2 + k, ad_gauge := ad_waiting ?s2 + k\<rparr>)"
    by (rule Suc.IH) (use Suc.prems in simp_all)
  ultimately show ?case using adm_steps_trans by fastforce
next
  case 0
  have "s\<lparr>ad_admitted := 0, ad_waiting := ad_waiting s + 0, ad_gauge := ad_waiting s + 0\<rparr> = s"
    using 0 by (cases s) simp
  then show ?case by simp
qed

lemma remove_many:
  "ad_waiting s = k \<Longrightarrow> ad_creating s = [] \<Longrightarrow> ad_removing s = rs \<Longrightarrow>
   \<exists>s'. adm_steps limit s s' \<and> ad_waiting s' = 0 \<and> ad_creating s' = [] \<and> ad_removing s' = rs \<and> ad_admitted s' = ad_admitted s"
proof (induction k arbitrary: s)
  case (Suc k)
  let ?s1 = "adm_remove s"
  let ?s2 = "adm_store k (?s1\<lparr>ad_removing := rs, ad_answered := ad_answered ?s1 + 1\<rparr>)"
  have "adm_step limit s ?s1" by (rule adm_step.remove) (use Suc.prems in simp)
  moreover have "adm_step limit ?s1 ?s2"
    using adm_step.removed [of ?s1 rs k "[]" limit] Suc.prems by (simp add: adm_defs)
  ultimately have s2: "adm_steps limit s ?s2" by (meson adm_steps_refl adm_steps_snoc)
  obtain s' where "adm_steps limit ?s2 s'" "ad_waiting s' = 0" "ad_creating s' = []" "ad_removing s' = rs"
    "ad_admitted s' = ad_admitted ?s2"
    using Suc.IH [of ?s2] Suc.prems by (auto simp: adm_defs)
  then show ?case using adm_steps_trans [OF s2] by (fastforce simp: adm_defs)
qed (use adm_steps_refl in blast)

text \<open>
  C10: The admission limit can close the gateway for ever: for every limit there is a run after which
  nobody works on a request and no transaction is pending, but the gauge stays above the limit, because
  a \<open>remove\<close> stored its value after the others had finished; from then on every request is refused,
  none is admitted and none answered.
\<close>

theorem admission_stuck_reachable:
  assumes "0 < limit"
  shows "\<exists>s. adm_steps limit admission_start s \<and> ad_pending s = 0 \<and> limit < ad_gauge s \<and>
    (\<forall>s'. adm_steps limit s s' \<longrightarrow> ad_admitted s' = 0 \<and> ad_answered s' = ad_answered s \<and> ad_pending s' = 0 \<and>
      adm_step limit s' (s'\<lparr>ad_rejected := ad_rejected s' + 1\<rparr>) \<and>
      (\<forall>s''. adm_step limit s' s'' \<longrightarrow> s'' = s'\<lparr>ad_rejected := ad_rejected s' + 1\<rparr>))"
proof -
  let ?k = "limit + 2"
  let ?a = "admission_start\<lparr>ad_admitted := ?k\<rparr>"
  let ?b = "?a\<lparr>ad_admitted := 0, ad_waiting := ?k, ad_gauge := ?k\<rparr>"
  let ?c = "adm_remove ?b"
  have a: "adm_steps limit admission_start ?a"
    using admit_many [of admission_start limit ?k] by (simp add: admission_start_def)
  have b: "adm_steps limit ?a ?b" using create_many [of ?a ?k limit] by (simp add: admission_start_def)
  have c: "adm_step limit ?b ?c" by (rule adm_step.remove) simp
  have f: "ad_waiting ?c = limit + 1" "ad_creating ?c = []" "ad_removing ?c = [limit + 1]" "ad_admitted ?c = 0"
    by (simp_all add: adm_defs admission_start_def)
  obtain d where d: "adm_steps limit ?c d" "ad_waiting d = 0" "ad_creating d = []" "ad_removing d = [limit + 1]" "ad_admitted d = 0"
    using remove_many [OF f(1-3)] f(4) by auto
  let ?e = "adm_store (limit + 1) (d\<lparr>ad_removing := [], ad_answered := ad_answered d + 1\<rparr>)"
  have e: "adm_step limit d ?e" using adm_step.removed [of d "[]" "limit + 1" "[]" limit] d(4) by simp
  have run: "adm_steps limit admission_start ?e"
    using adm_steps_snoc [OF adm_steps_trans [OF adm_steps_snoc [OF adm_steps_trans [OF a b] c] d(1)] e] .
  have st: "adm_stuck limit ?e" using d(2-5) assms by (simp add: adm_stuck_def adm_store_def)
  have "ad_admitted s' = 0 \<and> ad_answered s' = ad_answered ?e \<and> ad_pending s' = 0 \<and>
      adm_step limit s' (s'\<lparr>ad_rejected := ad_rejected s' + 1\<rparr>) \<and>
      (\<forall>s''. adm_step limit s' s'' \<longrightarrow> s'' = s'\<lparr>ad_rejected := ad_rejected s' + 1\<rparr>)"
    if "adm_steps limit ?e s'" for s'
  proof -
    have s': "adm_stuck limit s'" "ad_answered s' = ad_answered ?e" using stuck_for_ever [OF that st] by blast+
    have z: "ad_admitted s' = 0" "ad_pending s' = 0" "adm_check limit s' = s'\<lparr>ad_rejected := ad_rejected s' + 1\<rparr>"
      using s'(1) by (simp_all add: adm_stuck_def ad_pending_def adm_check_def)
    have "adm_step limit s' (s'\<lparr>ad_rejected := ad_rejected s' + 1\<rparr>)" using adm_step.arrive [of limit s'] z(3) by simp
    then show ?thesis using s' z stuck_step [OF _ s'(1)] by blast
  qed
  moreover have "ad_pending ?e = 0" "limit < ad_gauge ?e" using st by (auto simp: adm_stuck_def ad_pending_def)
  ultimately show ?thesis using run by blast
qed

theorem admission_stuck_reachable_witness:
  "\<exists>s. adm_steps 1 admission_start s \<and> ad_pending s = 0 \<and> 1 < ad_gauge s"
  using admission_stuck_reachable [of 1] by auto

end
