(* ===== verification/HttpLife.thy ===== *)
theory HttpLife imports Supervise Endpoints begin

text \<open>
  The lives of the HTTP servers: \<open>Serve\<close>, \<open>Shutdown\<close> and \<open>Addr\<close> of the gateway's server
  (\<open>httpsrv/server.go\<close>) with the rate gate's goroutine (\<open>rps_gate.go\<close>), \<open>serve\<close> and \<open>shutdown\<close> of
  the Master (\<open>master/run.go\<close>), and the pool of request envelopes (\<open>env_pool.go\<close>).  \<open>Serve\<close> and
  \<open>Shutdown\<close> run in different goroutines; their statements are the steps here.

  Of \<open>http.Server\<close> the model uses: \<open>Shutdown\<close> marks the server and closes the listener of a
  running \<open>Serve\<close>; a marked server's \<open>Serve\<close> closes its listener and returns \<open>ErrServerClosed\<close>,
  at once when it was marked before; an accept error ends \<open>Serve\<close>; \<open>ServeTLS\<close> returns without
  touching the listener when the certificate cannot be loaded.
\<close>

section \<open>The gateway's server\<close>

text \<open>\<open>Serve\<close>: about to listen, to store the listener, to start the gate, to call \<open>http.Serve\<close>.\<close>

datatype serve_point = Listening | Storing | StartingGate | CallingServe | Accepting | ServeReturned gerr

text \<open>\<open>Shutdown\<close>: about to close the gate, about to call \<open>http.Shutdown\<close>, returned.\<close>

datatype shut_point = ClosingGate | CallingShutdown | ShutReturned

text \<open>The gate's goroutine: \<open>GateOff\<close> while \<open>stop\<close> is nil; then running, cancelled, ended.\<close>

datatype gate_life = GateOff | GateRunning | GateCancelled | GateEnded

record gw_server =
  gw_serve :: serve_point
  gw_shut :: shut_point
  gw_ln :: "string option" \<comment> \<open>\<open>s.ln\<close>: the address listened on\<close>
  gw_open :: "string option" \<comment> \<open>the open listener\<close>
  gw_marked :: bool \<comment> \<open>\<open>http.Shutdown\<close> was called\<close>
  gw_gate :: gate_life

definition gw_new :: gw_server where
  "gw_new = \<lparr>gw_serve = Listening, gw_shut = ClosingGate, gw_ln = None, gw_open = None, gw_marked = False, gw_gate = GateOff\<rparr>"

definition Server_Addr :: "gw_server \<Rightarrow> string" where
  "Server_Addr s = (case gw_ln s of None \<Rightarrow> '''' | Some a \<Rightarrow> a)"

definition gate_start :: "gw_server \<Rightarrow> gw_server" where
  "gate_start s = s\<lparr>gw_gate := GateRunning\<rparr>"

definition gate_close :: "gw_server \<Rightarrow> gw_server" where
  "gate_close s = (if gw_gate s = GateRunning then s\<lparr>gw_gate := GateCancelled\<rparr> else s)"

text \<open>\<open>http.Serve\<close> returns: its listener is closed.\<close>

definition serve_ends :: "gerr \<Rightarrow> gw_server \<Rightarrow> gw_server" where
  "serve_ends e s = s\<lparr>gw_serve := ServeReturned e, gw_open := None\<rparr>"

definition server_closed :: gerr where
  "server_closed = Sentinel (Http ErrServerClosed)"

datatype gw_event =
    ListenFails gerr | Listens string | StoreListener | StartGate | CertFails gerr | CallServe | AcceptFails gerr
  | ServeEnds | CloseGate | MarkShutdown | GateEnds

inductive gw_step :: "bool \<Rightarrow> gw_server \<Rightarrow> gw_event \<Rightarrow> gw_server \<Rightarrow> bool" for tls where
  listen_fails: "gw_serve s = Listening \<Longrightarrow>
    gw_step tls s (ListenFails e) (s\<lparr>gw_serve := ServeReturned (wrap_text ''listen http: '' e)\<rparr>)"
| listens: "gw_serve s = Listening \<Longrightarrow> gw_step tls s (Listens a) (s\<lparr>gw_serve := Storing, gw_open := Some a\<rparr>)"
| store: "gw_serve s = Storing \<Longrightarrow> gw_step tls s StoreListener (s\<lparr>gw_serve := StartingGate, gw_ln := gw_open s\<rparr>)"
| start: "gw_serve s = StartingGate \<Longrightarrow> gw_step tls s StartGate (gate_start (s\<lparr>gw_serve := CallingServe\<rparr>))"
| cert_fails: "tls \<Longrightarrow> gw_serve s = CallingServe \<Longrightarrow> gw_step tls s (CertFails e) (s\<lparr>gw_serve := ServeReturned e\<rparr>)"
| serve: "gw_serve s = CallingServe \<Longrightarrow>
    gw_step tls s CallServe (if gw_marked s then serve_ends server_closed s else s\<lparr>gw_serve := Accepting\<rparr>)"
| accept_fails: "gw_serve s = Accepting \<Longrightarrow> \<not> gw_marked s \<Longrightarrow> gw_step tls s (AcceptFails e) (serve_ends e s)"
| ends: "gw_serve s = Accepting \<Longrightarrow> gw_marked s \<Longrightarrow> gw_step tls s ServeEnds (serve_ends server_closed s)"
| close_gate: "gw_shut s = ClosingGate \<Longrightarrow> gw_step tls s CloseGate (gate_close (s\<lparr>gw_shut := CallingShutdown\<rparr>))"
| mark: "gw_shut s = CallingShutdown \<Longrightarrow> gw_step tls s MarkShutdown
    (s\<lparr>gw_shut := ShutReturned, gw_marked := True, gw_open := (if gw_serve s = Accepting then None else gw_open s)\<rparr>)"
| gate_ends: "gw_gate s = GateCancelled \<Longrightarrow> gw_step tls s GateEnds (s\<lparr>gw_gate := GateEnded\<rparr>)"

inductive_cases gw_stepE: "gw_step tls s ev s'"

inductive gw_steps :: "bool \<Rightarrow> gw_server \<Rightarrow> gw_event list \<Rightarrow> gw_server \<Rightarrow> bool" for tls s0 where
  nil: "gw_steps tls s0 [] s0"
| snoc: "gw_steps tls s0 evs s \<Longrightarrow> gw_step tls s ev s' \<Longrightarrow> gw_steps tls s0 (evs @ [ev]) s'"

definition gw_life :: "bool \<Rightarrow> gw_event list \<Rightarrow> gw_server \<Rightarrow> bool" where
  "gw_life tls = gw_steps tls gw_new"

text \<open>Steps left, and what a result of \<open>Serve\<close> can be.\<close>

definition serve_left :: "serve_point \<Rightarrow> nat" where
  "serve_left p = (case p of Listening \<Rightarrow> 5 | Storing \<Rightarrow> 4 | StartingGate \<Rightarrow> 3 | CallingServe \<Rightarrow> 2 | Accepting \<Rightarrow> 1 | ServeReturned e \<Rightarrow> 0)"

definition gate_left :: "gate_life \<Rightarrow> nat" where
  "gate_left g = (case g of GateOff \<Rightarrow> 2 | GateRunning \<Rightarrow> 2 | GateCancelled \<Rightarrow> 1 | GateEnded \<Rightarrow> 0)"

definition shut_left :: "shut_point \<Rightarrow> nat" where
  "shut_left p = (case p of ClosingGate \<Rightarrow> 2 | CallingShutdown \<Rightarrow> 1 | ShutReturned \<Rightarrow> 0)"

definition gw_left :: "gw_server \<Rightarrow> nat" where
  "gw_left s = serve_left (gw_serve s) + shut_left (gw_shut s) + gate_left (gw_gate s)"

definition serve_result :: "gw_event list \<Rightarrow> gw_server \<Rightarrow> gerr \<Rightarrow> bool" where
  "serve_result evs s e \<longleftrightarrow>
     (\<exists>e'. ListenFails e' \<in> set evs \<and> e = wrap_text ''listen http: '' e') \<or> CertFails e \<in> set evs \<or>
     AcceptFails e \<in> set evs \<or> gw_marked s \<and> e = server_closed"

definition before :: "'a \<Rightarrow> 'a \<Rightarrow> 'a list \<Rightarrow> bool" where
  "before x y zs \<longleftrightarrow> (\<exists>us vs. zs = us @ vs \<and> x \<in> set us \<and> y \<in> set vs)"

lemma before_snoc: "before x y (zs @ [z]) \<longleftrightarrow> before x y zs \<or> x \<in> set zs \<and> y = z"
proof
  assume "before x y (zs @ [z])"
  then obtain us vs where s: "zs @ [z] = us @ vs" "x \<in> set us" "y \<in> set vs" by (auto simp: before_def)
  show "before x y zs \<or> x \<in> set zs \<and> y = z"
  proof (cases vs rule: rev_cases)
    case (snoc ws w)
    then show ?thesis using s by (auto simp: before_def)
  qed (use s in simp)
next
  assume "before x y zs \<or> x \<in> set zs \<and> y = z"
  then show "before x y (zs @ [z])"
  proof
    assume "before x y zs"
    then obtain us vs where "zs = us @ vs" "x \<in> set us" "y \<in> set vs" by (auto simp: before_def)
    then show ?thesis unfolding before_def by (intro exI [of _ us] exI [of _ "vs @ [z]"]) simp
  next
    assume "x \<in> set zs \<and> y = z"
    then show ?thesis unfolding before_def by (intro exI [of _ zs] exI [of _ "[z]"]) simp
  qed
qed

lemma before_mem: "before x y zs \<Longrightarrow> x \<in> set zs \<and> y \<in> set zs"
  by (auto simp: before_def)

definition gw_inv :: "gw_event list \<Rightarrow> gw_server \<Rightarrow> bool" where
  "gw_inv evs s \<longleftrightarrow>
     (gw_marked s \<longleftrightarrow> gw_shut s = ShutReturned) \<and>
     (CloseGate \<in> set evs \<longleftrightarrow> gw_shut s \<noteq> ClosingGate) \<and>
     (StartGate \<in> set evs \<longleftrightarrow> gw_gate s \<noteq> GateOff) \<and>
     (gw_serve s \<in> {Listening, Storing, StartingGate} \<longrightarrow> gw_gate s = GateOff) \<and>
     (gw_gate s = GateRunning \<longrightarrow> gw_shut s \<noteq> ClosingGate \<longrightarrow> before CloseGate StartGate evs) \<and>
     (gw_gate s \<in> {GateCancelled, GateEnded} \<longrightarrow> before StartGate CloseGate evs \<and> \<not> before CloseGate StartGate evs) \<and>
     (\<forall>e. gw_serve s = ServeReturned e \<longrightarrow> serve_result evs s e \<and> (gw_open s \<noteq> None \<longrightarrow> CertFails e \<in> set evs)) \<and>
     (gw_serve s = Listening \<longrightarrow> gw_open s = None)"

lemma gw_inv_new: "gw_inv [] gw_new"
  by (simp add: gw_inv_def gw_new_def before_def)

lemmas gw_defs = serve_ends_def gate_start_def gate_close_def serve_result_def before_snoc

lemma gw_inv_step: "gw_step tls s ev s' \<Longrightarrow> gw_inv evs s \<Longrightarrow> gw_inv (evs @ [ev]) s'"
  by (erule gw_stepE) (auto simp: gw_inv_def gw_defs dest: before_mem split: if_splits)

lemma gw_life_inv: "gw_life tls evs s \<Longrightarrow> gw_inv evs s"
  unfolding gw_life_def by (induction rule: gw_steps.induct) (auto intro: gw_inv_new gw_inv_step)

lemma gw_step_left: "gw_step tls s ev s' \<Longrightarrow> gw_inv evs s \<Longrightarrow> gw_left s' < gw_left s"
  by (erule gw_stepE)
     (auto simp: gw_left_def serve_left_def shut_left_def gate_left_def gw_inv_def gw_defs split: if_splits gate_life.splits)

lemma gw_life_left: "gw_life tls evs s \<Longrightarrow> length evs + gw_left s \<le> 9"
  unfolding gw_life_def
proof (induction rule: gw_steps.induct)
  case (snoc evs s ev s')
  then show ?case using gw_step_left [OF snoc.hyps(2) gw_life_inv [unfolded gw_life_def, OF snoc.hyps(1)]] by simp
qed (simp add: gw_new_def gw_left_def serve_left_def shut_left_def gate_left_def)

text \<open>A life that cannot go on: both calls have returned.\<close>

definition gw_over :: "bool \<Rightarrow> gw_server \<Rightarrow> bool" where
  "gw_over tls s \<longleftrightarrow> (\<nexists>ev s'. gw_step tls s ev s')"

lemma gw_over_returned:
  assumes "gw_over tls s" "gw_inv evs s"
  shows "\<exists>e. gw_serve s = ServeReturned e" "gw_shut s = ShutReturned" "gw_gate s \<noteq> GateCancelled"
proof -
  have no: "\<not> gw_step tls s ev s'" for ev s' using assms(1) by (simp add: gw_over_def)
  show sh: "gw_shut s = ShutReturned"
    using no gw_step.close_gate gw_step.mark by (cases "gw_shut s") blast+
  show "gw_gate s \<noteq> GateCancelled" using no gw_step.gate_ends by blast
  have "gw_marked s" using sh assms(2) by (simp add: gw_inv_def)
  then show "\<exists>e. gw_serve s = ServeReturned e"
    using no gw_step.listen_fails gw_step.store gw_step.start gw_step.serve gw_step.ends
    by (cases "gw_serve s") blast+
qed

text \<open>
  C38: The gateway's HTTP server stops: however \<open>Serve\<close> and \<open>Shutdown\<close> interleave, their run is over
  after at most nine steps with both returned; \<open>Serve\<close> returns its listen, certificate or accept
  error, or \<open>ErrServerClosed\<close> after \<open>Shutdown\<close>; the listener is closed unless the certificate failed;
  and the rate gate's goroutine is left running exactly when \<open>Shutdown\<close> closed the gate before \<open>Serve\<close>
  started it.
\<close>

theorem gateway_server_stops:
  assumes "gw_life tls evs s"
  shows "length evs \<le> 9 \<and>
    (gw_over tls s \<longrightarrow> gw_shut s = ShutReturned \<and>
      (\<exists>e. gw_serve s = ServeReturned e \<and> serve_result evs s e \<and> (gw_open s \<noteq> None \<longrightarrow> CertFails e \<in> set evs)) \<and>
      (gw_gate s = GateRunning \<longleftrightarrow> before CloseGate StartGate evs) \<and>
      (gw_gate s = GateOff \<longleftrightarrow> StartGate \<notin> set evs))"
proof -
  note inv = gw_life_inv [OF assms]
  have "gw_gate s = GateRunning \<longleftrightarrow> before CloseGate StartGate evs" if "gw_over tls s"
    using inv gw_over_returned [OF that inv] by (cases "gw_gate s") (auto simp: gw_inv_def dest: before_mem)
  moreover have "\<exists>e. gw_serve s = ServeReturned e \<and> serve_result evs s e \<and> (gw_open s \<noteq> None \<longrightarrow> CertFails e \<in> set evs)"
    if "gw_over tls s"
    using inv gw_over_returned(1) [OF that inv] unfolding gw_inv_def by blast
  moreover have "gw_gate s = GateOff \<longleftrightarrow> StartGate \<notin> set evs" using inv unfolding gw_inv_def by blast
  moreover have "length evs \<le> 9" using gw_life_left [OF assms] by simp
  ultimately show ?thesis using gw_over_returned(2) [OF _ inv] by simp
qed

definition w_gw :: gw_server where
  "w_gw = \<lparr>gw_serve = ServeReturned server_closed, gw_shut = ShutReturned, gw_ln = Some ''127.0.0.1:8080'', gw_open = None,
     gw_marked = True, gw_gate = GateRunning\<rparr>"

definition w_gw_events :: "gw_event list" where
  "w_gw_events = [CloseGate, MarkShutdown, Listens ''127.0.0.1:8080'', StoreListener, StartGate, CallServe]"

lemma w_gw_life: "gw_life False w_gw_events w_gw"
proof -
  let ?a = "''127.0.0.1:8080''"
  let ?s = "gw_new\<lparr>gw_shut := ShutReturned, gw_marked := True\<rparr>"
  have 1: "gw_steps False gw_new ([] @ [CloseGate]) (gw_new\<lparr>gw_shut := CallingShutdown\<rparr>)"
    using gw_step.close_gate [of gw_new False] by (intro gw_steps.snoc [OF gw_steps.nil]) (simp add: gw_new_def gate_close_def)
  have 2: "gw_step False (gw_new\<lparr>gw_shut := CallingShutdown\<rparr>) MarkShutdown ?s"
    using gw_step.mark [of "gw_new\<lparr>gw_shut := CallingShutdown\<rparr>" False] by (simp add: gw_new_def)
  have 3: "gw_step False ?s (Listens ?a) (?s\<lparr>gw_serve := Storing, gw_open := Some ?a\<rparr>)"
    by (rule gw_step.listens) (simp add: gw_new_def)
  have 4: "gw_step False (?s\<lparr>gw_serve := Storing, gw_open := Some ?a\<rparr>) StoreListener
      (?s\<lparr>gw_serve := StartingGate, gw_open := Some ?a, gw_ln := Some ?a\<rparr>)"
    using gw_step.store [of "?s\<lparr>gw_serve := Storing, gw_open := Some ?a\<rparr>" False] by (simp add: gw_new_def)
  have 5: "gw_step False (?s\<lparr>gw_serve := StartingGate, gw_open := Some ?a, gw_ln := Some ?a\<rparr>) StartGate
      (?s\<lparr>gw_serve := CallingServe, gw_open := Some ?a, gw_ln := Some ?a, gw_gate := GateRunning\<rparr>)"
    using gw_step.start [of "?s\<lparr>gw_serve := StartingGate, gw_open := Some ?a, gw_ln := Some ?a\<rparr>" False]
    by (simp add: gw_new_def gate_start_def)
  have 6: "gw_step False (?s\<lparr>gw_serve := CallingServe, gw_open := Some ?a, gw_ln := Some ?a, gw_gate := GateRunning\<rparr>)
      CallServe w_gw"
    using gw_step.serve [of "?s\<lparr>gw_serve := CallingServe, gw_open := Some ?a, gw_ln := Some ?a, gw_gate := GateRunning\<rparr>" False]
    by (simp add: gw_new_def w_gw_def serve_ends_def)
  show ?thesis
    using gw_steps.snoc [OF gw_steps.snoc [OF gw_steps.snoc [OF gw_steps.snoc [OF gw_steps.snoc [OF 1 2] 3] 4] 5] 6]
    by (simp add: gw_life_def w_gw_events_def)
qed

theorem gateway_server_stops_witness:
  "gw_over False w_gw \<and> gw_gate w_gw = GateRunning \<and> before CloseGate StartGate w_gw_events \<and> length w_gw_events \<le> 9"
proof -
  have "gw_over False w_gw" by (auto simp: gw_over_def w_gw_def elim: gw_stepE)
  then show ?thesis using gateway_server_stops [OF w_gw_life] by (simp add: w_gw_def)
qed

section \<open>The Master's server\<close>

text \<open>
  \<open>serve\<close>: about to set \<open>s.http\<close>, to listen, to store the listener, to start the watcher, to call
  \<open>http.Serve\<close>.  The watcher calls \<open>http.Shutdown\<close> once the run's context has ended.
\<close>

datatype mserve_point = MSetHttp | MListen | MStore | MWatch | MCallServe | MAccepting | MServeReturned gerr

datatype watcher = NoWatcher | Watching | WatchDone

record m_server =
  ms_serve :: mserve_point
  ms_http :: bool \<comment> \<open>\<open>s.http\<close> is set\<close>
  ms_ln :: "string option"
  ms_open :: "string option"
  ms_watch :: watcher
  ms_marked :: bool
  ms_shut :: bool \<comment> \<open>\<open>shutdown\<close> has returned\<close>
  ms_ended :: bool \<comment> \<open>the run's context has ended\<close>

definition ms_new :: m_server where
  "ms_new = \<lparr>ms_serve = MSetHttp, ms_http = False, ms_ln = None, ms_open = None, ms_watch = NoWatcher, ms_marked = False,
     ms_shut = False, ms_ended = False\<rparr>"

definition ms_mark :: "m_server \<Rightarrow> m_server" where
  "ms_mark s = s\<lparr>ms_marked := True, ms_open := (if ms_serve s = MAccepting then None else ms_open s)\<rparr>"

definition ms_shutdown :: "m_server \<Rightarrow> m_server" where
  "ms_shutdown s = (if ms_http s then ms_mark s else s)\<lparr>ms_shut := True\<rparr>"

definition ms_serve_ends :: "gerr \<Rightarrow> m_server \<Rightarrow> m_server" where
  "ms_serve_ends e s = s\<lparr>ms_serve := MServeReturned e, ms_open := None\<rparr>"

datatype m_event =
    MSetsHttp | MListenFails gerr | MListens string | MStores | MStartsWatcher | MCallsServe | MAcceptFails gerr | MServeEnds
  | MShutdown | MContextEnds | MWatcherMarks

inductive m_step :: "m_server \<Rightarrow> m_event \<Rightarrow> m_server \<Rightarrow> bool" where
  set_http: "ms_serve s = MSetHttp \<Longrightarrow> m_step s MSetsHttp (s\<lparr>ms_serve := MListen, ms_http := True\<rparr>)"
| listen_fails: "ms_serve s = MListen \<Longrightarrow>
    m_step s (MListenFails e) (s\<lparr>ms_serve := MServeReturned (wrap_text ''listen master: '' e)\<rparr>)"
| listens: "ms_serve s = MListen \<Longrightarrow> m_step s (MListens a) (s\<lparr>ms_serve := MStore, ms_open := Some a\<rparr>)"
| store: "ms_serve s = MStore \<Longrightarrow> m_step s MStores (s\<lparr>ms_serve := MWatch, ms_ln := ms_open s\<rparr>)"
| watch: "ms_serve s = MWatch \<Longrightarrow> m_step s MStartsWatcher (s\<lparr>ms_serve := MCallServe, ms_watch := Watching\<rparr>)"
| serve: "ms_serve s = MCallServe \<Longrightarrow>
    m_step s MCallsServe (if ms_marked s then ms_serve_ends server_closed s else s\<lparr>ms_serve := MAccepting\<rparr>)"
| accept_fails: "ms_serve s = MAccepting \<Longrightarrow> \<not> ms_marked s \<Longrightarrow> m_step s (MAcceptFails e) (ms_serve_ends e s)"
| ends: "ms_serve s = MAccepting \<Longrightarrow> ms_marked s \<Longrightarrow> m_step s MServeEnds (ms_serve_ends server_closed s)"
| shutdown: "\<not> ms_shut s \<Longrightarrow> m_step s MShutdown (ms_shutdown s)"
| ctx_ends: "\<not> ms_ended s \<Longrightarrow> m_step s MContextEnds (s\<lparr>ms_ended := True\<rparr>)"
| watcher: "ms_watch s = Watching \<Longrightarrow> ms_ended s \<Longrightarrow> m_step s MWatcherMarks ((ms_mark s)\<lparr>ms_watch := WatchDone\<rparr>)"

inductive_cases m_stepE: "m_step s ev s'"

inductive m_steps :: "m_server \<Rightarrow> m_event list \<Rightarrow> m_server \<Rightarrow> bool" for s0 where
  nil: "m_steps s0 [] s0"
| snoc: "m_steps s0 evs s \<Longrightarrow> m_step s ev s' \<Longrightarrow> m_steps s0 (evs @ [ev]) s'"

definition m_life :: "m_event list \<Rightarrow> m_server \<Rightarrow> bool" where
  "m_life = m_steps ms_new"

definition m_left :: "m_server \<Rightarrow> nat" where
  "m_left s =
     (case ms_serve s of MSetHttp \<Rightarrow> 7 | MListen \<Rightarrow> 6 | MStore \<Rightarrow> 5 | MWatch \<Rightarrow> 4 | MCallServe \<Rightarrow> 2 | MAccepting \<Rightarrow> 1 | MServeReturned e \<Rightarrow> 0) +
     (if ms_watch s = Watching then 1 else 0) + (if ms_shut s then 0 else 1) + (if ms_ended s then 0 else 1)"

definition m_inv :: "m_event list \<Rightarrow> m_server \<Rightarrow> bool" where
  "m_inv evs s \<longleftrightarrow>
     (ms_serve s \<in> {MCallServe, MAccepting} \<longrightarrow> ms_watch s \<noteq> NoWatcher) \<and>
     (ms_watch s = WatchDone \<longrightarrow> ms_marked s) \<and>
     (ms_marked s \<longrightarrow> ms_shut s \<or> ms_ended s) \<and>
     (ms_serve s \<in> {MSetHttp, MListen} \<longrightarrow> ms_open s = None) \<and>
     (\<forall>e. ms_serve s = MServeReturned e \<longrightarrow> ms_open s = None \<and>
        ((\<exists>e'. MListenFails e' \<in> set evs \<and> e = wrap_text ''listen master: '' e') \<or> MAcceptFails e \<in> set evs \<or>
         ms_marked s \<and> e = server_closed))"

lemmas m_defs = ms_mark_def ms_shutdown_def ms_serve_ends_def

lemma m_inv_step: "m_step s ev s' \<Longrightarrow> m_inv evs s \<Longrightarrow> m_inv (evs @ [ev]) s'"
  by (erule m_stepE) (auto simp: m_inv_def m_defs split: if_splits)

lemma m_life_inv: "m_life evs s \<Longrightarrow> m_inv evs s"
  unfolding m_life_def
proof (induction rule: m_steps.induct)
  case nil
  show ?case by (simp add: m_inv_def ms_new_def)
qed (rule m_inv_step)

lemma m_step_left: "m_step s ev s' \<Longrightarrow> m_left s' < m_left s"
  by (erule m_stepE) (auto simp: m_left_def m_defs split: mserve_point.splits if_splits)

lemma m_life_left: "m_life evs s \<Longrightarrow> length evs + m_left s \<le> 9"
  unfolding m_life_def
proof (induction rule: m_steps.induct)
  case (snoc evs s ev s')
  then show ?case using m_step_left [OF snoc.hyps(2)] by simp
qed (simp add: ms_new_def m_left_def)

lemma m_over_returned:
  assumes "\<nexists>ev s'. m_step s ev s'" "m_inv evs s"
  shows "ms_shut s" "ms_ended s" "\<exists>e. ms_serve s = MServeReturned e"
proof -
  show "ms_shut s" "ms_ended s" using assms(1) m_step.shutdown m_step.ctx_ends by blast+
  then have "ms_watch s \<noteq> Watching" using assms(1) m_step.watcher by blast
  then have "ms_serve s \<in> {MCallServe, MAccepting} \<longrightarrow> ms_marked s"
    using assms(2) by (cases "ms_watch s") (auto simp: m_inv_def)
  then show "\<exists>e. ms_serve s = MServeReturned e"
    using assms(1) m_step.set_http m_step.listen_fails m_step.store m_step.watch m_step.serve m_step.ends
    by (cases "ms_serve s") blast+
qed

text \<open>
  The Master's server stops: \<open>Run\<close> calls \<open>shutdown\<close> and ends the context; a run that cannot go on has
  \<open>serve\<close> returned with its listener closed, also when \<open>shutdown\<close> found \<open>s.http\<close> still nil and did
  nothing, because the watcher then marks the server.
\<close>

lemma master_server_stops:
  assumes "m_life evs s"
  shows "length evs \<le> 9 \<and>
    ((\<nexists>ev s'. m_step s ev s') \<longrightarrow> ms_shut s \<and> ms_ended s \<and> ms_open s = None \<and>
      (\<exists>e. ms_serve s = MServeReturned e \<and>
        ((\<exists>e'. MListenFails e' \<in> set evs \<and> e = wrap_text ''listen master: '' e') \<or> MAcceptFails e \<in> set evs \<or>
         ms_marked s \<and> e = server_closed)))"
  using m_life_left [OF assms] m_life_inv [OF assms] m_over_returned [OF _ m_life_inv [OF assms]]
  by (fastforce simp: m_inv_def)

section \<open>The pool of request envelopes (\<open>env_pool.go\<close>)\<close>

text \<open>
  A slot holds an envelope, a wrapper of the oneof and a DATA request; \<open>Body\<close> of the envelope points
  to the slot's wrapper or elsewhere, \<open>DataRequest\<close> of the wrapper to the slot's request or elsewhere.
  \<open>es_env\<close> is the envelope without its body.
\<close>

datatype 'a pointer = Nil | Own | Foreign 'a

record env_slot =
  es_env :: envelope
  es_body :: "body pointer"
  es_request :: "data_request pointer"
  es_dr :: data_request

definition zero_envelope :: envelope where
  "zero_envelope = \<lparr>env_version = 0, env_type = MESSAGE_TYPE_UNKNOWN, env_source_node_id = 0, env_destination_node_id = 0,
     env_transaction_id = 0, env_timestamp_ms = 0, env_trace_id = [], env_body = None\<rparr>"

definition zero_request :: data_request where
  "zero_request = \<lparr>dr_message_id = 0, dr_session_id = [], dr_payload = []\<rparr>"

text \<open>The envelope a reader of \<open>&slot.env\<close> sees.\<close>

definition slot_envelope :: "env_slot \<Rightarrow> envelope" where
  "slot_envelope s = (es_env s)\<lparr>env_body :=
     (case es_body s of
        Nil \<Rightarrow> None
      | Foreign b \<Rightarrow> Some b
      | Own \<Rightarrow> (case es_request s of Nil \<Rightarrow> None | Own \<Rightarrow> Some (DataRequest (es_dr s)) | Foreign r \<Rightarrow> Some (DataRequest r)))\<rparr>"

definition newEnvSlot :: env_slot where
  "newEnvSlot = (let s = \<lparr>es_env = zero_envelope, es_body = Nil, es_request = Nil, es_dr = zero_request\<rparr>
     in s\<lparr>es_request := Own, es_body := Own\<rparr>)"

definition releaseEnvSlot :: "env_slot option \<Rightarrow> env_slot list \<Rightarrow> env_slot list" where
  "releaseEnvSlot slot pool =
     (case slot of
        None \<Rightarrow> pool
      | Some s \<Rightarrow>
          let s1 = s\<lparr>es_dr := (es_dr s)\<lparr>dr_payload := []\<rparr>\<rparr>;
              s2 = s1\<lparr>es_env := zero_envelope, es_body := Nil\<rparr>;
              s3 = s2\<lparr>es_dr := zero_request\<rparr>;
              s4 = s3\<lparr>es_request := Own\<rparr>
          in s4\<lparr>es_body := Own\<rparr> # pool)"

text \<open>\<open>sync.Pool\<close>: \<open>Get\<close> takes some pooled slot or makes a new one.\<close>

inductive acquireEnvSlot :: "env_slot list \<Rightarrow> env_slot \<Rightarrow> env_slot list \<Rightarrow> bool" where
  pooled: "acquireEnvSlot (xs @ s # ys) s (xs @ ys)"
| fresh: "acquireEnvSlot pool newEnvSlot pool"

text \<open>The assignments of \<open>serveData\<close> to an acquired slot.\<close>

definition fill_slot :: "http_config \<Rightarrow> time \<Rightarrow> u32 \<Rightarrow> 'r http_request \<Rightarrow> bytes \<Rightarrow> env_slot \<Rightarrow> env_slot" where
  "fill_slot cfg now msgID req body s =
     s\<lparr>es_env := (es_env s)\<lparr>env_version := 1, env_type := MESSAGE_TYPE_DATA_REQUEST, env_source_node_id := hc_NodeID cfg,
         env_timestamp_ms := timestamp_ms now, env_trace_id := TrimSpace (hr_trace_id req)\<rparr>,
       es_dr := (es_dr s)\<lparr>dr_message_id := msgID, dr_session_id := TrimSpace (hr_session_id req), dr_payload := body\<rparr>\<rparr>"

text \<open>
  A run of the pool: handlers acquire slots, write whatever they like into them (the transaction
  service sets ids, an error path may leave a slot half filled) and release them.
\<close>

inductive pool_run :: "env_slot list \<Rightarrow> bool" where
  empty: "pool_run []"
| acquire: "pool_run pool \<Longrightarrow> acquireEnvSlot pool s pool' \<Longrightarrow> pool_run pool'"
| release: "pool_run pool \<Longrightarrow> pool_run (releaseEnvSlot slot pool)"

lemma release_clean: "set (releaseEnvSlot slot pool) \<subseteq> insert newEnvSlot (set pool)"
  by (auto simp: releaseEnvSlot_def newEnvSlot_def Let_def split: option.split)

lemma pool_run_clean: "pool_run pool \<Longrightarrow> set pool \<subseteq> {newEnvSlot}"
proof (induction rule: pool_run.induct)
  case (acquire pool s pool')
  then show ?case by (auto elim!: acquireEnvSlot.cases)
next
  case (release pool slot)
  then show ?case using release_clean [of slot pool] by blast
qed simp

text \<open>
  Pooling is not observable: whatever earlier requests did with the slots, the envelope a request
  builds in an acquired slot is the one built from nothing.
\<close>

theorem pooled_envelope_fresh:
  assumes "pool_run pool" "acquireEnvSlot pool s pool'"
  shows "slot_envelope (fill_slot cfg now msgID req body s) = http_envelope cfg now msgID req body"
proof -
  have "s = newEnvSlot"
    using assms(2) pool_run_clean [OF assms(1)] by (auto elim!: acquireEnvSlot.cases)
  then show ?thesis
    by (simp add: slot_envelope_def fill_slot_def newEnvSlot_def http_envelope_def zero_envelope_def)
qed

theorem pooled_envelope_fresh_witness:
  "slot_envelope (fill_slot \<lparr>hc_NodeID = 1, hc_MaxPending = 0\<rparr> 5 7 w_http_request [1] newEnvSlot) = http_envelope \<lparr>hc_NodeID = 1, hc_MaxPending = 0\<rparr> 5 7 w_http_request [1] \<and>
   releaseEnvSlot (Some (fill_slot \<lparr>hc_NodeID = 1, hc_MaxPending = 0\<rparr> 5 9 w_http_request [4] newEnvSlot)) [] = [newEnvSlot]"
proof -
  let ?used = "fill_slot \<lparr>hc_NodeID = 1, hc_MaxPending = 0\<rparr> 5 9 w_http_request [4] newEnvSlot"
  have r: "releaseEnvSlot (Some ?used) [] = [newEnvSlot]"
    by (simp add: releaseEnvSlot_def newEnvSlot_def fill_slot_def Let_def)
  have "pool_run [newEnvSlot]" using pool_run.release [OF pool_run.empty, of "Some ?used"] by (simp only: r)
  then show ?thesis
    using pooled_envelope_fresh [OF _ acquireEnvSlot.pooled [of "[]" newEnvSlot "[]"]] r by simp
qed

end
