(* ===== verification/GatewayRun.thy ===== *)
theory GatewayRun imports HttpLife Gateway UdpConn begin

text \<open>
  The rest of the gateway's start (\<open>gateway/run.go\<close>): the report about the socket buffers and the
  profiling server (\<open>httpsrv/pprof.go\<close>), which is the last part of the set-up that can fail.
\<close>

section \<open>The buffer report\<close>

datatype report_line =
    BufferInfo "(string \<times> int) list" bool
  | BufferWarn "(string \<times> int) list" bool gerr
  | BufferSmall int int \<comment> \<open>the receive buffer got, and the one configured\<close>

definition report_fields :: "buffer_report \<Rightarrow> int \<Rightarrow> (string \<times> int) list" where
  "report_fields rep batch =
     [(''configured_rcvbuf'', br_configuredR rep), (''requested_rcvbuf'', br_requestedR rep),
      (''actual_rcvbuf_before_force'', br_beforeR rep), (''actual_rcvbuf_after_force'', br_afterR rep),
      (''configured_sndbuf'', br_configuredW rep), (''requested_sndbuf'', br_requestedW rep),
      (''actual_sndbuf_before_force'', br_beforeW rep), (''actual_sndbuf_after_force'', br_afterW rep),
      (''receive_batch_size'', batch)]"

definition logUDPBufferReport :: "buffer_report \<Rightarrow> int \<Rightarrow> report_line list" where
  "logUDPBufferReport rep batch =
     (case br_error rep of
        Some err \<Rightarrow> [BufferWarn (report_fields rep batch) (br_forced rep) err]
      | None \<Rightarrow>
          BufferInfo (report_fields rep batch) (br_forced rep) #
          (if br_configuredR rep > 0 \<and> br_afterR rep > 0 \<and> br_afterR rep < 1024 * 1024
           then [BufferSmall (br_afterR rep) (br_configuredR rep)] else []))"

text \<open>Every small receive buffer is reported, unless reading or forcing the buffers failed, which is reported instead.\<close>

lemma small_buffer_reported:
  assumes "wantR > 0" "br_error rep = None" "br_configuredR rep = wantR" "0 < br_afterR rep" "br_afterR rep < 2 ^ 20"
  shows "BufferSmall (br_afterR rep) wantR \<in> set (logUDPBufferReport rep batch)"
  using assms by (simp add: logUDPBufferReport_def)

section \<open>The profiling server\<close>

datatype profile_page = PIndex | PCmdline | PProfile | PSymbol | PTrace | PNamed string

definition profile_pages :: "(string \<times> profile_page) list" where
  "profile_pages =
     [(''/debug/pprof/cmdline'', PCmdline), (''/debug/pprof/profile'', PProfile), (''/debug/pprof/symbol'', PSymbol),
      (''/debug/pprof/trace'', PTrace), (''/debug/pprof/heap'', PNamed ''heap''), (''/debug/pprof/goroutine'', PNamed ''goroutine''),
      (''/debug/pprof/threadcreate'', PNamed ''threadcreate''), (''/debug/pprof/block'', PNamed ''block''),
      (''/debug/pprof/mutex'', PNamed ''mutex''), (''/debug/pprof/allocs'', PNamed ''allocs'')]"

text \<open>
  The patterns have no method and match every one; \<open>/debug/pprof/\<close> is a subtree, less specific than the
  others, and its path without the slash is redirected to it.
\<close>

definition profile_mux :: "string \<Rightarrow> profile_page routed" where
  "profile_mux path =
     (if cleanPath path \<noteq> path then Moved (cleanPath path)
      else case map_of profile_pages path of
        Some page \<Rightarrow> Routed page
      | None \<Rightarrow>
          if take 13 path = ''/debug/pprof/'' then Routed PIndex
          else if path = ''/debug/pprof'' then Moved ''/debug/pprof/''
          else NotFound)"

datatype profile_call = BlockProfileRate int | MutexProfileFraction int | ProfileListen string | ProfileServe string

text \<open>\<open>open_tcp\<close> is the error of \<open>net.Listen\<close>.  The two goroutines started are the server and its shutdown.\<close>

definition StartPprofListen :: "(string \<Rightarrow> gerr option) \<Rightarrow> string \<Rightarrow> gerr option \<times> profile_call list" where
  "StartPprofListen open_tcp addr0 =
     (let addr = TrimSpace addr0 in
      if addr = [] then (None, [])
      else case open_tcp addr of
        Some err \<Rightarrow> (Some err, [BlockProfileRate 1, MutexProfileFraction 1, ProfileListen addr])
      | None \<Rightarrow> (None, [BlockProfileRate 1, MutexProfileFraction 1, ProfileListen addr, ProfileServe addr]))"

text \<open>\<open>Run\<close> up to its first goroutine: the set-up, then the profiling server.\<close>

definition gateway_begin ::
  "(string \<Rightarrow> float64 res) \<Rightarrow> (float64 \<Rightarrow> u64 \<Rightarrow> u64) \<Rightarrow> gerr option \<Rightarrow> (string \<Rightarrow> IP list res) \<Rightarrow> int option \<Rightarrow>
   (string \<Rightarrow> gerr option) \<Rightarrow> time \<Rightarrow> http2gw_cfg \<Rightarrow> gateway res \<times> profile_call list" where
  "gateway_begin scan scale open_udp lookup local_port open_tcp now cfg =
     (case gateway_setup scan scale open_udp lookup local_port now cfg of
        Inl err \<Rightarrow> (Inl err, [])
      | Inr g \<Rightarrow>
          (case StartPprofListen open_tcp (PprofListen (gw_HTTP cfg)) of
             (Some err, calls) \<Rightarrow> (Inl (wrap_text ''pprof listen: '' err), calls)
           | (None, calls) \<Rightarrow> (Inr g, calls)))"

text \<open>
  Without a profiling address the gateway starts as its set-up says and profiles nothing; with one the
  only further failure is that of its port.
\<close>

lemma gateway_begin_cases:
  assumes "gateway_setup scan scale open_udp lookup local_port now cfg = Inr g"
  shows "gateway_begin scan scale open_udp lookup local_port open_tcp now cfg =
    (if TrimSpace (PprofListen (gw_HTTP cfg)) = [] then (Inr g, [])
     else case open_tcp (TrimSpace (PprofListen (gw_HTTP cfg))) of
       Some err \<Rightarrow> (Inl (wrap_text ''pprof listen: '' err), snd (StartPprofListen open_tcp (PprofListen (gw_HTTP cfg))))
     | None \<Rightarrow> (Inr g, snd (StartPprofListen open_tcp (PprofListen (gw_HTTP cfg)))))"
  using assms by (auto simp: gateway_begin_def StartPprofListen_def Let_def split: option.split)

text \<open>The profiles are served on their own port only: the data port knows none of their pages.\<close>

lemma profiles_not_on_data_port:
  "path \<in> set (map fst profile_pages) \<Longrightarrow> mux gateway_routes m path = NotFound"
proof -
  have "list_all (\<lambda>path. cleanPath path = path \<and> (\<forall>r\<in>set gateway_routes. match_path (rt_path r) (segments path) = None))
      (map fst profile_pages)"
    by code_simp
  moreover have "mux gateway_routes m path = NotFound"
    if "cleanPath path = path" "\<forall>r\<in>set gateway_routes. match_path (rt_path r) (segments path) = None" for path
  proof -
    have "List.map_filter (\<lambda>r. map_option (\<lambda>vars. (r, vars)) (match_path (rt_path r) (segments path))) gateway_routes = []"
      using that(2) by (auto simp: List.map_filter_def filter_empty_conv)
    then show ?thesis using that(1) by (simp add: mux_def)
  qed
  ultimately show "path \<in> set (map fst profile_pages) \<Longrightarrow> mux gateway_routes m path = NotFound"
    by (auto simp: list_all_iff)
qed

lemma profile_pages_routed:
  "profile_mux ''/debug/pprof/'' = Routed PIndex" "profile_mux ''/debug/pprof/heap'' = Routed (PNamed ''heap'')"
  "profile_mux ''/debug/pprof'' = Moved ''/debug/pprof/''" "profile_mux ''/metrics'' = NotFound"
  by code_simp+

section \<open>The scrape endpoint\<close>

text \<open>\<open>Metrics.Handler\<close>: \<open>scrape\<close> is the handler of the Prometheus library, absent for nil metrics.\<close>

definition metrics_handler :: "('m \<Rightarrow> http_call list) \<Rightarrow> 'm option \<Rightarrow> http_call list \<Rightarrow> http_call list" where
  "metrics_handler scrape sink w = w @ (case sink of None \<Rightarrow> [HError ''metrics unavailable'' 503] | Some m \<Rightarrow> scrape m)"

text \<open>The same on the Logic node, whose registry can be nil too.\<close>

definition node_metrics_handler :: "('m \<Rightarrow> http_call list) \<Rightarrow> 'm option option \<Rightarrow> http_call list \<Rightarrow> http_call list" where
  "node_metrics_handler scrape sink w =
     w @ (case sink of Some (Some registry) \<Rightarrow> scrape registry | _ \<Rightarrow> [HError ''metrics unavailable'' 503])"

section \<open>The JSON answers of the Master\<close>

text \<open>\<open>enc\<close> is the JSON encoder, \<open>None\<close> its error, which is dropped after the header is written.\<close>

definition writeJSON :: "('v \<Rightarrow> bytes option) \<Rightarrow> int \<Rightarrow> 'v \<Rightarrow> http_call list \<Rightarrow> http_call list" where
  "writeJSON enc code v w =
     w @ [HSet ''Content-Type'' ''application/json; charset=utf-8'', HWriteHeader code] @
       (case enc v of None \<Rightarrow> [] | Some b \<Rightarrow> [HWrite b])"

definition writeJSONPretty :: "('v \<Rightarrow> bytes option) \<Rightarrow> int \<Rightarrow> 'v \<Rightarrow> http_call list \<Rightarrow> http_call list" where
  "writeJSONPretty enc_indented code v w =
     w @ [HSet ''Content-Type'' ''application/json; charset=utf-8'', HWriteHeader code] @
       (case enc_indented v of None \<Rightarrow> [] | Some b \<Rightarrow> [HWrite b])"

text \<open>The status of a JSON answer is its code, also when the value cannot be encoded.\<close>

lemma writeJSON_status:
  "200 \<le> code \<Longrightarrow> final_status (writeJSON enc code v []) = code"
  "200 \<le> code \<Longrightarrow> final_status (writeJSONPretty enc code v []) = code"
  by (simp_all add: writeJSON_def writeJSONPretty_def)

end
