(* ===== verification/DurationText.thy ===== *)
theory DurationText imports Config begin

text \<open>
  Durations in the configuration files (\<open>config/duration.go\<close>): \<open>UnmarshalYAML\<close> hands the text of a node to
  \<open>time.ParseDuration\<close>, which is modelled here on \<open>uint64\<close> values with its overflow checks.  \<open>frac f unit
  scale\<close> is its one floating point expression, \<open>uint64(float64(f) * (float64(unit) / scale))\<close>.

  Shown: the loop ends; integer numbers with units are read as exactly that many nanoseconds, or refused
  when they exceed an \<open>int64\<close>.
\<close>

section \<open>\<open>time.ParseDuration\<close>\<close>

datatype duration_err = InvalidDuration | MissingUnit | UnknownUnit string

fun leadingInt :: "nat \<Rightarrow> string \<Rightarrow> (nat \<times> string) option" where
  "leadingInt x [] = Some (x, [])"
| "leadingInt x (c # s) =
     (if \<not> is_digit c then Some (x, c # s)
      else if x > 2 ^ 63 div 10 then None
      else if x * 10 + digit_val c > 2 ^ 63 then None
      else leadingInt (x * 10 + digit_val c) s)"

text \<open>Digits beyond the range are skipped: the fraction read so far, its scale, and whether it is full.\<close>

fun leadingFraction :: "nat \<Rightarrow> nat \<Rightarrow> bool \<Rightarrow> string \<Rightarrow> nat \<times> nat \<times> string" where
  "leadingFraction x scale full [] = (x, scale, [])"
| "leadingFraction x scale full (c # s) =
     (if \<not> is_digit c then (x, scale, c # s)
      else if full then leadingFraction x scale True s
      else if x > (2 ^ 63 - 1) div 10 then leadingFraction x scale True s
      else if x * 10 + digit_val c > 2 ^ 63 then leadingFraction x scale True s
      else leadingFraction (x * 10 + digit_val c) (scale * 10) False s)"

definition unit_map :: "(string \<times> nat) list" where
  "unit_map =
     [(''ns'', 1), (''us'', 1000), ([CHR 0xC2, CHR 0xB5, CHR ''s''], 1000), ([CHR 0xCE, CHR 0xBC, CHR ''s''], 1000),
      (''ms'', 1000000), (''s'', 1000000000), (''m'', 60000000000), (''h'', 3600000000000)]"

definition unit_char :: "char \<Rightarrow> bool" where
  "unit_char c \<longleftrightarrow> c \<noteq> CHR ''.'' \<and> \<not> is_digit c"

text \<open>One number with its unit: the value in nanoseconds and the rest of the text.\<close>

definition duration_part :: "(nat \<Rightarrow> nat \<Rightarrow> nat \<Rightarrow> nat) \<Rightarrow> string \<Rightarrow> duration_err + (nat \<times> string)" where
  "duration_part frac s =
     (if s = [] \<or> \<not> (hd s = CHR ''.'' \<or> is_digit (hd s)) then Inl InvalidDuration
      else case leadingInt 0 s of
        None \<Rightarrow> Inl InvalidDuration
      | Some (v, s1) \<Rightarrow>
          let pre = length s \<noteq> length s1;
              dot = s1 \<noteq> [] \<and> hd s1 = CHR ''.'';
              (f, scale, s2) = (if dot then leadingFraction 0 1 False (tl s1) else (0, 1, s1));
              post = dot \<and> length (tl s1) \<noteq> length s2;
              u = takeWhile unit_char s2;
              s3 = dropWhile unit_char s2
          in if \<not> pre \<and> \<not> post then Inl InvalidDuration
             else if u = [] then Inl MissingUnit
             else case map_of unit_map u of
               None \<Rightarrow> Inl (UnknownUnit u)
             | Some unit \<Rightarrow>
                 if v > 2 ^ 63 div unit then Inl InvalidDuration
                 else let v1 = v * unit; v2 = (if f > 0 then v1 + frac f unit scale else v1)
                   in if f > 0 \<and> v2 > 2 ^ 63 then Inl InvalidDuration else Inr (v2, s3))"

lemma leadingInt_length: "leadingInt x s = Some (v, s') \<Longrightarrow> length s' \<le> length s"
  by (induction x s rule: leadingInt.induct) (auto split: if_splits)

lemma leadingFraction_length: "leadingFraction x sc b s = (f, sc', s') \<Longrightarrow> length s' \<le> length s"
  by (induction x sc b s rule: leadingFraction.induct) (auto split: if_splits simp: le_SucI)

lemma dropWhile_shorter: "takeWhile P s \<noteq> [] \<Longrightarrow> length (dropWhile P s) < length s"
  by (cases s) (auto simp: length_dropWhile_le le_imp_less_Suc split: if_splits)

lemma duration_part_shorter:
  assumes "duration_part frac s = Inr (v, s')"
  shows "length s' < length s"
proof -
  obtain x s1 where l: "leadingInt 0 s = Some (x, s1)"
    using assms by (auto simp: duration_part_def split: if_splits option.splits)
  obtain f sc s2 where f: "(if s1 \<noteq> [] \<and> hd s1 = CHR ''.'' then leadingFraction 0 1 False (tl s1) else (0, 1, s1)) = (f, sc, s2)"
    by (metis surj_pair)
  have "length s2 \<le> length s1" using f leadingFraction_length [of 0 1 False "tl s1"] by (auto split: if_splits)
  moreover have "takeWhile unit_char s2 \<noteq> [] \<and> s' = dropWhile unit_char s2"
    using assms by (auto simp: duration_part_def l f Let_def split: if_splits option.splits)
  ultimately show ?thesis using leadingInt_length [OF l] dropWhile_shorter [of unit_char s2] by auto
qed

function duration_loop :: "(nat \<Rightarrow> nat \<Rightarrow> nat \<Rightarrow> nat) \<Rightarrow> string \<Rightarrow> nat \<Rightarrow> duration_err + nat" where
  "duration_loop frac s d =
     (if s = [] then Inr d
      else case duration_part frac s of
        Inl err \<Rightarrow> Inl err
      | Inr (v, s') \<Rightarrow>
          let d' = (d + v) mod 2 ^ 64
          in if d' > 2 ^ 63 then Inl InvalidDuration else duration_loop frac s' d')"
  by pat_completeness auto
termination
  by (relation "measure (\<lambda>(frac, s, d). length s)") (auto dest: duration_part_shorter)

declare duration_loop.simps [simp del]

definition ParseDuration :: "(nat \<Rightarrow> nat \<Rightarrow> nat \<Rightarrow> nat) \<Rightarrow> string \<Rightarrow> duration_err + duration" where
  "ParseDuration frac orig =
     (let sign = orig \<noteq> [] \<and> (hd orig = CHR ''-'' \<or> hd orig = CHR ''+'');
          neg = sign \<and> hd orig = CHR ''-'';
          s = (if sign then tl orig else orig)
      in if s = ''0'' then Inr 0
         else if s = [] then Inl InvalidDuration
         else case duration_loop frac s 0 of
           Inl err \<Rightarrow> Inl err
         | Inr d \<Rightarrow> if neg then Inr (- int d) else if d > 2 ^ 63 - 1 then Inl InvalidDuration else Inr (int d))"

section \<open>\<open>Duration.UnmarshalYAML\<close>\<close>

fun duration_error :: "string \<Rightarrow> duration_err \<Rightarrow> gerr" where
  "duration_error orig InvalidDuration = plain [Lit ''time: invalid duration '', Quoted orig]"
| "duration_error orig MissingUnit = plain [Lit ''time: missing unit in duration '', Quoted orig]"
| "duration_error orig (UnknownUnit u) = plain [Lit ''time: unknown unit '', Quoted u, Lit '' in duration '', Quoted orig]"

text \<open>\<open>decoded\<close> is the YAML node as a string, \<open>None\<close> a nil node; \<open>d\<close> the value so far.\<close>

definition UnmarshalDuration :: "(nat \<Rightarrow> nat \<Rightarrow> nat \<Rightarrow> nat) \<Rightarrow> string res option \<Rightarrow> duration \<Rightarrow> gerr option \<times> duration" where
  "UnmarshalDuration frac decoded d =
     (case decoded of
        None \<Rightarrow> (Some (plain [Lit ''duration is nil'']), d)
      | Some (Inl err) \<Rightarrow> (Some err, d)
      | Some (Inr s) \<Rightarrow>
         (case ParseDuration frac s of
            Inl err \<Rightarrow> (Some (Wrap [Lit ''parse duration '', Quoted s, Lit '': ''] (duration_error s err) []), d)
          | Inr v \<Rightarrow> (None, v)))"

section \<open>Numbers with a unit\<close>

lemma digits_val_grows: "digits_val x ds = Some v \<Longrightarrow> x \<le> v"
  by (induction x ds rule: digits_val.induct) (auto split: if_splits)

lemma leadingInt_digits:
  assumes "list_all is_digit ds" "rest = [] \<or> \<not> is_digit (hd rest)" "x \<le> 2 ^ 63" "digits_val x ds = Some v"
  shows "leadingInt x (ds @ rest) = (if v > 2 ^ 63 then None else Some (v, rest))"
  using assms
proof (induction ds arbitrary: x)
  case Nil
  then show ?case by (cases rest) auto
next
  case (Cons c ds)
  let ?x = "10 * x + digit_val c"
  have d: "is_digit c" "digits_val ?x ds = Some v" using Cons.prems by auto
  show ?case
  proof (cases "?x \<le> 2 ^ 63")
    case True
    then show ?thesis using Cons.IH [OF _ Cons.prems(2) True d(2)] Cons.prems(1) d(1) by (auto simp: mult.commute)
  next
    case False
    then have "v > 2 ^ 63" using digits_val_grows [OF d(2)] by simp
    then show ?thesis using False d(1) by (auto simp: mult.commute)
  qed
qed

lemma unit_map_units:
  assumes "(u, unit) \<in> set unit_map"
  shows "map_of unit_map u = Some unit" "u \<noteq> []" "takeWhile unit_char u = u" "dropWhile unit_char u = []"
    "\<not> is_digit (hd u)" "hd u \<noteq> CHR ''.''" "0 < unit"
  using assms by (auto simp: unit_map_def unit_char_def is_digit_def)

text \<open>
  A text of integer numbers with units, such as \<open>1h30m\<close>: each part has its digits, its unit and the
  nanoseconds of the unit.  \<open>dur_value\<close> is what a reader takes it to mean.
\<close>

type_synonym dur_part = "string \<times> string \<times> nat"

definition dur_part_ok :: "dur_part \<Rightarrow> bool" where
  "dur_part_ok = (\<lambda>(ds, u, unit). ds \<noteq> [] \<and> list_all is_digit ds \<and> (u, unit) \<in> set unit_map)"

definition part_value :: "dur_part \<Rightarrow> nat" where
  "part_value = (\<lambda>(ds, u, unit). the (digits_val 0 ds) * unit)"

definition dur_text :: "dur_part list \<Rightarrow> string" where
  "dur_text ps = concat (map (\<lambda>(ds, u, unit). ds @ u) ps)"

definition dur_value :: "dur_part list \<Rightarrow> nat" where
  "dur_value ps = sum_list (map part_value ps)"

lemma digits_val_all: "list_all is_digit ds \<Longrightarrow> \<exists>v. digits_val x ds = Some v"
  by (induction ds arbitrary: x) auto

lemma dur_text_head: "list_all dur_part_ok ps \<Longrightarrow> ps \<noteq> [] \<Longrightarrow> dur_text ps \<noteq> [] \<and> is_digit (hd (dur_text ps))"
  by (cases ps) (auto simp: dur_text_def dur_part_ok_def list_all_iff)

lemma duration_part_number:
  assumes "dur_part_ok (ds, u, unit)" "rest = [] \<or> is_digit (hd rest)"
  shows "duration_part frac (ds @ u @ rest) =
    (if part_value (ds, u, unit) \<le> 2 ^ 63 then Inr (part_value (ds, u, unit), rest) else Inl InvalidDuration)"
proof -
  have ok: "ds \<noteq> []" "list_all is_digit ds" "(u, unit) \<in> set unit_map" using assms(1) by (auto simp: dur_part_ok_def)
  note u = unit_map_units [OF ok(3)]
  obtain n where n: "digits_val 0 ds = Some n" using digits_val_all [OF ok(2)] by blast
  have hd: "is_digit (hd (ds @ u @ rest))" using ok(1,2) by (cases ds) auto
  have "u @ rest = [] \<or> \<not> is_digit (hd (u @ rest))" using u(2,5) by (cases u) auto
  then have l: "leadingInt 0 (ds @ u @ rest) = (if n > 2 ^ 63 then None else Some (n, u @ rest))"
    using leadingInt_digits [of ds "u @ rest" 0 n] ok(2) n by simp
  have all: "\<forall>c \<in> set u. unit_char c" using u(3) by (metis set_takeWhileD)
  have stop: "takeWhile unit_char rest = []" "dropWhile unit_char rest = rest"
    using assms(2) by (cases rest; auto simp: unit_char_def)+
  have w: "takeWhile unit_char (u @ rest) = u" "dropWhile unit_char (u @ rest) = rest"
    using all stop by simp_all
  have dot: "hd (u @ rest) \<noteq> CHR ''.''" "u @ rest \<noteq> []" using u(2,6) by (cases u; auto)+
  have le: "2 ^ 63 div unit < n \<longleftrightarrow> 2 ^ 63 < n * unit" by (rule div_less_iff_less_mult [OF u(7)])
  have big: "2 ^ 63 < n * unit" if "2 ^ 63 < n"
    using that u(7) by (metis One_nat_def Suc_leI less_le_trans mult.right_neutral mult_le_mono2)
  have part: "duration_part frac (ds @ u @ rest) =
      (if n > 2 ^ 63 then Inl InvalidDuration else if n > 2 ^ 63 div unit then Inl InvalidDuration else Inr (n * unit, rest))"
    using hd ok(1) dot unfolding duration_part_def l by (simp add: Let_def u(1,2) w)
  show ?thesis
  proof (cases "n * unit \<le> 2 ^ 63")
    case True
    then show ?thesis using le big unfolding part by (simp add: part_value_def n) (metis not_le)
  next
    case False
    then show ?thesis using le unfolding part by (simp add: part_value_def n)
  qed
qed

text \<open>The sum does not wrap while no part after the first is exactly \<open>2 ^ 63\<close> nanoseconds.\<close>

lemma duration_loop_step:
  assumes "dur_part_ok p" "list_all dur_part_ok ps" "d \<le> 2 ^ 63" "part_value p = 2 ^ 63 \<longrightarrow> d < 2 ^ 63"
  shows "duration_loop frac (dur_text (p # ps)) d =
    (if d + part_value p \<le> 2 ^ 63 then duration_loop frac (dur_text ps) (d + part_value p) else Inl InvalidDuration)"
proof -
  obtain ds u unit where p: "p = (ds, u, unit)" by (cases p) auto
  have rest: "dur_text ps = [] \<or> is_digit (hd (dur_text ps))"
    using dur_text_head [OF assms(2)] by (cases "ps = []") (auto simp: dur_text_def)
  have part: "duration_part frac (dur_text (p # ps)) =
      (if part_value p \<le> 2 ^ 63 then Inr (part_value p, dur_text ps) else Inl InvalidDuration)"
    using duration_part_number [OF assms(1) [unfolded p] rest, of frac] by (simp add: p dur_text_def)
  have ne: "dur_text (p # ps) \<noteq> []" using dur_text_head [of "p # ps"] assms(1,2) by simp
  show ?thesis
  proof (cases "part_value p \<le> 2 ^ 63")
    case True
    then have "d + part_value p < 2 ^ 64" using assms(3,4) by auto
    then have "(d + part_value p) mod 2 ^ 64 = d + part_value p" by (rule mod_less)
    then show ?thesis using part ne True by (subst duration_loop.simps) (auto simp: Let_def)
  next
    case False
    then show ?thesis using part ne by (subst duration_loop.simps) auto
  qed
qed

lemma duration_loop_parts:
  assumes "list_all dur_part_ok ps" "\<forall>p \<in> set ps. part_value p \<noteq> 2 ^ 63" "d \<le> 2 ^ 63"
  shows "duration_loop frac (dur_text ps) d =
    (if d + dur_value ps \<le> 2 ^ 63 then Inr (d + dur_value ps) else Inl InvalidDuration)"
  using assms
proof (induction ps arbitrary: d)
  case Nil
  then show ?case by (simp add: dur_text_def dur_value_def duration_loop.simps)
next
  case (Cons p ps)
  then show ?case
    using duration_loop_step [of p ps d frac] Cons.IH [of "d + part_value p"] by (auto simp: dur_value_def)
qed

text \<open>
  C32: Durations are read exactly: a text of integer numbers with units, one like \<open>1000ms\<close> or several
  like \<open>1h30m\<close>, is the sum of that many nanoseconds, and is refused when the sum does not fit an
  \<open>int64\<close>; with a minus sign the range goes down to \<open>- 2 ^ 63\<close>.  (Numbers with a fraction are computed in
  floating point, and are not covered; a part after the first that is \<open>2 ^ 63\<close> nanoseconds exactly can
  make the sum of \<open>ParseDuration\<close> wrap.)
\<close>

theorem duration_text_exact:
  assumes "ps \<noteq> []" "list_all dur_part_ok ps" "\<forall>p \<in> set (tl ps). part_value p \<noteq> 2 ^ 63"
  shows "UnmarshalDuration frac (Some (Inr (dur_text ps))) d =
      (if dur_value ps \<le> 2 ^ 63 - 1 then (None, int (dur_value ps))
       else (Some (Wrap [Lit ''parse duration '', Quoted (dur_text ps), Lit '': '']
         (duration_error (dur_text ps) InvalidDuration) []), d)) \<and>
    ParseDuration frac (CHR ''-'' # dur_text ps) =
      (if dur_value ps \<le> 2 ^ 63 then Inr (- int (dur_value ps)) else Inl InvalidDuration)"
proof -
  obtain p qs where ps: "ps = p # qs" using assms(1) by (cases ps) auto
  have ok: "dur_part_ok p" "list_all dur_part_ok qs" using assms(2) ps by auto
  have h: "dur_text ps \<noteq> []" "hd (dur_text ps) \<noteq> CHR ''-''" "hd (dur_text ps) \<noteq> CHR ''+''"
    using dur_text_head [OF assms(2,1)] by (auto simp: is_digit_def)
  have ne: "dur_text ps \<noteq> ''0''"
  proof -
    obtain ds u unit where "p = (ds, u, unit)" by (cases p) auto
    then have "length (dur_text ps) \<ge> 2"
      using ok(1) unit_map_units(2) [of u unit] by (cases ds; cases u) (auto simp: ps dur_text_def dur_part_ok_def)
    then show ?thesis by auto
  qed
  have loop: "duration_loop frac (dur_text ps) 0 = (if dur_value ps \<le> 2 ^ 63 then Inr (dur_value ps) else Inl InvalidDuration)"
    using duration_loop_step [OF ok, of 0 frac] duration_loop_parts [OF ok(2), of "part_value p" frac] assms(3)
    by (auto simp: ps dur_value_def)
  show ?thesis
    using h ne by (auto simp: UnmarshalDuration_def ParseDuration_def loop Let_def)
qed

theorem duration_text_exact_witness:
  "UnmarshalDuration (\<lambda>_ _ _. 0) (Some (Inr ''1h30m'')) 0 = (None, 5400000000000) \<and>
   UnmarshalDuration (\<lambda>_ _ _. 0) (Some (Inr ''1000ms'')) 0 = (None, 1000000000) \<and>
   fst (UnmarshalDuration (\<lambda>_ _ _. 0) (Some (Inr ''9223372036855ms'')) 0) \<noteq> None"
proof -
  have units: "(''ms'', 1000000) \<in> set unit_map" "(''h'', 3600000000000) \<in> set unit_map" "(''m'', 60000000000) \<in> set unit_map"
    by (simp_all add: unit_map_def)
  have ok: "list_all dur_part_ok [(''1'', ''h'', 3600000000000), (''30'', ''m'', 60000000000)]"
    "list_all dur_part_ok [(''1000'', ''ms'', 1000000)]" "list_all dur_part_ok [(''9223372036855'', ''ms'', 1000000)]"
    using units by (simp_all add: dur_part_ok_def is_digit_def)
  have val: "part_value (''1'', ''h'', 3600000000000) = 3600000000000" "part_value (''30'', ''m'', 60000000000) = 1800000000000"
    "part_value (''1000'', ''ms'', 1000000) = 1000000000" "part_value (''9223372036855'', ''ms'', 1000000) = 9223372036855000000"
    by (simp_all add: part_value_def is_digit_def digit_val_def)
  show ?thesis
    using duration_text_exact [OF _ ok(1), where frac = "\<lambda>_ _ _. 0" and d = 0]
      duration_text_exact [OF _ ok(2), where frac = "\<lambda>_ _ _. 0" and d = 0]
      duration_text_exact [OF _ ok(3), where frac = "\<lambda>_ _ _. 0" and d = 0]
    by (simp add: dur_text_def dur_value_def val)
qed

end
