(* ===== verification/Logger.thy ===== *)
theory Logger imports GoLib begin

text \<open>
  \<open>internal/logger\<close>: the configuration of the zap logger every process builds, its name, and how a log
  line names its caller.
\<close>

datatype log_level = DebugLevel | InfoLevel

record log_keys =
  TimeKey :: string
  LevelKey :: string
  NameKey :: string
  CallerKey :: string
  MessageKey :: string
  StacktraceKey :: string

record 'w zap_logger =
  zl_level :: log_level
  zl_keys :: log_keys
  zl_out :: 'w
  zl_caller :: bool
  zl_name :: string

text \<open>\<open>filepath.Base\<close> of a slash-separated path.\<close>

definition path_base :: "string \<Rightarrow> string" where
  "path_base p =
     (if p = [] then ''.''
      else let q = rev (dropWhile (\<lambda>c. c = CHR ''/'') (rev p))
        in if q = [] then ''/'' else rev (takeWhile (\<lambda>c. c \<noteq> CHR ''/'') (rev q)))"

definition encodeCaller :: "string \<Rightarrow> int \<Rightarrow> string" where
  "encodeCaller file line_no = path_base file @ '':'' @ Itoa line_no"

text \<open>\<open>Named\<close>: names are joined by dots, an empty name changes nothing.\<close>

definition zap_named :: "string \<Rightarrow> 'w zap_logger \<Rightarrow> 'w zap_logger" where
  "zap_named name l =
     (if name = [] then l else l\<lparr>zl_name := (if zl_name l = [] then name else zl_name l @ ''.'' @ name)\<rparr>)"

definition NewLogger :: "'w \<Rightarrow> bool \<Rightarrow> string \<Rightarrow> 'w zap_logger" where
  "NewLogger stdout debug module =
     (let lvl = (if debug then DebugLevel else InfoLevel);
          enc = \<lparr>TimeKey = ''time'', LevelKey = ''level'', NameKey = ''module'', CallerKey = ''line'', MessageKey = ''Message'',
                 StacktraceKey = ''''\<rparr>;
          log = \<lparr>zl_level = lvl, zl_keys = enc, zl_out = stdout, zl_caller = True, zl_name = ''''\<rparr>
      in if module \<noteq> [] then zap_named module log else log)"

datatype 'w any_logger = Zap "'w zap_logger" | Nop \<comment> \<open>drops every line\<close>

definition OrNop :: "'w zap_logger option \<Rightarrow> 'w any_logger" where
  "OrNop log = (case log of None \<Rightarrow> Nop | Some l \<Rightarrow> Zap l)"

text \<open>A caller is named by its file without any directory.\<close>

lemma caller_has_no_directory:
  assumes "path_base file \<noteq> ''/''"
  shows "CHR ''/'' \<notin> set (path_base file)"
proof (cases "file = []")
  case False
  then show ?thesis using assms by (auto simp: path_base_def Let_def split: if_splits dest: set_takeWhileD)
qed (simp add: path_base_def)

text \<open>The logger of a component is named after its process and itself.\<close>

lemma component_name:
  "m \<noteq> [] \<Longrightarrow> c \<noteq> [] \<Longrightarrow> zl_name (zap_named c (NewLogger out debug m)) = m @ ''.'' @ c"
  by (simp add: NewLogger_def zap_named_def Let_def)

end
