(* ===== verification/Spec2Isabelle.thy ===== *)
theory Spec2Isabelle imports TxRace UdpConn LogicLife Mains PromCollectors LogGate Endpoints ClientMain RegistryHeap HeartbeatLoops
  Admission GatewayRun DurationText Logger begin

text \<open>
  A verification development for logic-gateway, a Go program of three processes.  The gateway
  (\<open>http2gw\<close>) takes HTTP/2 requests and forwards them as UDP envelopes to Logic nodes, waits for the
  response of each transaction and answers the HTTP client.  A Logic node registers with the
  gateway, sends heartbeats and answers DATA requests.  The Master is a control plane over HTTP at
  which every process registers and reports.

  Parts, theories and sources (under \<open>src/internal\<close> unless named otherwise):

  \<^item> \<open>Prelude\<close>, \<open>GoLib\<close>, \<open>GoNet\<close>, \<open>Errors\<close>, \<open>Logger\<close>: machine types, the parts of the Go standard library
    the program uses (\<open>strconv\<close>, \<open>strings\<close>, \<open>utf8\<close>, \<open>sort.Search\<close>, FNV-1a, \<open>net.ParseIP\<close>), Go error
    values with \<open>errors.Is\<close> and \<open>errors.As\<close>, and the logger every process builds (\<open>logger\<close>).
  \<^item> \<open>Proto\<close>: the protobuf messages as the generated structs hold them, and \<open>protocol/envelope.go\<close>.
  \<^item> \<open>Registry\<close> (\<open>registry\<close>), \<open>Registration\<close> (\<open>registration\<close>), \<open>HeartbeatSvc\<close> (\<open>heartbeat\<close>) and
    \<open>Lifecycle\<close>: the table of nodes, the three things that happen to it (a registration, a
    heartbeat, a sweep) and runs of them.  \<open>RegistryHeap\<close>: the same table on a heap of pointers shared
    with its callers.  \<open>HeartbeatLoops\<close>: the monitor's and the sender's loops in time.
  \<^item> \<open>RouterModel\<close> (\<open>router\<close>): eligibility, round robin and the consistent hash ring with its cache.
  \<^item> \<open>TxManager\<close>, \<open>TxSpec\<close>, \<open>TxService\<close>, \<open>TxRace\<close> (\<open>transaction\<close>): the transaction manager with its
    pooled waiters and one-slot channels, the abstract service it refines when its calls are atomic,
    the request loop with its fail-over, and the manager at the granularity of its locks.
  \<^item> \<open>Dispatch\<close>, \<open>LogGate\<close> (\<open>dispatch\<close>): what the gateway does with an envelope, its receive loop with
    queue and workers, and the rate-limited warnings of concurrent goroutines.
  \<^item> \<open>Udp\<close>, \<open>UdpConn\<close> (\<open>transport/udp\<close>): codec, receive and send, the send batcher; the socket's set-up
    and buffers, \<open>SendBatch\<close>, batch receive, \<open>Close\<close> and the pools.
  \<^item> \<open>Outbound\<close> (\<open>outbound\<close>), \<open>NetAddr\<close> (\<open>netaddr\<close>): the HTTP client to the remote, host names and
    addresses.
  \<^item> \<open>Metrics\<close>, \<open>PromCollectors\<close> (\<open>metrics\<close>, \<open>logicnode/metrics.go\<close>): the counters with their Prometheus
    calls as a trace, and every collector with its labels and the value a trace gives it.
  \<^item> \<open>HttpSrv\<close>, \<open>Endpoints\<close>, \<open>HttpLife\<close>, \<open>Admission\<close> (\<open>httpsrv\<close>): the handler of \<open>POST /v1/data\<close> with
    rate gate and body reader; the routing of every endpoint, also of the Master and its agents; the
    servers' \<open>Serve\<close> and \<open>Shutdown\<close> and the pooled request envelopes; the limit on pending transactions.
  \<^item> \<open>LogicNode\<close>, \<open>LogicRun\<close> (\<open>logicnode\<close>), \<open>LogicLife\<close>: the Logic process with its worker pool, its set-up
    and goroutines, and its life in the gateway's registry.
  \<^item> \<open>Config\<close>, \<open>DurationText\<close> (\<open>config\<close>), \<open>Gateway\<close>, \<open>GatewayRun\<close> (\<open>gateway\<close>), \<open>ControlPlane\<close>
    (\<open>controlplane\<close>), \<open>MasterRun\<close> (\<open>master\<close>): configurations and the texts of durations, the gateway's start,
    the agent and the Master.
  \<^item> \<open>Supervise\<close>, \<open>Mains\<close> (\<open>gateway/run.go\<close>, \<open>master/run.go\<close>, the \<open>main.go\<close> files under \<open>src/cmd\<close>): the
    goroutines of a process from their start to the return of \<open>Run\<close>, and the exit status.
  \<^item> \<open>LoadGen\<close>, \<open>ClientReport\<close>, \<open>ClientMain\<close> (\<open>cmd/client\<close> under \<open>src\<close>): the load generator's workers,
    statistics and logs, its reports, its options, requests and \<open>main\<close>.
  \<^item> This theory: properties that cross gateway and Logic node.

  Correspondence. A Go struct is a record, a method on a struct is a function named \<open>Type_Method\<close>
  (or by the method alone where the name is free) that takes and returns the state. A returned error
  is \<open>Inl\<close> or an option. A method that holds a mutex from start to end is one atomic function. So
  are the calls of the transaction manager in \<open>TxManager\<close>, \<open>TxSpec\<close> and \<open>TxService\<close>, except \<open>Wait\<close>,
  which has two steps with any other calls in between; a run of \<open>TxSpec\<close> creates no id anew while a
  \<open>Wait\<close> on its last use has not returned. \<open>TxRace\<close>, \<open>Admission\<close>, \<open>LogGate\<close>, \<open>HttpLife\<close> and the step
  relations of \<open>Udp\<close>, \<open>Supervise\<close> and \<open>LogicRun\<close> split what the code does outside its locks. \<open>None\<close>
  as result of a transaction operation means that it blocks. The iteration order of a Go map is an
  argument that enumerates its keys (\<open>is_order\<close>). Where the code calls an interface, the model takes
  the operation as an argument and a locale states what the caller relies on (\<open>registry_store\<close>,
  \<open>node_store\<close>, \<open>strategy\<close> and others); each locale is interpreted on the model of the
  implementation the program uses. Nodes are values except in \<open>RegistryHeap\<close>, which shows that this
  is sound. Times and durations are integers of nanoseconds with Go's saturation and wrap-around
  written out, identifiers and wire numbers are words, counters are integers, a \<open>float64\<close> is a bit
  pattern.

  What the groups of lemmas show. \<open>Registry\<close> to \<open>HeartbeatLoops\<close>: the well-formedness of the
  registry, its isolation from its callers, the automaton of a node's states, accuracy, completeness
  and latency of failure detection. \<open>RouterModel\<close>: only eligible nodes are chosen, fairness, minimal
  disruption, and routing over any history of selections with the cached ring, as long as the 64-bit
  fingerprints of different candidate sets differ. \<open>TxManager\<close> to \<open>TxService\<close>, for atomic calls:
  refinement of a one-slot-per-transaction service, correlation, no leak, no blocking; \<open>TxRace\<close>
  shows what is lost without each condition. \<open>Dispatch\<close>, \<open>Udp\<close>, \<open>UdpConn\<close>, \<open>Outbound\<close>, \<open>HttpSrv\<close>,
  \<open>Endpoints\<close>, \<open>LogicNode\<close>: every request is answered once, queues are bounded and lose nothing
  silently, only the data endpoint touches the transactions. \<open>Metrics\<close>, \<open>PromCollectors\<close>: both views
  of the counters agree. \<open>Config\<close>, \<open>Gateway\<close>, \<open>MasterRun\<close>, \<open>LogicRun\<close>: a loaded configuration starts
  its process and registers with the Master. \<open>Supervise\<close>, \<open>HttpLife\<close>, \<open>LogicRun\<close>, \<open>Mains\<close>: how
  a process stops, what it waits for while it does, and what its exit status says. \<open>LoadGen\<close> to \<open>ClientMain\<close>: the load generator makes the requests it was asked
  for and reports them truthfully. Defects as theorems: \<open>misdelivery_reachable\<close>,
  \<open>wait_hang_reachable\<close>, \<open>reuse_hang\<close>, \<open>stale_ring\<close>, \<open>empty_read_truncates\<close>,
  \<open>submit_hang_reachable\<close>, \<open>admission_stuck_reachable\<close>, \<open>dead_logic_stays_dead\<close>,
  \<open>dead_agent_stays_out\<close>, \<open>start_failure_can_be_lost\<close>, \<open>limited_run_loses_requests\<close>.

  Fuel and bounds. No definition uses fuel: the request loop is bounded by \<open>maxRouteAttempts\<close>, the
  body reader terminates by its limit, the duration parser by the length of its text, the search for
  a free transaction id by the size of the map (\<open>next_free\<close>), receive loops consume lists of events.

  Not modelled: the network, HTTP/2, TLS, system calls and JSON encoding (calls and outcomes are
  arguments; the body of a request is any reader that keeps the contract of \<open>io.Reader\<close>, and
  redirects are those of the \<open>ServeMux\<close> of Go 1.26, which \<open>go.mod\<close> pins); protobuf's wire format and
  the generated getters' names (encoder and decoder are arguments); \<open>context\<close> beyond its error; the
  Go scheduler and memory model apart from the step relations; the Prometheus exposition format;
  what zap writes; YAML decoding; the parsing and formatting of floats and floating point arithmetic
  beyond its results (so durations are exact for integer numbers only); the files for systems other
  than Linux (\<open>*_other.go\<close>); nil receivers, which the program never has; flag parsing.
\<close>

section \<open>A Logic node answers through the gateway\<close>

lemma gateway_handles_reply:
  assumes "OnResponse (Some r) t = Some (None, t')" "d_state d = (mem, t)"
    and "env_type r = MESSAGE_TYPE_DATA_RESPONSE \<or> env_type r = MESSAGE_TYPE_ERROR"
  shows "\<exists>d'. handle (gateway_ops now n ob so) (Some r) from d = Some (False, d') \<and> d_state d' = (mem, t')"
  using assms by (auto simp: handle_def gateway_ops_def)

lemma full_queue_answer:
  assumes "env_type e = MESSAGE_TYPE_DATA_REQUEST" "\<not> fst (Enqueue (e, reply_to le src) (lg_pool s))"
  shows "lg_sent (handleIncoming le now (Some e) src s) = lg_sent s @
    [(ErrorEnvelope now (le_node le) (Some e) ERROR_CODE_OVERLOAD ''logic data job queue full'', reply_to le src)]"
  using assms
  by (auto simp: handleIncoming_def on_data_request_def Let_def split: prod.split)

text \<open>
  C1: Overload is reported, not timed out: a DATA request that finds the job queue of its Logic node
  full is answered at once with an ERROR envelope; the gateway hands it to the waiter of the
  request's transaction, and the HTTP client gets 503.
\<close>

theorem overload_becomes_503:
  assumes "env_type e = MESSAGE_TYPE_DATA_REQUEST" "\<not> fst (Enqueue (e, reply_to le src) (lg_pool s))"
    and "mgr_run idle evs (t, ws)" "ws (env_transaction_id e) = Some p" "p_ch (obj t p) = None"
    and "env_transaction_id e \<noteq> 0" "d_state d = (mem, t)"
  shows "\<exists>r d' t' t'' err. lg_sent (handleIncoming le now (Some e) src s) = lg_sent s @ [(r, reply_to le src)] \<and>
    handle (gateway_ops now' n ob so) (Some r) from d = Some (False, d') \<and> d_state d' = (mem, t') \<and>
    Wait_recv (env_transaction_id e) p t' = Some ((None, Some err), t'') \<and>
    fst (writeTxError err (env_transaction_id e) (w, mt)) = (503, ReasonNoRoutingTarget)"
proof -
  let ?r = "ErrorEnvelope now (le_node le) (Some e) ERROR_CODE_OVERLOAD ''logic data job queue full''"
  let ?err = "LogicError ERROR_CODE_OVERLOAD ''logic data job queue full''"
  have err: "LogicErrorFromProto (GetError ?r) = ?err" by (simp add: LogicErrorFromProto_def)
  obtain t' t'' where o: "OnResponse (Some ?r) t = Some (None, t')"
    "Wait_recv (env_transaction_id e) p t' = Some ((None, Some ?err), t'')"
    using error_reaches_waiter [OF assms(3), of ?r p] assms(4-6) unfolding err by auto
  obtain d' where "handle (gateway_ops now' n ob so) (Some ?r) from d = Some (False, d')" "d_state d' = (mem, t')"
    using gateway_handles_reply [OF o(1) assms(7)] ErrorEnvelope_fields(2) by blast
  moreover have "fst (writeTxError ?err (env_transaction_id e) (w, mt)) = (503, ReasonNoRoutingTarget)"
    by (simp add: writeTxError_def mapLogicError_def Let_def)
  ultimately show ?thesis using full_queue_answer [OF assms(1,2)] o(2) by blast
qed

text \<open>
  C2: The echo round trip: when a worker finishes a DATA request for a known message, its answer,
  received by the gateway, reaches the waiter of the request's transaction, and the HTTP client
  gets 200 with the message id and the payload it sent.
\<close>

theorem data_round_trip:
  assumes "GetDataRequest e = Some q" "dr_message_id q \<in> {messageCreateCall, messageUpdateCall, messageDeleteCall}"
    and "mgr_run idle evs (t, ws)" "ws (env_transaction_id e) = Some p" "p_ch (obj t p) = None"
    and "env_transaction_id e \<noteq> 0" "d_state d = (mem, t)"
  shows "\<exists>r d' t' t''. lg_sent (worker_finish le now dur (e, a) s) = lg_sent s @ [(r, a)] \<and>
    handle (gateway_ops now' n ob so) (Some r) from d = Some (False, d') \<and> d_state d' = (mem, t') \<and>
    Wait_recv (env_transaction_id e) p t' = Some ((Some r, None), t'') \<and>
    writeData (Some r) w = ((200, ReasonOK),
      w @ [HSet ''X-Transaction-Id'' (FormatUint (env_transaction_id e)),
           HSet ''X-Message-Id'' (FormatUint (dr_message_id q)), HWriteHeader 200] @
          (if dr_payload q = [] then [] else [HWrite (dr_payload q)]))"
proof -
  let ?r = "echoResponse now (le_node le) e"
  have r: "env_transaction_id ?r = env_transaction_id e" "env_type ?r = MESSAGE_TYPE_DATA_RESPONSE"
    "env_body ?r = Some (DataResponse \<lparr>dp_message_id = dr_message_id q, dp_status = 200, dp_payload = dr_payload q\<rparr>)"
    using assms(1) by (simp_all add: echoResponse_def logic_envelope_def Let_def)
  have sent: "lg_sent (worker_finish le now dur (e, a) s) = lg_sent s @ [(?r, a)]"
    using assms(1,2) by (simp add: worker_finish_def data_finish_def Let_def handleBusiness_def)
  obtain t' t'' where o: "OnResponse (Some ?r) t = Some (None, t')"
    "Wait_recv (env_transaction_id e) p t' = Some ((Some ?r, None), t'')"
    using response_reaches_waiter [OF assms(3), of ?r p] assms(4-6) r by auto
  obtain d' where "handle (gateway_ops now' n ob so) (Some ?r) from d = Some (False, d')" "d_state d' = (mem, t')"
    using gateway_handles_reply [OF o(1) assms(7)] r(2) by blast
  moreover have "writeData (Some ?r) w = ((200, ReasonOK),
      w @ [HSet ''X-Transaction-Id'' (FormatUint (env_transaction_id e)),
           HSet ''X-Message-Id'' (FormatUint (dr_message_id q)), HWriteHeader 200] @
          (if dr_payload q = [] then [] else [HWrite (dr_payload q)]))"
    using r by (simp add: writeData_def Let_def)
  ultimately show ?thesis using sent o(2) by blast
qed

section \<open>A Logic node joins\<close>

definition config_registrable :: "logic_config \<Rightarrow> bool" where
  "config_registrable cfg \<longleftrightarrow> lc_node_id cfg \<noteq> 0 \<and> TrimSpace (lc_instance_id cfg) \<noteq> [] \<and>
     ValidString (lc_instance_id cfg) \<and> (\<forall>svc \<in> set (lc_services cfg). sc_service_id svc \<noteq> 0)"

lemma map_filter_Some: "List.map_filter (map_option f) (map Some xs) = map f xs"
  by (induction xs) (simp_all add: List.map_filter_simps)

lemma register_request_ok:
  assumes "config_registrable cfg" "ParseIP (TrimSpace ip) = Some a" "1 \<le> unat port" "unat port \<le> 65535"
    and "env_body (register_envelope_of cfg now ip port) = Some (RegisterRequest r)"
  shows "well_formed_request r" "rr_node_id r = lc_node_id cfg"
    "udpAddr (stored_node now' r) = Inr \<lparr>addr_ip = a, addr_port = port\<rparr>"
    "Services (stored_node now' r) = map to_service (lc_services cfg)" "Type (stored_node now' r) = TypeLogic"
proof -
  have r: "r = \<lparr>rr_node_id = lc_node_id cfg, rr_node_type = NODE_TYPE_LOGIC, rr_instance_id = lc_instance_id cfg,
      rr_ip = ip, rr_port = port, rr_services = map Some (lc_services cfg)\<rparr>"
    using assms(5) by (simp add: register_envelope_of_def)
  show "well_formed_request r"
    using assms(1-4) by (auto simp: r well_formed_request_def config_registrable_def list_all_iff)
  show "udpAddr (stored_node now' r) = Inr \<lparr>addr_ip = a, addr_port = port\<rparr>"
    using assms(2-4) by (auto simp: r stored_node_def toNode_def udpAddr_def)
qed (use assms(5) in \<open>auto simp: register_envelope_of_def stored_node_def toNode_def map_filter_Some\<close>)

text \<open>
  C3: The registration round trip: the REGISTER envelope of a Logic node with a registrable
  configuration, handled by the gateway, stores a REGISTERED node under the configured id that
  offers the configured services and whose UDP address is the advertised one; the gateway's reply,
  received by the Logic node, ends its registration loop.
\<close>

theorem registration_round_trip:
  assumes "config_registrable cfg" "ParseIP (TrimSpace ip) = Some a" "1 \<le> unat port" "unat port \<le> 65535"
    and "reg_wf mem" "d_state d = (mem, t)" "lg_regCh s = []"
    and "handle (gateway_ops now n ob so) (Some (register_envelope_of cfg now0 ip port)) src d = Some (b, d')"
  shows "\<exists>mem' out resp nd. d_state d' = (mem', t) \<and> d_sent d' = d_sent d @ [(out, src)] \<and>
    mem' (lc_node_id cfg) = Some nd \<and> State nd = NodeStateRegistered \<and> Type nd = TypeLogic \<and>
    udpAddr nd = Inr \<lparr>addr_ip = a, addr_port = port\<rparr> \<and> Services nd = map to_service (lc_services cfg) \<and>
    lg_regCh (handleIncoming le now1 (Some out) gw s) = [resp] \<and>
    register_loop le cfg ip port (RegResp (Some resp) now2 # rest) s1 = Some (None, s1)"
proof -
  let ?e = "register_envelope_of cfg now0 ip port"
  obtain r where body: "env_body ?e = Some (RegisterRequest r)" by (simp add: register_envelope_of_def)
  have ty: "env_type ?e = MESSAGE_TYPE_REGISTER_REQUEST"
    by (simp add: register_envelope_of_def logic_envelope_def)
  note ok = register_request_ok [OF assms(1-4) body]
  obtain mem' out resp where h: "d_state d' = (mem', t)" "d_sent d' = d_sent d @ [(out, src)]"
    "env_body out = Some (RegisterResponse resp)" "rp_accepted resp" "answers n ?e out"
    "mem' = mem(rr_node_id r \<mapsto> stored_node now r)" "env_type out = MESSAGE_TYPE_REGISTER_RESPONSE"
    using register_handled [OF assms(8) ty body assms(6,5)] ok(1) by auto
  have "lg_regCh (handleIncoming le now1 (Some out) gw s) = [resp]"
    using assms(7) h(3,7) by (simp add: handleIncoming_def)
  moreover have "register_loop le cfg ip port (RegResp (Some resp) now2 # rest) s1 = Some (None, s1)"
    using h(4) by simp
  moreover have "State (stored_node now r) = NodeStateRegistered" by (simp add: stored_node_def)
  ultimately show ?thesis using h ok(2-5) by auto
qed

section \<open>A dead node gets no traffic\<close>

text \<open>
  C4: A silent node is not routed to: once a sweep ran at least the dead timeout after the last
  heartbeat of a node, no request is routed to it, whatever heartbeats, sweeps and registrations of
  others follow, until it registers again.  Neither round robin chooses its id, nor consistent
  hashing after any history of selections with its cached ring, as long as no earlier candidate set
  with other ids has the fingerprint of the current one.
\<close>

theorem silent_node_not_routed:
  assumes "life_run cfg m (evs @ [EvCheck now]) m1" "life_run cfg m1 evs' m'" "reg_wf m" "m k = Some nd"
    and "Type nd \<noteq> TypeHTTP2GW" "revivable (State nd)"
    and "\<forall>ev \<in> set evs. \<not> registers k ev \<and> \<not> beats k ev" "\<forall>ev \<in> set evs'. \<not> registers k ev"
    and "DeadTimeout cfg \<le> now - LastHeartbeatAt nd" "DeadTimeout cfg \<le> max_duration"
    and "is_order m' ks"
  shows "(\<forall>c c' nd'. RouteExcluding RoundRobin_Select (Memory_List ks m') ctx (Some e) excl c = (Inr nd', c') \<longrightarrow>
            node_id nd' \<noteq> k) \<and>
         (\<forall>vn hist c' nd'.
            (\<forall>msgID. requestedMessageID e = Inr msgID \<longrightarrow>
               fp_separates hist (route_candidates (Memory_List ks m') msgID excl)) \<longrightarrow>
            RouteExcluding (ConsistentHash_Select (fst (NewConsistentHash vn))) (Memory_List ks m') ctx (Some e)
              excl (select_all (fst (NewConsistentHash vn)) hist (snd (NewConsistentHash vn))) = (Inr nd', c') \<longrightarrow>
            node_id nd' \<noteq> k)"
proof -
  let ?L = "Memory_List ks m'"
  have wf1: "reg_wf m1" using life_run_wf [OF assms(1,3)] .
  have dead: "m' k = Some (nd\<lparr>State := NodeStateDead\<rparr>)"
    using dead_run [OF assms(2) wf1 silent_dead [OF assms(1,3-7,9,10)]] assms(8) by simp
  have off: "node_id n \<noteq> k" if n: "n \<in> set ?L" "State n = NodeStateActive" for n
  proof -
    obtain j where "m' j = Some n" using n(1) by (auto simp: Memory_List_def map_filter_set)
    then show ?thesis using reg_wfD [OF life_run_wf [OF assms(2) wf1]] n(2) dead by auto
  qed
  have rr: "node_id nd' \<noteq> k" if "RouteExcluding RoundRobin_Select ?L ctx (Some e) excl c = (Inr nd', c')" for c c' nd'
    using round_robin.route_sound [of ?L ctx e excl c nd'] that off by auto
  have ch: "node_id nd' \<noteq> k"
    if r: "RouteExcluding (ConsistentHash_Select (fst (NewConsistentHash vn))) ?L ctx (Some e) excl
        (select_all (fst (NewConsistentHash vn)) hist (snd (NewConsistentHash vn))) = (Inr nd', c')"
      and sep: "\<forall>msgID. requestedMessageID e = Inr msgID \<longrightarrow> fp_separates hist (route_candidates ?L msgID excl)"
    for vn hist c' nd'
  proof -
    from ch_route_id [OF r] sep obtain n0 where "n0 \<in> set ?L" "State n0 = NodeStateActive" "node_id nd' = node_id n0"
      by blast
    then show ?thesis using off by auto
  qed
  show ?thesis using rr ch by blast
qed

section \<open>Concrete inputs\<close>

definition w_full :: logic where
  "w_full = (logic_start 1)\<lparr>lg_pool := \<lparr>pl_workers = 1, pl_jobs = replicate 4096 (w_data_request 9, None),
     pl_busy = [], pl_closing = False\<rparr>\<rparr>"

lemma w_data_request_fields [simp]:
  "env_type (w_data_request i) = MESSAGE_TYPE_DATA_REQUEST" "env_transaction_id (w_data_request i) = i"
  by (simp_all add: w_data_request_def)

lemma w_waiting_facts: "mgr_run idle w_evs2 (w_mgr True None 0, [1 \<mapsto> 0])" "p_ch (obj (w_mgr True None 0) 0) = None"
  using w_run2 by (simp_all add: w_mgr_def)

lemma w_full_refuses: "\<not> fst (Enqueue (w_data_request 1, reply_to w_lenv None) (lg_pool w_full))"
  by (simp add: w_full_def Enqueue_def defaultDataJobQueue_def)

lemma w_disp_state: "d_state (w_disp t) = (NewMemory, t)"
  by (simp add: w_disp_def)

theorem overload_becomes_503_witness:
  "\<exists>r t' t'' err. lg_sent (handleIncoming w_lenv 0 (Some (w_data_request 1)) None w_full) = [(r, None)] \<and>
     Wait_recv 1 0 t' = Some ((None, Some err), t'') \<and>
     fst (writeTxError err 1 ([], NewMetrics)) = (503, ReasonNoRoutingTarget)"
proof -
  have "lg_sent w_full = []" "reply_to w_lenv None = None"
    by (simp_all add: w_full_def logic_start_def reply_to_def w_lenv_def)
  moreover have "([1 \<mapsto> 0] :: u64 \<rightharpoonup> pid) (env_transaction_id (w_data_request 1)) = Some 0" by simp
  ultimately show ?thesis
    using overload_becomes_503 [OF w_data_request_fields(1) w_full_refuses w_waiting_facts(1) _ w_waiting_facts(2) _
        w_disp_state [of "w_mgr True None 0"], of 0 0 1 None "\<lambda>e a. None" None "[]" NewMetrics]
    by fastforce
qed

theorem data_round_trip_witness:
  "\<exists>r t' t''. lg_sent (worker_finish w_lenv 0 0 (w_data_request 1, None) (logic_start 1)) = [(r, None)] \<and>
     Wait_recv 1 0 t' = Some ((Some r, None), t'') \<and>
     writeData (Some r) [] = ((200, ReasonOK), [HSet ''X-Transaction-Id'' (FormatUint (1 :: u64)),
       HSet ''X-Message-Id'' (FormatUint (1001 :: u32)), HWriteHeader 200, HWrite [1, 2]])"
proof -
  have q: "GetDataRequest (w_data_request 1) = Some \<lparr>dr_message_id = 1001, dr_session_id = ''s'', dr_payload = [1, 2]\<rparr>"
    by (simp add: w_data_request_def)
  have "lg_sent (logic_start 1) = []" by (simp add: logic_start_def)
  moreover have "([1 \<mapsto> 0] :: u64 \<rightharpoonup> pid) (env_transaction_id (w_data_request 1)) = Some 0" by simp
  ultimately show ?thesis
    using data_round_trip [OF q _ w_waiting_facts(1) _ w_waiting_facts(2) _ w_disp_state [of "w_mgr True None 0"],
        of w_lenv 0 0 None "logic_start 1" 0 1 None "\<lambda>e a. None" None "[]"]
    by (fastforce simp: messageCreateCall_def)
qed

definition w_config :: logic_config where
  "w_config = \<lparr>lc_node_id = 7, lc_instance_id = ''logic-1'', lc_services = [\<lparr>sc_service_id = 100,
     sc_service_name = ''call'', sc_message_types = [1001]\<rparr>], lc_interval = second\<rparr>"

theorem registration_round_trip_witness:
  "\<exists>(d' :: (memory \<times> manager) disp) out resp. d_sent d' = [(out, None)] \<and>
     lg_regCh (handleIncoming w_lenv 0 (Some out) None (logic_start 1)) = [resp] \<and>
     register_loop w_lenv w_config ''10.0.0.7'' 7000 [RegResp (Some resp) 0] (logic_start 1) = Some (None, logic_start 1)"
proof -
  have "TrimSpace ''logic-1'' \<noteq> []" "ValidString ''logic-1''" by code_simp+
  then have cfg: "config_registrable w_config" by (simp add: config_registrable_def w_config_def)
  have ip: "ParseIP (TrimSpace ''10.0.0.7'') = Some (v4_mapped [10, 0, 0, 7])" by code_simp
  have port: "1 \<le> unat (7000 :: u32)" "unat (7000 :: u32) \<le> 65535" by simp_all
  have reg: "lg_regCh (logic_start 1) = []" by (simp add: logic_start_def)
  let ?e = "register_envelope_of w_config 0 ''10.0.0.7'' 7000"
  have "env_type ?e = MESSAGE_TYPE_REGISTER_REQUEST" by (simp add: register_envelope_of_def logic_envelope_def)
  from handle_register [OF this, of w_ops None "w_disp NewManager"]
  have h: "handle (gateway_ops 0 1 None (\<lambda>env to. None)) (Some ?e) None (w_disp NewManager) =
      Some (True, onRegister w_ops ?e None (w_disp NewManager))" by (simp add: w_ops_def)
  obtain out resp where "d_sent (onRegister w_ops ?e None (w_disp NewManager)) = d_sent (w_disp NewManager) @ [(out, None)]"
    "lg_regCh (handleIncoming w_lenv 0 (Some out) None (logic_start 1)) = [resp]"
    "register_loop w_lenv w_config ''10.0.0.7'' 7000 (RegResp (Some resp) 0 # []) (logic_start 1) = Some (None, logic_start 1)"
    using registration_round_trip [OF cfg ip port reg_wf_NewMemory w_disp_state reg h, of w_lenv 0 None 0 "[]" "logic_start 1"]
    by (elim exE conjE)
  moreover have "d_sent (w_disp NewManager) = []" by (simp add: w_disp_def)
  ultimately show ?thesis
    by - (rule exI [of _ "onRegister w_ops ?e None (w_disp NewManager)"], rule exI [of _ out], rule exI [of _ resp], simp)
qed

definition w_two :: memory where
  "w_two = [1 \<mapsto> w_b1, 2 \<mapsto> w_b2\<lparr>LastHeartbeatAt := 5 * second\<rparr>]"

definition w_swept :: memory where
  "w_swept = [1 \<mapsto> w_b1\<lparr>State := NodeStateDead\<rparr>, 2 \<mapsto> w_b2\<lparr>LastHeartbeatAt := 5 * second\<rparr>]"

lemma w_two_order: "is_order w_two [1, 2]"
  by (auto simp: is_order_def w_two_def)

lemma w_two_swept: "snd (Monitor_Check w_cfg (5 * second) [1, 2] w_two) = w_swept"
proof
  fix k
  show "snd (Monitor_Check w_cfg (5 * second) [1, 2] w_two) k = w_swept k"
    by (simp add: Monitor_Check_map [OF w_two_order])
      (simp add: w_two_def w_swept_def check_state_def w_cfg_def second_def revivable_def time_sub_def
        max_duration_def min_duration_def w_backend_def Let_def)
qed

text \<open>The hash ring was built while node 1 was alive and gave it the session of \<open>w_data\<close>.\<close>

theorem silent_node_not_routed_witness:
  "\<exists>nd c nd2 c2. RouteExcluding RoundRobin_Select (Memory_List [1, 2] w_swept) None (Some w_data) [] 0 = (Inr nd, c) \<and>
     node_id nd \<noteq> 1 \<and>
     RouteExcluding (ConsistentHash_Select 1) (Memory_List [1, 2] w_swept) None (Some w_data) []
       (select_all 1 [([w_b1, w_b2], ''s1'')] (snd (NewConsistentHash 1))) = (Inr nd2, c2) \<and> node_id nd2 \<noteq> 1"
proof -
  let ?b2 = "w_b2\<lparr>LastHeartbeatAt := 5 * second\<rparr>" and ?L = "Memory_List [1, 2] w_swept"
  let ?hist = "[([w_b1, w_b2], ''s1'')]"
  have run: "life_run w_cfg w_two ([] @ [EvCheck (5 * second)]) w_swept"
    using life_step.check [OF w_two_order, of w_cfg "5 * second"] w_two_swept by simp
  have idle: "life_run w_cfg w_swept [] w_swept" by simp
  have wf: "reg_wf w_two" by (auto simp: reg_wf_def w_two_def w_backend_def)
  have n1: "w_two 1 = Some w_b1" "Type w_b1 \<noteq> TypeHTTP2GW" "revivable (State w_b1)" "LastHeartbeatAt w_b1 = 0"
    by (simp_all add: w_two_def w_backend_def revivable_def)
  have t: "DeadTimeout w_cfg \<le> 5 * second - LastHeartbeatAt w_b1" "DeadTimeout w_cfg \<le> max_duration"
    by (simp_all add: w_cfg_def second_def max_duration_def w_backend_def)
  have order: "is_order w_swept [1, 2]" by (auto simp: is_order_def w_swept_def)
  have L: "?L = [w_b1\<lparr>State := NodeStateDead\<rparr>, ?b2]"
    by (simp add: Memory_List_def w_swept_def List.map_filter_simps)
  have cs: "route_candidates ?L 42 [] = [?b2]"
    unfolding L by (simp add: route_candidates_def eligible_def w_backend_def supports_def)
  have rr: "RouteExcluding RoundRobin_Select ?L None (Some w_data) [] 0 = (Inr ?b2, 1)"
    by (simp add: cs RouteExcluding_def RoundRobin_Select_def)
  have new: "NewConsistentHash 1 = (1, w_empty)" by (simp add: NewConsistentHash_def w_empty_def)
  have fp: "nodesFingerprint [?b2] = fp_ids [2]" by (simp add: fp_ids)
  have sep: "fp_separates ?hist [?b2]" by (simp add: fp_separates_def fp fp_ids w_fps)
  have coh: "ring_coherent 1 (select_all 1 ?hist w_empty) [?b2]"
    by (simp add: w_select [unfolded One_nat_def] ring_coherent_def fp fp_ids w_fps)
  obtain nd2 c2 where ch: "RouteExcluding (ConsistentHash_Select 1) ?L None (Some w_data) []
      (select_all 1 ?hist (snd (NewConsistentHash 1))) = (Inr nd2, c2)"
    using Select_coherent [OF coh, of "''s1''"] by (auto simp: new cs RouteExcluding_def Let_def simp del: select_all.simps)
  note claims = silent_node_not_routed [OF run idle wf n1(1-3) _ _ t order, of None w_data "[]"]
  have "node_id ?b2 \<noteq> 1" using claims rr by auto
  moreover have "node_id nd2 \<noteq> 1"
    using claims [THEN conjunct2, THEN spec [of _ 1], THEN spec [of _ ?hist], rule_format, of nd2 c2] ch sep
    by (simp add: new cs del: select_all.simps)
  ultimately show ?thesis using rr ch by blast
qed

end
